(* ===== verification/Prelude.thy ===== *)
theory Prelude
  imports Main "HOL-Library.Char_ord" "HOL-Library.List_Lexorder" "HOL-Library.Multiset"
    "HOL-Library.Word"
begin

text \<open>
  Shared vocabulary of the development.

  \<^item> \<open>res\<close> is the outcome of a fallible Rust computation: a value, an error, or a panic
    that unwinds; \<open>io\<close> threads a state through such computations, so that the \<open>?\<close>
    operator of the source is \<open>io_bind\<close> (the state reached before the failure is kept).
  \<^item> The part of \<open>std::str\<close> the sources call: whitespace, \<open>trim\<close>, \<open>split\<close>,
    \<open>splitn(2, _)\<close>, \<open>strip_prefix\<close>, \<open>lines\<close>, ASCII case mapping, decimal printing
    and parsing of integers. Text is ASCII text; a \<open>char\<close> is one byte.
  \<^item> \<open>enumerates\<close>: what iterating a Rust \<open>HashMap\<close> promises, an enumeration of the
    entries in an order nobody chooses.
  \<^item> \<open>transition_system\<close>: the interface of a state machine with an inductive invariant.
\<close>

named_theorems io_simps \<open>evaluation of the error and state monad\<close>
named_theorems io_elims \<open>inversion of successful monadic computations\<close>

section \<open>Outcomes and stateful computations\<close>

datatype ('e, 'a) res = Ok 'a | Err 'e | Panic

type_synonym ('s, 'e, 'a) io = "'s \<Rightarrow> ('e, 'a) res \<times> 's"

fun res_bind :: "('e, 'a) res \<Rightarrow> ('a \<Rightarrow> ('e, 'b) res) \<Rightarrow> ('e, 'b) res" where
  "res_bind (Ok x) f = f x"
| "res_bind (Err e) f = Err e"
| "res_bind Panic f = Panic"

fun res_mapM :: "('a \<Rightarrow> ('e, 'b) res) \<Rightarrow> 'a list \<Rightarrow> ('e, 'b list) res" where
  "res_mapM f [] = Ok []"
| "res_mapM f (x # xs) = res_bind (f x) (\<lambda>y. res_bind (res_mapM f xs) (\<lambda>ys. Ok (y # ys)))"

definition io_return :: "'a \<Rightarrow> ('s, 'e, 'a) io" where
  "io_return x s = (Ok x, s)"

definition io_lift :: "('e, 'a) res \<Rightarrow> ('s, 'e, 'a) io" where
  "io_lift r s = (r, s)"

definition io_bind :: "('s, 'e, 'a) io \<Rightarrow> ('a \<Rightarrow> ('s, 'e, 'b) io) \<Rightarrow> ('s, 'e, 'b) io" where
  "io_bind m f s =
     (case m s of
        (Ok x, s') \<Rightarrow> f x s'
      | (Err e, s') \<Rightarrow> (Err e, s')
      | (Panic, s') \<Rightarrow> (Panic, s'))"

fun io_mapM :: "('a \<Rightarrow> ('s, 'e, 'b) io) \<Rightarrow> 'a list \<Rightarrow> ('s, 'e, 'b list) io" where
  "io_mapM f [] = io_return []"
| "io_mapM f (x # xs) =
     io_bind (f x) (\<lambda>y. io_bind (io_mapM f xs) (\<lambda>ys. io_return (y # ys)))"

text \<open>\<open>Result::ok\<close> and \<open>let _ = ...\<close>: only the state of the computation is kept.\<close>

definition io_ignore :: "('s, 'e, 'a) io \<Rightarrow> 's \<Rightarrow> 's" where
  "io_ignore m s = snd (m s)"

section \<open>Strings\<close>

definition is_whitespace :: "char \<Rightarrow> bool" where
  "is_whitespace c \<longleftrightarrow> (let n = (of_char c :: nat) in n = 32 \<or> (9 \<le> n \<and> n \<le> 13))"

definition newline :: char where
  "newline = CHR 0x0A"

definition carriage_return :: char where
  "carriage_return = CHR 0x0D"

definition trim_end_matches :: "(char \<Rightarrow> bool) \<Rightarrow> string \<Rightarrow> string" where
  "trim_end_matches p s = rev (dropWhile p (rev s))"

definition trim :: "string \<Rightarrow> string" where
  "trim s = trim_end_matches is_whitespace (dropWhile is_whitespace s)"

text \<open>\<open>str::split\<close> with a character predicate: one more piece than there are separators.\<close>

fun split_by :: "(char \<Rightarrow> bool) \<Rightarrow> string \<Rightarrow> string list" where
  "split_by p [] = [[]]"
| "split_by p (c # cs) =
     (if p c then [] # split_by p cs
      else (case split_by p cs of [] \<Rightarrow> [[c]] | w # ws \<Rightarrow> (c # w) # ws))"

text \<open>\<open>s.splitn(2, sep)\<close>: the text before the first separator and, if there is one, the rest.\<close>

fun splitn2 :: "char \<Rightarrow> string \<Rightarrow> string \<times> string option" where
  "splitn2 sep [] = ([], None)"
| "splitn2 sep (c # cs) =
     (if c = sep then ([], Some cs)
      else (case splitn2 sep cs of (a, b) \<Rightarrow> (c # a, b)))"

fun strip_prefix :: "string \<Rightarrow> string \<Rightarrow> string option" where
  "strip_prefix [] s = Some s"
| "strip_prefix (p # ps) [] = None"
| "strip_prefix (p # ps) (c # cs) = (if p = c then strip_prefix ps cs else None)"

text \<open>
  \<open>str::lines\<close> and \<open>BufRead::lines\<close>: pieces ended by a newline, without the newline and
  without a carriage return right before it; a last piece with no newline is a line of its
  own, kept as it is, unless it is empty.
\<close>

definition strip_cr :: "string \<Rightarrow> string" where
  "strip_cr l = (if l \<noteq> [] \<and> last l = carriage_return then butlast l else l)"

fun lines_of :: "string list \<Rightarrow> string list" where
  "lines_of [] = []"
| "lines_of [l] = (if l = [] then [] else [l])"
| "lines_of (l # ls) = strip_cr l # lines_of ls"

definition lines :: "string \<Rightarrow> string list" where
  "lines s = lines_of (split_by (\<lambda>c. c = newline) s)"

definition ascii_lower :: "char \<Rightarrow> char" where
  "ascii_lower c =
     (let n = (of_char c :: nat) in if 65 \<le> n \<and> n \<le> 90 then char_of (n + 32) else c)"

definition ascii_upper :: "char \<Rightarrow> char" where
  "ascii_upper c =
     (let n = (of_char c :: nat) in if 97 \<le> n \<and> n \<le> 122 then char_of (n - 32) else c)"

definition to_lowercase :: "string \<Rightarrow> string" where
  "to_lowercase s = map ascii_lower s"

definition to_uppercase :: "string \<Rightarrow> string" where
  "to_uppercase s = map ascii_upper s"

definition digit_char :: "nat \<Rightarrow> char" where
  "digit_char d = char_of (48 + d)"

definition is_digit :: "char \<Rightarrow> bool" where
  "is_digit c \<longleftrightarrow> (let n = (of_char c :: nat) in 48 \<le> n \<and> n \<le> 57)"

definition digit_val :: "char \<Rightarrow> nat" where
  "digit_val c = of_char c - 48"

fun show_nat :: "nat \<Rightarrow> string" where
  "show_nat n =
     (if n < 10 then [digit_char n] else show_nat (n div 10) @ [digit_char (n mod 10)])"

declare show_nat.simps [simp del]

definition show_int :: "int \<Rightarrow> string" where
  "show_int i = (if i < 0 then CHR ''-'' # show_nat (nat (- i)) else show_nat (nat i))"

definition digits_val :: "string \<Rightarrow> nat" where
  "digits_val s = foldl (\<lambda>a c. 10 * a + digit_val c) 0 s"

text \<open>\<open>str::parse::<i64>\<close>: an optional sign, one or more digits, the value in range.\<close>

definition parse_i64 :: "string \<Rightarrow> int option" where
  "parse_i64 s =
     (let (neg, ds) = (case s of
            [] \<Rightarrow> (False, [])
          | c # cs \<Rightarrow> (if c = CHR ''-'' then (True, cs)
                       else if c = CHR ''+'' then (False, cs) else (False, s)));
          v = (if neg then - int (digits_val ds) else int (digits_val ds))
      in if ds \<noteq> [] \<and> list_all is_digit ds \<and> - (2 ^ 63) \<le> v \<and> v < 2 ^ 63
         then Some v else None)"

text \<open>
  \<open>str::parse\<close> for an unsigned integer of the given width, with the error it displays: an
  optional plus sign and digits; the first digit that is none, or that leaves the range, ends
  it.
\<close>

fun parse_digits :: "nat \<Rightarrow> nat \<Rightarrow> string \<Rightarrow> string + nat" where
  "parse_digits w acc [] = Inr acc"
| "parse_digits w acc (c # cs) =
     (if \<not> is_digit c then Inl ''invalid digit found in string''
      else if 2 ^ w \<le> 10 * acc + digit_val c then Inl ''number too large to fit in target type''
      else parse_digits w (10 * acc + digit_val c) cs)"

definition parse_unsigned :: "nat \<Rightarrow> string \<Rightarrow> string + nat" where
  "parse_unsigned w s =
     (case s of
        [] \<Rightarrow> Inl ''cannot parse integer from empty string''
      | c # cs \<Rightarrow>
          if c = CHR ''+'' then (if cs = [] then Inl ''invalid digit found in string''
                                 else parse_digits w 0 cs)
          else parse_digits w 0 s)"

section \<open>Hash maps\<close>

definition enumerates :: "('k \<times> 'v) list \<Rightarrow> ('k \<rightharpoonup> 'v) \<Rightarrow> bool" where
  "enumerates xs m \<longleftrightarrow> distinct (map fst xs) \<and> map_of xs = m"

text \<open>An iteration order for every finite map: the only thing assumed of \<open>HashMap::iter\<close>.\<close>

definition iterates :: "(('k \<rightharpoonup> 'v) \<Rightarrow> ('k \<times> 'v) list) \<Rightarrow> bool" where
  "iterates it \<longleftrightarrow> (\<forall>m. finite (dom m) \<longrightarrow> enumerates (it m) m)"

text \<open>One such order: by key.\<close>

definition key_order :: "('k::linorder \<rightharpoonup> 'v) \<Rightarrow> ('k \<times> 'v) list" where
  "key_order m = map (\<lambda>k. (k, the (m k))) (sorted_list_of_set (dom m))"

text \<open>An order given in advance, for the map it enumerates.\<close>

definition prefer_order :: "('k::linorder \<times> 'v) list \<Rightarrow> ('k \<rightharpoonup> 'v) \<Rightarrow> ('k \<times> 'v) list" where
  "prefer_order xs m = (if enumerates xs m then xs else key_order m)"

section \<open>Lemmas: outcomes and stateful computations\<close>

lemma io_return_eq [io_simps]: "io_return x s = (Ok x, s)"
  by (simp add: io_return_def)

lemma io_lift_eq [io_simps]: "io_lift r s = (r, s)"
  by (simp add: io_lift_def)

lemma io_bind_Ok [io_simps]: "m s = (Ok x, s') \<Longrightarrow> io_bind m f s = f x s'"
  by (simp add: io_bind_def)

lemma io_bind_Err [io_simps]: "m s = (Err e, s') \<Longrightarrow> io_bind m f s = (Err e, s')"
  by (simp add: io_bind_def)

lemma io_bind_Panic [io_simps]: "m s = (Panic, s') \<Longrightarrow> io_bind m f s = (Panic, s')"
  by (simp add: io_bind_def)

lemma io_bind_return [simp]: "io_bind (io_return x) f = f x"
  by (simp add: fun_eq_iff io_bind_def io_return_def)

lemma io_bind_lift [simp]:
  "io_bind (io_lift (Ok x)) f = f x"
  "io_bind (io_lift (Err e)) f = io_lift (Err e)"
  "io_bind (io_lift Panic) f = io_lift Panic"
  by (simp_all add: fun_eq_iff io_bind_def io_lift_def)

lemma io_bind_OkE [io_elims, elim]:
  assumes "io_bind m f s = (Ok y, s'')"
  obtains x s' where "m s = (Ok x, s')" "f x s' = (Ok y, s'')"
  using assms by (auto simp: io_bind_def split: prod.splits res.splits)

lemma io_return_OkD [dest!]: "io_return x s = (r, s') \<Longrightarrow> r = Ok x \<and> s' = s"
  by (simp add: io_return_def)

lemma io_lift_OkD [dest!]: "io_lift r s = (r', s') \<Longrightarrow> r' = r \<and> s' = s"
  by (simp add: io_lift_def)

lemma res_bind_OkE [elim]:
  assumes "res_bind m f = Ok y"
  obtains x where "m = Ok x" "f x = Ok y"
  using assms by (cases m) auto

lemma io_mapM_length: "io_mapM f xs s = (Ok ys, s') \<Longrightarrow> length ys = length xs"
  by (induction xs arbitrary: s ys) (auto elim!: io_bind_OkE)

text \<open>A loop over a list keeps an invariant of the state and relates each element to its image.\<close>

lemma io_mapM_invariant:
  assumes run: "io_mapM f xs s = (Ok ys, s')"
    and inv: "I s"
    and step: "\<And>x s y s'. x \<in> set xs \<Longrightarrow> I s \<Longrightarrow> f x s = (Ok y, s') \<Longrightarrow> I s' \<and> Q x y"
  shows "I s' \<and> list_all2 Q xs ys"
  using run inv step
proof (induction xs arbitrary: s ys)
  case Nil
  then show ?case by auto
next
  case (Cons x xs)
  from Cons.prems(1) obtain y s1 ys' where
    fx: "f x s = (Ok y, s1)" and rest: "io_mapM f xs s1 = (Ok ys', s')" and ys: "ys = y # ys'"
    by (auto elim!: io_bind_OkE)
  from Cons.prems(3)[of x s y s1] Cons.prems(2) fx have s1: "I s1" "Q x y"
    by auto
  from Cons.IH[OF rest s1(1)] Cons.prems(3) have "I s' \<and> list_all2 Q xs ys'"
    by (meson list.set_intros(2))
  with s1 ys show ?case by simp
qed

lemma res_mapM_Ok: "res_mapM f xs = Ok ys \<Longrightarrow> list_all2 (\<lambda>x y. f x = Ok y) xs ys"
  by (induction xs arbitrary: ys) (auto elim!: res_bind_OkE)

lemma res_mapM_total: "(\<And>x. x \<in> set xs \<Longrightarrow> f x = Ok (g x)) \<Longrightarrow> res_mapM f xs = Ok (map g xs)"
  by (induction xs) auto

section \<open>Lemmas: strings\<close>

lemma split_by_nonempty [simp]: "split_by p s \<noteq> []"
  by (induction s) (auto split: list.splits)

lemma split_by_pieces: "w \<in> set (split_by p s) \<Longrightarrow> c \<in> set w \<Longrightarrow> \<not> p c"
proof (induction s arbitrary: w)
  case Nil
  then show ?case by simp
next
  case (Cons a s)
  obtain v vs where s: "split_by p s = v # vs"
    by (cases "split_by p s") auto
  with Cons.IH[of v] Cons.IH[of w] Cons.prems show ?case
    by (auto split: if_splits)
qed

lemma length_split_by: "length (split_by p s) = Suc (length (filter p s))"
  by (induction s) (auto split: list.splits)

lemma splitn2_no_sep: "sep \<notin> set s \<Longrightarrow> splitn2 sep s = (s, None)"
  by (induction s) auto

lemma splitn2_sep: "sep \<notin> set a \<Longrightarrow> splitn2 sep (a @ sep # b) = (a, Some b)"
  by (induction a) auto

lemma splitn2_None: "splitn2 sep s = (a, None) \<longleftrightarrow> sep \<notin> set s \<and> a = s"
  by (cases "sep \<in> set s") (auto simp: splitn2_no_sep splitn2_sep dest: split_list_first)

lemma splitn2_Some: "splitn2 sep s = (a, Some b) \<longleftrightarrow> sep \<notin> set a \<and> s = a @ sep # b"
proof (cases "sep \<in> set s")
  case True
  then obtain a' b' where s: "s = a' @ sep # b'" "sep \<notin> set a'"
    by (auto dest: split_list_first)
  then show ?thesis
    by (auto simp: splitn2_sep) (metis s splitn2_sep prod.inject option.inject)+
next
  case False
  then show ?thesis by (auto simp: splitn2_no_sep)
qed

lemma strip_prefix_eq: "strip_prefix p s = Some r \<longleftrightarrow> s = p @ r"
  by (induction p s rule: strip_prefix.induct) auto

lemma strip_prefix_append [simp]: "strip_prefix p (p @ r) = Some r"
  by (simp add: strip_prefix_eq)

lemma of_char_digit_char: "d < 10 \<Longrightarrow> (of_char (digit_char d) :: nat) = 48 + d"
  by (simp add: digit_char_def)

lemma digit_char_props [simp]:
  "d < 10 \<Longrightarrow> is_digit (digit_char d)"
  "d < 10 \<Longrightarrow> digit_val (digit_char d) = d"
  by (simp_all add: is_digit_def digit_val_def of_char_digit_char)

lemma digits_val_snoc: "digits_val (s @ [c]) = 10 * digits_val s + digit_val c"
  by (simp add: digits_val_def)

lemma show_nat_digits: "c \<in> set (show_nat n) \<Longrightarrow> is_digit c"
proof (induction n rule: show_nat.induct)
  case (1 n)
  then show ?case
    by (cases "n < 10") (auto simp: show_nat.simps[of n])
qed

lemma show_nat_nonempty [simp]: "show_nat n \<noteq> []"
  by (subst show_nat.simps) simp

lemma digits_val_show_nat [simp]: "digits_val (show_nat n) = n"
proof (induction n rule: show_nat.induct)
  case (1 n)
  show ?case
  proof (cases "n < 10")
    case True
    then show ?thesis by (simp add: show_nat.simps[of n] digits_val_def)
  next
    case False
    with 1 show ?thesis by (simp add: show_nat.simps[of n] digits_val_snoc)
  qed
qed

lemma show_nat_inject [simp]: "show_nat m = show_nat n \<longleftrightarrow> m = n"
  by (metis digits_val_show_nat)

lemma show_nat_no_char: "\<not> is_digit c \<Longrightarrow> c \<notin> set (show_nat n)"
  using show_nat_digits by blast

lemma foldl_digits_mono: "a \<le> foldl (\<lambda>a c. 10 * a + digit_val c) a s"
proof (induction s arbitrary: a)
  case Nil
  then show ?case by simp
next
  case (Cons c s)
  have "a \<le> 10 * a + digit_val c" by simp
  also have "\<dots> \<le> foldl (\<lambda>a c. 10 * a + digit_val c) (10 * a + digit_val c) s" by (rule Cons.IH)
  finally show ?case by simp
qed

lemma parse_digits_ok:
  "list_all is_digit s \<Longrightarrow> foldl (\<lambda>a c. 10 * a + digit_val c) acc s < 2 ^ w \<Longrightarrow>
   parse_digits w acc s = Inr (foldl (\<lambda>a c. 10 * a + digit_val c) acc s)"
proof (induction s arbitrary: acc)
  case Nil
  then show ?case by simp
next
  case (Cons c s)
  from foldl_digits_mono[of "10 * acc + digit_val c" s] Cons.prems
  have "10 * acc + digit_val c < 2 ^ w" by simp
  with Cons show ?case by simp
qed

lemma parse_digits_bound: "parse_digits w acc s = Inr n \<Longrightarrow> acc < 2 ^ w \<Longrightarrow> n < 2 ^ w"
  by (induction s arbitrary: acc) (auto split: if_splits)

lemma parse_unsigned_bound: "parse_unsigned w s = Inr n \<Longrightarrow> n < 2 ^ w"
  using parse_digits_bound[of w 0]
  by (auto simp: parse_unsigned_def simp del: parse_digits.simps split: list.splits if_splits)

lemma parse_unsigned_show_nat: "n < 2 ^ w \<Longrightarrow> parse_unsigned w (show_nat n) = Inr n"
proof -
  assume n: "n < 2 ^ w"
  have dig: "list_all is_digit (show_nat n)"
    using show_nat_digits by (auto simp: list_all_iff)
  have val: "foldl (\<lambda>a c. 10 * a + digit_val c) 0 (show_nat n) = n"
    using digits_val_show_nat[of n] by (simp add: digits_val_def)
  obtain c cs where s: "show_nat n = c # cs"
    by (cases "show_nat n") auto
  with dig have "c \<noteq> CHR ''+''" by (auto simp: is_digit_def)
  then show ?thesis
    using parse_digits_ok[OF dig, of 0 w] val n s by (simp add: parse_unsigned_def)
qed

text \<open>A separator that neither left part contains splits a formatted string uniquely.\<close>

lemma separator_inject:
  fixes a a' b b' :: string
  assumes "a @ c # b = a' @ c # b'" "c \<notin> set a" "c \<notin> set a'"
  shows "a = a' \<and> b = b'"
proof -
  have "splitn2 c (a @ c # b) = splitn2 c (a' @ c # b')"
    by (simp only: assms(1))
  then show ?thesis
    unfolding splitn2_sep[OF assms(2)] splitn2_sep[OF assms(3)] by simp
qed

section \<open>Lemmas: hash maps and lists\<close>

lemma enumerates_set: "enumerates xs m \<Longrightarrow> (k, v) \<in> set xs \<longleftrightarrow> m k = Some v"
  by (auto simp: enumerates_def)

lemma enumeratesI:
  assumes "distinct (map fst xs)" "\<And>k v. (k, v) \<in> set xs \<longleftrightarrow> m k = Some v"
  shows "enumerates xs m"
proof -
  have "map_of xs k = m k" for k
  proof (cases "map_of xs k")
    case None
    then have "k \<notin> fst ` set xs" by (simp add: map_of_eq_None_iff)
    with assms(2)[of k] None show ?thesis by (cases "m k") force+
  next
    case (Some v)
    with assms(2)[of k v] show ?thesis by (simp add: map_of_SomeD)
  qed
  with assms(1) show ?thesis by (auto simp: enumerates_def)
qed

lemma enumerates_keys: "enumerates xs m \<Longrightarrow> fst ` set xs = dom m"
  by (simp add: enumerates_def flip: dom_map_of_conv_image_fst)

lemma enumerates_mset:
  assumes "enumerates xs m" "enumerates ys m"
  shows "mset xs = mset ys"
proof -
  have "distinct xs" "distinct ys"
    using assms by (auto simp: enumerates_def distinct_map)
  moreover have "set xs = set ys"
    using assms by (auto simp: enumerates_set)
  ultimately show ?thesis
    by (simp add: set_eq_iff_mset_eq_distinct)
qed

lemma enumerates_mset_keys:
  assumes "enumerates xs m"
  shows "mset xs = image_mset (\<lambda>k. (k, the (m k))) (mset_set (dom m))"
proof -
  have "map (\<lambda>k. (k, the (m k))) (map fst xs) = xs"
    using assms enumerates_set[OF assms] by (auto intro!: map_idI)
  then have "mset xs = image_mset (\<lambda>k. (k, the (m k))) (mset (map fst xs))"
    by (metis mset_map)
  also have "mset (map fst xs) = mset_set (set (map fst xs))"
    using assms mset_set_set by (metis enumerates_def)
  also have "set (map fst xs) = dom m"
    using enumerates_keys[OF assms] by simp
  finally show ?thesis .
qed

lemma enumerates_finite: "enumerates xs m \<Longrightarrow> finite (dom m)"
  by (metis enumerates_keys finite_imageI finite_set)

lemma iterates_key_order: "iterates key_order"
proof -
  have "map_of (map (\<lambda>k. (k, the (m k))) (sorted_list_of_set (dom m))) k = m k"
    if "finite (dom m)" for m :: "'a::linorder \<rightharpoonup> 'b" and k
    using that by (cases "m k") (auto simp: map_of_map_restrict restrict_map_def)
  then show ?thesis
    by (auto simp: iterates_def enumerates_def key_order_def comp_def fun_eq_iff)
qed

lemma iterates_prefer_order: "iterates (prefer_order xs)"
  using iterates_key_order[unfolded iterates_def, rule_format]
  by (auto simp: iterates_def prefer_order_def)

lemma acyclic_by_rank:
  assumes "\<And>u v. (u, v) \<in> r \<Longrightarrow> f u < (f v :: nat)"
  shows "acyclic r"
  using assms by (intro wf_acyclic wf_subset[OF wf_measure[of f]]) auto

lemma distinct_values_enumerates:
  "distinct (map fst xs) \<Longrightarrow> enumerates xs (map_of xs)"
  by (simp add: enumerates_def)

lemma count_list_filter: "count_list (map f (filter P xs)) y = length (filter (\<lambda>x. P x \<and> f x = y) xs)"
  by (induction xs) auto

lemma filter_split_length:
  "length (filter P xs) = length (filter (\<lambda>x. P x \<and> Q x) xs) + length (filter (\<lambda>x. P x \<and> \<not> Q x) xs)"
  by (induction xs) auto

section \<open>State machines\<close>

locale transition_system =
  fixes initial :: "'s \<Rightarrow> bool"
    and step :: "'s \<Rightarrow> 's \<Rightarrow> bool"
    and invariant :: "'s \<Rightarrow> bool"
  assumes initial_invariant: "initial s \<Longrightarrow> invariant s"
    and step_invariant: "step s t \<Longrightarrow> invariant s \<Longrightarrow> invariant t"
begin

lemma run_invariant: "step\<^sup>*\<^sup>* s t \<Longrightarrow> invariant s \<Longrightarrow> invariant t"
  by (induction rule: rtranclp_induct) (auto intro: step_invariant)

lemma reachable_invariant: "initial s \<Longrightarrow> step\<^sup>*\<^sup>* s t \<Longrightarrow> invariant t"
  using run_invariant initial_invariant by blast

end

end
