(* ===== verification/Ieee.thy ===== *)
theory Ieee
  imports Complex_Main Prelude
begin

text \<open>
  The binary floating point numbers of Rust (\<open>f64\<close>, \<open>f32\<close>), as far as the engine uses
  them: conversion from integers and from decimal text, addition, multiplication, division,
  comparison, \<open>min\<close>, \<open>max\<close> and the saturating cast to \<open>u32\<close>. Every operation computes
  the exact rational result and rounds it once, to nearest with ties to even, as IEEE 754
  prescribes.

  A finite number is a sign (\<open>True\<close> for negative), an integer mantissa and an exponent, with
  the value \<open>\<plusminus> m * 2 ^ e\<close>; a format is the number of mantissa bits and the range of
  exponents. Zero keeps its sign.

  The lemmas at the end bound the rounding: a result never passes a number of the format that
  bounds the exact value (\<open>round_flt_upper\<close>), which is what the progress percentage of the
  master needs.
\<close>

section \<open>Formats and numbers\<close>

datatype flt = FNaN | FInf bool | Finite bool nat int

record format =
  prec :: nat
  emin :: int
  emax :: int

definition f64 :: format where
  "f64 = \<lparr>prec = 53, emin = -1074, emax = 971\<rparr>"

definition f32 :: format where
  "f32 = \<lparr>prec = 24, emin = -149, emax = 104\<rparr>"

definition fzero :: "format \<Rightarrow> flt" where
  "fzero F = Finite False 0 (emin F)"

fun is_finite :: "flt \<Rightarrow> bool" where
  "is_finite (Finite _ _ _) = True"
| "is_finite _ = False"

section \<open>Rounding\<close>

text \<open>The integer nearest to \<open>n / d\<close>, the even one of two equally near.\<close>

definition rne :: "nat \<Rightarrow> nat \<Rightarrow> nat" where
  "rne n d =
     (let q = n div d; r = n mod d
      in if 2 * r < d \<or> (2 * r = d \<and> even q) then q else Suc q)"

fun bitlen :: "nat \<Rightarrow> nat" where
  "bitlen n = (if n = 0 then 0 else Suc (bitlen (n div 2)))"

declare bitlen.simps [simp del]

text \<open>The exponent of the largest power of two not above \<open>n / d\<close>.\<close>

definition flog2 :: "nat \<Rightarrow> nat \<Rightarrow> int" where
  "flog2 n d =
     (let l = int (bitlen n) - int (bitlen d)
      in if (if 0 \<le> l then d * 2 ^ nat l \<le> n else d \<le> n * 2 ^ nat (- l)) then l else l - 1)"

text \<open>\<open>n / (d * 2 ^ e)\<close>, rounded to an integer.\<close>

definition scale :: "nat \<Rightarrow> nat \<Rightarrow> int \<Rightarrow> nat" where
  "scale n d e = (if 0 \<le> e then rne n (d * 2 ^ nat e) else rne (n * 2 ^ nat (- e)) d)"

definition normalise :: "format \<Rightarrow> bool \<Rightarrow> nat \<Rightarrow> int \<Rightarrow> flt" where
  "normalise F s m e =
     (let (m', e') = (if m = 2 ^ prec F then (2 ^ (prec F - 1), e + 1) else (m, e))
      in if emax F < e' then FInf s else Finite s m' e')"

definition round_flt :: "format \<Rightarrow> bool \<Rightarrow> nat \<Rightarrow> nat \<Rightarrow> flt" where
  "round_flt F s n d =
     (if n = 0 then Finite s 0 (emin F)
      else let e = max (emin F) (flog2 n d - int (prec F) + 1)
           in normalise F s (scale n d e) e)"

text \<open>Rounding \<open>n * 2 ^ e / d\<close>.\<close>

definition round_exp :: "format \<Rightarrow> bool \<Rightarrow> nat \<Rightarrow> nat \<Rightarrow> int \<Rightarrow> flt" where
  "round_exp F s n d e =
     (if 0 \<le> e then round_flt F s (n * 2 ^ nat e) d else round_flt F s n (d * 2 ^ nat (- e)))"

section \<open>Operations\<close>

definition flt_of_int :: "format \<Rightarrow> int \<Rightarrow> flt" where
  "flt_of_int F i = round_flt F (i < 0) (nat \<bar>i\<bar>) 1"

text \<open>A cast between the formats.\<close>

fun flt_convert :: "format \<Rightarrow> flt \<Rightarrow> flt" where
  "flt_convert F (Finite s m e) = round_exp F s m 1 e"
| "flt_convert F x = x"

text \<open>Two finite numbers as integer multiples of one power of two.\<close>

definition signed :: "bool \<Rightarrow> nat \<Rightarrow> int" where
  "signed s m = (if s then - int m else int m)"

definition align :: "bool \<Rightarrow> nat \<Rightarrow> int \<Rightarrow> int \<Rightarrow> int" where
  "align s m e e0 = signed s (m * 2 ^ nat (e - e0))"

fun fadd :: "format \<Rightarrow> flt \<Rightarrow> flt \<Rightarrow> flt" where
  "fadd F FNaN _ = FNaN"
| "fadd F _ FNaN = FNaN"
| "fadd F (FInf s) (FInf t) = (if s = t then FInf s else FNaN)"
| "fadd F (FInf s) (Finite _ _ _) = FInf s"
| "fadd F (Finite _ _ _) (FInf t) = FInf t"
| "fadd F (Finite s m e) (Finite t n f) =
     (let e0 = min e f; z = align s m e e0 + align t n f e0
      in if z = 0 then Finite (s \<and> t) 0 (emin F)
         else round_exp F (z < 0) (nat \<bar>z\<bar>) 1 e0)"

fun fmul :: "format \<Rightarrow> flt \<Rightarrow> flt \<Rightarrow> flt" where
  "fmul F FNaN _ = FNaN"
| "fmul F _ FNaN = FNaN"
| "fmul F (FInf s) (FInf t) = FInf (s \<noteq> t)"
| "fmul F (FInf s) (Finite t n _) = (if n = 0 then FNaN else FInf (s \<noteq> t))"
| "fmul F (Finite s m _) (FInf t) = (if m = 0 then FNaN else FInf (s \<noteq> t))"
| "fmul F (Finite s m e) (Finite t n f) = round_exp F (s \<noteq> t) (m * n) 1 (e + f)"

fun fdiv :: "format \<Rightarrow> flt \<Rightarrow> flt \<Rightarrow> flt" where
  "fdiv F FNaN _ = FNaN"
| "fdiv F _ FNaN = FNaN"
| "fdiv F (FInf s) (FInf t) = FNaN"
| "fdiv F (FInf s) (Finite t _ _) = FInf (s \<noteq> t)"
| "fdiv F (Finite s _ _) (FInf t) = Finite (s \<noteq> t) 0 (emin F)"
| "fdiv F (Finite s m e) (Finite t n f) =
     (if n = 0 then (if m = 0 then FNaN else FInf (s \<noteq> t))
      else round_exp F (s \<noteq> t) m n (e - f))"

fun flt_less :: "flt \<Rightarrow> flt \<Rightarrow> bool" where
  "flt_less FNaN _ = False"
| "flt_less _ FNaN = False"
| "flt_less (FInf s) (FInf t) = (s \<and> \<not> t)"
| "flt_less (FInf s) (Finite _ _ _) = s"
| "flt_less (Finite _ _ _) (FInf t) = (\<not> t)"
| "flt_less (Finite s m e) (Finite t n f) =
     (let e0 = min e f in align s m e e0 < align t n f e0)"

fun flt_eq :: "flt \<Rightarrow> flt \<Rightarrow> bool" where
  "flt_eq (FInf s) (FInf t) = (s = t)"
| "flt_eq (Finite s m e) (Finite t n f) =
     (let e0 = min e f in align s m e e0 = align t n f e0)"
| "flt_eq _ _ = False"

text \<open>
  \<open>f64::min\<close> and \<open>f64::max\<close> return the other argument when one is not a number. On two
  zeros of different sign Rust leaves the choice open; the first argument is taken here.
\<close>

definition fmin :: "flt \<Rightarrow> flt \<Rightarrow> flt" where
  "fmin a b = (if a = FNaN then b else if b = FNaN then a else if flt_less b a then b else a)"

definition fmax :: "flt \<Rightarrow> flt \<Rightarrow> flt" where
  "fmax a b = (if a = FNaN then b else if b = FNaN then a else if flt_less a b then b else a)"

text \<open>The saturating cast \<open>as u32\<close>: truncated towards zero, clipped to the range.\<close>

fun flt_to_u32 :: "flt \<Rightarrow> 32 word" where
  "flt_to_u32 FNaN = 0"
| "flt_to_u32 (FInf s) = (if s then 0 else - 1)"
| "flt_to_u32 (Finite s m e) =
     (if s then 0
      else let v = (if 0 \<le> e then m * 2 ^ nat e else m div 2 ^ nat (- e))
           in if v < 2 ^ 32 then of_nat v else - 1)"

section \<open>Decimal text\<close>

definition span_digits :: "string \<Rightarrow> string \<times> string" where
  "span_digits s = (takeWhile is_digit s, dropWhile is_digit s)"

fun parse_sign :: "string \<Rightarrow> bool \<times> string" where
  "parse_sign [] = (False, [])"
| "parse_sign (c # cs) =
     (if c = CHR ''-'' then (True, cs) else if c = CHR ''+'' then (False, cs)
      else (False, c # cs))"

fun parse_exponent :: "string \<Rightarrow> int option" where
  "parse_exponent [] = Some 0"
| "parse_exponent (c # cs) =
     (if c = CHR ''e'' \<or> c = CHR ''E''
      then (case parse_sign cs of (neg, ds) \<Rightarrow>
              if ds \<noteq> [] \<and> list_all is_digit ds
              then Some (if neg then - int (digits_val ds) else int (digits_val ds))
              else None)
      else None)"

text \<open>The value \<open>digits * 10 ^ e\<close>, rounded once.\<close>

definition round_decimal :: "format \<Rightarrow> bool \<Rightarrow> nat \<Rightarrow> int \<Rightarrow> flt" where
  "round_decimal F s n e =
     (if 0 \<le> e then round_flt F s (n * 10 ^ nat e) 1 else round_flt F s n (10 ^ nat (- e)))"

definition parse_number :: "format \<Rightarrow> bool \<Rightarrow> string \<Rightarrow> flt option" where
  "parse_number F neg s =
     (let (ip, r) = span_digits s;
          (fp, r') = (case r of
              [] \<Rightarrow> ([], [])
            | c # cs \<Rightarrow> (if c = CHR ''.'' then span_digits cs else ([], r)))
      in if ip = [] \<and> fp = [] then None
         else (case parse_exponent r' of
                 None \<Rightarrow> None
               | Some e \<Rightarrow> Some (round_decimal F neg (digits_val (ip @ fp)) (e - int (length fp)))))"

text \<open>\<open>str::parse::<f64>\<close>: a sign, then a special name in any case or a decimal number.\<close>

definition parse_flt :: "format \<Rightarrow> string \<Rightarrow> flt option" where
  "parse_flt F s =
     (let (neg, body) = parse_sign s; low = to_lowercase body
      in if low = ''nan'' then Some FNaN
         else if low = ''inf'' \<or> low = ''infinity'' then Some (FInf neg)
         else parse_number F neg body)"

lemmas flt_eval =
  flt_of_int_def round_flt_def round_exp_def round_decimal_def flog2_def bitlen.simps scale_def
  normalise_def rne_def align_def signed_def f64_def f32_def

section \<open>Values and the rounding bound\<close>

text \<open>The magnitude of a finite number.\<close>

definition magnitude :: "nat \<Rightarrow> int \<Rightarrow> real" where
  "magnitude m e = real m * 2 powi e"

lemma rne_upper: "0 < d \<Longrightarrow> n \<le> k * d \<Longrightarrow> rne n d \<le> k"
proof -
  assume d: "0 < d" and n: "n \<le> k * d"
  then have q: "n div d \<le> k"
    using div_le_mono[OF n, of d] by simp
  show ?thesis
  proof (cases "n div d = k")
    case True
    then have "n mod d = 0"
      using n div_mult_mod_eq[of n d] by simp
    with True d show ?thesis by (simp add: rne_def)
  next
    case False
    with q show ?thesis by (simp add: rne_def Let_def)
  qed
qed

lemma rne_lower: "0 < d \<Longrightarrow> k * d \<le> n \<Longrightarrow> k \<le> rne n d"
  by (simp add: rne_def Let_def less_eq_div_iff_mult_less_eq)
    (meson le_SucI less_eq_div_iff_mult_less_eq)

lemma bitlen_bounds: "0 < n \<Longrightarrow> 2 ^ (bitlen n - 1) \<le> n \<and> n < 2 ^ bitlen n"
proof (induction n rule: bitlen.induct)
  case (1 n)
  show ?case
  proof (cases "n div 2 = 0")
    case True
    with 1 have "n = 1" by linarith
    moreover have "bitlen (Suc 0) = Suc 0"
      by (simp add: bitlen.simps[of "Suc 0"] bitlen.simps[of 0])
    ultimately show ?thesis by simp
  next
    case False
    with 1 have IH: "2 ^ (bitlen (n div 2) - 1) \<le> n div 2" "n div 2 < 2 ^ bitlen (n div 2)"
      by auto
    from False obtain k where k: "bitlen (n div 2) = Suc k"
      by (subst (asm) bitlen.simps) (metis bitlen.simps)
    show ?thesis
      using IH 1(2) by (subst (1 2) bitlen.simps) (auto simp: k)
  qed
qed

lemma powi_pos [simp]: "0 < (2::real) powi e"
  by simp

lemma powi_less_exp: "(2::real) powi m < 2 powi n \<Longrightarrow> m < n"
  using power_int_increasing[of n m "2::real"] by (rule_tac ccontr) (simp add: not_less)

lemma real_pow2_le: "2 ^ k \<le> n \<Longrightarrow> (2::real) ^ k \<le> real n"
  using of_nat_mono[of "2 ^ k" n, where ?'a = real] by simp

lemma real_pow2_gr: "n < 2 ^ k \<Longrightarrow> real n < (2::real) ^ k"
  using of_nat_less_iff[of n "2 ^ k", where ?'a = real] by simp

lemma powi_split: "e \<le> f \<Longrightarrow> (2::real) powi f = 2 ^ nat (f - e) * 2 powi e"
  using power_int_add[of "2::real" "f - e" e] by (simp add: power_int_nonneg_exp)

lemma powi_neg: "e \<le> 0 \<Longrightarrow> (2::real) powi e * 2 ^ nat (- e) = 1"
  by (simp add: power_int_nonneg_exp[symmetric] flip: power_int_add)

lemma flog2_lower:
  assumes "0 < n" "0 < d"
  shows "2 powi (flog2 n d) * real d \<le> real n"
proof -
  define l where "l = int (bitlen n) - int (bitlen d)"
  have n: "(2::real) powi (int (bitlen n) - 1) \<le> real n"
  proof -
    have "bitlen n \<noteq> 0" using assms(1) by (subst bitlen.simps) simp
    then have "int (bitlen n) - 1 = int (bitlen n - 1)" by simp
    moreover have "(2::real) ^ (bitlen n - 1) \<le> real n"
      using bitlen_bounds[OF assms(1)] by (intro real_pow2_le) simp
    ultimately show ?thesis by (simp only: power_int_of_nat)
  qed
  have d: "real d < (2::real) powi (int (bitlen d))"
    using bitlen_bounds[OF assms(2)] by (simp add: real_pow2_gr)
  show ?thesis
  proof (cases "if 0 \<le> l then d * 2 ^ nat l \<le> n else d \<le> n * 2 ^ nat (- l)")
    case True
    then have fl: "flog2 n d = l" by (simp add: flog2_def l_def[symmetric] Let_def)
    show ?thesis
    proof (cases "0 \<le> l")
      case True
      with \<open>if _ then _ else _\<close> have "d * 2 ^ nat l \<le> n" by simp
      then have "real d * 2 ^ nat l \<le> real n"
        using of_nat_mono[of "d * 2 ^ nat l" n, where ?'a = real] by simp
      with True fl show ?thesis by (simp add: power_int_nonneg_exp mult.commute)
    next
      case False
      with \<open>if _ then _ else _\<close> have "d \<le> n * 2 ^ nat (- l)" by simp
      then have "real d \<le> real n * 2 ^ nat (- l)"
        using of_nat_mono[of d "n * 2 ^ nat (- l)", where ?'a = real] by simp
      also have "\<dots> = real n * 2 powi (- l)"
        using False by (simp add: power_int_nonneg_exp)
      finally have "2 powi l * real d \<le> 2 powi l * (real n * 2 powi (- l))"
        by (simp add: mult_left_mono)
      also have "\<dots> = real n"
        by (simp add: power_int_minus field_simps)
      finally show ?thesis using fl by simp
    qed
  next
    case False
    then have fl: "flog2 n d = l - 1" by (simp add: flog2_def l_def[symmetric] Let_def)
    have "2 powi (l - 1) * real d \<le> 2 powi (l - 1) * 2 powi (int (bitlen d))"
      using d by (simp add: mult_left_mono)
    also have "\<dots> = 2 powi (int (bitlen n) - 1)"
      unfolding l_def by (subst power_int_add[symmetric]) (simp_all add: algebra_simps)
    also have "\<dots> \<le> real n" by (rule n)
    finally show ?thesis using fl by simp
  qed
qed

lemma scale_upper:
  assumes "0 < d" "real n \<le> real k * 2 powi e * real d"
  shows "scale n d e \<le> k"
proof (cases "0 \<le> e")
  case True
  with assms(2) have "real n \<le> real (k * (d * 2 ^ nat e))"
    by (simp add: power_int_nonneg_exp mult_ac)
  then have "n \<le> k * (d * 2 ^ nat e)" by linarith
  with True assms(1) show ?thesis by (simp add: scale_def rne_upper)
next
  case False
  then have p: "(2::real) powi e * 2 ^ nat (- e) = 1" by (simp add: powi_neg)
  have "real n * 2 ^ nat (- e) \<le> real k * 2 powi e * real d * 2 ^ nat (- e)"
    using assms(2) by (simp add: mult_right_mono)
  also have "\<dots> = real k * real d * (2 powi e * 2 ^ nat (- e))"
    by (simp add: mult_ac)
  also have "\<dots> = real (k * d)" by (simp add: p)
  finally have "real (n * 2 ^ nat (- e)) \<le> real (k * d)" by simp
  then have "n * 2 ^ nat (- e) \<le> k * d" by linarith
  with False assms(1) show ?thesis by (simp add: scale_def rne_upper)
qed

text \<open>
  A positive quotient that does not exceed a number of the format rounds to a finite number
  that does not exceed it either.
\<close>

lemma round_flt_upper:
  assumes d: "0 < d" and p: "0 < prec F"
    and v: "v < 2 ^ prec F" "emin F \<le> f" "f \<le> emax F"
    and le: "real n \<le> magnitude v f * real d"
  shows "\<exists>m e. round_flt F s n d = Finite s m e \<and> magnitude m e \<le> magnitude v f"
proof (cases "n = 0")
  case True
  then show ?thesis by (simp add: round_flt_def magnitude_def)
next
  case False
  define e where "e = max (emin F) (flog2 n d - int (prec F) + 1)"
  have vlt: "magnitude v f < 2 powi (int (prec F) + f)"
  proof -
    have "real v < 2 ^ prec F" using v(1) by (rule real_pow2_gr)
    then show ?thesis by (simp add: magnitude_def power_int_add)
  qed
  have ef: "e \<le> f"
  proof (cases "e = emin F")
    case True
    with v(2) show ?thesis by simp
  next
    case ne: False
    have "2 powi (flog2 n d) * real d \<le> magnitude v f * real d"
      using flog2_lower[of n d] False d le by linarith
    then have "(2::real) powi (flog2 n d) \<le> magnitude v f" using d by simp
    with vlt have "(2::real) powi (flog2 n d) < 2 powi (int (prec F) + f)" by linarith
    then have "flog2 n d < int (prec F) + f"
      by (rule powi_less_exp)
    with ne show ?thesis by (simp add: e_def)
  qed
  define k where "k = v * 2 ^ nat (f - e)"
  have k: "real k * 2 powi e = magnitude v f"
    using powi_split[OF ef] by (simp add: k_def magnitude_def)
  have m: "scale n d e \<le> k"
    using scale_upper[OF d, of n k e] le k by simp
  have mv: "magnitude (scale n d e) e \<le> magnitude v f"
  proof -
    have "magnitude (scale n d e) e \<le> real k * 2 powi e"
      using m by (simp add: magnitude_def)
    with k show ?thesis by simp
  qed
  show ?thesis
  proof (cases "scale n d e = 2 ^ prec F")
    case True
    have "(2::real) powi (int (prec F) + e) = magnitude (scale n d e) e"
      by (simp add: magnitude_def True power_int_add)
    with mv vlt have "(2::real) powi (int (prec F) + e) < 2 powi (int (prec F) + f)" by linarith
    then have "e < f" by (auto dest!: powi_less_exp)
    moreover have "magnitude (2 ^ (prec F - 1)) (e + 1) = magnitude (scale n d e) e"
      using p by (cases "prec F") (simp_all add: magnitude_def True power_int_add)
    ultimately show ?thesis
      using False True v(3) mv by (simp add: round_flt_def e_def[symmetric] Let_def normalise_def)
  next
    case ne: False
    then show ?thesis
      using False ef v(3) mv by (simp add: round_flt_def e_def[symmetric] Let_def normalise_def)
  qed
qed

lemma round_exp_upper:
  assumes d: "0 < d" and p: "0 < prec F"
    and v: "v < 2 ^ prec F" "emin F \<le> f" "f \<le> emax F"
    and le: "magnitude n e \<le> magnitude v f * real d"
  shows "\<exists>m' e'. round_exp F s n d e = Finite s m' e' \<and> magnitude m' e' \<le> magnitude v f"
proof (cases "0 \<le> e")
  case True
  then have "real (n * 2 ^ nat e) = magnitude n e"
    by (simp add: magnitude_def power_int_def)
  with round_flt_upper[OF d p v, of "n * 2 ^ nat e" s] le True show ?thesis
    by (simp add: round_exp_def)
next
  case False
  with powi_neg[of e] have "real n = magnitude n e * 2 ^ nat (- e)"
    by (simp add: magnitude_def mult.assoc)
  also have "\<dots> \<le> magnitude v f * real d * 2 ^ nat (- e)"
    using le by (intro mult_right_mono) simp_all
  finally have "real n \<le> magnitude v f * real (d * 2 ^ nat (- e))" by (simp add: mult.assoc)
  with round_flt_upper[OF _ p v, of "d * 2 ^ nat (- e)" n s] d False show ?thesis
    by (simp add: round_exp_def)
qed

lemma round_flt_self:
  assumes "0 < n" "0 < prec F" "emin F \<le> 1 - int (prec F)" "1 - int (prec F) \<le> emax F"
  shows "round_flt F s n n = Finite s (2 ^ (prec F - 1)) (1 - int (prec F))"
proof -
  have "flog2 n n = 0" by (simp add: flog2_def)
  moreover have "scale n n (1 - int (prec F)) = 2 ^ (prec F - 1)"
  proof (cases "prec F = 1")
    case True
    with assms show ?thesis by (simp add: scale_def rne_def)
  next
    case False
    with assms have "nat (- (1 - int (prec F))) = prec F - 1" "\<not> 0 \<le> 1 - int (prec F)" by linarith+
    with assms show ?thesis by (simp add: scale_def rne_def)
  qed
  ultimately show ?thesis
    using assms by (simp add: round_flt_def Let_def max_def normalise_def)
qed

lemma flt_of_int_exact:
  assumes n: "n < 2 ^ prec F" and F: "0 < prec F" "emin F \<le> 0" "1 \<le> emax F"
  shows "\<exists>m e. flt_of_int F (int n) = Finite False m e \<and> magnitude m e = real n"
proof (cases "n = 0")
  case True
  then show ?thesis by (simp add: flt_of_int_def round_flt_def magnitude_def)
next
  case False
  define e where "e = max (emin F) (flog2 n 1 - int (prec F) + 1)"
  have "(2::real) powi flog2 n 1 \<le> real n" using flog2_lower[of n 1] False by simp
  moreover have "real n < 2 powi int (prec F)" using real_pow2_gr[OF n] by simp
  ultimately have "(2::real) powi flog2 n 1 < 2 powi int (prec F)" by linarith
  from powi_less_exp[OF this] F have e: "e \<le> 0" by (simp add: e_def)
  have sc: "scale n 1 e = n * 2 ^ nat (- e)"
    using e by (cases "e = 0") (simp_all add: scale_def rne_def)
  have "magnitude (scale n 1 e) e = real n"
    unfolding sc magnitude_def using powi_neg[OF e]
    by (simp add: mult.assoc mult.commute[of "2 ^ nat (- e)"])
  moreover have "magnitude (2 ^ (prec F - 1)) (e + 1) = magnitude (2 ^ prec F) e"
    using F(1) by (cases "prec F") (simp_all add: magnitude_def power_int_add)
  moreover have "flt_of_int F (int n) = normalise F False (scale n 1 e) e"
    using False by (simp add: flt_of_int_def round_flt_def Let_def e_def)
  ultimately show ?thesis
    using e F(3) by (cases "scale n 1 e = 2 ^ prec F") (simp_all add: normalise_def)
qed
section \<open>Order\<close>

fun flt_val :: "flt \<Rightarrow> real" where
  "flt_val (Finite s m e) = of_int (signed s m) * 2 powi e"
| "flt_val _ = 0"

lemma align_val: "e0 \<le> e \<Longrightarrow> of_int (align s m e e0) * (2::real) powi e0 = of_int (signed s m) * 2 powi e"
  using powi_split[of e0 e] by (cases s) (simp_all add: align_def signed_def)

lemma flt_less_val:
  assumes "is_finite a" "is_finite b"
  shows "flt_less a b \<longleftrightarrow> flt_val a < flt_val b"
proof -
  obtain s m e where a: "a = Finite s m e" using assms(1) by (cases a) auto
  obtain t n f where b: "b = Finite t n f" using assms(2) by (cases b) auto
  let ?e = "min e f"
  have "flt_less a b \<longleftrightarrow> of_int (align s m e ?e) * (2::real) powi ?e < of_int (align t n f ?e) * 2 powi ?e"
    by (simp add: a b Let_def)
  then show ?thesis by (simp add: a b align_val)
qed

lemma finite_not_nan: "is_finite a \<Longrightarrow> a \<noteq> FNaN"
  by auto

lemma fmin_val:
  "is_finite a \<Longrightarrow> is_finite b \<Longrightarrow>
   is_finite (fmin a b) \<and> flt_val (fmin a b) = min (flt_val a) (flt_val b) \<and> fmin a b \<in> {a, b}"
  using flt_less_val[of a b] flt_less_val[of b a] finite_not_nan[of a] finite_not_nan[of b]
  by (auto simp: fmin_def min_def)

lemma fmax_val:
  "is_finite a \<Longrightarrow> is_finite b \<Longrightarrow>
   is_finite (fmax a b) \<and> flt_val (fmax a b) = max (flt_val a) (flt_val b) \<and> fmax a b \<in> {a, b}"
  using flt_less_val[of a b] flt_less_val[of b a] finite_not_nan[of a] finite_not_nan[of b]
  by (auto simp: fmax_def max_def)

end
