(* ===== verification/Json.thy ===== *)
theory Json
  imports Ieee
begin

text \<open>
  The JSON values the operators work on, as the public interface of the \<open>serde_json\<close> crate
  documents them: \<open>Value\<close> with its six constructors, \<open>Number\<close> as an integer (of the \<open>i64\<close>
  or \<open>u64\<close> range) or a finite float, and \<open>Map\<close> as a map ordered by key (the crate is built
  without \<open>preserve_order\<close>), here an association list sorted by key.

  The crate's algorithms are not written out: printing a value, reading one and printing a
  number are the fields of \<open>serde_api\<close>, an argument of every definition that calls them.
  \<open>reads_back\<close> names what the spill files rely on: a value printed on one line is read back
  as the same value. (It is stated value by value: the crate promises it for values without
  floats, and for floats only under a feature the build does not enable.)
\<close>

section \<open>Values\<close>

datatype number = NInt int | NFloat flt

datatype json =
    JNull
  | JBool bool
  | JNumber number
  | JString string
  | JArray "json list"
  | JObject "(string \<times> json) list"

type_synonym obj = "(string \<times> json) list"

record serde_api =
  to_vec :: "json \<Rightarrow> string + string"
  from_str :: "string \<Rightarrow> string + json"
  number_to_string :: "number \<Rightarrow> string"

section \<open>Numbers\<close>

fun as_f64 :: "number \<Rightarrow> flt option" where
  "as_f64 (NInt i) = Some (flt_of_int f64 i)"
| "as_f64 (NFloat f) = Some f"

fun as_i64 :: "number \<Rightarrow> int option" where
  "as_i64 (NInt i) = (if - (2 ^ 63) \<le> i \<and> i < 2 ^ 63 then Some i else None)"
| "as_i64 (NFloat f) = None"

definition from_f64 :: "flt \<Rightarrow> number option" where
  "from_f64 f = (if is_finite f then Some (NFloat f) else None)"

fun number_eq :: "number \<Rightarrow> number \<Rightarrow> bool" where
  "number_eq (NInt a) (NInt b) = (a = b)"
| "number_eq (NFloat a) (NFloat b) = flt_eq a b"
| "number_eq _ _ = False"

section \<open>Objects\<close>

text \<open>\<open>Map::insert\<close>: a new key takes its place in the order, an old one its new value.\<close>

fun obj_insert :: "string \<Rightarrow> json \<Rightarrow> obj \<Rightarrow> obj" where
  "obj_insert k v [] = [(k, v)]"
| "obj_insert k v ((a, b) # ps) =
     (if k < a then (k, v) # (a, b) # ps
      else if k = a then (a, v) # ps
      else (a, b) # obj_insert k v ps)"

definition obj_get :: "obj \<Rightarrow> string \<Rightarrow> json option" where
  "obj_get m k = map_of m k"

definition obj_insert_all :: "obj \<Rightarrow> obj \<Rightarrow> obj" where
  "obj_insert_all kvs m = fold (\<lambda>(k, v). obj_insert k v) kvs m"

definition obj_ok :: "obj \<Rightarrow> bool" where
  "obj_ok m \<longleftrightarrow> sorted_wrt (<) (map fst m)"

section \<open>Observers\<close>

fun value_as_f64 :: "json \<Rightarrow> flt option" where
  "value_as_f64 (JNumber n) = as_f64 n"
| "value_as_f64 _ = None"

fun value_as_str :: "json \<Rightarrow> string option" where
  "value_as_str (JString s) = Some s"
| "value_as_str _ = None"

fun value_get :: "json \<Rightarrow> string \<Rightarrow> json option" where
  "value_get (JObject m) k = obj_get m k"
| "value_get _ k = None"

text \<open>\<open>PartialEq\<close> of values: as structural equality, but on floats the IEEE comparison.\<close>

fun json_eq :: "json \<Rightarrow> json \<Rightarrow> bool"
  and array_eq :: "json list \<Rightarrow> json list \<Rightarrow> bool"
  and obj_eq :: "obj \<Rightarrow> obj \<Rightarrow> bool" where
  "json_eq JNull JNull = True"
| "json_eq (JBool a) (JBool b) = (a = b)"
| "json_eq (JNumber a) (JNumber b) = number_eq a b"
| "json_eq (JString a) (JString b) = (a = b)"
| "json_eq (JArray a) (JArray b) = array_eq a b"
| "json_eq (JObject a) (JObject b) = obj_eq a b"
| "json_eq _ _ = False"
| "array_eq [] [] = True"
| "array_eq (x # xs) (y # ys) = (json_eq x y \<and> array_eq xs ys)"
| "array_eq _ _ = False"
| "obj_eq [] [] = True"
| "obj_eq ((k, v) # xs) ((l, w) # ys) = (k = l \<and> json_eq v w \<and> obj_eq xs ys)"
| "obj_eq _ _ = False"

section \<open>What the spill files rely on\<close>

definition reads_back :: "serde_api \<Rightarrow> json \<Rightarrow> bool" where
  "reads_back S v \<longleftrightarrow>
     (case to_vec S v of
        Inl _ \<Rightarrow> False
      | Inr s \<Rightarrow> newline \<notin> set s \<and> carriage_return \<notin> set s \<and> trim s \<noteq> [] \<and>
                  from_str S s = Inr v)"

text \<open>
  A concrete instance for examples: a finite table of values and their texts; a text the table
  lacks is refused.
\<close>

definition table_serde :: "(json \<times> string) list \<Rightarrow> serde_api" where
  "table_serde tab = \<lparr>
     to_vec = (\<lambda>v. case map_of tab v of Some s \<Rightarrow> Inr s | None \<Rightarrow> Inl ''key must be a string''),
     from_str = (\<lambda>s. case map_of (map prod.swap tab) s of
                        Some v \<Rightarrow> Inr v | None \<Rightarrow> Inl ''expected value at line 1 column 1''),
     number_to_string = (\<lambda>n. case n of NInt i \<Rightarrow> show_int i | NFloat f \<Rightarrow> ''1.5'')\<rparr>"

section \<open>Lemmas\<close>

lemma map_of_obj_insert [simp]: "map_of (obj_insert k v m) = (map_of m)(k \<mapsto> v)"
  by (induction m) auto

lemma obj_get_insert [simp]:
  "obj_get (obj_insert k v m) l = (if l = k then Some v else obj_get m l)"
  by (simp add: obj_get_def)

lemma obj_get_empty [simp]: "obj_get [] l = None"
  by (simp add: obj_get_def)

lemma keys_obj_insert: "fst ` set (obj_insert k v m) = insert k (fst ` set m)"
  by (simp flip: dom_map_of_conv_image_fst)

lemma obj_ok_Nil [simp]: "obj_ok []"
  by (simp add: obj_ok_def)

lemma obj_ok_insert [simp]: "obj_ok m \<Longrightarrow> obj_ok (obj_insert k v m)"
proof (induction m)
  case Nil
  then show ?case by (simp add: obj_ok_def)
next
  case (Cons p m)
  obtain a b where p: "p = (a, b)" by (cases p)
  from Cons.prems p have m: "obj_ok m" and lt: "\<forall>x \<in> fst ` set m. a < x"
    by (auto simp: obj_ok_def)
  have ins: "a < k \<Longrightarrow> \<forall>x \<in> fst ` set (obj_insert k v m). a < x"
    using lt by (simp only: keys_obj_insert) simp
  show ?case
    using Cons.IH[OF m] lt ins p m by (auto simp: obj_ok_def dest: less_trans)
qed

lemma obj_insert_all_get:
  "distinct (map fst kvs) \<Longrightarrow>
   obj_get (obj_insert_all kvs m) l =
     (case map_of kvs l of Some v \<Rightarrow> Some v | None \<Rightarrow> obj_get m l)"
proof (induction kvs arbitrary: m)
  case Nil
  then show ?case by (simp add: obj_insert_all_def)
next
  case (Cons p kvs)
  obtain a b where p: "p = (a, b)" by (cases p)
  with Cons have "map_of kvs a = None" by (simp add: map_of_eq_None_iff)
  with Cons p show ?case
    by (auto simp: obj_insert_all_def split: option.splits)
qed

lemma obj_insert_all_ok: "obj_ok m \<Longrightarrow> obj_ok (obj_insert_all kvs m)"
  unfolding obj_insert_all_def by (induction kvs arbitrary: m) auto

lemma obj_ok_distinct: "obj_ok m \<Longrightarrow> distinct (map fst m)"
  unfolding obj_ok_def by (induction m) auto

end
