(* ===== verification/Types.thy ===== *)
theory Types
  imports Json
begin

text \<open>
  The data exchanged between master, workers and clients: \<open>src/src/common/types.rs\<close> and the
  operator descriptions of \<open>src/src/common/dag.rs\<close>. Structs are records (a field carries
  the name of its struct where several structs share it), enums are datatypes with the
  constructors of the source. Identifiers are 128-bit words; counters, sizes and instants
  (nanoseconds since the epoch) are natural numbers.
\<close>

type_synonym uuid = "128 word"
type_synonym job_id = uuid
type_synonym task_id = uuid
type_synonym worker_id = uuid
type_synonym stage_id = nat
type_synonym partition_id = nat
type_synonym system_time = nat
type_synonym u32 = "32 word"

section \<open>Operators\<close>

datatype join_type = Inner | LeftJoin | RightJoin | Full

datatype operator_type =
    OT_Read string string
  | OT_Map string
  | OT_Filter string
  | OT_Reduce string
  | OT_ReduceByKey string string
  | OT_FlatMap string
  | OT_Join string join_type
  | OT_ShuffleByKey string nat
  | OT_Aggregate string
  | OT_Identity

section \<open>Statuses\<close>

datatype worker_status = WS_Active | WS_Down | WS_Idle | WS_Running | WS_Failed | WS_Lost

datatype job_status =
  JS_Accepted | JS_Pending | JS_Running | JS_Completed | JS_Succeeded | JS_Failed

datatype task_status =
    TS_Queued
  | TS_Assigned worker_id
  | TS_Running worker_id
  | TS_Completed
  | TS_Failed string
  | TS_Retrying u32

section \<open>Workers\<close>

record worker_metrics =
  wm_tasks_in_flight :: nat
  wm_cpu_pct :: flt
  wm_memory_mb :: nat
  wm_tasks_completed :: nat
  wm_tasks_failed :: nat
  wm_records_processed :: nat
  wm_current_task :: "task_id option"

definition default_worker_metrics :: worker_metrics where
  "default_worker_metrics =
     \<lparr>wm_tasks_in_flight = 0, wm_cpu_pct = fzero f32, wm_memory_mb = 0, wm_tasks_completed = 0,
      wm_tasks_failed = 0, wm_records_processed = 0, wm_current_task = None\<rparr>"

record worker_info =
  wi_id :: worker_id
  wi_address :: string
  wi_status :: worker_status
  wi_last_heartbeat :: system_time
  wi_metrics :: worker_metrics

record heartbeat_message =
  hb_worker_id :: worker_id
  hb_address :: string
  hb_metrics :: worker_metrics
  hb_timestamp :: system_time

section \<open>Tasks and their results\<close>

record task =
  task_id :: task_id
  task_job_id :: job_id
  task_stage_id :: stage_id
  task_attempt :: nat
  task_operator :: operator_type
  task_operators :: "operator_type list"
  task_operator_ids :: "string list"
  task_incoming_edges :: "string list list"
  task_partition :: partition_id
  task_input_uri :: string
  task_input_format :: string
  task_total_partitions :: nat

record task_metrics =
  tm_processed_records :: nat
  tm_duration_ms :: nat
  tm_cpu_time_ms :: nat
  tm_wall_time_ms :: nat

record result_location =
  rl_path :: string
  rl_size_bytes :: nat

record partition_info =
  pi_partition_id :: nat
  pi_record_count :: nat
  pi_spill_path :: "string option"

record stage_trace =
  st_stage_id :: nat
  st_operator_id :: string
  st_incoming_edges :: "string list"
  st_output_partitions :: "partition_info list"

record execution_trace =
  et_job_id :: string
  et_stages :: "stage_trace list"

record task_result =
  res_task_id :: task_id
  res_job_id :: job_id
  res_operator :: operator_type
  res_stage_id :: stage_id
  res_partition :: partition_id
  res_location :: result_location
  res_metrics :: task_metrics
  res_status :: task_status
  res_trace :: "execution_trace option"
  res_final_partitions :: "partition_info list option"

section \<open>Job metrics\<close>

record stage_metrics =
  sm_stage_id :: stage_id
  sm_tasks_total :: nat
  sm_tasks_completed :: nat
  sm_tasks_failed :: nat
  sm_duration_ms :: nat

record worker_aggregate =
  wa_worker_id :: worker_id
  wa_tasks_completed :: nat
  wa_tasks_failed :: nat
  wa_records_processed :: nat
  wa_cpu_time_ms :: nat
  wa_wall_time_ms :: nat

record job_metrics =
  jm_total_tasks :: nat
  jm_completed_tasks :: nat
  jm_failed_tasks :: nat
  jm_pending_tasks :: nat
  jm_stages :: "stage_metrics list"
  jm_workers :: "worker_aggregate list"

definition default_job_metrics :: job_metrics where
  "default_job_metrics =
     \<lparr>jm_total_tasks = 0, jm_completed_tasks = 0, jm_failed_tasks = 0, jm_pending_tasks = 0,
      jm_stages = [], jm_workers = []\<rparr>"

section \<open>Errors of the master\<close>

datatype engine_error =
    Network string
  | EngineIo string
  | Validation string
  | NotFound string

fun show_engine_error :: "engine_error \<Rightarrow> string" where
  "show_engine_error (Network m) = ''network error: '' @ m"
| "show_engine_error (EngineIo m) = ''io error: '' @ m"
| "show_engine_error (Validation m) = ''invalid input: '' @ m"
| "show_engine_error (NotFound m) = ''not found: '' @ m"

section \<open>Identifiers\<close>

text \<open>
  The \<open>uuid\<close> crate: printing an identifier, reading one, and the name-based version 5
  identifier of a namespace and a text.
\<close>

record uuid_api =
  uuid_to_string :: "uuid \<Rightarrow> string"
  parse_uuid :: "string \<Rightarrow> uuid option"
  new_v5 :: "uuid \<Rightarrow> string \<Rightarrow> uuid"

text \<open>A concrete instance for examples: decimal text, and names read as numbers.\<close>

definition example_uuid_api :: uuid_api where
  "example_uuid_api = \<lparr>
     uuid_to_string = (\<lambda>u. show_nat (unat u)),
     parse_uuid = (\<lambda>s. if s \<noteq> [] \<and> list_all is_digit s then Some (of_nat (digits_val s)) else None),
     new_v5 = (\<lambda>ns s. ns + of_nat (foldl (\<lambda>a c. 256 * a + of_char c) 0 s))\<rparr>"

definition is_completed :: "task_status \<Rightarrow> bool" where
  "is_completed s \<longleftrightarrow> s = TS_Completed"

fun is_failed :: "task_status \<Rightarrow> bool" where
  "is_failed (TS_Failed _) = True"
| "is_failed _ = False"

end
