(* ===== verification/Registry.thy ===== *)
theory Registry
  imports Types
begin

text \<open>
  \<open>src/src/master/registry.rs\<close>: the workers the master knows. The registry is a hash map; \<open>it\<close>
  is the order in which it is iterated. The clock is the argument \<open>now\<close>, in nanoseconds.
\<close>

record registry =
  workers :: "worker_id \<rightharpoonup> worker_info"

type_synonym worker_order = "(worker_id \<rightharpoonup> worker_info) \<Rightarrow> (worker_id \<times> worker_info) list"

definition default_registry :: registry where
  "default_registry = \<lparr>workers = Map.empty\<rparr>"

definition add_worker :: "worker_info \<Rightarrow> registry \<Rightarrow> registry" where
  "add_worker info r = r\<lparr>workers := (workers r)(wi_id info \<mapsto> info)\<rparr>"

definition remove_worker :: "worker_id \<Rightarrow> registry \<Rightarrow> registry" where
  "remove_worker w r = r\<lparr>workers := (workers r)(w := None)\<rparr>"

definition update_status :: "worker_id \<Rightarrow> worker_status \<Rightarrow> registry \<Rightarrow> registry" where
  "update_status w st r =
     (case workers r w of
        None \<Rightarrow> r
      | Some info \<Rightarrow> r\<lparr>workers := (workers r)(w \<mapsto> info\<lparr>wi_status := st\<rparr>)\<rparr>)"

definition record_heartbeat ::
    "system_time \<Rightarrow> worker_id \<Rightarrow> worker_metrics \<Rightarrow> string \<Rightarrow> registry \<Rightarrow> registry" where
  "record_heartbeat now w metrics address r =
     (case workers r w of
        Some info \<Rightarrow>
          r\<lparr>workers := (workers r)(w \<mapsto>
             info\<lparr>wi_last_heartbeat := now, wi_metrics := metrics, wi_status := WS_Active\<rparr>)\<rparr>
      | None \<Rightarrow>
          r\<lparr>workers := (workers r)(w \<mapsto>
             \<lparr>wi_id = w, wi_address = address, wi_status = WS_Active, wi_last_heartbeat = now,
              wi_metrics = metrics\<rparr>)\<rparr>)"

definition get_worker :: "worker_id \<Rightarrow> registry \<Rightarrow> worker_info option" where
  "get_worker w r = workers r w"

definition available_workers :: "worker_order \<Rightarrow> registry \<Rightarrow> worker_info list" where
  "available_workers it r = filter (\<lambda>w. wi_status w = WS_Active) (map snd (it (workers r)))"

definition mark_stale :: "system_time \<Rightarrow> nat \<Rightarrow> worker_info \<Rightarrow> worker_info" where
  "mark_stale now grace w =
     (if wi_status w = WS_Active \<and> wi_last_heartbeat w \<le> now \<and> now - wi_last_heartbeat w > grace
      then w\<lparr>wi_status := WS_Down\<rparr> else w)"

definition mark_stale_workers :: "system_time \<Rightarrow> nat \<Rightarrow> registry \<Rightarrow> registry" where
  "mark_stale_workers now grace r =
     r\<lparr>workers := (\<lambda>w. map_option (mark_stale now grace) (workers r w))\<rparr>"

section \<open>Lemmas\<close>

text \<open>A registry keeps every worker under its own identifier.\<close>

definition registry_ok :: "registry \<Rightarrow> bool" where
  "registry_ok r \<longleftrightarrow> finite (dom (workers r)) \<and> (\<forall>w info. workers r w = Some info \<longrightarrow> wi_id info = w)"

definition active :: "registry \<Rightarrow> worker_id set" where
  "active r = {w. \<exists>info. workers r w = Some info \<and> wi_status info = WS_Active}"

lemma registry_ok_default [simp]: "registry_ok default_registry"
  by (simp add: registry_ok_def default_registry_def)

lemma registry_ok_add [simp]: "registry_ok r \<Longrightarrow> registry_ok (add_worker info r)"
  by (auto simp: registry_ok_def add_worker_def)

lemma registry_ok_remove [simp]: "registry_ok r \<Longrightarrow> registry_ok (remove_worker w r)"
  by (auto simp: registry_ok_def remove_worker_def split: if_splits)

lemma registry_ok_update [simp]: "registry_ok r \<Longrightarrow> registry_ok (update_status w st r)"
  by (auto simp: registry_ok_def update_status_def split: option.splits if_splits)

lemma registry_ok_heartbeat [simp]: "registry_ok r \<Longrightarrow> registry_ok (record_heartbeat now w m a r)"
  by (auto simp: registry_ok_def record_heartbeat_def split: option.splits if_splits)

lemma registry_ok_stale [simp]: "registry_ok r \<Longrightarrow> registry_ok (mark_stale_workers now grace r)"
  by (auto simp: registry_ok_def mark_stale_workers_def mark_stale_def dom_map_option)

lemma active_heartbeat: "active (record_heartbeat now w m a r) = insert w (active r)"
  by (auto simp: active_def record_heartbeat_def split: option.splits if_splits)

lemma active_iff: "w \<in> active r \<longleftrightarrow> (case workers r w of None \<Rightarrow> False | Some i \<Rightarrow> wi_status i = WS_Active)"
  by (simp add: active_def split: option.splits)

lemma mark_stale_active:
  "wi_status (mark_stale now grace i) = WS_Active \<longleftrightarrow>
     wi_status i = WS_Active \<and> now \<le> wi_last_heartbeat i + grace"
  by (auto simp: mark_stale_def)

lemma active_stale:
  "w \<in> active (mark_stale_workers now grace r) \<longleftrightarrow>
     w \<in> active r \<and> now \<le> wi_last_heartbeat (the (workers r w)) + grace"
  by (simp add: active_iff mark_stale_workers_def mark_stale_active split: option.splits)

lemma available_ids:
  assumes "iterates it" "registry_ok r"
  shows "set (map wi_id (available_workers it r)) = active r"
    "distinct (map wi_id (available_workers it r))"
proof -
  have en: "enumerates (it (workers r)) (workers r)"
    using assms by (simp add: iterates_def registry_ok_def)
  have id: "wi_id info = w" if "(w, info) \<in> set (it (workers r))" for w info
    using that assms(2) by (simp add: enumerates_set[OF en] registry_ok_def)
  show "set (map wi_id (available_workers it r)) = active r"
    using id by (force simp: available_workers_def active_def enumerates_set[OF en, symmetric])
  have "map (wi_id \<circ> snd) (it (workers r)) = map fst (it (workers r))"
    using id by auto
  moreover have "distinct (map fst (it (workers r)))"
    using en by (simp add: enumerates_def)
  ultimately have "distinct (map (wi_id \<circ> snd) (it (workers r)))"
    by (simp only:)
  then show "distinct (map wi_id (available_workers it r))"
    by (simp add: available_workers_def filter_map distinct_map_filter)
qed

lemma available_in:
  assumes "iterates it" "registry_ok r"
  shows "info \<in> set (available_workers it r) \<longleftrightarrow>
    workers r (wi_id info) = Some info \<and> wi_status info = WS_Active"
proof -
  have en: "enumerates (it (workers r)) (workers r)"
    using assms by (simp add: iterates_def registry_ok_def)
  have "info \<in> set (available_workers it r) \<longleftrightarrow>
      (\<exists>w. workers r w = Some info) \<and> wi_status info = WS_Active"
    by (force simp: available_workers_def enumerates_set[OF en, symmetric])
  with assms(2) show ?thesis by (auto simp: registry_ok_def)
qed

subsection \<open>What a registry has seen\<close>

text \<open>
  The operations the master applies to its registry: registrations, heartbeats and passes of the
  watchdog. \<open>sighting\<close> is the time and status a worker is recorded with.
\<close>

datatype registry_event =
  Registered worker_info
| Beat system_time worker_id worker_metrics string
| Checked system_time nat

fun registry_apply :: "registry_event \<Rightarrow> registry \<Rightarrow> registry" where
  "registry_apply (Registered info) r = add_worker info r"
| "registry_apply (Beat now w metrics address) r = record_heartbeat now w metrics address r"
| "registry_apply (Checked now grace) r = mark_stale_workers now grace r"

fun sighting :: "worker_id \<Rightarrow> registry_event \<Rightarrow> (system_time \<times> worker_status) option" where
  "sighting w (Registered info) = (if wi_id info = w then Some (wi_last_heartbeat info, wi_status info) else None)"
| "sighting w (Beat now v _ _) = (if v = w then Some (now, WS_Active) else None)"
| "sighting w (Checked _ _) = None"

definition seen_alive :: "worker_id \<Rightarrow> registry_event list \<Rightarrow> system_time \<Rightarrow> bool" where
  "seen_alive w es seen \<longleftrightarrow> (\<exists>earlier e later. es = earlier @ e # later \<and> sighting w e = Some (seen, WS_Active) \<and>
     (\<forall>e' \<in> set later. sighting w e' = None \<and> (\<forall>now grace. e' = Checked now grace \<longrightarrow> now \<le> seen + grace)))"

lemma seen_alive_Nil: "\<not> seen_alive w [] seen"
  by (simp add: seen_alive_def)

lemma seen_alive_sight:
  assumes "sighting w e = Some (t, st)"
  shows "seen_alive w (es @ [e]) seen \<longleftrightarrow> t = seen \<and> st = WS_Active"
proof
  assume "seen_alive w (es @ [e]) seen"
  then obtain earlier f later where f: "es @ [e] = earlier @ f # later" "sighting w f = Some (seen, WS_Active)"
    "\<forall>e' \<in> set later. sighting w e' = None" unfolding seen_alive_def by blast
  show "t = seen \<and> st = WS_Active"
  proof (cases later rule: rev_cases)
    case Nil
    with f(1,2) assms show ?thesis by simp
  next
    case (snoc later' g)
    with f(1) have "e = g" by simp
    with f(3) snoc assms show ?thesis by simp
  qed
next
  assume "t = seen \<and> st = WS_Active"
  with assms show "seen_alive w (es @ [e]) seen"
    unfolding seen_alive_def by (intro exI[of _ es] exI[of _ e] exI[of _ "[]"]) simp
qed

lemma seen_alive_pass:
  assumes "sighting w e = None"
  shows "seen_alive w (es @ [e]) seen \<longleftrightarrow>
    seen_alive w es seen \<and> (\<forall>now grace. e = Checked now grace \<longrightarrow> now \<le> seen + grace)"
proof
  assume "seen_alive w (es @ [e]) seen"
  then obtain earlier f later where f: "es @ [e] = earlier @ f # later" "sighting w f = Some (seen, WS_Active)"
    "\<forall>e' \<in> set later. sighting w e' = None \<and> (\<forall>now grace. e' = Checked now grace \<longrightarrow> now \<le> seen + grace)"
    unfolding seen_alive_def by blast
  show "seen_alive w es seen \<and> (\<forall>now grace. e = Checked now grace \<longrightarrow> now \<le> seen + grace)"
  proof (cases later rule: rev_cases)
    case Nil
    with f(1,2) assms show ?thesis by simp
  next
    case (snoc later' g)
    with f(1) have eq: "e = g" "es = earlier @ f # later'" by simp_all
    have "seen_alive w es seen" unfolding seen_alive_def
      using eq(2) f(2,3) snoc by (intro exI[of _ earlier] exI[of _ f] exI[of _ later']) simp
    with f(3) snoc eq(1) show ?thesis by simp
  qed
next
  assume r: "seen_alive w es seen \<and> (\<forall>now grace. e = Checked now grace \<longrightarrow> now \<le> seen + grace)"
  then obtain earlier f later where f: "es = earlier @ f # later" "sighting w f = Some (seen, WS_Active)"
    "\<forall>e' \<in> set later. sighting w e' = None \<and> (\<forall>now grace. e' = Checked now grace \<longrightarrow> now \<le> seen + grace)"
    unfolding seen_alive_def by blast
  then show "seen_alive w (es @ [e]) seen" unfolding seen_alive_def
    using assms r by (intro exI[of _ earlier] exI[of _ f] exI[of _ "later @ [e]"]) auto
qed

lemma registry_alive:
  "(\<exists>info. workers (fold registry_apply es default_registry) w = Some info \<and> wi_status info = WS_Active \<and>
     wi_last_heartbeat info = seen) \<longleftrightarrow> seen_alive w es seen"
proof (induction es rule: rev_induct)
  case Nil
  then show ?case by (simp add: default_registry_def seen_alive_Nil)
next
  case (snoc e es)
  let ?r = "fold registry_apply es default_registry"
  show ?case
  proof (cases e)
    case (Registered info)
    then show ?thesis using snoc seen_alive_sight[of w e] seen_alive_pass[of w e]
      by (auto simp: add_worker_def)
  next
    case (Beat now v metrics address)
    then show ?thesis using snoc seen_alive_sight[of w e] seen_alive_pass[of w e]
      by (cases "v = w") (auto simp: record_heartbeat_def split: option.splits)
  next
    case (Checked now grace)
    then have "seen_alive w (es @ [e]) seen \<longleftrightarrow> seen_alive w es seen \<and> now \<le> seen + grace"
      using seen_alive_pass[of w e] by simp
    moreover have "wi_last_heartbeat (mark_stale now grace info) = wi_last_heartbeat info" for info
      by (simp add: mark_stale_def)
    ultimately show ?thesis
      using Checked snoc
      by (cases "workers ?r w") (auto simp: mark_stale_workers_def mark_stale_active)
  qed
qed

section \<open>Properties\<close>

text \<open>
  Claim C34. After any sequence of registrations, heartbeats and passes of the watchdog, a worker
  counts as available exactly if it has been seen (by a heartbeat, or by a registration as active)
  and no pass since it was last seen ran later than its grace period after the time of that
  heartbeat, or the time the registration carried. So a heartbeat makes its worker available and
  the time of the latest one decides how long; what other workers do plays no part. Those are the
  workers that the scheduler is offered, each once.
\<close>

theorem liveness_tracking:
  assumes "iterates it" "r = fold registry_apply es default_registry"
  shows "(w \<in> set (map wi_id (available_workers it r)) \<longleftrightarrow>
      (\<exists>earlier e later seen. es = earlier @ e # later \<and> sighting w e = Some (seen, WS_Active) \<and>
         (\<forall>e' \<in> set later. sighting w e' = None \<and>
            (\<forall>now grace. e' = Checked now grace \<longrightarrow> now \<le> seen + grace)))) \<and>
    distinct (map wi_id (available_workers it r))"
proof -
  have ok: "registry_ok (fold registry_apply es default_registry)"
  proof (induction es rule: rev_induct)
    case (snoc e es)
    then show ?case by (cases e) simp_all
  qed simp
  have "w \<in> active r \<longleftrightarrow> (\<exists>seen. seen_alive w es seen)"
    using registry_alive[of es w] by (auto simp: active_def assms(2))
  with available_ids[OF assms(1), of r] ok assms(2) show ?thesis unfolding seen_alive_def by blast
qed

theorem liveness_tracking_witness:
  "5 \<in> set (map wi_id (available_workers key_order (fold registry_apply
     [Beat 10 5 default_worker_metrics ''w5:9000'', Beat 30 5 default_worker_metrics ''w5:9000'',
      Checked 49 20] default_registry))) \<and>
   5 \<notin> set (map wi_id (available_workers key_order (fold registry_apply
     [Beat 10 5 default_worker_metrics ''w5:9000'', Checked 49 20] default_registry)))"
proof
  let ?m = default_worker_metrics
  let ?r = "\<lambda>es. fold registry_apply es default_registry"
  show "5 \<in> set (map wi_id (available_workers key_order
      (?r [Beat 10 5 ?m ''w5:9000'', Beat 30 5 ?m ''w5:9000'', Checked 49 20])))"
    unfolding liveness_tracking[OF iterates_key_order refl, THEN conjunct1]
    by (intro exI[of _ "[Beat 10 5 ?m ''w5:9000'']"] exI[of _ "Beat 30 5 ?m ''w5:9000''"]
        exI[of _ "[Checked 49 20]"] exI[of _ 30]) simp
  show "5 \<notin> set (map wi_id (available_workers key_order (?r [Beat 10 5 ?m ''w5:9000'', Checked 49 20])))"
    unfolding liveness_tracking[OF iterates_key_order refl, THEN conjunct1]
    by (auto simp: Cons_eq_append_conv)
qed

end
