(* ===== verification/Scheduler.thy ===== *)
theory Scheduler
  imports Registry
begin

text \<open>
  \<open>src/src/master/scheduler.rs\<close>: the choice of a worker for a task. The load of a worker is
  computed in 32 bits with wrap-around, as the release build does. \<open>scheduler_strategy\<close> is the
  trait \<open>SchedulerStrategy\<close> with what its caller may rely on; the round robin scheduler meets
  it as long as its queue lists the workers that are available, and only then.
\<close>

record round_robin_scheduler =
  cursor :: nat
  queue :: "worker_id list"

definition default_scheduler :: round_robin_scheduler where
  "default_scheduler = \<lparr>cursor = 0, queue = []\<rparr>"

definition compute_load :: "worker_info \<Rightarrow> u32" where
  "compute_load w =
     of_nat (wm_tasks_in_flight (wi_metrics w)) * 2 + flt_to_u32 (wm_cpu_pct (wi_metrics w))"

text \<open>The walk along the queue: every id looked at goes to the back.\<close>

fun walk_queue :: "nat \<Rightarrow> worker_id list \<Rightarrow> worker_id list \<Rightarrow> worker_id option \<times> worker_id list" where
  "walk_queue 0 eligible q = (None, q)"
| "walk_queue (Suc n) eligible [] = walk_queue n eligible []"
| "walk_queue (Suc n) eligible (i # q) =
     (if i \<in> set eligible then (Some i, q @ [i]) else walk_queue n eligible (q @ [i]))"

definition min_load :: "worker_info list \<Rightarrow> u32" where
  "min_load ws = (case map compute_load ws of [] \<Rightarrow> - 1 | l # ls \<Rightarrow> fold min ls l)"

definition least_loaded :: "worker_info list \<Rightarrow> worker_id list" where
  "least_loaded ws = map wi_id (filter (\<lambda>w. compute_load w = min_load ws) ws)"

definition select_worker ::
    "worker_order \<Rightarrow> registry \<Rightarrow> round_robin_scheduler \<Rightarrow> worker_id option \<times> round_robin_scheduler" where
  "select_worker it r sch =
     (let ws = available_workers it r
      in if ws = [] then (None, sch)
         else
           (let q = (if queue sch = [] \<or> length (queue sch) \<noteq> length ws then map wi_id ws
                     else queue sch);
                (sel, q') = walk_queue (length q) (least_loaded ws) q;
                (sel', q'') = (case sel of
                   Some i \<Rightarrow> (Some i, q')
                 | None \<Rightarrow> (case q' of [] \<Rightarrow> (None, []) | i # q1 \<Rightarrow> (Some i, q1 @ [i])))
            in (sel', \<lparr>cursor = (cursor sch + 1) mod length ws, queue = q''\<rparr>)))"

section \<open>The interface\<close>

text \<open>A sequence of choices, for a registry that does not change meanwhile.\<close>

fun select_many :: "('s \<Rightarrow> worker_id option \<times> 's) \<Rightarrow> nat \<Rightarrow> 's \<Rightarrow> worker_id option list \<times> 's" where
  "select_many sel 0 s = ([], s)"
| "select_many sel (Suc n) s =
     (case sel s of (w, s') \<Rightarrow> case select_many sel n s' of (ws, s'') \<Rightarrow> (w # ws, s''))"

text \<open>
  The caller needs: no worker is chosen exactly when none is available, and the one chosen is
  available and has the least load, provided the scheduler is in step with the registry; and
  choosing keeps it in step.
\<close>

locale scheduler_strategy =
  fixes select :: "registry \<Rightarrow> 's \<Rightarrow> worker_id option \<times> 's"
    and valid :: "registry \<Rightarrow> bool"
    and in_step :: "registry \<Rightarrow> 's \<Rightarrow> bool"
    and load :: "registry \<Rightarrow> worker_id \<Rightarrow> u32"
  assumes select_none: "valid r \<Longrightarrow> fst (select r s) = None \<longleftrightarrow> active r = {}"
    and select_active: "valid r \<Longrightarrow> in_step r s \<Longrightarrow> fst (select r s) = Some w \<Longrightarrow> w \<in> active r"
    and select_least: "valid r \<Longrightarrow> in_step r s \<Longrightarrow> fst (select r s) = Some w \<Longrightarrow>
      v \<in> active r \<Longrightarrow> load r w \<le> load r v"
    and select_in_step: "valid r \<Longrightarrow> in_step r s \<Longrightarrow> in_step r (snd (select r s))"
begin

lemma select_many_active:
  "valid r \<Longrightarrow> in_step r s \<Longrightarrow> active r \<noteq> {} \<Longrightarrow>
   list_all (\<lambda>w. \<exists>v \<in> active r. w = Some v) (fst (select_many (select r) n s))"
proof (induction n arbitrary: s)
  case 0
  then show ?case by simp
next
  case (Suc n)
  obtain v s' where sel: "select r s = (v, s')" by (cases "select r s")
  with select_in_step[OF Suc.prems(1,2)] have step: "in_step r s'" by simp
  from select_none[OF Suc.prems(1), of s] Suc.prems(3) sel obtain w where "v = Some w" by (cases v) auto
  with sel select_active[OF Suc.prems(1,2), of w] Suc.IH[OF Suc.prems(1) step Suc.prems(3)] show ?case
    by (auto split: prod.splits)
qed

end

section \<open>Lemmas\<close>

lemma walk_skip:
  "set a \<inter> set el = {} \<Longrightarrow> walk_queue (length a + n) el (a @ b) = walk_queue n el (b @ a)"
proof (induction a arbitrary: b)
  case Nil
  then show ?case by simp
next
  case (Cons x a)
  then have "walk_queue (length (x # a) + n) el ((x # a) @ b) = walk_queue (length a + n) el (a @ b @ [x])"
    by simp
  with Cons.IH[of "b @ [x]"] Cons.prems show ?case by simp
qed

lemma walk_first:
  assumes "set a \<inter> set el = {}" "i \<in> set el"
  shows "walk_queue (length (a @ i # b)) el (a @ i # b) = (Some i, b @ a @ [i])"
  using walk_skip[OF assms(1), of "Suc (length b)" "i # b"] assms(2) by simp

lemma walk_none:
  assumes "set q \<inter> set el = {}"
  shows "walk_queue (length q) el q = (None, q)"
  using walk_skip[OF assms, of 0 "[]"] by simp

lemma min_load_min:
  assumes "ws \<noteq> []"
  shows "\<exists>w \<in> set ws. compute_load w = min_load ws" "w \<in> set ws \<Longrightarrow> min_load ws \<le> compute_load w"
proof -
  have eq: "min_load ws = Min (set (map compute_load ws))"
    using assms Min.set_eq_fold[of "compute_load (hd ws)" "map compute_load (tl ws)"]
    by (cases ws) (simp_all add: min_load_def)
  have "Min (set (map compute_load ws)) \<in> set (map compute_load ws)"
    using assms by (intro Min_in) auto
  then show "\<exists>w \<in> set ws. compute_load w = min_load ws"
    unfolding eq set_map by (elim imageE) auto
  show "w \<in> set ws \<Longrightarrow> min_load ws \<le> compute_load w"
    by (auto simp: eq)
qed

text \<open>The queue a choice starts from.\<close>

definition start_queue :: "worker_order \<Rightarrow> registry \<Rightarrow> round_robin_scheduler \<Rightarrow> worker_id list" where
  "start_queue it r sch =
     (let ws = available_workers it r
      in if queue sch = [] \<or> length (queue sch) \<noteq> length ws then map wi_id ws else queue sch)"

lemma select_worker_eligible:
  assumes "available_workers it r \<noteq> []" "start_queue it r sch = a @ i # b"
    and "set a \<inter> set (least_loaded (available_workers it r)) = {}"
    and "i \<in> set (least_loaded (available_workers it r))"
  shows "fst (select_worker it r sch) = Some i" "queue (snd (select_worker it r sch)) = b @ a @ [i]"
  using walk_first[OF assms(3,4), of b] assms(1,2)
  by (auto simp: select_worker_def start_queue_def Let_def)

lemma select_worker_fallback:
  assumes "available_workers it r \<noteq> []" "start_queue it r sch = i # q"
    and "set (i # q) \<inter> set (least_loaded (available_workers it r)) = {}"
  shows "fst (select_worker it r sch) = Some i" "queue (snd (select_worker it r sch)) = q @ [i]"
  using walk_none[OF assms(3)] assms(1,2)
  by (auto simp: select_worker_def start_queue_def Let_def)

lemma start_queue_nonempty: "available_workers it r \<noteq> [] \<Longrightarrow> start_queue it r sch \<noteq> []"
  by (auto simp: start_queue_def Let_def)

lemma select_worker_some:
  assumes "available_workers it r \<noteq> []"
  shows "\<exists>i. fst (select_worker it r sch) = Some i"
proof (cases "set (start_queue it r sch) \<inter> set (least_loaded (available_workers it r)) = {}")
  case True
  obtain i q where "start_queue it r sch = i # q"
    using start_queue_nonempty[OF assms] by (meson neq_Nil_conv)
  with select_worker_fallback[OF assms this] True show ?thesis by auto
next
  case False
  then obtain i where "i \<in> set (start_queue it r sch)" "i \<in> set (least_loaded (available_workers it r))"
    by blast
  then have "\<exists>i \<in> set (start_queue it r sch). i \<in> set (least_loaded (available_workers it r))" by blast
  then obtain a j b where "start_queue it r sch = a @ j # b"
    "set a \<inter> set (least_loaded (available_workers it r)) = {}"
    "j \<in> set (least_loaded (available_workers it r))"
    by (elim split_list_first_propE) auto
  with select_worker_eligible[OF assms this] show ?thesis by blast
qed

text \<open>The queue is in step with the registry, or will be rebuilt by the next choice.\<close>

definition in_step :: "registry \<Rightarrow> round_robin_scheduler \<Rightarrow> bool" where
  "in_step r sch \<longleftrightarrow>
     queue sch = [] \<or> length (queue sch) \<noteq> card (active r) \<or> set (queue sch) = active r"

definition load_of :: "registry \<Rightarrow> worker_id \<Rightarrow> u32" where
  "load_of r w = (case workers r w of Some info \<Rightarrow> compute_load info | None \<Rightarrow> 0)"

lemma available_length:
  assumes "iterates it" "registry_ok r"
  shows "length (available_workers it r) = card (active r)"
  using available_ids[OF assms] by (metis distinct_card length_map)

lemma start_queue_in_step:
  assumes "iterates it" "registry_ok r" "in_step r sch"
  shows "set (start_queue it r sch) = active r" "length (start_queue it r sch) = card (active r)"
  using assms(3) available_ids[OF assms(1,2)] available_length[OF assms(1,2)]
  by (auto simp: start_queue_def in_step_def Let_def)

lemma active_available:
  assumes "iterates it" "registry_ok r"
  shows "active r = {} \<longleftrightarrow> available_workers it r = []"
  using available_ids(1)[OF assms] by (cases "available_workers it r") auto

lemma least_loaded_active:
  assumes "iterates it" "registry_ok r" "i \<in> set (least_loaded (available_workers it r))"
  shows "i \<in> active r" "v \<in> active r \<Longrightarrow> load_of r i \<le> load_of r v"
proof -
  let ?ws = "available_workers it r"
  from assms(3) obtain w where w: "w \<in> set ?ws" "wi_id w = i" "compute_load w = min_load ?ws"
    by (auto simp: least_loaded_def)
  then show "i \<in> active r" using available_ids(1)[OF assms(1,2)] by auto
  have ne: "?ws \<noteq> []" using w(1) by auto
  show "load_of r i \<le> load_of r v" if "v \<in> active r"
  proof -
    from that have "v \<in> wi_id ` set ?ws"
      using available_ids(1)[OF assms(1,2)] by simp
    then obtain u where u: "u \<in> set ?ws" "wi_id u = v" by blast
    with min_load_min(2)[OF ne u(1)] w available_in[OF assms(1,2)] show ?thesis
      by (auto simp: load_of_def)
  qed
qed

lemma least_loaded_nonempty: "ws \<noteq> [] \<Longrightarrow> least_loaded ws \<noteq> []"
  using min_load_min(1) by (auto simp: least_loaded_def filter_empty_conv)

text \<open>A choice in step: where the chosen worker stood, and that it moves to the back.\<close>

lemma select_worker_in_step:
  assumes "iterates it" "registry_ok r" "in_step r sch" "active r \<noteq> {}"
  obtains a i b where "start_queue it r sch = a @ i # b" "fst (select_worker it r sch) = Some i"
    "queue (snd (select_worker it r sch)) = b @ a @ [i]"
    "i \<in> set (least_loaded (available_workers it r))"
    "set a \<inter> set (least_loaded (available_workers it r)) = {}"
proof -
  let ?ws = "available_workers it r"
  have ne: "?ws \<noteq> []" using active_available[OF assms(1,2)] assms(4) by simp
  obtain j where "j \<in> set (least_loaded ?ws)" using least_loaded_nonempty[OF ne] by (cases "least_loaded ?ws") auto
  with least_loaded_active(1)[OF assms(1,2)] start_queue_in_step(1)[OF assms(1-3)]
  have "\<exists>i \<in> set (start_queue it r sch). i \<in> set (least_loaded ?ws)" by auto
  then obtain a i b where q: "start_queue it r sch = a @ i # b" "i \<in> set (least_loaded ?ws)"
    "set a \<inter> set (least_loaded ?ws) = {}"
    by (elim split_list_first_propE) auto
  with select_worker_eligible[OF ne q(1,3,2)] that show ?thesis by blast
qed

interpretation round_robin: scheduler_strategy "select_worker it"
  "\<lambda>r. iterates it \<and> registry_ok r" in_step load_of for it
proof
  fix r :: registry and s w v
  assume "iterates it \<and> registry_ok r"
  then have it: "iterates it" and ok: "registry_ok r" by auto
  show "fst (select_worker it r s) = None \<longleftrightarrow> active r = {}"
    using active_available[OF it ok] select_worker_some[of it r s] by (auto simp: select_worker_def)
  assume step: "in_step r s"
  show "in_step r (snd (select_worker it r s))"
  proof (cases "active r = {}")
    case True
    with step active_available[OF it ok] show ?thesis by (simp add: select_worker_def)
  next
    case False
    obtain a i b where "start_queue it r s = a @ i # b" "queue (snd (select_worker it r s)) = b @ a @ [i]"
      by (rule select_worker_in_step[OF it ok step False])
    with start_queue_in_step(1)[OF it ok step] show ?thesis by (auto simp: in_step_def)
  qed
  assume sel: "fst (select_worker it r s) = Some w"
  then have ne: "active r \<noteq> {}"
    using active_available[OF it ok] by (auto simp: select_worker_def)
  have w: "w \<in> set (least_loaded (available_workers it r))"
    by (rule select_worker_in_step[OF it ok step ne]) (use sel in simp)
  then show "w \<in> active r" by (rule least_loaded_active(1)[OF it ok])
  show "load_of r w \<le> load_of r v" if "v \<in> active r"
    by (rule least_loaded_active(2)[OF it ok w that])
qed

text \<open>When all loads are equal, the choice is the head of the queue.\<close>

definition even_load :: "registry \<Rightarrow> bool" where
  "even_load r \<longleftrightarrow> (\<forall>v \<in> active r. \<forall>w \<in> active r. load_of r v = load_of r w)"

lemma even_least_loaded:
  assumes "iterates it" "registry_ok r" "even_load r"
  shows "set (least_loaded (available_workers it r)) = active r"
proof (cases "available_workers it r = []")
  case True
  with active_available[OF assms(1,2)] show ?thesis by (simp add: least_loaded_def)
next
  case False
  let ?ws = "available_workers it r"
  obtain w where w: "w \<in> set ?ws" "compute_load w = min_load ?ws"
    using min_load_min(1)[OF False] by blast
  have load: "load_of r (wi_id u) = compute_load u" "wi_id u \<in> active r" if "u \<in> set ?ws" for u
    using that available_in[OF assms(1,2), of u] by (auto simp: load_of_def active_def)
  have "compute_load u = min_load ?ws" if "u \<in> set ?ws" for u
    using assms(3) load[OF that] load[OF w(1)] w(2) unfolding even_load_def by metis
  then have "least_loaded ?ws = map wi_id ?ws"
    by (simp add: least_loaded_def)
  with available_ids(1)[OF assms(1,2)] show ?thesis by simp
qed

lemma even_select:
  assumes "iterates it" "registry_ok r" "even_load r" "in_step r sch" "start_queue it r sch = i # q"
  shows "fst (select_worker it r sch) = Some i" "start_queue it r (snd (select_worker it r sch)) = q @ [i]"
    "in_step r (snd (select_worker it r sch))"
proof -
  have act: "i \<in> active r"
    using start_queue_in_step(1)[OF assms(1,2,4)] assms(5) by auto
  then have ne: "available_workers it r \<noteq> []"
    using active_available[OF assms(1,2)] by auto
  note sel = select_worker_eligible[OF ne, of sch "[]" i q]
  show one: "fst (select_worker it r sch) = Some i"
    using sel(1) assms(5) act even_least_loaded[OF assms(1-3)] by simp
  have q: "queue (snd (select_worker it r sch)) = q @ [i]"
    using sel(2) assms(5) act even_least_loaded[OF assms(1-3)] by simp
  have "length (q @ [i]) = length (available_workers it r)"
    using start_queue_in_step(2)[OF assms(1,2,4)] assms(5) available_length[OF assms(1,2)] by simp
  with q show "start_queue it r (snd (select_worker it r sch)) = q @ [i]"
    by (simp add: start_queue_def)
  show "in_step r (snd (select_worker it r sch))"
    using q start_queue_in_step(1)[OF assms(1,2,4)] assms(5) by (auto simp: in_step_def)
qed

lemma even_select_many:
  assumes "iterates it" "registry_ok r" "even_load r"
  shows "in_step r sch \<Longrightarrow> start_queue it r sch = a @ b \<Longrightarrow>
    fst (select_many (select_worker it r) (length a) sch) = map Some a"
proof (induction a arbitrary: b sch)
  case Nil
  then show ?case by simp
next
  case (Cons i a)
  have q: "start_queue it r sch = i # a @ b" using Cons.prems(2) by simp
  note sel = even_select[OF assms Cons.prems(1) q]
  obtain w sch' where s: "select_worker it r sch = (w, sch')" by (cases "select_worker it r sch")
  with sel Cons.IH[of sch' "b @ [i]"] show ?case by (auto split: prod.splits)
qed

section \<open>Properties\<close>

text \<open>
  Claim C18. The scheduler chooses a worker exactly when one is available. If its queue lists
  the available workers (or has another length than their number, so that it is rebuilt), the
  chosen worker is available, none of the available workers has a smaller load, and the queue
  lists the available workers again.
\<close>

theorem round_robin_choice:
  assumes "iterates it" "registry_ok r" "in_step r sch"
  shows "case select_worker it r sch of
     (None, sch') \<Rightarrow> active r = {} \<and> in_step r sch'
   | (Some w, sch') \<Rightarrow> w \<in> active r \<and> (\<forall>v \<in> active r. load_of r w \<le> load_of r v) \<and> in_step r sch'"
proof (cases "select_worker it r sch")
  case (Pair sel sch')
  have valid: "iterates it \<and> registry_ok r" using assms by simp
  show ?thesis
    using Pair round_robin.select_none[OF valid, of sch] round_robin.select_active[OF valid assms(3)]
      round_robin.select_least[OF valid assms(3)] round_robin.select_in_step[OF valid assms(3)]
    by (auto split: option.splits)
qed

definition example_worker :: "worker_id \<Rightarrow> worker_status \<Rightarrow> worker_info" where
  "example_worker w st = \<lparr>wi_id = w, wi_address = ''127.0.0.1:9100'', wi_status = st,
     wi_last_heartbeat = 0, wi_metrics = default_worker_metrics\<rparr>"

definition example_registry :: registry where
  "example_registry = \<lparr>workers = [1 \<mapsto> example_worker 1 WS_Active, 2 \<mapsto> example_worker 2 WS_Active]\<rparr>"

lemma example_registry_ok: "registry_ok example_registry"
  by (auto simp: registry_ok_def example_registry_def example_worker_def split: if_splits)

lemma example_active: "active example_registry = {1, 2}"
  by (auto simp: active_def example_registry_def example_worker_def split: if_splits)

lemma example_even: "even_load example_registry"
  unfolding even_load_def example_active
  by (simp add: load_of_def example_registry_def example_worker_def compute_load_def)

lemma in_step_default: "in_step r default_scheduler"
  by (simp add: in_step_def default_scheduler_def)

theorem round_robin_choice_witness:
  "\<exists>w sch'. select_worker key_order example_registry default_scheduler = (Some w, sch') \<and> w \<in> {1, 2}"
  using round_robin_choice[OF iterates_key_order example_registry_ok in_step_default]
  by (auto simp: example_active split: prod.splits option.splits)

text \<open>
  When all available workers report the same load, as many choices as there are
  available workers choose each of them exactly once.
\<close>

theorem round_robin_fair:
  assumes "iterates it" "registry_ok r" "in_step r sch" "even_load r"
  shows "\<exists>ids. fst (select_many (select_worker it r) (card (active r)) sch) = map Some ids \<and>
    distinct ids \<and> set ids = active r"
proof -
  let ?q = "start_queue it r sch"
  note q = start_queue_in_step[OF assms(1-3)]
  have "distinct ?q" using q by (simp add: card_distinct)
  moreover have "fst (select_many (select_worker it r) (length ?q) sch) = map Some ?q"
    using even_select_many[OF assms(1,2,4,3), of ?q "[]"] by simp
  ultimately show ?thesis using q by auto
qed

theorem round_robin_fair_witness:
  "\<exists>ids. fst (select_many (select_worker key_order example_registry) 2 default_scheduler) = map Some ids \<and>
    distinct ids \<and> set ids = {1, 2}"
proof -
  have "card {1, 2 :: worker_id} = 2" by simp
  then show ?thesis
    using round_robin_fair[OF iterates_key_order example_registry_ok in_step_default example_even]
    by (simp only: example_active)
qed

text \<open>
  The queue is rebuilt only when its length differs from the number of available
  workers, so it can go stale: once the only worker is replaced by another one (it went down,
  and a new one registered), the scheduler keeps choosing the worker that is gone.
\<close>

theorem stale_queue_chosen:
  assumes "iterates it" "registry_ok r" "active r = {a}" "queue sch = [d]" "d \<noteq> a"
  shows "fst (select_many (select_worker it r) n sch) = replicate n (Some d)"
  using assms(4)
proof (induction n arbitrary: sch)
  case 0
  then show ?case by simp
next
  case (Suc n)
  have len: "length (available_workers it r) = 1"
    using available_length[OF assms(1,2)] assms(3) by simp
  have ne: "available_workers it r \<noteq> []" using len by auto
  have start: "start_queue it r sch = [d]"
    using Suc.prems len by (simp add: start_queue_def)
  have "set (least_loaded (available_workers it r)) \<subseteq> {a}"
    using least_loaded_active(1)[OF assms(1,2)] assms(3) by auto
  with select_worker_fallback[OF ne start] assms(5)
  have "fst (select_worker it r sch) = Some d" "queue (snd (select_worker it r sch)) = [d]"
    by auto
  with Suc.IH[of "snd (select_worker it r sch)"] show ?case
    by (cases "select_worker it r sch") (auto split: prod.splits)
qed

theorem stale_queue_chosen_witness:
  "fst (select_many (select_worker key_order \<lparr>workers = [1 \<mapsto> example_worker 1 WS_Down, 2 \<mapsto> example_worker 2 WS_Active]\<rparr>)
      3 \<lparr>cursor = 0, queue = [1]\<rparr>) = [Some 1, Some 1, Some 1]"
proof -
  let ?r = "\<lparr>workers = [1 \<mapsto> example_worker 1 WS_Down, 2 \<mapsto> example_worker 2 WS_Active]\<rparr> :: registry"
  have "registry_ok ?r" by (auto simp: registry_ok_def example_worker_def split: if_splits)
  moreover have "active ?r = {2}" by (auto simp: active_def example_worker_def split: if_splits)
  ultimately show ?thesis
    using stale_queue_chosen[OF iterates_key_order, of ?r 2 "\<lparr>cursor = 0, queue = [1]\<rparr>" 1 3]
    by (simp add: numeral_3_eq_3)
qed

end
