(* ===== verification/Engine_Error.thy ===== *)
theory Engine_Error
  imports Prelude
begin

text \<open>
  The errors of the worker side: one datatype per \<open>thiserror\<close> enum of the sources, and the
  dynamic \<open>anyhow::Error\<close> that carries them, with the text each of them displays (the
  executor puts that text into the status of a failed task). An input/output or JSON error
  comes with the message its library gives it.
\<close>

datatype filter_error = UnknownPredicate string | InvalidPredicate string

datatype map_error = UnknownFunction string

datatype flat_map_error = UnknownOperation string | ExpectedObject

datatype reduce_error =
    UnknownReducer string
  | ExpectedNumeric string
  | ReduceMissingKey string
  | UnsupportedReducer string

datatype join_error =
    WrongInputCount nat
  | NonObject
  | JoinMissingKey string
  | InvalidKey

datatype shuffle_error = InvalidPartitions

datatype error =
    IoError string
  | SerdeError string
  | Message string
  | Context string error
  | FilterE filter_error
  | MapE map_error
  | FlatMapE flat_map_error
  | ReduceE reduce_error
  | JoinE join_error
  | ShuffleE shuffle_error

definition quote1 :: "string \<Rightarrow> string" where
  "quote1 s = [CHR 0x27] @ s @ [CHR 0x27]"

definition quote2 :: "string \<Rightarrow> string" where
  "quote2 s = [CHR 0x22] @ s @ [CHR 0x22]"

fun show_filter_error :: "filter_error \<Rightarrow> string" where
  "show_filter_error (UnknownPredicate p) = ''unknown predicate: '' @ p"
| "show_filter_error (InvalidPredicate p) = ''invalid predicate: '' @ p"

fun show_map_error :: "map_error \<Rightarrow> string" where
  "show_map_error (UnknownFunction f) = ''unknown map function: '' @ f"

fun show_flat_map_error :: "flat_map_error \<Rightarrow> string" where
  "show_flat_map_error (UnknownOperation f) = ''flat_map: unknown operation '' @ quote1 f"
| "show_flat_map_error ExpectedObject = ''flat_map: expected object for operation''"

fun show_reduce_error :: "reduce_error \<Rightarrow> string" where
  "show_reduce_error (UnknownReducer r) = ''reduce: unknown reducer '' @ quote1 r"
| "show_reduce_error (ExpectedNumeric f) = ''reduce: expected numeric field '' @ quote1 f"
| "show_reduce_error (ReduceMissingKey k) = ''reduce_by_key: missing key field '' @ quote1 k"
| "show_reduce_error (UnsupportedReducer r) = ''reduce_by_key: unsupported reducer '' @ quote1 r"

fun show_join_error :: "join_error \<Rightarrow> string" where
  "show_join_error (WrongInputCount n) =
     ''JoinOp requires exactly two input partitions (received '' @ show_nat n @ '')''"
| "show_join_error NonObject = ''JoinOp: record is not an object''"
| "show_join_error (JoinMissingKey k) = ''JoinOp: missing key '' @ quote2 k"
| "show_join_error InvalidKey = ''JoinOp: join key must be string or number''"

fun show_shuffle_error :: "shuffle_error \<Rightarrow> string" where
  "show_shuffle_error InvalidPartitions = ''shuffle: total_partitions must be > 0''"

text \<open>The text of \<open>{err}\<close>: for an error with a context, the context alone.\<close>

fun show_error :: "error \<Rightarrow> string" where
  "show_error (IoError m) = m"
| "show_error (SerdeError m) = m"
| "show_error (Message m) = m"
| "show_error (Context c e) = c"
| "show_error (FilterE e) = show_filter_error e"
| "show_error (MapE e) = show_map_error e"
| "show_error (FlatMapE e) = show_flat_map_error e"
| "show_error (ReduceE e) = show_reduce_error e"
| "show_error (JoinE e) = show_join_error e"
| "show_error (ShuffleE e) = show_shuffle_error e"

text \<open>\<open>with_context\<close>: an error gets a new outermost message.\<close>

fun res_context :: "string \<Rightarrow> (error, 'a) res \<Rightarrow> (error, 'a) res" where
  "res_context c (Ok x) = Ok x"
| "res_context c (Err e) = Err (Context c e)"
| "res_context c Panic = Panic"

end
