(* ===== verification/Dag.thy ===== *)
theory Dag
  imports Types Engine_Error
begin

text \<open>
  Job descriptions and their translation into tasks: \<open>src/src/common/dag.rs\<close>.

  \<open>ordered_nodes\<close> is Kahn's algorithm on the ids of the nodes. Its queue starts with the ids
  without incoming edges in the iteration order of a hash map, which is the argument \<open>it\<close>
  here; the loop runs on fuel, one unit per node or edge and one more, and
  \<open>kahn_terminates\<close> shows that this is enough for every graph. The lemmas show that the
  loop numbers every id once, never before one of its parents (\<open>kahn_inv\<close>), and that on an
  acyclic graph it reaches every node.
\<close>

section \<open>Descriptions\<close>

record dag_node =
  node_id :: string
  node_operator :: operator_type

record dag_edge =
  edge_from :: string
  edge_to :: string

record dag_specification =
  dag_nodes :: "dag_node list"
  dag_edges :: "dag_edge list"
  dag_partitions :: nat

record stage =
  stg_stage_id :: stage_id
  stg_nodes :: "dag_node list"
  stg_partitions :: nat

section \<open>Validation\<close>

definition incoming_count :: "dag_specification \<Rightarrow> string \<Rightarrow> nat" where
  "incoming_count d i = length (filter (\<lambda>e. edge_to e = i) (dag_edges d))"

fun is_join :: "operator_type \<Rightarrow> bool" where
  "is_join (OT_Join _ _) = True"
| "is_join _ = False"

fun validate_nodes :: "dag_specification \<Rightarrow> dag_node list \<Rightarrow> (error, unit) res" where
  "validate_nodes d [] = Ok ()"
| "validate_nodes d (n # ns) =
     (if is_join (node_operator n) \<and> incoming_count d (node_id n) \<noteq> 2
      then Err (Message (''join node '' @ quote1 (node_id n) @ '' must have exactly 2 parents (found ''
             @ show_nat (incoming_count d (node_id n)) @ '')''))
      else validate_nodes d ns)"

definition validate :: "dag_specification \<Rightarrow> (error, unit) res" where
  "validate d = validate_nodes d (dag_nodes d)"

section \<open>Topological order\<close>

type_synonym counts = "string \<rightharpoonup> nat"
type_synonym children = "string \<rightharpoonup> string list"

definition count_edge :: "dag_edge \<Rightarrow> counts \<times> children \<Rightarrow> counts \<times> children" where
  "count_edge e = (\<lambda>(inc, out).
     (inc(edge_to e \<mapsto> (case inc (edge_to e) of None \<Rightarrow> 0 | Some c \<Rightarrow> c) + 1),
      out(edge_from e \<mapsto> (case out (edge_from e) of None \<Rightarrow> [] | Some l \<Rightarrow> l) @ [edge_to e])))"

definition initial_counts :: "dag_node list \<Rightarrow> counts" where
  "initial_counts ns = map_of (map (\<lambda>n. (node_id n, 0)) ns)"

definition relax_child :: "string \<Rightarrow> counts \<times> string list \<Rightarrow> counts \<times> string list" where
  "relax_child c = (\<lambda>(inc, q).
     case inc c of
       None \<Rightarrow> (inc, q)
     | Some n \<Rightarrow> (inc(c \<mapsto> n - 1), if n - 1 = 0 then q @ [c] else q))"

fun kahn :: "nat \<Rightarrow> children \<Rightarrow> counts \<Rightarrow> string list \<Rightarrow> string list \<Rightarrow> string list option" where
  "kahn 0 out inc q acc = None"
| "kahn (Suc fuel) out inc [] acc = Some acc"
| "kahn (Suc fuel) out inc (i # q) acc =
     (case out i of
        None \<Rightarrow> kahn fuel out inc q (acc @ [i])
      | Some cs \<Rightarrow> (let (inc', q') = fold relax_child cs (inc, q)
                   in kahn fuel out inc' q' (acc @ [i])))"

definition kahn_fuel :: "dag_specification \<Rightarrow> nat" where
  "kahn_fuel d = Suc (length (dag_nodes d) + length (dag_edges d))"

definition kahn_run :: "(counts \<Rightarrow> (string \<times> nat) list) \<Rightarrow> dag_specification \<Rightarrow> string list option" where
  "kahn_run it d =
     (let (inc, out) = fold count_edge (dag_edges d) (initial_counts (dag_nodes d), Map.empty);
          queue = map fst (filter (\<lambda>(i, c). c = 0) (it inc))
      in kahn (kahn_fuel d) out inc queue [])"

definition append_missing :: "dag_node list \<Rightarrow> string list \<Rightarrow> string list" where
  "append_missing ns ids =
     fold (\<lambda>n acc. if node_id n \<in> set acc then acc else acc @ [node_id n]) ns ids"

definition ordered_ids :: "(counts \<Rightarrow> (string \<times> nat) list) \<Rightarrow> dag_specification \<Rightarrow> string list" where
  "ordered_ids it d =
     append_missing (dag_nodes d) (case kahn_run it d of None \<Rightarrow> [] | Some ids \<Rightarrow> ids)"

definition find_node :: "dag_node list \<Rightarrow> string \<Rightarrow> dag_node option" where
  "find_node ns i = find (\<lambda>n. node_id n = i) ns"

definition ordered_nodes ::
    "(counts \<Rightarrow> (string \<times> nat) list) \<Rightarrow> dag_specification \<Rightarrow> dag_node list" where
  "ordered_nodes it d =
     (if dag_edges d = [] then dag_nodes d
      else List.map_filter (find_node (dag_nodes d)) (ordered_ids it d))"

section \<open>Stages and tasks\<close>

definition to_stages :: "(counts \<Rightarrow> (string \<times> nat) list) \<Rightarrow> dag_specification \<Rightarrow> stage list" where
  "to_stages it d =
     map (\<lambda>(idx, n). \<lparr>stg_stage_id = idx, stg_nodes = [n], stg_partitions = dag_partitions d\<rparr>)
       (enumerate 0 (ordered_nodes it d))"

fun read_of :: "operator_type \<Rightarrow> (string \<times> string) option" where
  "read_of (OT_Read uri fmt) = Some (uri, fmt)"
| "read_of _ = None"

fun find_map :: "('a \<Rightarrow> 'b option) \<Rightarrow> 'a list \<Rightarrow> 'b option" where
  "find_map f [] = None"
| "find_map f (x # xs) = (case f x of Some y \<Rightarrow> Some y | None \<Rightarrow> find_map f xs)"

definition read_source :: "dag_specification \<Rightarrow> (string \<times> string) option" where
  "read_source d = find_map (\<lambda>n. read_of (node_operator n)) (dag_nodes d)"

fun is_shuffle_on :: "string \<Rightarrow> operator_type \<Rightarrow> bool" where
  "is_shuffle_on k (OT_ShuffleByKey k' _) = (k' = k)"
| "is_shuffle_on k _ = False"

definition shuffle_node_id :: "string \<Rightarrow> string" where
  "shuffle_node_id i = ''__shuffle_'' @ i @ ''__''"

definition inject_node :: "nat \<Rightarrow> dag_node \<Rightarrow> dag_node list \<Rightarrow> dag_node list" where
  "inject_node parts n out =
     (case node_operator n of
        OT_ReduceByKey key _ \<Rightarrow>
          (let has_shuffle_before = (out \<noteq> [] \<and> is_shuffle_on key (node_operator (last out)))
           in if has_shuffle_before then out @ [n]
              else out @ [\<lparr>node_id = shuffle_node_id (node_id n),
                           node_operator = OT_ShuffleByKey key parts\<rparr>, n])
      | _ \<Rightarrow> out @ [n])"

definition inject_local_shuffle :: "nat \<Rightarrow> dag_node list \<Rightarrow> dag_node list" where
  "inject_local_shuffle parts ns = fold (inject_node parts) ns []"

definition show_edge :: "dag_edge \<Rightarrow> string" where
  "show_edge e = edge_from e @ ''->'' @ edge_to e"

definition incoming_edges_of :: "dag_specification \<Rightarrow> string \<Rightarrow> string list" where
  "incoming_edges_of d i = map show_edge (filter (\<lambda>e. edge_to e = i) (dag_edges d))"

definition stable_id_input :: "nat \<Rightarrow> nat \<Rightarrow> string" where
  "stable_id_input st p = show_nat st @ ''-'' @ show_nat p"

definition final_stage :: "(counts \<Rightarrow> (string \<times> nat) list) \<Rightarrow> dag_specification \<Rightarrow> nat" where
  "final_stage it d = length (inject_local_shuffle (dag_partitions d) (ordered_nodes it d)) - 1"

definition materialize_tasks ::
    "uuid_api \<Rightarrow> (counts \<Rightarrow> (string \<times> nat) list) \<Rightarrow> dag_specification \<Rightarrow> job_id \<Rightarrow> task list" where
  "materialize_tasks U it d job =
     (case read_source d of
        None \<Rightarrow> []
      | Some (uri, fmt) \<Rightarrow>
          (let nodes = inject_local_shuffle (dag_partitions d) (ordered_nodes it d);
               operators = map node_operator nodes;
               operator_ids = map node_id nodes;
               incoming = map (incoming_edges_of d) operator_ids;
               last_stage = length operators - 1
           in if operators = [] then []
              else map (\<lambda>p.
                \<lparr>task_id = new_v5 U job (stable_id_input last_stage p),
                 task_job_id = job, task_stage_id = last_stage, task_attempt = 0,
                 task_operator = last operators, task_operators = operators,
                 task_operator_ids = operator_ids, task_incoming_edges = incoming,
                 task_partition = p, task_input_uri = uri, task_input_format = fmt,
                 task_total_partitions = dag_partitions d\<rparr>) [0..<dag_partitions d]))"

section \<open>Lemmas\<close>

subsection \<open>Kahn's algorithm\<close>

text \<open>The edges as pairs of ids.\<close>

definition edge_pairs :: "dag_specification \<Rightarrow> (string \<times> string) list" where
  "edge_pairs d = map (\<lambda>e. (edge_from e, edge_to e)) (dag_edges d)"

definition successors :: "(string \<times> string) list \<Rightarrow> string \<Rightarrow> string list" where
  "successors es u = map snd (filter (\<lambda>e. fst e = u) es)"

text \<open>Edges into \<open>v\<close> from ids that are not numbered yet.\<close>

definition remaining :: "(string \<times> string) list \<Rightarrow> string list \<Rightarrow> string \<Rightarrow> nat" where
  "remaining es ds v = length (filter (\<lambda>(u, w). w = v \<and> u \<notin> set ds) es)"

definition known_ids :: "dag_specification \<Rightarrow> string set" where
  "known_ids d = node_id ` set (dag_nodes d) \<union> snd ` set (edge_pairs d)"

text \<open>Every parent of a numbered id is numbered before it.\<close>

definition topological :: "(string \<times> string) list \<Rightarrow> string list \<Rightarrow> bool" where
  "topological es ds \<longleftrightarrow>
     (\<forall>i < length ds. \<forall>u. (u, ds ! i) \<in> set es \<longrightarrow> u \<in> set (take i ds))"

definition kahn_inv ::
    "(string \<times> string) list \<Rightarrow> string set \<Rightarrow> string list \<Rightarrow> string list \<Rightarrow> counts \<Rightarrow> bool" where
  "kahn_inv es ids ds q inc \<longleftrightarrow>
     distinct (ds @ q) \<and> set (ds @ q) \<subseteq> ids \<and>
     (\<forall>v. inc v = (if v \<in> ids then Some (remaining es ds v) else None)) \<and>
     (\<forall>v \<in> ids. v \<in> set (ds @ q) \<longleftrightarrow> remaining es ds v = 0) \<and>
     topological es ds"

lemma fold_relax_child:
  assumes "\<And>c. c \<in> set cs \<Longrightarrow> \<exists>n. inc c = Some n \<and> count_list cs c \<le> n"
  shows "\<exists>new. fold relax_child cs (inc, q) =
           (\<lambda>v. map_option (\<lambda>n. n - count_list cs v) (inc v), q @ new) \<and>
         distinct new \<and> set new = {v \<in> set cs. inc v = Some (count_list cs v)}"
  using assms
proof (induction cs arbitrary: inc q)
  case Nil
  then show ?case by (simp add: option.map_ident)
next
  case (Cons c cs)
  from Cons.prems[of c] obtain n where n: "inc c = Some n" "Suc (count_list cs c) \<le> n"
    by auto
  define inc1 where "inc1 = inc(c \<mapsto> n - 1)"
  define q1 where "q1 = (if n - 1 = 0 then q @ [c] else q)"
  have "\<And>v. v \<in> set cs \<Longrightarrow> \<exists>k. inc1 v = Some k \<and> count_list cs v \<le> k"
    using Cons.prems n by (force simp: inc1_def split: if_splits)
  from Cons.IH[OF this, of q1] obtain new where
    eq: "fold relax_child cs (inc1, q1) =
           (\<lambda>v. map_option (\<lambda>n. n - count_list cs v) (inc1 v), q1 @ new)"
    and new: "distinct new" "set new = {v \<in> set cs. inc1 v = Some (count_list cs v)}"
    by blast
  have step: "relax_child c (inc, q) = (inc1, q1)"
    by (simp add: relax_child_def n inc1_def q1_def)
  have counts: "(\<lambda>v. map_option (\<lambda>n. n - count_list cs v) (inc1 v)) =
      (\<lambda>v. map_option (\<lambda>n. n - count_list (c # cs) v) (inc v))"
    using n by (auto simp: inc1_def fun_eq_iff)
  show ?case
  proof (cases "n = 1")
    case True
    with n have cnt: "count_list cs c = 0" by simp
    then have c: "c \<notin> set cs" by (simp add: count_list_0_iff)
    have "set (c # new) = {v \<in> set (c # cs). inc v = Some (count_list (c # cs) v)}"
      unfolding list.set new(2) using n(1) cnt c True by (auto simp: inc1_def)
    moreover have "distinct (c # new)" using new c by simp
    moreover have "fold relax_child (c # cs) (inc, q) =
        (\<lambda>v. map_option (\<lambda>n. n - count_list (c # cs) v) (inc v), q @ c # new)"
      using eq step counts True by (simp add: q1_def)
    ultimately show ?thesis by blast
  next
    case False
    have mem: "count_list cs c = n - 1 \<Longrightarrow> c \<in> set cs"
      using False n(2) count_list_0_iff[of cs c] by auto
    have "set new = {v \<in> set (c # cs). inc v = Some (count_list (c # cs) v)}"
      unfolding new(2) using n mem by (auto simp: inc1_def)
    moreover have "fold relax_child (c # cs) (inc, q) =
        (\<lambda>v. map_option (\<lambda>n. n - count_list (c # cs) v) (inc v), q @ new)"
      using eq step counts False n(2) by (simp add: q1_def)
    ultimately show ?thesis using new(1) by blast
  qed
qed

lemma remaining_snoc:
  "i \<notin> set ds \<Longrightarrow> remaining es ds v = remaining es (ds @ [i]) v + count_list (successors es i) v"
  by (induction es) (auto simp: remaining_def successors_def)

lemma topological_snoc:
  assumes "topological es ds" "remaining es ds i = 0"
  shows "topological es (ds @ [i])"
  using assms
  by (auto simp: topological_def remaining_def nth_append filter_empty_conv less_Suc_eq)

lemma kahn_inv_step:
  assumes inv: "kahn_inv es ids ds (i # q) inc"
    and targets: "snd ` set es \<subseteq> ids"
  shows "\<exists>new inc'. fold relax_child (successors es i) (inc, q) = (inc', q @ new) \<and>
           kahn_inv es ids (ds @ [i]) (q @ new) inc'"
proof -
  let ?cs = "successors es i"
  from inv have i: "i \<notin> set ds" "i \<notin> set q" "i \<in> ids" "remaining es ds i = 0"
    and inc: "\<And>v. inc v = (if v \<in> ids then Some (remaining es ds v) else None)"
    and zero: "\<And>v. v \<in> ids \<Longrightarrow> v \<in> set (ds @ i # q) \<longleftrightarrow> remaining es ds v = 0"
    by (auto simp: kahn_inv_def)
  note split = remaining_snoc[OF i(1), of es]
  have cs: "set ?cs \<subseteq> ids" using targets by (auto simp: successors_def)
  have "\<And>c. c \<in> set ?cs \<Longrightarrow> \<exists>n. inc c = Some n \<and> count_list ?cs c \<le> n"
    using cs inc split by auto
  from fold_relax_child[OF this, of q] obtain new where
    eq: "fold relax_child ?cs (inc, q) =
           (\<lambda>v. map_option (\<lambda>n. n - count_list ?cs v) (inc v), q @ new)"
    and new: "distinct new" "set new = {v \<in> set ?cs. inc v = Some (count_list ?cs v)}"
    by blast
  have new_iff: "v \<in> set new \<longleftrightarrow> v \<in> set ?cs \<and> remaining es (ds @ [i]) v = 0" for v
    using new(2) cs inc split[of v] by auto
  have fresh: "v \<in> set new \<Longrightarrow> v \<notin> set (ds @ i # q)" for v
  proof -
    assume "v \<in> set new"
    then have "v \<in> ids" "0 < count_list ?cs v"
      using new(2) cs count_list_0_iff[of ?cs v] by auto
    with zero[of v] split[of v] show "v \<notin> set (ds @ i # q)" by auto
  qed
  have "kahn_inv es ids (ds @ [i]) (q @ new) (\<lambda>v. map_option (\<lambda>n. n - count_list ?cs v) (inc v))"
    unfolding kahn_inv_def
  proof (intro conjI ballI allI)
    show "distinct ((ds @ [i]) @ q @ new)"
      using inv new(1) fresh by (auto simp: kahn_inv_def)
    show "set ((ds @ [i]) @ q @ new) \<subseteq> ids"
      using inv new(2) cs by (auto simp: kahn_inv_def)
    show "map_option (\<lambda>n. n - count_list ?cs v) (inc v) =
        (if v \<in> ids then Some (remaining es (ds @ [i]) v) else None)" for v
      using inc split[of v] by simp
    show "v \<in> set ((ds @ [i]) @ q @ new) \<longleftrightarrow> remaining es (ds @ [i]) v = 0" if "v \<in> ids" for v
      using zero[OF that] split[of v] new_iff[of v] count_list_0_iff[of ?cs v] by auto
    show "topological es (ds @ [i])"
      using inv i(4) by (auto simp: kahn_inv_def intro: topological_snoc)
  qed
  with eq show ?thesis by blast
qed

lemma kahn_correct:
  assumes "kahn_inv es ids ds q inc" "snd ` set es \<subseteq> ids" "finite ids"
    and "\<And>u. (case out u of None \<Rightarrow> [] | Some cs \<Rightarrow> cs) = successors es u"
    and "card ids - length ds < fuel"
  shows "\<exists>r inc'. kahn fuel out inc q ds = Some r \<and> kahn_inv es ids r [] inc'"
  using assms
proof (induction fuel arbitrary: inc q ds)
  case 0
  then show ?case by simp
next
  case (Suc fuel)
  show ?case
  proof (cases q)
    case Nil
    with Suc.prems(1) show ?thesis by auto
  next
    case (Cons i q')
    from kahn_inv_step[OF Suc.prems(1)[unfolded Cons] Suc.prems(2)] obtain new inc' where
      eq: "fold relax_child (successors es i) (inc, q') = (inc', q' @ new)"
      and inv: "kahn_inv es ids (ds @ [i]) (q' @ new) inc'"
      by blast
    have unfold: "kahn (Suc fuel) out inc q ds = kahn fuel out inc' (q' @ new) (ds @ [i])"
      using eq Suc.prems(4)[of i] Cons by (auto split: option.splits)
    have "length (ds @ [i]) \<le> card ids"
      using inv Suc.prems(3) unfolding kahn_inv_def
      by (metis card_mono distinct_append distinct_card le_sup_iff set_append)
    then have "card ids - length (ds @ [i]) < fuel" using Suc.prems(5) by simp
    from Suc.IH[OF inv Suc.prems(2,3,4) this] unfold show ?thesis by simp
  qed
qed

lemma count_edge_eq:
  "count_edge e (inc, out) =
     (inc(edge_to e \<mapsto> (case inc (edge_to e) of None \<Rightarrow> 0 | Some c \<Rightarrow> c) + 1),
      out(edge_from e \<mapsto> (case out (edge_from e) of None \<Rightarrow> [] | Some l \<Rightarrow> l) @ [edge_to e]))"
  by (simp add: count_edge_def)

lemma fold_count_edge:
  "fold count_edge es (inc, out) =
    ((\<lambda>v. if v \<in> edge_to ` set es
          then Some ((case inc v of None \<Rightarrow> 0 | Some c \<Rightarrow> c) + count_list (map edge_to es) v)
          else inc v),
     (\<lambda>u. if u \<in> edge_from ` set es
          then Some ((case out u of None \<Rightarrow> [] | Some l \<Rightarrow> l)
                 @ map edge_to (filter (\<lambda>e. edge_from e = u) es))
          else out u))"
proof (induction es arbitrary: inc out)
  case Nil
  then show ?case by simp
next
  case (Cons e es)
  have "v \<notin> edge_to ` set es \<Longrightarrow> count_list (map edge_to es) v = 0" for v
    by (simp add: count_list_0_iff)
  moreover have "u \<notin> edge_from ` set es \<Longrightarrow> filter (\<lambda>e. edge_from e = u) es = []" for u
    by (auto simp: filter_empty_conv)
  ultimately show ?case
    by (auto simp: count_edge_eq Cons.IH fun_eq_iff)
qed

lemma kahn_start:
  assumes "fold count_edge (dag_edges d) (initial_counts (dag_nodes d), Map.empty) = (inc, out)"
    and "enumerates xs inc"
  shows "kahn_inv (edge_pairs d) (known_ids d) [] (map fst (filter (\<lambda>(i, c). c = 0) xs)) inc"
    and "(case out u of None \<Rightarrow> [] | Some cs \<Rightarrow> cs) = successors (edge_pairs d) u"
proof -
  have inc: "inc = (\<lambda>v. if v \<in> edge_to ` set (dag_edges d)
      then Some ((case initial_counts (dag_nodes d) v of None \<Rightarrow> 0 | Some c \<Rightarrow> c)
             + count_list (map edge_to (dag_edges d)) v)
      else initial_counts (dag_nodes d) v)"
    and out: "out = (\<lambda>u. if u \<in> edge_from ` set (dag_edges d)
      then Some (map edge_to (filter (\<lambda>e. edge_from e = u) (dag_edges d))) else None)"
    using assms(1) by (auto simp: fold_count_edge intro!: ext)
  have init: "initial_counts ns v = (if v \<in> node_id ` set ns then Some 0 else None)" for ns v
    by (induction ns) (auto simp: initial_counts_def)
  have "remaining (map (\<lambda>e. (edge_from e, edge_to e)) es) [] v = count_list (map edge_to es) v"
    for es v
    by (induction es) (auto simp: remaining_def)
  then have rem: "remaining (edge_pairs d) [] v = count_list (map edge_to (dag_edges d)) v" for v
    by (simp add: edge_pairs_def)
  have ids: "known_ids d = node_id ` set (dag_nodes d) \<union> edge_to ` set (dag_edges d)"
    by (simp add: known_ids_def edge_pairs_def image_image)
  have inc': "inc v = (if v \<in> known_ids d then Some (remaining (edge_pairs d) [] v) else None)" for v
    using count_list_0_iff[of "map edge_to (dag_edges d)" v]
    by (auto simp: inc init rem ids split: if_splits)
  have zero: "v \<in> fst ` set (filter (\<lambda>(i, c). c = 0) xs) \<longleftrightarrow> inc v = Some 0" for v
    unfolding enumerates_set[OF assms(2), symmetric] by (auto simp: image_iff)
  have "distinct (map fst (filter (\<lambda>(i, c). c = 0) xs))"
    using assms(2) by (auto simp: enumerates_def distinct_map intro: inj_on_subset)
  moreover have "fst ` set (filter (\<lambda>(i, c). c = 0) xs) \<subseteq> known_ids d"
    using zero inc' by (metis option.distinct(1) subsetI)
  ultimately show
    "kahn_inv (edge_pairs d) (known_ids d) [] (map fst (filter (\<lambda>(i, c). c = 0) xs)) inc"
    using zero inc' by (simp add: kahn_inv_def topological_def del: set_filter)
  show "(case out u of None \<Rightarrow> [] | Some cs \<Rightarrow> cs) = successors (edge_pairs d) u"
    by (auto simp: out successors_def edge_pairs_def filter_map comp_def filter_empty_conv)
qed

lemma finite_known_ids [simp]: "finite (known_ids d)"
  by (simp add: known_ids_def)

lemma card_known_ids: "card (known_ids d) \<le> length (dag_nodes d) + length (dag_edges d)"
proof -
  have "card (node_id ` set (dag_nodes d)) \<le> length (dag_nodes d)"
    by (meson card_image_le card_length finite_set le_trans)
  moreover have "card (snd ` set (edge_pairs d)) \<le> length (dag_edges d)"
    by (metis (no_types, lifting) card_image_le card_length edge_pairs_def finite_set le_trans length_map)
  ultimately show ?thesis
    unfolding known_ids_def by (meson add_mono card_Un_le le_trans)
qed

lemma kahn_run_correct:
  assumes "iterates it"
  shows "\<exists>r inc. kahn_run it d = Some r \<and> kahn_inv (edge_pairs d) (known_ids d) r [] inc"
proof -
  obtain inc out where io:
    "fold count_edge (dag_edges d) (initial_counts (dag_nodes d), Map.empty) = (inc, out)"
    by (meson surj_pair)
  have "finite (dom (initial_counts (dag_nodes d)))"
    by (simp add: initial_counts_def finite_dom_map_of)
  moreover have "dom inc \<subseteq> edge_to ` set (dag_edges d) \<union> dom (initial_counts (dag_nodes d))"
    using io by (auto simp: fold_count_edge split: if_splits)
  ultimately have "enumerates (it inc) inc"
    using assms by (meson finite_Un finite_imageI finite_set finite_subset iterates_def)
  note start = kahn_start[OF io this]
  have "card (known_ids d) - length [] < kahn_fuel d"
    using card_known_ids[of d] by (simp add: kahn_fuel_def)
  moreover have "snd ` set (edge_pairs d) \<subseteq> known_ids d" by (auto simp: known_ids_def)
  ultimately show ?thesis
    using kahn_correct[OF start(1) _ _ start(2)] io by (simp add: kahn_run_def)
qed

lemma kahn_complete:
  assumes inv: "kahn_inv es ids ds [] inc" and acyclic: "acyclic (set es)"
    and closed: "fst ` set es \<subseteq> ids"
  shows "set ds = ids"
proof (rule ccontr)
  assume "set ds \<noteq> ids"
  with inv obtain x where "x \<in> ids - set ds" by (auto simp: kahn_inv_def)
  moreover have "wf (set es)" using acyclic by (simp add: finite_acyclic_wf)
  ultimately obtain v where v: "v \<in> ids - set ds"
    and min: "\<And>u. (u, v) \<in> set es \<Longrightarrow> u \<notin> ids - set ds"
    by (metis wfE_min)
  have "remaining es ds v = 0"
    using min closed by (force simp: remaining_def filter_empty_conv)
  with v inv show False by (auto simp: kahn_inv_def)
qed

subsection \<open>The list of nodes\<close>

lemma append_missing_eq:
  "\<exists>rest. append_missing ns ids = ids @ rest \<and> distinct rest \<and> set rest \<inter> set ids = {} \<and>
     set rest = node_id ` set ns - set ids"
proof (induction ns arbitrary: ids)
  case Nil
  then show ?case by (simp add: append_missing_def)
next
  case (Cons n ns)
  define ids1 where "ids1 = (if node_id n \<in> set ids then ids else ids @ [node_id n])"
  from Cons.IH[of ids1] obtain rest where
    r: "append_missing ns ids1 = ids1 @ rest" "distinct rest" "set rest \<inter> set ids1 = {}"
      "set rest = node_id ` set ns - set ids1"
    by blast
  have "append_missing (n # ns) ids = append_missing ns ids1"
    by (simp add: append_missing_def ids1_def)
  with r show ?case
    by (cases "node_id n \<in> set ids") (auto simp: ids1_def)
qed

lemma find_node_Some: "find_node ns i = Some n \<Longrightarrow> n \<in> set ns \<and> node_id n = i"
  by (auto simp: find_node_def find_Some_iff in_set_conv_nth)

lemma find_node_exists: "i \<in> node_id ` set ns \<longleftrightarrow> find_node ns i \<noteq> None"
  by (auto simp: find_node_def find_None_iff)

lemma find_node_distinct:
  "distinct (map node_id ns) \<Longrightarrow> n \<in> set ns \<Longrightarrow> find_node ns (node_id n) = Some n"
  by (metis (no_types, lifting) distinct_map find_node_Some find_node_exists imageI inj_onD not_Some_eq)

lemma map_filter_find_ids:
  "map node_id (List.map_filter (find_node ns) ids) = filter (\<lambda>i. i \<in> node_id ` set ns) ids"
proof (induction ids)
  case Nil
  then show ?case by simp
next
  case (Cons i ids)
  then show ?case
    using find_node_exists[of i ns] find_node_Some[of ns i]
    by (cases "find_node ns i") auto
qed

lemma ordered_ids_distinct:
  assumes "iterates it"
  shows "distinct (ordered_ids it d)" and "node_id ` set (dag_nodes d) \<subseteq> set (ordered_ids it d)"
proof -
  from kahn_run_correct[OF assms] obtain r inc where
    r: "kahn_run it d = Some r" "kahn_inv (edge_pairs d) (known_ids d) r [] inc"
    by blast
  from append_missing_eq[of "dag_nodes d" r] obtain rest where
    a: "append_missing (dag_nodes d) r = r @ rest" "distinct rest" "set rest \<inter> set r = {}"
      "set rest = node_id ` set (dag_nodes d) - set r"
    by blast
  then show "distinct (ordered_ids it d)"
    and "node_id ` set (dag_nodes d) \<subseteq> set (ordered_ids it d)"
    using r by (auto simp: ordered_ids_def kahn_inv_def)
qed

lemma ordered_nodes_mset:
  assumes "iterates it" "distinct (map node_id (dag_nodes d))"
  shows "mset (ordered_nodes it d) = mset (dag_nodes d)"
proof (cases "dag_edges d = []")
  case True
  then show ?thesis by (simp add: ordered_nodes_def)
next
  case False
  let ?ns = "dag_nodes d" and ?ids = "ordered_ids it d"
  have on: "ordered_nodes it d = List.map_filter (find_node ?ns) ?ids"
    using False by (simp add: ordered_nodes_def)
  have "distinct (map node_id (ordered_nodes it d))"
    using ordered_ids_distinct[OF assms(1), of d] by (simp add: on map_filter_find_ids)
  then have "distinct (ordered_nodes it d)" by (simp add: distinct_map)
  moreover have "distinct ?ns" using assms(2) by (simp add: distinct_map)
  moreover have "set (ordered_nodes it d) = set ?ns"
  proof
    show "set (ordered_nodes it d) \<subseteq> set ?ns"
      by (auto simp: on List.map_filter_def dest: find_node_Some)
    show "set ?ns \<subseteq> set (ordered_nodes it d)"
    proof
      fix n assume n: "n \<in> set ?ns"
      then have "find_node ?ns (node_id n) = Some n" by (rule find_node_distinct[OF assms(2)])
      moreover have "node_id n \<in> set ?ids"
        using ordered_ids_distinct(2)[OF assms(1), of d] n by auto
      ultimately show "n \<in> set (ordered_nodes it d)"
        by (force simp: on List.map_filter_def)
    qed
  qed
  ultimately show ?thesis by (simp add: set_eq_iff_mset_eq_distinct)
qed

definition well_formed :: "dag_specification \<Rightarrow> bool" where
  "well_formed d \<longleftrightarrow>
     distinct (map node_id (dag_nodes d)) \<and>
     fst ` set (edge_pairs d) \<union> snd ` set (edge_pairs d) \<subseteq> node_id ` set (dag_nodes d) \<and>
     acyclic (set (edge_pairs d))"

lemma ordered_nodes_topological_ids:
  assumes "iterates it" "well_formed d"
  shows "topological (edge_pairs d) (map node_id (ordered_nodes it d))"
proof (cases "dag_edges d = []")
  case True
  then show ?thesis by (simp add: topological_def edge_pairs_def)
next
  case False
  from kahn_run_correct[OF assms(1)] obtain r inc where
    r: "kahn_run it d = Some r" "kahn_inv (edge_pairs d) (known_ids d) r [] inc"
    by blast
  have ids: "known_ids d = node_id ` set (dag_nodes d)"
    using assms(2) by (auto simp: known_ids_def well_formed_def)
  have "set r = known_ids d"
    using kahn_complete[OF r(2)] assms(2) ids by (auto simp: well_formed_def)
  with append_missing_eq[of "dag_nodes d" r] have "ordered_ids it d = r"
    using r(1) ids by (auto simp: ordered_ids_def)
  then have "map node_id (ordered_nodes it d) = r"
    using False \<open>set r = known_ids d\<close> ids
    by (simp add: ordered_nodes_def map_filter_find_ids filter_id_conv)
  with r(2) show ?thesis by (simp add: kahn_inv_def)
qed

subsection \<open>Injected shuffles\<close>

fun reduce_key :: "operator_type \<Rightarrow> string option" where
  "reduce_key (OT_ReduceByKey k _) = Some k"
| "reduce_key _ = None"

lemma inject_node_cases:
  "inject_node parts n out = out @ [n] \<and>
     (\<forall>k. reduce_key (node_operator n) = Some k \<longrightarrow>
        out \<noteq> [] \<and> is_shuffle_on k (node_operator (last out))) \<or>
   (\<exists>k. reduce_key (node_operator n) = Some k \<and>
      inject_node parts n out =
        out @ [\<lparr>node_id = shuffle_node_id (node_id n), node_operator = OT_ShuffleByKey k parts\<rparr>, n])"
  by (cases "node_operator n") (auto simp: inject_node_def Let_def)

text \<open>Every reduction by key sits right behind a shuffle on its key.\<close>

definition shuffled_reductions :: "dag_node list \<Rightarrow> bool" where
  "shuffled_reductions ns \<longleftrightarrow>
     (\<forall>i < length ns. \<forall>k. reduce_key (node_operator (ns ! i)) = Some k \<longrightarrow>
        0 < i \<and> is_shuffle_on k (node_operator (ns ! (i - 1))))"

lemma shuffled_reductions_snoc:
  assumes "shuffled_reductions ns"
    and "\<And>k. reduce_key (node_operator n) = Some k \<Longrightarrow>
           ns \<noteq> [] \<and> is_shuffle_on k (node_operator (last ns))"
  shows "shuffled_reductions (ns @ [n])"
  using assms
  by (auto simp: shuffled_reductions_def nth_append less_Suc_eq last_conv_nth)

lemma inject_shuffled_aux:
  "shuffled_reductions out \<Longrightarrow> shuffled_reductions (fold (inject_node parts) ns out)"
proof (induction ns arbitrary: out)
  case Nil
  then show ?case by simp
next
  case (Cons n ns)
  have "shuffled_reductions (inject_node parts n out)"
    using inject_node_cases[of parts n out]
  proof (elim disjE conjE exE)
    fix k
    assume k: "reduce_key (node_operator n) = Some k"
      and eq: "inject_node parts n out = out @
        [\<lparr>node_id = shuffle_node_id (node_id n), node_operator = OT_ShuffleByKey k parts\<rparr>, n]"
    have "shuffled_reductions
        (out @ [\<lparr>node_id = shuffle_node_id (node_id n), node_operator = OT_ShuffleByKey k parts\<rparr>])"
      by (rule shuffled_reductions_snoc[OF Cons.prems]) simp
    from shuffled_reductions_snoc[OF this, of n] k eq show ?thesis by simp
  next
    assume "inject_node parts n out = out @ [n]"
      and "\<forall>k. reduce_key (node_operator n) = Some k \<longrightarrow>
        out \<noteq> [] \<and> is_shuffle_on k (node_operator (last out))"
    then show ?thesis using shuffled_reductions_snoc[OF Cons.prems, of n] by simp
  qed
  then show ?case by (simp add: Cons.IH)
qed

lemma inject_shuffled: "shuffled_reductions (inject_local_shuffle parts ns)"
  unfolding inject_local_shuffle_def
  by (rule inject_shuffled_aux) (simp add: shuffled_reductions_def)

fun is_shuffle :: "operator_type \<Rightarrow> bool" where
  "is_shuffle (OT_ShuffleByKey _ _) = True"
| "is_shuffle _ = False"

lemma is_shuffle_on_is_shuffle: "is_shuffle_on k op \<Longrightarrow> is_shuffle op"
  by (cases op) auto

lemma inject_length_aux:
  assumes "\<forall>n \<in> set ns. \<not> is_shuffle (node_operator n)"
    and "out = [] \<or> \<not> is_shuffle (node_operator (last out))"
  shows "length (fold (inject_node parts) ns out) =
    length out + length ns + length (filter (\<lambda>n. reduce_key (node_operator n) \<noteq> None) ns)"
  using assms
proof (induction ns arbitrary: out)
  case Nil
  then show ?case by simp
next
  case (Cons n ns)
  have last: "inject_node parts n out \<noteq> []" "last (inject_node parts n out) = n"
    using inject_node_cases[of parts n out] by auto
  have "length (inject_node parts n out) =
      length out + 1 + (if reduce_key (node_operator n) \<noteq> None then 1 else 0)"
    using inject_node_cases[of parts n out] Cons.prems(2)
      is_shuffle_on_is_shuffle[of _ "node_operator (last out)"]
    by (cases "reduce_key (node_operator n)") auto
  with Cons.IH[of "inject_node parts n out"] Cons.prems(1) last show ?case by simp
qed

text \<open>In a job without shuffles of its own, every reduction by key gets exactly one.\<close>

lemma inject_length:
  "\<forall>n \<in> set ns. \<not> is_shuffle (node_operator n) \<Longrightarrow>
   length (inject_local_shuffle parts ns) =
     size (mset ns) + size (filter_mset (\<lambda>n. reduce_key (node_operator n) \<noteq> None) (mset ns))"
  using inject_length_aux[of ns "[]"]
  by (simp add: inject_local_shuffle_def flip: size_mset mset_filter)

subsection \<open>Tasks\<close>

lemma inject_empty [simp]: "inject_local_shuffle p ns = [] \<longleftrightarrow> ns = []"
proof (cases ns rule: rev_cases)
  case (snoc ms n)
  then show ?thesis
    using inject_node_cases[of p n "fold (inject_node p) ms []"]
    by (auto simp: inject_local_shuffle_def)
qed (simp add: inject_local_shuffle_def)

lemma materialize_ids:
  "map task_id (materialize_tasks U it d job) =
     (if read_source d = None \<or> ordered_nodes it d = [] then []
      else map (\<lambda>p. new_v5 U job (stable_id_input (final_stage it d) p)) [0..<dag_partitions d])"
  by (auto simp: materialize_tasks_def final_stage_def Let_def split: option.splits)

lemma materialize_operators:
  "t \<in> set (materialize_tasks U it d job) \<Longrightarrow>
   task_operators t = map node_operator (inject_local_shuffle (dag_partitions d) (ordered_nodes it d))"
  by (auto simp: materialize_tasks_def Let_def split: option.splits if_splits)

lemma stable_id_input_inject:
  "stable_id_input a p = stable_id_input b q \<longleftrightarrow> a = b \<and> p = q"
proof -
  have "CHR ''-'' \<notin> set (show_nat n)" for n
    by (rule show_nat_no_char) (simp add: is_digit_def)
  then show ?thesis
    using separator_inject[of "show_nat a" "CHR ''-''" "show_nat p" "show_nat b" "show_nat q"]
    by (auto simp: stable_id_input_def)
qed

subsection \<open>An example: two branches that meet in a reduction\<close>

definition edge :: "string \<Rightarrow> string \<Rightarrow> dag_edge" where
  "edge a b = \<lparr>edge_from = a, edge_to = b\<rparr>"

definition node :: "string \<Rightarrow> operator_type \<Rightarrow> dag_node" where
  "node i op = \<lparr>node_id = i, node_operator = op\<rparr>"

definition example_dag :: dag_specification where
  "example_dag = \<lparr>
     dag_nodes =
       [node ''a'' (OT_Read ''left.csv'' ''csv''), node ''b'' (OT_Read ''right.csv'' ''csv''),
        node ''s'' (OT_ShuffleByKey ''k'' 2), node ''t'' (OT_Map ''identity''),
        node ''r'' (OT_ReduceByKey ''k'' ''count'')],
     dag_edges = [edge ''a'' ''s'', edge ''b'' ''t'', edge ''s'' ''r'', edge ''t'' ''r''],
     dag_partitions = 2\<rparr>"

definition example_counts :: "(string \<times> nat) list" where
  "example_counts = [(''a'', 0), (''b'', 0), (''s'', 1), (''t'', 1), (''r'', 2)]"

definition order_ab :: "counts \<Rightarrow> (string \<times> nat) list" where
  "order_ab = prefer_order example_counts"

definition order_ba :: "counts \<Rightarrow> (string \<times> nat) list" where
  "order_ba = prefer_order (rev example_counts)"

lemmas example_defs = example_dag_def node_def edge_def example_counts_def

lemma example_enumerates:
  assumes "set xs = set example_counts" "distinct (map fst xs)"
  shows "enumerates xs
    (fst (fold count_edge (dag_edges example_dag) (initial_counts (dag_nodes example_dag), Map.empty)))"
proof -
  have m: "fst (fold count_edge (dag_edges example_dag)
      (initial_counts (dag_nodes example_dag), Map.empty)) = map_of example_counts"
    by (auto simp: example_defs initial_counts_def count_edge_eq fun_eq_iff)
  have "map_of xs = map_of example_counts"
    using assms by (subst map_of_inject_set) (auto simp: example_counts_def)
  with m assms show ?thesis by (simp add: enumerates_def)
qed

lemma example_well_formed: "well_formed example_dag"
proof -
  have "acyclic (set (edge_pairs example_dag))"
    by (rule acyclic_by_rank[where f = "\<lambda>i. if i \<in> {''a'', ''b''} then 0 else if i = ''r'' then 2 else 1"])
      (auto simp: example_defs edge_pairs_def)
  then show ?thesis
    by (simp add: well_formed_def) (simp add: example_defs edge_pairs_def)
qed

lemma example_run:
  assumes "set xs = set example_counts" "distinct (map fst xs)"
  shows "kahn_run (prefer_order xs) example_dag =
    (let (inc, out) = fold count_edge (dag_edges example_dag)
           (initial_counts (dag_nodes example_dag), Map.empty)
     in kahn (kahn_fuel example_dag) out inc (map fst (filter (\<lambda>(i, c). c = 0) xs)) [])"
  using example_enumerates[OF assms]
  by (simp add: kahn_run_def prefer_order_def split_beta)

lemma example_runs:
  "kahn_run order_ab example_dag = Some [''a'', ''b'', ''s'', ''t'', ''r'']"
  "kahn_run order_ba example_dag = Some [''b'', ''a'', ''t'', ''s'', ''r'']"
  unfolding order_ab_def order_ba_def
  by (subst example_run, simp, simp add: example_counts_def rev_map[symmetric],
      simp add: example_defs initial_counts_def count_edge_eq relax_child_def kahn_fuel_def)+

lemma example_orders:
  "map node_id (ordered_nodes order_ab example_dag) = [''a'', ''b'', ''s'', ''t'', ''r'']"
  "map node_id (ordered_nodes order_ba example_dag) = [''b'', ''a'', ''t'', ''s'', ''r'']"
  by (simp_all add: ordered_nodes_def map_filter_find_ids ordered_ids_def example_runs)
    (simp_all add: example_defs append_missing_def)

lemma example_final_stage:
  "final_stage order_ab example_dag = 5" "final_stage order_ba example_dag = 4"
  by (simp_all add: final_stage_def ordered_nodes_def ordered_ids_def example_runs)
    (simp_all add: example_defs append_missing_def find_node_def inject_local_shuffle_def
      inject_node_def)

lemma example_operators:
  "map node_operator (inject_local_shuffle 2 (ordered_nodes order_ab example_dag)) =
     [OT_Read ''left.csv'' ''csv'', OT_Read ''right.csv'' ''csv'', OT_ShuffleByKey ''k'' 2,
      OT_Map ''identity'', OT_ShuffleByKey ''k'' 2, OT_ReduceByKey ''k'' ''count'']"
  by (simp add: ordered_nodes_def ordered_ids_def example_runs)
    (simp add: example_defs append_missing_def find_node_def inject_local_shuffle_def
      inject_node_def)

lemma example_source: "read_source example_dag \<noteq> None" "dag_partitions example_dag = 2"
  by (simp_all add: read_source_def example_defs)

lemma example_iterates: "iterates order_ab" "iterates order_ba"
  by (simp_all add: order_ab_def order_ba_def iterates_prefer_order)

section \<open>Properties\<close>

text \<open>
  The loop that orders the nodes of a job always ends: whatever the graph (cycles,
  edges to unknown ids, repeated ids) and whatever order the hash map is iterated in, one unit
  of fuel per node and edge and one more is enough.
\<close>

theorem kahn_terminates: "iterates it \<Longrightarrow> \<exists>ids. kahn_run it d = Some ids"
  using kahn_run_correct by blast

theorem kahn_terminates_witness: "\<exists>ids. kahn_run order_ba example_dag = Some ids"
  by (rule kahn_terminates[OF example_iterates(2)])

text \<open>
  Ordering neither loses nor repeats a node: if the ids are distinct, the ordered
  nodes are a permutation of the nodes of the job, even when the graph has a cycle.
\<close>

theorem ordered_nodes_permutation:
  assumes "iterates it" "distinct (map node_id (dag_nodes d))"
  shows "mset (ordered_nodes it d) = mset (dag_nodes d)"
  using assms by (rule ordered_nodes_mset)

theorem ordered_nodes_permutation_witness:
  "mset (ordered_nodes order_ab example_dag) = mset (dag_nodes example_dag)"
proof -
  have "distinct (map node_id (dag_nodes example_dag))" by (simp add: example_defs)
  then show ?thesis by (rule ordered_nodes_permutation[OF example_iterates(1)])
qed

text \<open>
  Claim C20. On an acyclic graph whose edges connect nodes of the job, the order is topological:
  every edge leads from an earlier node to a later one.
\<close>

theorem ordered_nodes_topological:
  assumes "iterates it" "well_formed d" "(u, v) \<in> set (edge_pairs d)"
  shows "\<exists>i j. i < j \<and> j < length (ordered_nodes it d) \<and>
           node_id (ordered_nodes it d ! i) = u \<and> node_id (ordered_nodes it d ! j) = v"
proof -
  let ?ids = "map node_id (ordered_nodes it d)"
  have "mset ?ids = mset (map node_id (dag_nodes d))"
    using ordered_nodes_mset[OF assms(1)] assms(2) by (simp add: well_formed_def)
  then have "set ?ids = set (map node_id (dag_nodes d))" by (rule mset_eq_setD)
  moreover have "v \<in> node_id ` set (dag_nodes d)"
    using assms(2) imageI[OF assms(3), of snd] by (auto simp: well_formed_def)
  ultimately have "v \<in> set ?ids" by simp
  then obtain j where j: "j < length ?ids" "?ids ! j = v" by (metis in_set_conv_nth)
  then have "u \<in> set (take j ?ids)"
    using ordered_nodes_topological_ids[OF assms(1,2)] assms(3) by (simp add: topological_def)
  then obtain i where "i < j" "?ids ! i = u" by (auto simp: in_set_conv_nth)
  with j show ?thesis by auto
qed

theorem ordered_nodes_topological_witness:
  "\<exists>i j. i < j \<and> j < length (ordered_nodes order_ba example_dag) \<and>
     node_id (ordered_nodes order_ba example_dag ! i) = ''s'' \<and>
     node_id (ordered_nodes order_ba example_dag ! j) = ''r''"
proof -
  have "(''s'', ''r'') \<in> set (edge_pairs example_dag)" by (simp add: example_defs edge_pairs_def)
  then show ?thesis by (rule ordered_nodes_topological[OF example_iterates(2) example_well_formed])
qed

text \<open>
  Claim C21. In every task of a job, each reduction by key is immediately preceded by a shuffle
  on the same key: one of the job's own, or one the planner has put there.
\<close>

theorem reductions_follow_shuffles:
  assumes "t \<in> set (materialize_tasks U it d job)" "i < length (task_operators t)"
    and "reduce_key (task_operators t ! i) = Some k"
  shows "0 < i \<and> is_shuffle_on k (task_operators t ! (i - 1))"
proof -
  let ?ns = "inject_local_shuffle (dag_partitions d) (ordered_nodes it d)"
  have "task_operators t = map node_operator ?ns"
    using assms(1) by (rule materialize_operators)
  with assms(2,3) show ?thesis
    using inject_shuffled[of "dag_partitions d" "ordered_nodes it d"]
    by (auto simp: shuffled_reductions_def)
qed

theorem reductions_follow_shuffles_witness:
  "\<exists>t. t \<in> set (materialize_tasks example_uuid_api order_ab example_dag 7) \<and>
     reduce_key (task_operators t ! 5) = Some ''k'' \<and> is_shuffle_on ''k'' (task_operators t ! 4)"
proof -
  have "ordered_nodes order_ab example_dag \<noteq> []" using example_orders(1) by auto
  then have "map task_id (materialize_tasks example_uuid_api order_ab example_dag 7) \<noteq> []"
    using example_source by (auto simp: materialize_ids)
  then obtain t where t: "t \<in> set (materialize_tasks example_uuid_api order_ab example_dag 7)"
    by fastforce
  then have "task_operators t =
     [OT_Read ''left.csv'' ''csv'', OT_Read ''right.csv'' ''csv'', OT_ShuffleByKey ''k'' 2,
      OT_Map ''identity'', OT_ShuffleByKey ''k'' 2, OT_ReduceByKey ''k'' ''count'']"
    using materialize_operators example_operators example_source(2) by metis
  with reductions_follow_shuffles[OF t, of 5 "''k''"] t show ?thesis by auto
qed

text \<open>
  A job that reads an input has one task per partition, numbered in order and with
  pairwise different identifiers, as long as version 5 identifiers of different names differ.
\<close>

theorem materialized_tasks_partition:
  assumes "read_source d \<noteq> None" "ordered_nodes it d \<noteq> []"
    and "inj_on (new_v5 U job) (stable_id_input (final_stage it d) ` {..<dag_partitions d})"
  shows "map task_partition (materialize_tasks U it d job) = [0..<dag_partitions d] \<and>
         distinct (map task_id (materialize_tasks U it d job))"
proof
  have ids: "map task_id (materialize_tasks U it d job) =
      map (\<lambda>p. new_v5 U job (stable_id_input (final_stage it d) p)) [0..<dag_partitions d]"
    using assms(1,2) by (auto simp: materialize_ids)
  show "distinct (map task_id (materialize_tasks U it d job))"
    unfolding ids using assms(3)
    by (auto simp: distinct_map inj_on_def stable_id_input_inject)
  show "map task_partition (materialize_tasks U it d job) = [0..<dag_partitions d]"
    using assms(1,2) by (auto simp: materialize_tasks_def Let_def comp_def)
qed

theorem materialized_tasks_partition_witness:
  "map task_partition (materialize_tasks example_uuid_api order_ab example_dag 7) = [0, 1] \<and>
   distinct (map task_id (materialize_tasks example_uuid_api order_ab example_dag 7))"
proof -
  have "ordered_nodes order_ab example_dag \<noteq> []" using example_orders(1) by auto
  moreover have "inj_on (new_v5 example_uuid_api 7)
      (stable_id_input (final_stage order_ab example_dag) ` {..<dag_partitions example_dag})"
    by (simp add: example_final_stage example_source(2) lessThan_nat_numeral
        stable_id_input_def show_nat.simps digit_char_def example_uuid_api_def lessThan_Suc)
  ultimately show ?thesis
    using materialized_tasks_partition[OF example_source(1), of order_ab example_uuid_api 7]
    by (simp add: example_source(2) upt_rec)
qed

text \<open>
  Claim C22. The identifiers of the tasks can be reconstructed: for a job with distinct node ids
  and no shuffle of its own they do not depend on the iteration order of the hash map, so a
  restarted master computes the same ones.
\<close>

theorem task_ids_stable:
  assumes "iterates it" "iterates it'" "distinct (map node_id (dag_nodes d))"
    and "\<forall>n \<in> set (dag_nodes d). \<not> is_shuffle (node_operator n)"
  shows "map task_id (materialize_tasks U it d job) = map task_id (materialize_tasks U it' d job)"
proof -
  have m: "mset (ordered_nodes it d) = mset (ordered_nodes it' d)"
    using ordered_nodes_mset assms by simp
  have sh: "\<forall>n \<in> set (ordered_nodes i d). \<not> is_shuffle (node_operator n)" if "iterates i" for i
    using assms(4) mset_eq_setD[OF ordered_nodes_mset[OF that assms(3)]] by simp
  have "length (inject_local_shuffle p (ordered_nodes it d)) =
      length (inject_local_shuffle p (ordered_nodes it' d))" for p
    using m by (simp add: inject_length[OF sh[OF assms(1)]] inject_length[OF sh[OF assms(2)]])
  moreover have "ordered_nodes it d = [] \<longleftrightarrow> ordered_nodes it' d = []"
    using m by (metis mset_zero_iff)
  ultimately show ?thesis by (simp add: materialize_ids final_stage_def)
qed

theorem task_ids_stable_witness:
  "map task_id (materialize_tasks example_uuid_api order_ab
      (example_dag\<lparr>dag_nodes := take 2 (dag_nodes example_dag)\<rparr>) 7) =
   map task_id (materialize_tasks example_uuid_api order_ba
      (example_dag\<lparr>dag_nodes := take 2 (dag_nodes example_dag)\<rparr>) 7)"
  by (rule task_ids_stable[OF example_iterates]) (simp_all add: example_defs)

text \<open>
  With a shuffle of its own a job can lose that stability: on the example job, two
  iteration orders of the same hash map number the stages differently and so give the same
  partitions different task identifiers.
\<close>

theorem task_ids_depend_on_hash_order:
  assumes "new_v5 U job (stable_id_input 4 0) \<noteq> new_v5 U job (stable_id_input 5 0)"
  shows "iterates order_ab \<and> iterates order_ba \<and> well_formed example_dag \<and>
    map task_id (materialize_tasks U order_ab example_dag job) \<noteq>
    map task_id (materialize_tasks U order_ba example_dag job)"
proof -
  have "ordered_nodes order_ab example_dag \<noteq> []" "ordered_nodes order_ba example_dag \<noteq> []"
    using example_orders by auto
  then show ?thesis
    using assms example_well_formed example_iterates example_source
    by (auto simp: materialize_ids example_final_stage upt_rec)
qed

theorem task_ids_depend_on_hash_order_witness:
  "map task_id (materialize_tasks example_uuid_api order_ab example_dag 7) \<noteq>
   map task_id (materialize_tasks example_uuid_api order_ba example_dag 7)"
proof -
  have "new_v5 example_uuid_api 7 (stable_id_input 4 0) \<noteq> new_v5 example_uuid_api 7 (stable_id_input 5 0)"
    by (simp add: stable_id_input_def show_nat.simps digit_char_def example_uuid_api_def)
  from task_ids_depend_on_hash_order[OF this] show ?thesis by simp
qed

end
