(* ===== verification/State_Store.thy ===== *)
theory State_Store
  imports Dag "HOL-Library.Countable"
begin

text \<open>
  \<open>src/src/common/state_store.rs\<close>: the tables in which the master keeps its state. A table is a
  map from the text of its primary key to a row; the statements of the source are inserts that
  update on conflict. The JSON texts in the rows are written and read by the functions of
  \<open>codec\<close>; the order in which a query returns rows is the argument \<open>it\<close>. A database that
  refuses to work is one with a \<open>db_fault\<close>; \<open>foreign_keys\<close> tells whether the database
  enforces the reference from tasks to jobs.

  \<open>codec_ok\<close> names what is relied on: what is written can be read back, and identifiers
  print differently and parse back. The lemmas show that the tables implement maps from
  identifiers to values (\<open>jobs_rep\<close>, \<open>tasks_rep\<close>).
\<close>

section \<open>The tables\<close>

record codec =
  enc_job_status :: "job_status \<Rightarrow> string"
  dec_job_status :: "string \<Rightarrow> string + job_status"
  enc_dag :: "dag_specification \<Rightarrow> string"
  dec_dag :: "string \<Rightarrow> string + dag_specification"
  enc_task_status :: "task_status \<Rightarrow> string"
  dec_task_status :: "string \<Rightarrow> string + task_status"
  enc_result :: "task_result \<Rightarrow> string"
  dec_result :: "string \<Rightarrow> string + task_result"
  enc_job_metrics :: "job_metrics \<Rightarrow> string"
  enc_stage_metrics :: "stage_metrics \<Rightarrow> string"
  enc_worker_status :: "worker_status \<Rightarrow> string"
  enc_worker_metrics :: "worker_metrics \<Rightarrow> string"
  enc_outputs :: "string list \<Rightarrow> string"

record job_row =
  jr_status :: string
  jr_dag :: string

record task_row =
  tr_job_id :: string
  tr_status :: string
  tr_result :: "string option"

record job_status_row =
  js_state :: string
  js_progress :: flt
  js_metrics :: string
  js_error :: string
  js_outputs :: string

record stage_status_row =
  ss_status :: string
  ss_metrics :: string

record worker_row =
  wr_last_heartbeat :: nat
  wr_status :: string
  wr_metrics :: string

record state_store =
  jobs_tbl :: "string \<rightharpoonup> job_row"
  tasks_tbl :: "string \<rightharpoonup> task_row"
  job_status_tbl :: "string \<rightharpoonup> job_status_row"
  stage_status_tbl :: "string \<times> int \<rightharpoonup> stage_status_row"
  worker_metrics_tbl :: "string \<rightharpoonup> worker_row"
  db_fault :: "string option"
  foreign_keys :: bool

type_synonym db_result = "(error, unit) res \<times> state_store"

definition empty_store :: state_store where
  "empty_store = \<lparr>jobs_tbl = Map.empty, tasks_tbl = Map.empty, job_status_tbl = Map.empty,
     stage_status_tbl = Map.empty, worker_metrics_tbl = Map.empty, db_fault = None,
     foreign_keys = True\<rparr>"

text \<open>A transaction: it fails as a whole, or its statement takes effect.\<close>

definition transaction :: "(state_store \<Rightarrow> db_result) \<Rightarrow> state_store \<Rightarrow> db_result" where
  "transaction f db = (case db_fault db of Some msg \<Rightarrow> (Err (Message msg), db) | None \<Rightarrow> f db)"

section \<open>Writing\<close>

definition persist_job ::
    "uuid_api \<Rightarrow> codec \<Rightarrow> job_id \<Rightarrow> dag_specification \<Rightarrow> job_status \<Rightarrow> state_store \<Rightarrow> db_result" where
  "persist_job U C job dag status = transaction (\<lambda>db.
     (Ok (), db\<lparr>jobs_tbl := (jobs_tbl db)(uuid_to_string U job \<mapsto>
        \<lparr>jr_status = enc_job_status C status, jr_dag = enc_dag C dag\<rparr>)\<rparr>))"

definition persist_job_status :: "uuid_api \<Rightarrow> codec \<Rightarrow> job_id \<Rightarrow> job_status \<Rightarrow> flt \<Rightarrow> job_metrics \<Rightarrow>
    string option \<Rightarrow> string list \<Rightarrow> state_store \<Rightarrow> db_result" where
  "persist_job_status U C job state progress metrics err outputs = transaction (\<lambda>db.
     (Ok (), db\<lparr>job_status_tbl := (job_status_tbl db)(uuid_to_string U job \<mapsto>
        \<lparr>js_state = enc_job_status C state, js_progress = flt_convert f64 progress,
         js_metrics = enc_job_metrics C metrics,
         js_error = (case err of None \<Rightarrow> [] | Some e \<Rightarrow> e),
         js_outputs = enc_outputs C outputs\<rparr>)\<rparr>))"

definition persist_stage_status :: "uuid_api \<Rightarrow> codec \<Rightarrow> job_id \<Rightarrow> nat \<Rightarrow> job_status \<Rightarrow> stage_metrics \<Rightarrow>
    state_store \<Rightarrow> db_result" where
  "persist_stage_status U C job stage status metrics = transaction (\<lambda>db.
     (Ok (), db\<lparr>stage_status_tbl := (stage_status_tbl db)((uuid_to_string U job, sint (of_nat stage :: 64 word)) \<mapsto>
        \<lparr>ss_status = enc_job_status C status, ss_metrics = enc_stage_metrics C metrics\<rparr>)\<rparr>))"

text \<open>\<open>strftime('%s','now')\<close>: whole seconds.\<close>

definition persist_worker_metrics :: "system_time \<Rightarrow> uuid_api \<Rightarrow> codec \<Rightarrow> worker_id \<Rightarrow> worker_status \<Rightarrow>
    worker_metrics \<Rightarrow> state_store \<Rightarrow> db_result" where
  "persist_worker_metrics now U C w status metrics = transaction (\<lambda>db.
     (Ok (), db\<lparr>worker_metrics_tbl := (worker_metrics_tbl db)(uuid_to_string U w \<mapsto>
        \<lparr>wr_last_heartbeat = now div 1000000000, wr_status = enc_worker_status C status,
         wr_metrics = enc_worker_metrics C metrics\<rparr>)\<rparr>))"

text \<open>The statement on a task: an update leaves the job of the row alone, an insert has to name a job.\<close>

definition upsert_task :: "string \<Rightarrow> string \<Rightarrow> (task_row option \<Rightarrow> task_row) \<Rightarrow> state_store \<Rightarrow> db_result" where
  "upsert_task key job f db =
     (if tasks_tbl db key = None \<and> foreign_keys db \<and> jobs_tbl db job = None
      then (Err (Message ''FOREIGN KEY constraint failed''), db)
      else (Ok (), db\<lparr>tasks_tbl := (tasks_tbl db)(key \<mapsto> f (tasks_tbl db key))\<rparr>))"

definition persist_task_status ::
    "uuid_api \<Rightarrow> codec \<Rightarrow> task_id \<Rightarrow> job_id \<Rightarrow> task_status \<Rightarrow> state_store \<Rightarrow> db_result" where
  "persist_task_status U C tid job status = transaction
     (upsert_task (uuid_to_string U tid) (uuid_to_string U job) (\<lambda>row.
        case row of
          None \<Rightarrow> \<lparr>tr_job_id = uuid_to_string U job, tr_status = enc_task_status C status, tr_result = None\<rparr>
        | Some r \<Rightarrow> r\<lparr>tr_status := enc_task_status C status\<rparr>))"

definition persist_task_result :: "uuid_api \<Rightarrow> codec \<Rightarrow> task_result \<Rightarrow> state_store \<Rightarrow> db_result" where
  "persist_task_result U C result = transaction
     (upsert_task (uuid_to_string U (res_task_id result)) (uuid_to_string U (res_job_id result)) (\<lambda>row.
        case row of
          None \<Rightarrow> \<lparr>tr_job_id = uuid_to_string U (res_job_id result),
                   tr_status = enc_task_status C (res_status result),
                   tr_result = Some (enc_result C result)\<rparr>
        | Some r \<Rightarrow> r\<lparr>tr_status := enc_task_status C (res_status result),
                      tr_result := Some (enc_result C result)\<rparr>))"

section \<open>Loading\<close>

definition parse_id :: "uuid_api \<Rightarrow> string \<Rightarrow> (error, uuid) res" where
  "parse_id U s = (case parse_uuid U s of None \<Rightarrow> Err (Message ''invalid uuid'') | Some u \<Rightarrow> Ok u)"

fun decoded :: "string + 'a \<Rightarrow> (error, 'a) res" where
  "decoded (Inl msg) = Err (SerdeError msg)"
| "decoded (Inr v) = Ok v"

definition load_job :: "uuid_api \<Rightarrow> codec \<Rightarrow> string \<times> job_row \<Rightarrow>
    (error, job_id \<times> job_status \<times> dag_specification) res" where
  "load_job U C = (\<lambda>(key, row).
     res_bind (parse_id U key) (\<lambda>job.
     res_bind (decoded (dec_job_status C (jr_status row))) (\<lambda>status.
     res_bind (decoded (dec_dag C (jr_dag row))) (\<lambda>dag. Ok (job, status, dag)))))"

definition load_all_jobs :: "((string \<rightharpoonup> job_row) \<Rightarrow> (string \<times> job_row) list) \<Rightarrow> uuid_api \<Rightarrow> codec \<Rightarrow>
    state_store \<Rightarrow> (error, (job_id \<times> job_status \<times> dag_specification) list) res" where
  "load_all_jobs it U C db =
     (case db_fault db of
        Some msg \<Rightarrow> Err (Message msg)
      | None \<Rightarrow> res_mapM (load_job U C) (it (jobs_tbl db)))"

definition load_result :: "codec \<Rightarrow> string option \<Rightarrow> (error, task_result option) res" where
  "load_result C js =
     (case js of None \<Rightarrow> Ok None
      | Some s \<Rightarrow> res_bind (decoded (dec_result C s)) (\<lambda>r. Ok (Some r)))"

definition load_task :: "uuid_api \<Rightarrow> codec \<Rightarrow> string \<times> task_row \<Rightarrow>
    (error, task_id \<times> job_id \<times> task_status \<times> task_result option) res" where
  "load_task U C = (\<lambda>(key, row).
     res_bind (parse_id U key) (\<lambda>tid.
     res_bind (parse_id U (tr_job_id row)) (\<lambda>job.
     res_bind (decoded (dec_task_status C (tr_status row))) (\<lambda>status.
     res_bind (load_result C (tr_result row)) (\<lambda>result. Ok (tid, job, status, result))))))"

definition load_all_tasks :: "((string \<rightharpoonup> task_row) \<Rightarrow> (string \<times> task_row) list) \<Rightarrow> uuid_api \<Rightarrow> codec \<Rightarrow>
    state_store \<Rightarrow> (error, (task_id \<times> job_id \<times> task_status \<times> task_result option) list) res" where
  "load_all_tasks it U C db =
     (case db_fault db of
        Some msg \<Rightarrow> Err (Message msg)
      | None \<Rightarrow> res_mapM (load_task U C) (it (tasks_tbl db)))"

section \<open>The tables as maps\<close>

definition codec_ok :: "uuid_api \<Rightarrow> codec \<Rightarrow> bool" where
  "codec_ok U C \<longleftrightarrow>
     (\<forall>u. parse_uuid U (uuid_to_string U u) = Some u) \<and>
     (\<forall>x. dec_job_status C (enc_job_status C x) = Inr x) \<and>
     (\<forall>x. dec_dag C (enc_dag C x) = Inr x) \<and>
     (\<forall>x. dec_task_status C (enc_task_status C x) = Inr x) \<and>
     (\<forall>x. dec_result C (enc_result C x) = Inr x)"

type_synonym job_table = "job_id \<rightharpoonup> job_status \<times> dag_specification"
type_synonym task_table = "task_id \<rightharpoonup> job_id \<times> task_status \<times> task_result option"

definition enc_job :: "codec \<Rightarrow> job_status \<times> dag_specification \<Rightarrow> job_row" where
  "enc_job C = (\<lambda>(st, d). \<lparr>jr_status = enc_job_status C st, jr_dag = enc_dag C d\<rparr>)"

definition enc_task :: "uuid_api \<Rightarrow> codec \<Rightarrow> job_id \<times> task_status \<times> task_result option \<Rightarrow> task_row" where
  "enc_task U C = (\<lambda>(j, st, r). \<lparr>tr_job_id = uuid_to_string U j, tr_status = enc_task_status C st,
     tr_result = map_option (enc_result C) r\<rparr>)"

text \<open>A table of texts represents a map on identifiers.\<close>

definition represents :: "uuid_api \<Rightarrow> ('v \<Rightarrow> 'row) \<Rightarrow> (string \<rightharpoonup> 'row) \<Rightarrow> (uuid \<rightharpoonup> 'v) \<Rightarrow> bool" where
  "represents U enc tbl m \<longleftrightarrow>
     finite (dom m) \<and> dom tbl \<subseteq> range (uuid_to_string U) \<and>
     (\<forall>u. tbl (uuid_to_string U u) = map_option enc (m u))"

definition jobs_rep :: "uuid_api \<Rightarrow> codec \<Rightarrow> state_store \<Rightarrow> job_table \<Rightarrow> bool" where
  "jobs_rep U C db J \<longleftrightarrow> db_fault db = None \<and> represents U (enc_job C) (jobs_tbl db) J"

definition tasks_rep :: "uuid_api \<Rightarrow> codec \<Rightarrow> state_store \<Rightarrow> task_table \<Rightarrow> bool" where
  "tasks_rep U C db T \<longleftrightarrow> db_fault db = None \<and> represents U (enc_task U C) (tasks_tbl db) T"

lemma codec_inj: "codec_ok U C \<Longrightarrow> uuid_to_string U u = uuid_to_string U v \<longleftrightarrow> u = v"
  unfolding codec_ok_def by (metis option.inject)

lemma represents_empty: "represents U enc Map.empty Map.empty"
  by (simp add: represents_def)

lemma represents_update:
  assumes "codec_ok U C" "represents U enc tbl m"
  shows "represents U enc (tbl(uuid_to_string U u \<mapsto> enc v)) (m(u \<mapsto> v))"
  using assms by (auto simp: represents_def codec_inj)

lemma represents_lookup:
  "represents U enc tbl m \<Longrightarrow> tbl (uuid_to_string U u) = map_option enc (m u)"
  by (simp add: represents_def)

text \<open>The rows of a query are the entries of the map, each once.\<close>

lemma represents_rows:
  fixes tbl :: "string \<rightharpoonup> 'b"
  assumes rep: "represents U enc tbl m" and it: "iterates it" and ok: "codec_ok U C"
    and load: "\<And>u v. m u = Some v \<Longrightarrow> load (uuid_to_string U u, enc v) = Ok (g (u, v))"
  shows "\<exists>uvs. res_mapM load (it tbl) = Ok (map g uvs) \<and> enumerates uvs m"
proof -
  have fin: "finite (dom tbl)"
  proof (rule finite_subset)
    show "dom tbl \<subseteq> uuid_to_string U ` dom m"
    proof
      fix k assume k: "k \<in> dom tbl"
      with rep obtain u where u: "k = uuid_to_string U u" by (auto simp: represents_def)
      with k represents_lookup[OF rep, of u] have "u \<in> dom m" by (cases "m u") auto
      with u show "k \<in> uuid_to_string U ` dom m" by simp
    qed
    show "finite (uuid_to_string U ` dom m)"
      using rep by (simp add: represents_def)
  qed
  with it have en: "enumerates (it tbl) tbl" by (simp add: iterates_def)
  define dec where "dec = (\<lambda>kr :: string \<times> 'b. (the (parse_uuid U (fst kr)), the (m (the (parse_uuid U (fst kr))))))"
  have row: "\<exists>u v. m u = Some v \<and> kr = (uuid_to_string U u, enc v) \<and> dec kr = (u, v)"
    if "kr \<in> set (it tbl)" for kr
  proof -
    obtain k r where kr: "kr = (k, r)" by (cases kr)
    with that have tr: "tbl k = Some r" by (simp add: enumerates_set[OF en])
    then obtain u where u: "k = uuid_to_string U u" using rep by (auto simp: represents_def)
    with tr represents_lookup[OF rep, of u] obtain v where "m u = Some v" "r = enc v" by auto
    moreover have "parse_uuid U k = Some u" using ok u by (simp add: codec_ok_def)
    ultimately show ?thesis using u kr by (auto simp: dec_def)
  qed
  have "res_mapM load (it tbl) = Ok (map (g \<circ> dec) (it tbl))"
    by (rule res_mapM_total) (use row load in fastforce)
  moreover have "enumerates (map dec (it tbl)) m"
  proof -
    have eq: "map (uuid_to_string U) (map fst (map dec (it tbl))) = map fst (it tbl)"
      using row by fastforce
    have "distinct (map (uuid_to_string U) (map fst (map dec (it tbl))))"
      unfolding eq using en by (simp add: enumerates_def)
    then have dist: "distinct (map fst (map dec (it tbl)))"
      unfolding distinct_map[of "uuid_to_string U"] by (rule conjunct1)
    have "(u, v) \<in> set (map dec (it tbl)) \<longleftrightarrow> m u = Some v" for u v
    proof
      assume "(u, v) \<in> set (map dec (it tbl))"
      then show "m u = Some v" using row by fastforce
    next
      assume "m u = Some v"
      with represents_lookup[OF rep, of u] have "(uuid_to_string U u, enc v) \<in> set (it tbl)"
        by (simp add: enumerates_set[OF en])
      moreover have "dec (uuid_to_string U u, enc v) = (u, v)"
        using ok \<open>m u = Some v\<close> by (simp add: dec_def codec_ok_def)
      ultimately show "(u, v) \<in> set (map dec (it tbl))" by force
    qed
    with dist show ?thesis by (rule enumeratesI)
  qed
  ultimately show ?thesis by (intro exI[of _ "map dec (it tbl)"]) simp
qed

section \<open>The interface\<close>

text \<open>
  What the tables hold, as a specification: the jobs, the tasks, and whether a task may only
  refer to a known job. The writes of the master act on it as updates of maps.
\<close>

record store_view =
  view_jobs :: job_table
  view_tasks :: task_table
  view_foreign :: bool

datatype store_write =
    WriteJob job_id dag_specification job_status
  | WriteStatus task_id job_id task_status
  | WriteResult task_result

fun write_task :: "store_write \<Rightarrow> (task_id \<times> job_id) option" where
  "write_task (WriteJob _ _ _) = None"
| "write_task (WriteStatus tid job _) = Some (tid, job)"
| "write_task (WriteResult r) = Some (res_task_id r, res_job_id r)"

definition accepted :: "store_write \<Rightarrow> store_view \<Rightarrow> bool" where
  "accepted w v =
     (case write_task w of
        None \<Rightarrow> True
      | Some (tid, job) \<Rightarrow> view_tasks v tid \<noteq> None \<or> \<not> view_foreign v \<or> view_jobs v job \<noteq> None)"

text \<open>A task row keeps the job it was first written with, and its result when only the status changes.\<close>

fun view_write :: "store_write \<Rightarrow> store_view \<Rightarrow> store_view" where
  "view_write (WriteJob job dag st) v = v\<lparr>view_jobs := (view_jobs v)(job \<mapsto> (st, dag))\<rparr>"
| "view_write (WriteStatus tid job st) v =
     (if accepted (WriteStatus tid job st) v
      then v\<lparr>view_tasks := (view_tasks v)(tid \<mapsto>
             (case view_tasks v tid of None \<Rightarrow> (job, st, None) | Some (j, _, r) \<Rightarrow> (j, st, r)))\<rparr>
      else v)"
| "view_write (WriteResult res) v =
     (if accepted (WriteResult res) v
      then v\<lparr>view_tasks := (view_tasks v)(res_task_id res \<mapsto>
             ((case view_tasks v (res_task_id res) of None \<Rightarrow> res_job_id res | Some (j, _, _) \<Rightarrow> j),
              res_status res, Some res))\<rparr>
      else v)"

definition foreign_key_error :: error where
  "foreign_key_error = Message ''FOREIGN KEY constraint failed''"

locale durable_store =
  fixes view :: "'s \<Rightarrow> store_view \<Rightarrow> bool"
    and put :: "store_write \<Rightarrow> 's \<Rightarrow> (error, unit) res \<times> 's"
    and jobs :: "'s \<Rightarrow> (error, (job_id \<times> job_status \<times> dag_specification) list) res"
    and tasks :: "'s \<Rightarrow> (error, (task_id \<times> job_id \<times> task_status \<times> task_result option) list) res"
  assumes write_view: "view s v \<Longrightarrow> view (snd (put w s)) (view_write w v)"
    and write_outcome: "view s v \<Longrightarrow>
      fst (put w s) = (if accepted w v then Ok () else Err foreign_key_error)"
    and jobs_view: "view s v \<Longrightarrow> \<exists>js. jobs s = Ok js \<and> enumerates js (view_jobs v)"
    and tasks_view: "view s v \<Longrightarrow> \<exists>ts. tasks s = Ok ts \<and> enumerates ts (view_tasks v)"
begin

lemma writes_view: "view s v \<Longrightarrow> view (fold (\<lambda>w s. snd (put w s)) ws s) (fold view_write ws v)"
  by (induction ws arbitrary: s v) (auto intro: write_view)

lemma writes_loaded:
  assumes "view s v"
  shows "\<exists>js ts. jobs (fold (\<lambda>w s. snd (put w s)) ws s) = Ok js \<and>
     tasks (fold (\<lambda>w s. snd (put w s)) ws s) = Ok ts \<and>
     enumerates js (view_jobs (fold view_write ws v)) \<and>
     enumerates ts (view_tasks (fold view_write ws v))"
  using jobs_view[OF writes_view[OF assms]] tasks_view[OF writes_view[OF assms]] by blast

end

text \<open>The database implements it.\<close>

fun db_write :: "uuid_api \<Rightarrow> codec \<Rightarrow> store_write \<Rightarrow> state_store \<Rightarrow> db_result" where
  "db_write U C (WriteJob job dag st) = persist_job U C job dag st"
| "db_write U C (WriteStatus tid job st) = persist_task_status U C tid job st"
| "db_write U C (WriteResult r) = persist_task_result U C r"

definition db_view :: "uuid_api \<Rightarrow> codec \<Rightarrow> ((string \<rightharpoonup> job_row) \<Rightarrow> (string \<times> job_row) list) \<Rightarrow>
    ((string \<rightharpoonup> task_row) \<Rightarrow> (string \<times> task_row) list) \<Rightarrow> state_store \<Rightarrow> store_view \<Rightarrow> bool" where
  "db_view U C jit tit db v \<longleftrightarrow>
     codec_ok U C \<and> iterates jit \<and> iterates tit \<and> jobs_rep U C db (view_jobs v) \<and>
     tasks_rep U C db (view_tasks v) \<and> foreign_keys db = view_foreign v"

lemma db_view_lookup:
  assumes "db_view U C jit tit db v"
  shows "jobs_tbl db (uuid_to_string U j) = map_option (enc_job C) (view_jobs v j)"
    "tasks_tbl db (uuid_to_string U t) = map_option (enc_task U C) (view_tasks v t)"
    "db_fault db = None"
  using assms by (simp_all add: db_view_def jobs_rep_def tasks_rep_def represents_lookup)

lemma db_write_outcome:
  assumes "db_view U C jit tit db v"
  shows "fst (db_write U C w db) = (if accepted w v then Ok () else Err foreign_key_error)"
  using db_view_lookup[OF assms] assms
  by (cases w) (simp_all add: persist_job_def persist_task_status_def persist_task_result_def
      transaction_def upsert_task_def accepted_def foreign_key_error_def db_view_def)

lemma upsert_view:
  assumes v: "db_view U C jit tit db v"
    and acc: "view_tasks v tid \<noteq> None \<or> \<not> view_foreign v \<or> view_jobs v job \<noteq> None"
    and f: "f (map_option (enc_task U C) (view_tasks v tid)) = enc_task U C x"
  shows "db_view U C jit tit (snd (upsert_task (uuid_to_string U tid) (uuid_to_string U job) f db))
     (v\<lparr>view_tasks := (view_tasks v)(tid \<mapsto> x)\<rparr>)"
proof -
  from v have ok: "codec_ok U C"
    and rep: "represents U (enc_task U C) (tasks_tbl db) (view_tasks v)"
    by (simp_all add: db_view_def tasks_rep_def)
  from represents_update[OF ok rep, of tid x] v acc f db_view_lookup[OF v] show ?thesis
    by (auto simp: upsert_task_def db_view_def jobs_rep_def tasks_rep_def)
qed

lemma db_write_view:
  assumes v: "db_view U C jit tit db v"
  shows "db_view U C jit tit (snd (db_write U C w db)) (view_write w v)"
proof (cases "accepted w v")
  case False
  then have "view_write w v = v" by (cases w) (simp_all add: accepted_def)
  moreover have "snd (db_write U C w db) = db"
    using False db_view_lookup[OF v] v
    by (cases w) (simp_all add: persist_task_status_def persist_task_result_def
        transaction_def upsert_task_def accepted_def db_view_def)
  ultimately show ?thesis using v by simp
next
  case acc: True
  show ?thesis
  proof (cases w)
    case (WriteJob job dag st)
    from v have "codec_ok U C" "represents U (enc_job C) (jobs_tbl db) (view_jobs v)"
      by (simp_all add: db_view_def jobs_rep_def)
    from represents_update[OF this, of job "(st, dag)"] v WriteJob db_view_lookup(3)[OF v] show ?thesis
      by (simp add: persist_job_def transaction_def db_view_def jobs_rep_def tasks_rep_def enc_job_def)
  next
    case (WriteStatus tid job st)
    with acc show ?thesis
      using db_view_lookup[OF v]
      by (auto simp: persist_task_status_def transaction_def accepted_def enc_task_def
          intro!: upsert_view[OF v] split: option.splits)
  next
    case (WriteResult r)
    with acc show ?thesis
      using db_view_lookup[OF v]
      by (auto simp: persist_task_result_def transaction_def accepted_def enc_task_def
          intro!: upsert_view[OF v] split: option.splits)
  qed
qed

lemma load_job_enc: "codec_ok U C \<Longrightarrow> load_job U C (uuid_to_string U u, enc_job C x) = Ok (u, x)"
  by (cases x) (simp add: load_job_def enc_job_def codec_ok_def parse_id_def)

lemma load_task_enc: "codec_ok U C \<Longrightarrow> load_task U C (uuid_to_string U u, enc_task U C x) = Ok (u, x)"
  by (cases x) (auto simp: load_task_def enc_task_def codec_ok_def parse_id_def load_result_def
      split: option.splits)

interpretation database: durable_store "db_view U C jit tit" "db_write U C" "load_all_jobs jit U C"
  "load_all_tasks tit U C" for U C jit tit
proof
  fix db v w
  assume v: "db_view U C jit tit db v"
  show "db_view U C jit tit (snd (db_write U C w db)) (view_write w v)" by (rule db_write_view[OF v])
  show "fst (db_write U C w db) = (if accepted w v then Ok () else Err foreign_key_error)"
    by (rule db_write_outcome[OF v])
  show "\<exists>js. load_all_jobs jit U C db = Ok js \<and> enumerates js (view_jobs v)"
    using represents_rows[of U "enc_job C" "jobs_tbl db" "view_jobs v" jit C "load_job U C" id] v
    by (auto simp: load_all_jobs_def db_view_def jobs_rep_def load_job_enc)
  show "\<exists>ts. load_all_tasks tit U C db = Ok ts \<and> enumerates ts (view_tasks v)"
    using represents_rows[of U "enc_task U C" "tasks_tbl db" "view_tasks v" tit C "load_task U C" id] v
    by (auto simp: load_all_tasks_def db_view_def tasks_rep_def load_task_enc)
qed

section \<open>A codec for examples\<close>

text \<open>The types in the rows are countable, so that numbering their values is a codec.\<close>

instance join_type :: countable
  by countable_datatype

instance operator_type :: countable
  by countable_datatype

instance job_status :: countable
  by countable_datatype

instance task_status :: countable
  by countable_datatype

instance dag_node_ext :: (countable) countable
  by (rule countable_classI[of "\<lambda>x. to_nat (node_id x, node_operator x,
      dag_node.more x)"]) simp

instance dag_edge_ext :: (countable) countable
  by (rule countable_classI[of "\<lambda>x. to_nat (edge_from x, edge_to x,
      dag_edge.more x)"]) simp

instance dag_specification_ext :: (countable) countable
  by (rule countable_classI[of "\<lambda>x. to_nat (dag_nodes x, dag_edges x, dag_partitions x,
      dag_specification.more x)"]) simp

instance result_location_ext :: (countable) countable
  by (rule countable_classI[of "\<lambda>x. to_nat (rl_path x, rl_size_bytes x,
      result_location.more x)"]) simp

instance task_metrics_ext :: (countable) countable
  by (rule countable_classI[of "\<lambda>x. to_nat (tm_processed_records x, tm_duration_ms x, tm_cpu_time_ms x, tm_wall_time_ms x,
      task_metrics.more x)"]) simp

instance partition_info_ext :: (countable) countable
  by (rule countable_classI[of "\<lambda>x. to_nat (pi_partition_id x, pi_record_count x, pi_spill_path x,
      partition_info.more x)"]) simp

instance stage_trace_ext :: (countable) countable
  by (rule countable_classI[of "\<lambda>x. to_nat (st_stage_id x, st_operator_id x, st_incoming_edges x, st_output_partitions x,
      stage_trace.more x)"]) simp

instance execution_trace_ext :: (countable) countable
  by (rule countable_classI[of "\<lambda>x. to_nat (et_job_id x, et_stages x,
      execution_trace.more x)"]) simp

instance task_result_ext :: (countable) countable
  by (rule countable_classI[of "\<lambda>x. to_nat (res_task_id x, res_job_id x, res_operator x, res_stage_id x, res_partition x, res_location x, res_metrics x, res_status x, res_trace x, res_final_partitions x,
      task_result.more x)"]) simp

definition numbering :: "'a::countable \<Rightarrow> string" where
  "numbering x = show_nat (to_nat x)"

definition numbered :: "string \<Rightarrow> string + 'a::countable" where
  "numbered s = Inr (from_nat (digits_val s))"

lemma numbered_numbering [simp]: "numbered (numbering x) = Inr x"
  by (simp add: numbered_def numbering_def)

definition example_codec :: codec where
  "example_codec = \<lparr>
     enc_job_status = numbering, dec_job_status = numbered, enc_dag = numbering, dec_dag = numbered,
     enc_task_status = numbering, dec_task_status = numbered, enc_result = numbering,
     dec_result = numbered, enc_job_metrics = (\<lambda>_. []), enc_stage_metrics = (\<lambda>_. []),
     enc_worker_status = (\<lambda>_. []), enc_worker_metrics = (\<lambda>_. []), enc_outputs = (\<lambda>_. [])\<rparr>"

lemma example_codec_ok: "codec_ok example_uuid_api example_codec"
  using show_nat_digits
  by (auto simp: codec_ok_def example_codec_def example_uuid_api_def list_all_iff)

definition empty_view :: store_view where
  "empty_view = \<lparr>view_jobs = Map.empty, view_tasks = Map.empty, view_foreign = True\<rparr>"

lemma empty_store_view:
  "codec_ok U C \<Longrightarrow> iterates jit \<Longrightarrow> iterates tit \<Longrightarrow> db_view U C jit tit empty_store empty_view"
  by (simp add: db_view_def jobs_rep_def tasks_rep_def empty_store_def empty_view_def represents_empty)

section \<open>Properties\<close>

lemma replay_foreign: "view_foreign (fold view_write ws v) = view_foreign v"
proof (induction ws arbitrary: v)
  case (Cons w ws)
  have "view_foreign (view_write w v) = view_foreign v" by (cases w) simp_all
  with Cons show ?case by simp
qed simp

text \<open>
  Claim C13. Whatever sequence of writes the database has seen, loading returns exactly the jobs
  and the tasks that the same writes leave in a pair of maps, each once: the last status and graph
  of a job; of a task the job it was first written with, its last status and its last result, which
  a change of status does not erase. The next write fails exactly when it would create a row for a new
  task under a job that is not stored; for a task that has a row, the job it names is not looked at.
\<close>

theorem store_replay:
  assumes "codec_ok U C" "iterates jit" "iterates tit"
  shows "\<exists>js ts.
    load_all_jobs jit U C (fold (\<lambda>w db. snd (db_write U C w db)) ws empty_store) = Ok js \<and>
    load_all_tasks tit U C (fold (\<lambda>w db. snd (db_write U C w db)) ws empty_store) = Ok ts \<and>
    enumerates js (view_jobs (fold view_write ws empty_view)) \<and>
    enumerates ts (view_tasks (fold view_write ws empty_view)) \<and>
    fst (db_write U C w (fold (\<lambda>w db. snd (db_write U C w db)) ws empty_store)) =
      (case write_task w of
         None \<Rightarrow> Ok ()
       | Some (tid, job) \<Rightarrow>
           if view_tasks (fold view_write ws empty_view) tid = None \<and>
              view_jobs (fold view_write ws empty_view) job = None
           then Err foreign_key_error else Ok ())"
proof -
  have "view_foreign empty_view" by (simp add: empty_view_def)
  then have "accepted w (fold view_write ws empty_view) =
      (case write_task w of None \<Rightarrow> True | Some (tid, job) \<Rightarrow>
         \<not> (view_tasks (fold view_write ws empty_view) tid = None \<and>
            view_jobs (fold view_write ws empty_view) job = None))"
    by (simp add: accepted_def replay_foreign split: option.splits)
  then show ?thesis
    using database.writes_loaded[OF empty_store_view[OF assms], of ws]
      database.write_outcome[OF database.writes_view[OF empty_store_view[OF assms]], of w ws]
    by (auto split: option.splits)
qed

definition example_writes :: "store_write list" where
  "example_writes = [WriteJob 1 example_dag JS_Accepted, WriteStatus 2 1 TS_Queued,
     WriteStatus 3 9 TS_Queued, WriteStatus 2 9 TS_Completed]"

theorem store_replay_witness:
  "\<exists>js ts.
    load_all_jobs key_order example_uuid_api example_codec
      (fold (\<lambda>w db. snd (db_write example_uuid_api example_codec w db)) example_writes empty_store) = Ok js \<and>
    load_all_tasks key_order example_uuid_api example_codec
      (fold (\<lambda>w db. snd (db_write example_uuid_api example_codec w db)) example_writes empty_store) = Ok ts \<and>
    enumerates js [1 \<mapsto> (JS_Accepted, example_dag)] \<and>
    enumerates ts [2 \<mapsto> (1, TS_Completed, None)]"
proof -
  have "view_jobs (fold view_write example_writes empty_view) = [1 \<mapsto> (JS_Accepted, example_dag)]"
    "view_tasks (fold view_write example_writes empty_view) = [2 \<mapsto> (1, TS_Completed, None)]"
    by (simp_all add: example_writes_def empty_view_def accepted_def)
  with store_replay[OF example_codec_ok iterates_key_order iterates_key_order, of example_writes
      "WriteStatus 3 9 TS_Queued"]
  show ?thesis by metis
qed

end
