(* ===== verification/File_System.thy ===== *)
theory File_System
  imports Engine_Error
begin

text \<open>
  The files of a node: a map from paths to contents, and for each path the message with which
  the operating system refuses operations on it, if it does (a full disk, missing rights).
  The operations are those of \<open>std::fs\<close> the worker calls. Directories are not tracked:
  creating the parent of a path fails exactly when the path of the directory is refused.
\<close>

type_synonym path = string

record fs =
  files :: "path \<rightharpoonup> string"
  faults :: "path \<Rightarrow> string option"

type_synonym 'a fsio = "(fs, error, 'a) io"

definition no_such_file :: string where
  "no_such_file = ''No such file or directory (os error 2)''"

definition guarded :: "path \<Rightarrow> (fs \<Rightarrow> (error, 'a) res \<times> fs) \<Rightarrow> 'a fsio" where
  "guarded p f s = (case faults s p of Some msg \<Rightarrow> (Err (IoError msg), s) | None \<Rightarrow> f s)"

text \<open>\<open>File::open\<close> and reading to the end.\<close>

definition read_file :: "path \<Rightarrow> string fsio" where
  "read_file p = guarded p (\<lambda>s.
     case files s p of None \<Rightarrow> (Err (IoError no_such_file), s) | Some c \<Rightarrow> (Ok c, s))"

text \<open>\<open>OpenOptions::new().create(true).append(true)\<close> and writing.\<close>

definition append_file :: "path \<Rightarrow> string \<Rightarrow> unit fsio" where
  "append_file p c = guarded p (\<lambda>s.
     (Ok (), s\<lparr>files := (files s)(p \<mapsto> (case files s p of None \<Rightarrow> c | Some c0 \<Rightarrow> c0 @ c))\<rparr>))"

text \<open>\<open>File::create\<close> and writing: the old contents are gone.\<close>

definition write_file :: "path \<Rightarrow> string \<Rightarrow> unit fsio" where
  "write_file p c = guarded p (\<lambda>s. (Ok (), s\<lparr>files := (files s)(p \<mapsto> c)\<rparr>))"

definition remove_file :: "path \<Rightarrow> unit fsio" where
  "remove_file p = guarded p (\<lambda>s.
     case files s p of
       None \<Rightarrow> (Err (IoError no_such_file), s)
     | Some _ \<Rightarrow> (Ok (), s\<lparr>files := (files s)(p := None)\<rparr>))"

definition create_dir_all :: "path \<Rightarrow> unit fsio" where
  "create_dir_all d = guarded d (\<lambda>s. (Ok (), s))"

section \<open>Paths\<close>

definition slash :: char where
  "slash = CHR ''/''"

definition path_join :: "path \<Rightarrow> path \<Rightarrow> path" where
  "path_join b r =
     (if r \<noteq> [] \<and> hd r = slash then r
      else if b = [] then r
      else if last b = slash then b @ r else b @ [slash] @ r)"

definition path_parent :: "path \<Rightarrow> path option" where
  "path_parent p =
     (if p = [] \<or> p = [slash] then None
      else if slash \<notin> set p then Some []
      else let d = rev (tl (dropWhile (\<lambda>c. c \<noteq> slash) (rev p)))
           in Some (if d = [] then [slash] else d))"

definition ensure_parent :: "path \<Rightarrow> unit fsio" where
  "ensure_parent p = (case path_parent p of None \<Rightarrow> io_return () | Some d \<Rightarrow> create_dir_all d)"

section \<open>Lemmas\<close>

text \<open>No operation is refused: the part of the file system a computation needs works.\<close>

definition healthy :: "fs \<Rightarrow> bool" where
  "healthy s \<longleftrightarrow> (\<forall>p. faults s p = None)"

lemma guarded_healthy [simp]: "healthy s \<Longrightarrow> guarded p f s = f s"
  by (simp add: guarded_def healthy_def)

lemma read_file_eq: "healthy s \<Longrightarrow> files s p = Some c \<Longrightarrow> read_file p s = (Ok c, s)"
  by (simp add: read_file_def)

lemma append_file_eq: "healthy s \<Longrightarrow>
  append_file p c s =
    (Ok (), s\<lparr>files := (files s)(p \<mapsto> (case files s p of None \<Rightarrow> c | Some c0 \<Rightarrow> c0 @ c))\<rparr>)"
  by (simp add: append_file_def)

lemma write_file_eq: "healthy s \<Longrightarrow> write_file p c s = (Ok (), s\<lparr>files := (files s)(p \<mapsto> c)\<rparr>)"
  by (simp add: write_file_def)

lemma remove_file_eq:
  "healthy s \<Longrightarrow> files s p = Some c \<Longrightarrow> remove_file p s = (Ok (), s\<lparr>files := (files s)(p := None)\<rparr>)"
  by (simp add: remove_file_def)

lemma ensure_parent_eq: "healthy s \<Longrightarrow> ensure_parent p s = (Ok (), s)"
  by (simp add: ensure_parent_def create_dir_all_def io_return_def split: option.splits)

lemma healthy_files [simp]: "healthy (s\<lparr>files := f\<rparr>) = healthy s"
  by (simp add: healthy_def)

lemma read_file_state: "read_file p s = (r, s') \<Longrightarrow> s' = s"
  by (auto simp: read_file_def guarded_def split: option.splits)

lemma ensure_parent_state: "ensure_parent p s = (r, s') \<Longrightarrow> s' = s"
  by (auto simp: ensure_parent_def create_dir_all_def guarded_def io_return_def split: option.splits)

lemmas fs_eqs = read_file_eq append_file_eq write_file_eq remove_file_eq ensure_parent_eq

text \<open>Writing touches its own path only, whether it succeeds or not.\<close>

lemma append_file_frame: "append_file p c s = (r, s') \<Longrightarrow> q \<noteq> p \<Longrightarrow> files s' q = files s q"
  by (auto simp: append_file_def guarded_def split: option.splits)

lemma write_file_frame: "write_file p c s = (r, s') \<Longrightarrow> q \<noteq> p \<Longrightarrow> files s' q = files s q"
  by (auto simp: write_file_def guarded_def split: option.splits)

lemma remove_file_frame: "remove_file p s = (r, s') \<Longrightarrow> q \<noteq> p \<Longrightarrow> files s' q = files s q"
  by (auto simp: remove_file_def guarded_def split: option.splits)

text \<open>A computation that touches the paths in \<open>P\<close> only.\<close>

definition changes_only :: "path set \<Rightarrow> fs \<Rightarrow> fs \<Rightarrow> bool" where
  "changes_only P s s' \<longleftrightarrow> faults s' = faults s \<and> (\<forall>q. q \<notin> P \<longrightarrow> files s' q = files s q)"

lemma changes_only_refl [simp, intro]: "changes_only P s s"
  by (simp add: changes_only_def)

lemma changes_only_trans:
  "changes_only P s s' \<Longrightarrow> changes_only Q s' s'' \<Longrightarrow> changes_only (P \<union> Q) s s''"
  by (simp add: changes_only_def)

lemma changes_only_same [trans]:
  "changes_only P s s' \<Longrightarrow> changes_only P s' s'' \<Longrightarrow> changes_only P s s''"
  by (simp add: changes_only_def)

lemma changes_only_mono: "changes_only P s s' \<Longrightarrow> P \<subseteq> Q \<Longrightarrow> changes_only Q s s'"
  by (auto simp: changes_only_def)

lemma changes_only_healthy: "changes_only P s s' \<Longrightarrow> healthy s' = healthy s"
  by (simp add: changes_only_def healthy_def)

lemma changes_only_file: "changes_only P s s' \<Longrightarrow> q \<notin> P \<Longrightarrow> files s' q = files s q"
  by (simp add: changes_only_def)

lemma changes_only_update [simp]: "p \<in> P \<Longrightarrow> changes_only P s (s\<lparr>files := (files s)(p := c)\<rparr>)"
  by (auto simp: changes_only_def)

end
