(* ===== verification/Config.thy ===== *)
theory Config
  imports File_System Types
begin

text \<open>
  \<open>src/src/common/config.rs\<close>: the settings of a node, read from the environment. The
  environment is a map from names to values. Sizes are natural numbers below \<open>2 ^ 64\<close>, ports
  16-bit and the retry limit 32-bit words. \<open>checks\<close> tells whether the build has overflow
  checks (a debug build panics where a release build wraps).
\<close>

type_synonym environment = "string \<rightharpoonup> string"

record config =
  master_host :: string
  master_port :: "16 word"
  worker_host :: string
  worker_bind_host :: string
  worker_advertise_host :: string
  worker_base_port :: "16 word"
  num_workers :: nat
  worker_threads :: nat
  max_memory_mb :: nat
  spill_threshold_mb :: nat
  partition_cache_limit_bytes :: nat
  task_timeout_ms :: nat
  heartbeat_interval_ms :: nat
  max_parallel_tasks :: nat
  task_retry_limit :: u32
  data_dir :: path
  result_dir :: path
  logs_dir :: path

section \<open>Reading variables\<close>

text \<open>\<open>env_or\<close>, for a string and for an unsigned integer of the given width.\<close>

definition env_str :: "environment \<Rightarrow> string \<Rightarrow> string \<Rightarrow> (error, string) res" where
  "env_str env key dflt = (case env key of Some v \<Rightarrow> Ok v | None \<Rightarrow> Ok dflt)"

definition env_num :: "nat \<Rightarrow> environment \<Rightarrow> string \<Rightarrow> nat \<Rightarrow> (error, nat) res" where
  "env_num w env key dflt =
     (case env key of
        Some v \<Rightarrow>
          (case parse_unsigned w v of
             Inl msg \<Rightarrow> res_context (''failed to parse env var '' @ key) (Err (Message msg))
           | Inr n \<Rightarrow> Ok n)
      | None \<Rightarrow> Ok dflt)"

text \<open>Multiplication of \<open>usize\<close> values.\<close>

definition usize_mul :: "bool \<Rightarrow> nat \<Rightarrow> nat \<Rightarrow> (error, nat) res" where
  "usize_mul checks a b =
     (if a * b < 2 ^ 64 then Ok (a * b) else if checks then Panic else Ok (a * b mod 2 ^ 64))"

definition from_env :: "bool \<Rightarrow> environment \<Rightarrow> (error, config) res" where
  "from_env checks env =
     res_bind (env_str env ''MASTER_HOST'' ''127.0.0.1'') (\<lambda>mh.
     res_bind (env_num 16 env ''MASTER_PORT'' 8080) (\<lambda>mp.
     res_bind (env_str env ''WORKER_HOST'' ''0.0.0.0'') (\<lambda>wh.
     res_bind (env_str env ''WORKER_BIND_HOST'' ''0.0.0.0'') (\<lambda>wbh.
     res_bind (env_str env ''WORKER_ADVERTISE_HOST'' ''127.0.0.1'') (\<lambda>wah.
     res_bind (env_num 16 env ''WORKER_BASE_PORT'' 9100) (\<lambda>wbp.
     res_bind (env_num 64 env ''NUM_WORKERS'' 2) (\<lambda>nw.
     res_bind (env_num 64 env ''WORKER_THREADS'' 4) (\<lambda>wt.
     res_bind (env_num 64 env ''MAX_MEMORY_MB'' 512) (\<lambda>mm.
     res_bind (env_num 64 env ''SPILL_THRESHOLD_MB'' 256) (\<lambda>st.
     res_bind (env_num 64 env ''PARTITION_CACHE_LIMIT_MB'' 128) (\<lambda>pc.
     res_bind (usize_mul checks pc 1024) (\<lambda>pk.
     res_bind (usize_mul checks pk 1024) (\<lambda>pb.
     res_bind (env_num 64 env ''TASK_TIMEOUT_MS'' 60000) (\<lambda>tt.
     res_bind (env_num 64 env ''HEARTBEAT_INTERVAL_MS'' 2000) (\<lambda>hi.
     res_bind (env_num 64 env ''MAX_PARALLEL_TASKS'' 4) (\<lambda>mt.
     res_bind (env_num 32 env ''TASK_RETRY_LIMIT'' 1) (\<lambda>rl.
     res_bind (env_str env ''DATA_DIR'' ''./data'') (\<lambda>dd.
     res_bind (env_str env ''RESULT_DIR'' ''./results'') (\<lambda>rd.
     res_bind (env_str env ''LOG_DIR'' ''./logs'') (\<lambda>ld.
       Ok \<lparr>master_host = mh, master_port = of_nat mp, worker_host = wh, worker_bind_host = wbh,
           worker_advertise_host = wah, worker_base_port = of_nat wbp, num_workers = nw,
           worker_threads = wt, max_memory_mb = mm, spill_threshold_mb = st,
           partition_cache_limit_bytes = pb, task_timeout_ms = tt, heartbeat_interval_ms = hi,
           max_parallel_tasks = mt, task_retry_limit = of_nat rl, data_dir = dd,
           result_dir = rd, logs_dir = ld\<rparr>))))))))))))))))))))"

section \<open>Addresses\<close>

definition show_port :: "16 word \<Rightarrow> string" where
  "show_port p = show_nat (unat p)"

definition master_addr :: "config \<Rightarrow> string" where
  "master_addr cfg = master_host cfg @ '':'' @ show_port (master_port cfg)"

definition u16_add :: "bool \<Rightarrow> 16 word \<Rightarrow> 16 word \<Rightarrow> ('e, 16 word) res" where
  "u16_add checks a b =
     (if unat a + unat b < 2 ^ 16 \<or> \<not> checks then Ok (a + b) else Panic)"

definition worker_listen_addr :: "bool \<Rightarrow> config \<Rightarrow> nat \<Rightarrow> (error, string) res" where
  "worker_listen_addr checks cfg worker_index =
     res_bind (u16_add checks (worker_base_port cfg) (of_nat worker_index)) (\<lambda>port.
       Ok (worker_host cfg @ '':'' @ show_port port))"

section \<open>Lemmas\<close>

lemma env_num_bound: "env_num w env key d = Ok n \<Longrightarrow> d < 2 ^ w \<Longrightarrow> n < 2 ^ w"
  by (auto simp: env_num_def dest: parse_unsigned_bound split: option.splits sum.splits)

lemma env_num_show [simp]:
  "env key = Some (show_nat n) \<Longrightarrow> n < 2 ^ w \<Longrightarrow> env_num w env key d = Ok n"
  by (simp add: env_num_def parse_unsigned_show_nat)

lemma env_default [simp]:
  "env key = None \<Longrightarrow> env_num w env key d = Ok d"
  "env key = None \<Longrightarrow> env_str env key s = Ok s"
  by (simp_all add: env_num_def env_str_def)

lemma usize_mul_Ok: "usize_mul checks a b = Ok c \<Longrightarrow> c = a * b mod 2 ^ 64"
  by (auto simp: usize_mul_def split: if_splits)

definition default_config :: config where
  "default_config = \<lparr>master_host = ''127.0.0.1'', master_port = 8080, worker_host = ''0.0.0.0'',
     worker_bind_host = ''0.0.0.0'', worker_advertise_host = ''127.0.0.1'',
     worker_base_port = 9100, num_workers = 2, worker_threads = 4, max_memory_mb = 512,
     spill_threshold_mb = 256, partition_cache_limit_bytes = 134217728, task_timeout_ms = 60000,
     heartbeat_interval_ms = 2000, max_parallel_tasks = 4, task_retry_limit = 1,
     data_dir = ''./data'', result_dir = ''./results'', logs_dir = ''./logs''\<rparr>"

lemma from_env_empty: "from_env checks Map.empty = Ok default_config"
  by (simp add: from_env_def default_config_def usize_mul_def)

lemma from_env_cache_limit:
  assumes "from_env checks env = Ok cfg" "env_num 64 env ''PARTITION_CACHE_LIMIT_MB'' 128 = Ok mb"
  shows "partition_cache_limit_bytes cfg = mb * 1048576 mod 2 ^ 64"
proof -
  from assms obtain kb b where
    "usize_mul checks mb 1024 = Ok kb" "usize_mul checks kb 1024 = Ok b"
    "partition_cache_limit_bytes cfg = b"
    unfolding from_env_def by (auto elim!: res_bind_OkE)
  then have "partition_cache_limit_bytes cfg = (mb * 1024 mod 2 ^ 64) * 1024 mod 2 ^ 64"
    by (auto dest!: usize_mul_Ok)
  also have "\<dots> = mb * 1048576 mod 2 ^ 64"
    by (simp only: mod_mult_left_eq mult.assoc) simp
  finally show ?thesis .
qed

section \<open>Properties\<close>

text \<open>
  The cache limit is the configured number of megabytes in bytes, modulo the width
  of \<open>usize\<close>: in a release build 17592186044416 MB (\<open>2 ^ 44\<close>) configure a limit of zero bytes, so
  that every record is spilled; with overflow checks the node panics instead.
\<close>

theorem cache_limit_wraps:
  "env ''PARTITION_CACHE_LIMIT_MB'' = Some (show_nat mb) \<Longrightarrow> mb < 2 ^ 64 \<Longrightarrow>
   from_env False env = Ok cfg \<Longrightarrow>
   partition_cache_limit_bytes cfg = mb * 1048576 mod 2 ^ 64"
  by (rule from_env_cache_limit, assumption, rule env_num_show)

theorem cache_limit_wraps_witness:
  "\<exists>cfg. from_env False [''PARTITION_CACHE_LIMIT_MB'' \<mapsto> show_nat 17592186044416] = Ok cfg \<and>
         partition_cache_limit_bytes cfg = 0"
proof -
  let ?env = "[''PARTITION_CACHE_LIMIT_MB'' \<mapsto> show_nat 17592186044416]"
  have num: "env_num 64 ?env ''PARTITION_CACHE_LIMIT_MB'' 128 = Ok 17592186044416"
    by (rule env_num_show) simp_all
  obtain cfg where cfg: "from_env False ?env = Ok cfg"
    unfolding from_env_def num by (simp add: usize_mul_def)
  show ?thesis
    using cache_limit_wraps[of ?env 17592186044416 cfg] cfg by simp
qed

end
