(* ===== verification/Master.thy ===== *)
theory Master
  imports Scheduler State_Store Config
begin

text \<open>
  \<open>src/src/master/mod.rs\<close>: the master, which keeps the jobs, hands tasks to workers and
  collects their results. Its state is the record \<open>master\<close>: the registry, the scheduler, the
  jobs and the state store of the source, and two logs of what leaves it: the requests sent to
  workers (\<open>m_outbox\<close>) and the number of scheduling passes spawned in the background and not
  yet run (\<open>m_passes\<close>).

  What the source takes from its surroundings is in the record \<open>master_env\<close>: the identifier
  and codec functions and the iteration orders of its hash maps. Every \<open>HashMap\<close> of Rust has an
  order of its own, so an operation takes the environment it sees as an argument, and no two
  operations need see the same one. The clock is an argument too. Arithmetic on the counters of
  a job is on natural numbers; the doubled heartbeat interval is taken in 64 bits, as in the
  release build.
\<close>

section \<open>State\<close>

record job_state =
  job_dag :: dag_specification
  job_state_status :: job_status
  job_tasks :: "task_id \<rightharpoonup> task_status"
  job_results :: "task_result list"
  job_state_metrics :: job_metrics
  job_error :: "string option"

type_synonym job_map = "job_id \<rightharpoonup> job_state"

record master =
  m_config :: config
  m_registry :: registry
  m_scheduler :: round_robin_scheduler
  m_jobs :: job_map
  m_store :: state_store
  m_outbox :: "(string \<times> task) list"
  m_passes :: nat

record master_env =
  uuids :: uuid_api
  codecs :: codec
  node_order :: "job_id \<Rightarrow> counts \<Rightarrow> (string \<times> nat) list"
  stage_order :: "job_id \<Rightarrow> counts \<Rightarrow> (string \<times> nat) list"
  worker_iter :: worker_order
  job_iter :: "job_map \<Rightarrow> (job_id \<times> job_state) list"
  job_rows :: "(string \<rightharpoonup> job_row) \<Rightarrow> (string \<times> job_row) list"
  task_rows :: "(string \<rightharpoonup> task_row) \<Rightarrow> (string \<times> task_row) list"

abbreviation tasks_of :: "master_env \<Rightarrow> dag_specification \<Rightarrow> job_id \<Rightarrow> task list" where
  "tasks_of E d job \<equiv> materialize_tasks (uuids E) (node_order E job) d job"

text \<open>An operation of the store, within the master; \<open>let _ = ...\<close> drops its outcome.\<close>

definition on_store :: "(state_store \<Rightarrow> db_result) \<Rightarrow> (master, error, unit) io" where
  "on_store f m = (case f (m_store m) of (r, db) \<Rightarrow> (r, m\<lparr>m_store := db\<rparr>))"

definition set_job :: "job_id \<Rightarrow> job_state \<Rightarrow> master \<Rightarrow> master" where
  "set_job job js m = m\<lparr>m_jobs := (m_jobs m)(job \<mapsto> js)\<rparr>"

definition progress :: "job_metrics \<Rightarrow> flt" where
  "progress jm =
     (if jm_total_tasks jm = 0 then fzero f32
      else fmul f32 (fdiv f32 (flt_of_int f32 (int (jm_completed_tasks jm)))
                              (flt_of_int f32 (int (jm_total_tasks jm))))
                    (flt_of_int f32 100))"

definition output_paths :: "job_state \<Rightarrow> string list" where
  "output_paths js = map (\<lambda>r. rl_path (res_location r)) (job_results js)"

section \<open>Starting, with recovery\<close>

definition recovered_job :: "dag_specification \<Rightarrow> job_status \<Rightarrow> job_state" where
  "recovered_job d st =
     \<lparr>job_dag = d, job_state_status = st, job_tasks = Map.empty, job_results = [],
      job_state_metrics = default_job_metrics, job_error = None\<rparr>"

definition load_jobs :: "(job_id \<times> job_status \<times> dag_specification) list \<Rightarrow> job_map \<Rightarrow> job_map" where
  "load_jobs = fold (\<lambda>(job, st, d) jobs. jobs(job \<mapsto> recovered_job d st))"

fun normalized_status :: "task_status \<Rightarrow> task_status" where
  "normalized_status (TS_Assigned _) = TS_Queued"
| "normalized_status (TS_Running _) = TS_Queued"
| "normalized_status st = st"

fun needs_requeue :: "task_status \<Rightarrow> bool" where
  "needs_requeue (TS_Assigned _) = True"
| "needs_requeue (TS_Running _) = True"
| "needs_requeue _ = False"

definition completed_only :: "task_result option \<Rightarrow> task_result list" where
  "completed_only r =
     (case r of Some res \<Rightarrow> (if is_completed (res_status res) then [res] else []) | None \<Rightarrow> [])"

definition placeholder_dag :: dag_specification where
  "placeholder_dag = \<lparr>dag_nodes = [], dag_edges = [], dag_partitions = 0\<rparr>"

definition load_one :: "task_id \<times> job_id \<times> task_status \<times> task_result option \<Rightarrow> job_map \<Rightarrow> job_map" where
  "load_one = (\<lambda>(tid, job, st, res) jobs.
     case jobs job of
       Some js \<Rightarrow>
         jobs(job \<mapsto> js\<lparr>job_tasks := (job_tasks js)(tid \<mapsto> normalized_status st),
                        job_results := job_results js @ completed_only res\<rparr>)
     | None \<Rightarrow>
         jobs(job \<mapsto> (recovered_job placeholder_dag JS_Pending)
                \<lparr>job_tasks := [tid \<mapsto> normalized_status st], job_results := completed_only res\<rparr>))"

definition requeue_row :: "master_env \<Rightarrow> task_id \<times> job_id \<times> task_status \<times> task_result option \<Rightarrow>
    master \<Rightarrow> master" where
  "requeue_row E = (\<lambda>(tid, job, st, _) m.
     if needs_requeue st
     then io_ignore (on_store (persist_task_status (uuids E) (codecs E) tid job TS_Queued)) m else m)"

definition master_new :: "master_env \<Rightarrow> config \<Rightarrow> state_store \<Rightarrow> master" where
  "master_new E cfg db =
     (let saved_jobs = (case load_all_jobs (job_rows E) (uuids E) (codecs E) db of Ok js \<Rightarrow> js | _ \<Rightarrow> []);
          saved_tasks = (case load_all_tasks (task_rows E) (uuids E) (codecs E) db of Ok ts \<Rightarrow> ts | _ \<Rightarrow> []);
          m = \<lparr>m_config = cfg, m_registry = default_registry, m_scheduler = default_scheduler,
               m_jobs = fold load_one saved_tasks (load_jobs saved_jobs Map.empty), m_store = db,
               m_outbox = [], m_passes = 0\<rparr>
      in fold (requeue_row E) saved_tasks m)"

section \<open>Scheduling a task\<close>

definition assign_task :: "task \<Rightarrow> worker_id \<Rightarrow> master \<Rightarrow> master" where
  "assign_task t w m =
     (case m_jobs m (task_job_id t) of
        None \<Rightarrow> m
      | Some js \<Rightarrow>
          set_job (task_job_id t) (js\<lparr>job_tasks := (job_tasks js)(task_id t \<mapsto> TS_Assigned w)\<rparr>) m)"

definition mark_running :: "master_env \<Rightarrow> job_id \<Rightarrow> master \<Rightarrow> master" where
  "mark_running E job m =
     (case m_jobs m job of
        None \<Rightarrow> m
      | Some js \<Rightarrow>
          if job_state_status js = JS_Running then m
          else
            (let js' = js\<lparr>job_state_status := JS_Running\<rparr>;
                 m1 = set_job job js' m;
                 m2 = io_ignore (on_store (persist_job (uuids E) (codecs E) job (job_dag js') JS_Running)) m1
             in io_ignore (on_store (persist_job_status (uuids E) (codecs E) job JS_Running
                  (progress (job_state_metrics js')) (job_state_metrics js') (job_error js')
                  (output_paths js'))) m2))"

definition execute_url :: "string \<Rightarrow> string" where
  "execute_url address = ''http://'' @ address @ ''/api/v1/tasks/execute''"

definition dispatch :: "task \<Rightarrow> worker_id \<Rightarrow> master \<Rightarrow> master" where
  "dispatch t w m =
     (case get_worker w (m_registry m) of
        None \<Rightarrow> m
      | Some info \<Rightarrow> m\<lparr>m_outbox := m_outbox m @ [(execute_url (wi_address info), t)]\<rparr>)"

definition schedule_task :: "master_env \<Rightarrow> task \<Rightarrow> master \<Rightarrow> master" where
  "schedule_task E t m =
     (case select_worker (worker_iter E) (m_registry m) (m_scheduler m) of
        (None, sch) \<Rightarrow> m\<lparr>m_scheduler := sch\<rparr>
      | (Some w, sch) \<Rightarrow>
          (let m1 = assign_task t w (m\<lparr>m_scheduler := sch\<rparr>);
               m2 = io_ignore (on_store (persist_task_status (uuids E) (codecs E) (task_id t)
                      (task_job_id t) (TS_Assigned w))) m1;
               m3 = mark_running E (task_job_id t) m2
           in dispatch t w m3))"

definition is_queued :: "job_state \<Rightarrow> task \<Rightarrow> bool" where
  "is_queued js t \<longleftrightarrow> job_tasks js (task_id t) = Some TS_Queued"

definition queued_tasks_snapshot :: "master_env \<Rightarrow> master \<Rightarrow> task list" where
  "queued_tasks_snapshot E m =
     concat (map (\<lambda>(job, js). filter (is_queued js) (tasks_of E (job_dag js) job)) (job_iter E (m_jobs m)))"

definition schedule_all_queued_tasks :: "master_env \<Rightarrow> master \<Rightarrow> master" where
  "schedule_all_queued_tasks E m = fold (schedule_task E) (queued_tasks_snapshot E m) m"

section \<open>Submitting a job\<close>

definition initial_metrics :: "master_env \<Rightarrow> dag_specification \<Rightarrow> job_id \<Rightarrow> task list \<Rightarrow> job_metrics" where
  "initial_metrics E d job ts =
     default_job_metrics\<lparr>jm_total_tasks := length ts, jm_pending_tasks := length ts,
       jm_stages := map (\<lambda>s. \<lparr>sm_stage_id = stg_stage_id s, sm_tasks_total = stg_partitions s,
          sm_tasks_completed = 0, sm_tasks_failed = 0, sm_duration_ms = 0\<rparr>)
         (to_stages (stage_order E job) d)\<rparr>"

fun persist_queued :: "master_env \<Rightarrow> job_id \<Rightarrow> task list \<Rightarrow> (task_id \<rightharpoonup> task_status) \<Rightarrow>
    (master, error, task_id \<rightharpoonup> task_status) io" where
  "persist_queued E job [] tasks = io_return tasks"
| "persist_queued E job (t # ts) tasks =
     io_bind (on_store (persist_task_status (uuids E) (codecs E) (task_id t) job TS_Queued)) (\<lambda>_.
       persist_queued E job ts (tasks(task_id t \<mapsto> TS_Queued)))"

text \<open>The new identifier is drawn at random; here it is an argument.\<close>

definition admit_job :: "master_env \<Rightarrow> job_id \<Rightarrow> dag_specification \<Rightarrow> (master, error, task list) io" where
  "admit_job E job d =
     io_bind (io_lift (validate d)) (\<lambda>_.
       let ts = tasks_of E d job; jm = initial_metrics E d job ts
       in io_bind (on_store (persist_job (uuids E) (codecs E) job d JS_Accepted)) (\<lambda>_.
          io_bind (persist_queued E job ts Map.empty) (\<lambda>tasks m.
            (Ok ts,
             set_job job \<lparr>job_dag = d, job_state_status = JS_Accepted, job_tasks = tasks,
                          job_results = [], job_state_metrics = jm, job_error = None\<rparr>
               (io_ignore (on_store (persist_job_status (uuids E) (codecs E) job JS_Accepted
                  (fzero f32) jm None [])) m)))))"

definition submit_job :: "master_env \<Rightarrow> job_id \<Rightarrow> dag_specification \<Rightarrow> (master, error, job_id) io" where
  "submit_job E job d =
     io_bind (admit_job E job d) (\<lambda>ts m. (Ok job, fold (schedule_task E) ts m))"

section \<open>Completing a task\<close>

text \<open>\<open>iter_mut().find(p)\<close> followed by a change: the first element that satisfies \<open>p\<close>.\<close>

fun update_first :: "('a \<Rightarrow> bool) \<Rightarrow> ('a \<Rightarrow> 'a) \<Rightarrow> 'a list \<Rightarrow> 'a list" where
  "update_first p f [] = []"
| "update_first p f (x # xs) = (if p x then f x # xs else x # update_first p f xs)"

fun task_worker :: "task_status option \<Rightarrow> worker_id option" where
  "task_worker (Some (TS_Assigned w)) = Some w"
| "task_worker (Some (TS_Running w)) = Some w"
| "task_worker _ = None"

definition aggregate_completed :: "task_metrics \<Rightarrow> worker_id \<Rightarrow> worker_aggregate list \<Rightarrow>
    worker_aggregate list" where
  "aggregate_completed tm w ws =
     (if \<exists>a \<in> set ws. wa_worker_id a = w
      then update_first (\<lambda>a. wa_worker_id a = w)
        (\<lambda>a. a\<lparr>wa_tasks_completed := wa_tasks_completed a + 1,
               wa_records_processed := wa_records_processed a + tm_processed_records tm,
               wa_cpu_time_ms := wa_cpu_time_ms a + tm_cpu_time_ms tm,
               wa_wall_time_ms := wa_wall_time_ms a + tm_wall_time_ms tm\<rparr>) ws
      else ws @ [\<lparr>wa_worker_id = w, wa_tasks_completed = 1, wa_tasks_failed = 0,
                  wa_records_processed = tm_processed_records tm,
                  wa_cpu_time_ms = tm_cpu_time_ms tm, wa_wall_time_ms = tm_wall_time_ms tm\<rparr>])"

definition aggregate_failed :: "worker_id \<Rightarrow> worker_aggregate list \<Rightarrow> worker_aggregate list" where
  "aggregate_failed w ws =
     (if \<exists>a \<in> set ws. wa_worker_id a = w
      then update_first (\<lambda>a. wa_worker_id a = w) (\<lambda>a. a\<lparr>wa_tasks_failed := wa_tasks_failed a + 1\<rparr>) ws
      else ws @ [\<lparr>wa_worker_id = w, wa_tasks_completed = 0, wa_tasks_failed = 1,
                  wa_records_processed = 0, wa_cpu_time_ms = 0, wa_wall_time_ms = 0\<rparr>])"

definition update_pending :: "job_metrics \<Rightarrow> job_metrics" where
  "update_pending jm =
     jm\<lparr>jm_pending_tasks := jm_total_tasks jm - (jm_completed_tasks jm + jm_failed_tasks jm)\<rparr>"

definition on_workers :: "worker_id option \<Rightarrow> (worker_id \<Rightarrow> worker_aggregate list \<Rightarrow> worker_aggregate list) \<Rightarrow>
    job_metrics \<Rightarrow> job_metrics" where
  "on_workers w f jm =
     (case w of None \<Rightarrow> jm | Some wid \<Rightarrow> jm\<lparr>jm_workers := f wid (jm_workers jm)\<rparr>)"

definition count_completed :: "task_result \<Rightarrow> worker_id option \<Rightarrow> job_metrics \<Rightarrow> job_metrics" where
  "count_completed r w jm =
     (let jm1 = update_pending (jm\<lparr>jm_completed_tasks := jm_completed_tasks jm + 1\<rparr>);
          jm2 = jm1\<lparr>jm_stages := update_first (\<lambda>s. sm_stage_id s = res_stage_id r)
            (\<lambda>s. s\<lparr>sm_tasks_completed := sm_tasks_completed s + 1,
                   sm_duration_ms := sm_duration_ms s + tm_duration_ms (res_metrics r)\<rparr>) (jm_stages jm1)\<rparr>
      in on_workers w (aggregate_completed (res_metrics r)) jm2)"

definition count_failed :: "worker_id option \<Rightarrow> job_metrics \<Rightarrow> job_metrics" where
  "count_failed w jm =
     on_workers w aggregate_failed (update_pending (jm\<lparr>jm_failed_tasks := jm_failed_tasks jm + 1\<rparr>))"

definition all_completed :: "job_state \<Rightarrow> bool" where
  "all_completed js \<longleftrightarrow> (\<forall>st \<in> ran (job_tasks js). st = TS_Completed)"

text \<open>The job after a result: what is kept in memory.\<close>

definition job_after :: "task_result \<Rightarrow> job_state \<Rightarrow> job_state" where
  "job_after r js =
     (let w = task_worker (job_tasks js (res_task_id r))
      in case res_status r of
           TS_Completed \<Rightarrow>
             (let js1 = js\<lparr>job_results := job_results js @ [r],
                           job_state_metrics := count_completed r w (job_state_metrics js)\<rparr>
              in if all_completed js1 then js1\<lparr>job_state_status := JS_Succeeded\<rparr> else js1)
         | TS_Failed msg \<Rightarrow>
             js\<lparr>job_state_metrics := count_failed w (job_state_metrics js),
                job_state_status := JS_Failed, job_error := Some msg\<rparr>
         | _ \<Rightarrow> js)"

text \<open>What is written to the store about it.\<close>

definition save_after :: "master_env \<Rightarrow> task_result \<Rightarrow> job_state \<Rightarrow> master \<Rightarrow> master" where
  "save_after E r js m =
     (let job = res_job_id r;
          save = (\<lambda>st m. io_ignore (on_store (persist_job (uuids E) (codecs E) job (job_dag js) st)) m);
          save_status = (\<lambda>st pr err m. io_ignore (on_store (persist_job_status (uuids E) (codecs E) job
             st pr (job_state_metrics js) err (output_paths js))) m)
      in case res_status r of
           TS_Completed \<Rightarrow>
             if all_completed js
             then save_status JS_Succeeded (flt_of_int f32 100) None (save JS_Succeeded m)
             else save_status (job_state_status js) (progress (job_state_metrics js)) (job_error js) m
         | TS_Failed _ \<Rightarrow>
             save_status JS_Failed (progress (job_state_metrics js)) (job_error js) (save JS_Failed m)
         | _ \<Rightarrow> m)"

definition complete_task :: "master_env \<Rightarrow> task_result \<Rightarrow> (master, error, unit) io" where
  "complete_task E r m =
     (case m_jobs m (res_job_id r) of
        None \<Rightarrow> (Ok (), m)
      | Some js \<Rightarrow>
          (let js1 = js\<lparr>job_tasks := (job_tasks js)(res_task_id r \<mapsto> res_status r)\<rparr>
           in io_bind (on_store (persist_task_result (uuids E) (codecs E) r)) (\<lambda>_ m'.
                (let js2 = job_after r js1
                 in (Ok (), save_after E r js2 (set_job (res_job_id r) js2 m'))))
              (set_job (res_job_id r) js1 m)))"

section \<open>Workers\<close>

definition handle_heartbeat :: "master_env \<Rightarrow> system_time \<Rightarrow> heartbeat_message \<Rightarrow> master \<Rightarrow> master" where
  "handle_heartbeat E now hb m =
     (let m1 = m\<lparr>m_registry := record_heartbeat now (hb_worker_id hb) (hb_metrics hb) (hb_address hb)
                   (m_registry m)\<rparr>;
          m2 = io_ignore (on_store (persist_worker_metrics now (uuids E) (codecs E) (hb_worker_id hb)
                   WS_Active (hb_metrics hb))) m1
      in m2\<lparr>m_passes := m_passes m2 + 1\<rparr>)"

definition register_worker :: "worker_info \<Rightarrow> master \<Rightarrow> (error, worker_id) res \<times> master" where
  "register_worker info m =
     (Ok (wi_id info),
      m\<lparr>m_registry := add_worker info (m_registry m), m_passes := m_passes m + 1\<rparr>)"

definition deadline :: "config \<Rightarrow> nat" where
  "deadline cfg = (heartbeat_interval_ms cfg * 2 mod 2 ^ 64) * 1000000"

definition garbage_collect_workers :: "system_time \<Rightarrow> master \<Rightarrow> master" where
  "garbage_collect_workers now m =
     m\<lparr>m_registry := mark_stale_workers now (deadline (m_config m)) (m_registry m)\<rparr>"

section \<open>Questions of clients\<close>

record job_status_response =
  jsr_job_id :: job_id
  jsr_status :: job_status
  jsr_progress :: flt
  jsr_metrics :: job_metrics
  jsr_error :: "string option"
  jsr_outputs :: "string list"

definition worker_summary :: "worker_info \<Rightarrow> worker_aggregate" where
  "worker_summary w =
     \<lparr>wa_worker_id = wi_id w, wa_tasks_completed = wm_tasks_completed (wi_metrics w),
      wa_tasks_failed = wm_tasks_failed (wi_metrics w),
      wa_records_processed = wm_records_processed (wi_metrics w), wa_cpu_time_ms = 0,
      wa_wall_time_ms = 0\<rparr>"

definition merge_worker :: "worker_info \<Rightarrow> worker_aggregate list \<Rightarrow> worker_aggregate list" where
  "merge_worker w ws =
     (if \<exists>a \<in> set ws. wa_worker_id a = wi_id w
      then update_first (\<lambda>a. wa_worker_id a = wi_id w) (\<lambda>_. worker_summary w) ws
      else ws @ [worker_summary w])"

definition get_job_status :: "master_env \<Rightarrow> job_id \<Rightarrow> master \<Rightarrow> (engine_error, job_status_response) res" where
  "get_job_status E job m =
     (case m_jobs m job of
        None \<Rightarrow> Err (NotFound (''job '' @ uuid_to_string (uuids E) job @ '' not found''))
      | Some js \<Rightarrow>
          Ok \<lparr>jsr_job_id = job, jsr_status = job_state_status js,
              jsr_progress = progress (job_state_metrics js),
              jsr_metrics = (job_state_metrics js)\<lparr>jm_workers :=
                fold merge_worker (available_workers (worker_iter E) (m_registry m))
                  (jm_workers (job_state_metrics js))\<rparr>,
              jsr_error = job_error js, jsr_outputs = output_paths js\<rparr>)"

definition get_job_results :: "master_env \<Rightarrow> job_id \<Rightarrow> master \<Rightarrow> (engine_error, task_result list) res" where
  "get_job_results E job m =
     (case m_jobs m job of
        None \<Rightarrow> Err (NotFound (''job '' @ uuid_to_string (uuids E) job @ '' not found''))
      | Some js \<Rightarrow> Ok (job_results js))"

section \<open>Lemmas: what an operation leaves alone\<close>

named_theorems master_frame \<open>fields that an operation of the master does not change\<close>

lemma on_store_ignore:
  "io_ignore (on_store f) m = m\<lparr>m_store := snd (f (m_store m))\<rparr>"
  by (simp add: io_ignore_def on_store_def split: prod.splits)

lemma on_store_frame [master_frame]:
  "m_jobs (io_ignore (on_store f) m) = m_jobs m" "m_registry (io_ignore (on_store f) m) = m_registry m"
  "m_scheduler (io_ignore (on_store f) m) = m_scheduler m" "m_outbox (io_ignore (on_store f) m) = m_outbox m"
  "m_passes (io_ignore (on_store f) m) = m_passes m" "m_config (io_ignore (on_store f) m) = m_config m"
  "m_store (io_ignore (on_store f) m) = snd (f (m_store m))"
  by (simp_all add: on_store_ignore)

lemma set_job_frame [master_frame]:
  "m_jobs (set_job job js m) = (m_jobs m)(job \<mapsto> js)" "m_registry (set_job job js m) = m_registry m"
  "m_scheduler (set_job job js m) = m_scheduler m" "m_outbox (set_job job js m) = m_outbox m"
  "m_passes (set_job job js m) = m_passes m" "m_store (set_job job js m) = m_store m"
  "m_config (set_job job js m) = m_config m"
  by (simp_all add: set_job_def)

lemma assign_task_frame [master_frame]:
  "m_registry (assign_task t w m) = m_registry m" "m_scheduler (assign_task t w m) = m_scheduler m"
  "m_outbox (assign_task t w m) = m_outbox m" "m_passes (assign_task t w m) = m_passes m"
  "m_store (assign_task t w m) = m_store m" "m_config (assign_task t w m) = m_config m"
  by (simp_all add: assign_task_def set_job_def split: option.splits)

lemma mark_running_frame [master_frame]:
  "m_registry (mark_running E job m) = m_registry m" "m_scheduler (mark_running E job m) = m_scheduler m"
  "m_outbox (mark_running E job m) = m_outbox m" "m_passes (mark_running E job m) = m_passes m"
  "m_config (mark_running E job m) = m_config m"
  by (simp_all add: mark_running_def Let_def master_frame split: option.splits)

lemma dispatch_frame [master_frame]:
  "m_registry (dispatch t w m) = m_registry m" "m_scheduler (dispatch t w m) = m_scheduler m"
  "m_passes (dispatch t w m) = m_passes m" "m_jobs (dispatch t w m) = m_jobs m"
  "m_store (dispatch t w m) = m_store m" "m_config (dispatch t w m) = m_config m"
  by (simp_all add: dispatch_def split: option.splits)

lemma schedule_task_frame [master_frame]:
  "m_registry (schedule_task E t m) = m_registry m" "m_passes (schedule_task E t m) = m_passes m"
  "m_config (schedule_task E t m) = m_config m"
  "m_scheduler (schedule_task E t m) = snd (select_worker (worker_iter E) (m_registry m) (m_scheduler m))"
  by (simp_all add: schedule_task_def Let_def master_frame split: prod.splits option.splits)

text \<open>The worker a task is given to.\<close>

definition chosen :: "master_env \<Rightarrow> master \<Rightarrow> worker_id option" where
  "chosen E m = fst (select_worker (worker_iter E) (m_registry m) (m_scheduler m))"

definition assigned_job :: "task_id \<Rightarrow> worker_id \<Rightarrow> job_state \<Rightarrow> job_state" where
  "assigned_job tid w js =
     js\<lparr>job_tasks := (job_tasks js)(tid \<mapsto> TS_Assigned w), job_state_status := JS_Running\<rparr>"

lemma assign_task_jobs:
  "m_jobs (assign_task t w m) =
     (case m_jobs m (task_job_id t) of
        None \<Rightarrow> m_jobs m
      | Some js \<Rightarrow> (m_jobs m)(task_job_id t \<mapsto> js\<lparr>job_tasks := (job_tasks js)(task_id t \<mapsto> TS_Assigned w)\<rparr>))"
  by (simp add: assign_task_def master_frame split: option.splits)

lemma mark_running_jobs:
  "m_jobs (mark_running E job m) =
     (case m_jobs m job of
        None \<Rightarrow> m_jobs m | Some js \<Rightarrow> (m_jobs m)(job \<mapsto> js\<lparr>job_state_status := JS_Running\<rparr>))"
  by (auto simp: mark_running_def Let_def master_frame fun_eq_iff split: option.splits)

lemma schedule_task_jobs:
  "m_jobs (schedule_task E t m) =
     (case (chosen E m, m_jobs m (task_job_id t)) of
        (Some w, Some js) \<Rightarrow> (m_jobs m)(task_job_id t \<mapsto> assigned_job (task_id t) w js)
      | _ \<Rightarrow> m_jobs m)"
  by (auto simp: schedule_task_def Let_def chosen_def assigned_job_def master_frame assign_task_jobs
      mark_running_jobs split: prod.splits option.splits)

lemma schedule_task_outbox:
  "m_outbox (schedule_task E t m) = m_outbox m @
     (case chosen E m of
        None \<Rightarrow> []
      | Some w \<Rightarrow> (case workers (m_registry m) w of
                     None \<Rightarrow> [] | Some info \<Rightarrow> [(execute_url (wi_address info), t)]))"
  by (auto simp: schedule_task_def Let_def chosen_def master_frame dispatch_def get_worker_def
      split: prod.splits option.splits)

lemma update_first_map:
  "(\<And>x. g (f x) = g x) \<Longrightarrow> map g (update_first p f xs) = map g xs"
  by (induction xs) auto

lemma update_first_none: "\<forall>x \<in> set xs. \<not> p x \<Longrightarrow> update_first p f xs = xs"
  by (induction xs) auto

lemma update_pending_sel [simp]:
  "jm_total_tasks (update_pending jm) = jm_total_tasks jm"
  "jm_completed_tasks (update_pending jm) = jm_completed_tasks jm"
  "jm_failed_tasks (update_pending jm) = jm_failed_tasks jm"
  "jm_workers (update_pending jm) = jm_workers jm" "jm_stages (update_pending jm) = jm_stages jm"
  "jm_pending_tasks (update_pending jm) = jm_total_tasks jm - (jm_completed_tasks jm + jm_failed_tasks jm)"
  by (simp_all add: update_pending_def)

lemma on_workers_sel [simp]:
  "jm_total_tasks (on_workers w f jm) = jm_total_tasks jm"
  "jm_completed_tasks (on_workers w f jm) = jm_completed_tasks jm"
  "jm_failed_tasks (on_workers w f jm) = jm_failed_tasks jm"
  "jm_pending_tasks (on_workers w f jm) = jm_pending_tasks jm" "jm_stages (on_workers w f jm) = jm_stages jm"
  "on_workers None f jm = jm"
  by (simp_all add: on_workers_def split: option.splits)

lemma count_completed_sel [simp]:
  "jm_total_tasks (count_completed r w jm) = jm_total_tasks jm"
  "jm_completed_tasks (count_completed r w jm) = jm_completed_tasks jm + 1"
  "jm_failed_tasks (count_completed r w jm) = jm_failed_tasks jm"
  "jm_pending_tasks (count_completed r w jm) =
     jm_total_tasks jm - (jm_completed_tasks jm + 1 + jm_failed_tasks jm)"
  by (simp_all add: count_completed_def Let_def)

lemma count_failed_sel [simp]:
  "jm_total_tasks (count_failed w jm) = jm_total_tasks jm"
  "jm_completed_tasks (count_failed w jm) = jm_completed_tasks jm"
  "jm_failed_tasks (count_failed w jm) = jm_failed_tasks jm + 1"
  "jm_pending_tasks (count_failed w jm) =
     jm_total_tasks jm - (jm_completed_tasks jm + (jm_failed_tasks jm + 1))"
  by (simp_all add: count_failed_def)

lemma save_after_frame [master_frame]:
  "m_jobs (save_after E r js m) = m_jobs m" "m_registry (save_after E r js m) = m_registry m"
  "m_scheduler (save_after E r js m) = m_scheduler m" "m_outbox (save_after E r js m) = m_outbox m"
  "m_passes (save_after E r js m) = m_passes m" "m_config (save_after E r js m) = m_config m"
  by (simp_all add: save_after_def Let_def master_frame split: task_status.splits)

lemma job_after_sel [simp]:
  "job_tasks (job_after r js) = job_tasks js" "job_dag (job_after r js) = job_dag js"
  by (simp_all add: job_after_def Let_def split: task_status.splits)

section \<open>Lemmas: what an operation writes\<close>

definition stored :: "master_env \<Rightarrow> master \<Rightarrow> store_view \<Rightarrow> bool" where
  "stored E m v \<longleftrightarrow> db_view (uuids E) (codecs E) (job_rows E) (task_rows E) (m_store m) v"

lemma stored_frame: "m_store m' = m_store m \<Longrightarrow> stored E m v \<Longrightarrow> stored E m' v"
  by (simp add: stored_def)

lemma stored_write:
  "stored E m v \<Longrightarrow> stored E (io_ignore (on_store (db_write (uuids E) (codecs E) w)) m) (view_write w v)"
  unfolding stored_def on_store_frame by (rule database.write_view)

lemmas stored_persist = stored_write[where w = "WriteJob job d st" for job d st, simplified db_write.simps]
  stored_write[where w = "WriteStatus tid job st" for tid job st, simplified db_write.simps]

lemma db_view_same:
  assumes "db_view U C jit tit db v" "jobs_tbl db' = jobs_tbl db" "tasks_tbl db' = tasks_tbl db"
    "db_fault db' = db_fault db" "foreign_keys db' = foreign_keys db"
  shows "db_view U C jit tit db' v"
  using assms by (simp add: db_view_def jobs_rep_def tasks_rep_def)

lemma stored_status:
  "stored E m v \<Longrightarrow> stored E (io_ignore (on_store (persist_job_status U C job st pr jm err outs)) m) v"
  unfolding stored_def on_store_frame
  by (erule db_view_same) (simp_all add: persist_job_status_def transaction_def split: option.splits)

lemma stored_worker:
  "stored E m v \<Longrightarrow> stored E (io_ignore (on_store (persist_worker_metrics now U C w st wm)) m) v"
  unfolding stored_def on_store_frame
  by (erule db_view_same) (simp_all add: persist_worker_metrics_def transaction_def split: option.splits)

definition running_writes :: "job_id \<Rightarrow> master \<Rightarrow> store_write list" where
  "running_writes job m =
     (case m_jobs m job of
        None \<Rightarrow> []
      | Some js \<Rightarrow> if job_state_status js = JS_Running then [] else [WriteJob job (job_dag js) JS_Running])"

definition schedule_writes :: "master_env \<Rightarrow> task \<Rightarrow> master \<Rightarrow> store_write list" where
  "schedule_writes E t m =
     (case chosen E m of
        None \<Rightarrow> []
      | Some w \<Rightarrow> WriteStatus (task_id t) (task_job_id t) (TS_Assigned w) # running_writes (task_job_id t) m)"

lemma mark_running_stored:
  "stored E m v \<Longrightarrow> stored E (mark_running E job m) (fold view_write (running_writes job m) v)"
  by (auto simp: mark_running_def running_writes_def Let_def simp del: view_write.simps
      split: option.splits intro!: stored_status stored_persist
      intro: stored_frame[of "set_job job js m" m for js, OF set_job_frame(6)])

lemma running_writes_assign:
  "running_writes job (io_ignore (on_store f) (assign_task t w (m\<lparr>m_scheduler := sch\<rparr>))) = running_writes job m"
  by (auto simp: running_writes_def master_frame assign_task_jobs split: option.splits if_splits)

lemma schedule_task_stored:
  assumes "stored E m v"
  shows "stored E (schedule_task E t m) (fold view_write (schedule_writes E t m) v)"
proof (cases "select_worker (worker_iter E) (m_registry m) (m_scheduler m)")
  case (Pair sel sch)
  show ?thesis
  proof (cases sel)
    case None
    with Pair assms show ?thesis
      by (simp add: schedule_task_def schedule_writes_def chosen_def stored_def)
  next
    case (Some w)
    define m1 where "m1 = assign_task t w (m\<lparr>m_scheduler := sch\<rparr>)"
    have "stored E m1 v"
      using assms by (simp add: m1_def stored_def master_frame)
    then have "stored E (io_ignore (on_store (persist_task_status (uuids E) (codecs E) (task_id t)
        (task_job_id t) (TS_Assigned w))) m1) (view_write (WriteStatus (task_id t) (task_job_id t) (TS_Assigned w)) v)"
      by (rule stored_persist)
    from mark_running_stored[OF this, of "task_job_id t"] show ?thesis
      unfolding m1_def running_writes_assign using Pair Some
      by (simp add: schedule_task_def schedule_writes_def chosen_def stored_def master_frame)
  qed
qed

definition result_writes :: "task_result \<Rightarrow> job_state \<Rightarrow> store_write list" where
  "result_writes r js =
     (case res_status r of
        TS_Completed \<Rightarrow> if all_completed js then [WriteJob (res_job_id r) (job_dag js) JS_Succeeded] else []
      | TS_Failed _ \<Rightarrow> [WriteJob (res_job_id r) (job_dag js) JS_Failed]
      | _ \<Rightarrow> [])"

lemma save_after_stored:
  "stored E m v \<Longrightarrow> stored E (save_after E r js m) (fold view_write (result_writes r js) v)"
  by (auto simp: save_after_def result_writes_def Let_def simp del: view_write.simps
      split: task_status.splits intro!: stored_status stored_persist)

definition with_status :: "task_result \<Rightarrow> job_state \<Rightarrow> job_state" where
  "with_status r js = js\<lparr>job_tasks := (job_tasks js)(res_task_id r \<mapsto> res_status r)\<rparr>"

text \<open>A result of a job the master knows, with a store that works and knows the job.\<close>

lemma complete_task_known:
  assumes js: "m_jobs m (res_job_id r) = Some js" and st: "stored E m v"
    and acc: "accepted (WriteResult r) v"
  shows "fst (complete_task E r m) = Ok ()"
    "m_jobs (snd (complete_task E r m)) = (m_jobs m)(res_job_id r \<mapsto> job_after r (with_status r js))"
    "stored E (snd (complete_task E r m))
       (fold view_write (WriteResult r # result_writes r (job_after r (with_status r js))) v)"
    "m_outbox (snd (complete_task E r m)) = m_outbox m" "m_registry (snd (complete_task E r m)) = m_registry m"
    "m_scheduler (snd (complete_task E r m)) = m_scheduler m"
    "m_passes (snd (complete_task E r m)) = m_passes m" "m_config (snd (complete_task E r m)) = m_config m"
proof -
  define m1 where "m1 = set_job (res_job_id r) (with_status r js) m"
  have st1: "stored E m1 v" using st by (simp add: m1_def stored_def master_frame)
  obtain db where db: "persist_task_result (uuids E) (codecs E) r (m_store m1) = (Ok (), db)"
    using db_write_outcome[of "uuids E" "codecs E" "job_rows E" "task_rows E" "m_store m1" v "WriteResult r"]
      st1 acc by (cases "persist_task_result (uuids E) (codecs E) r (m_store m1)") (simp add: stored_def)
  define m2 where "m2 = m1\<lparr>m_store := db\<rparr>"
  have st2: "stored E m2 (view_write (WriteResult r) v)"
    using db_write_view[of "uuids E" "codecs E" "job_rows E" "task_rows E" "m_store m1" v "WriteResult r"]
      st1 db by (simp add: stored_def m2_def del: view_write.simps)
  let ?js2 = "job_after r (with_status r js)"
  have run: "complete_task E r m = (Ok (), save_after E r ?js2 (set_job (res_job_id r) ?js2 m2))"
    using js db by (simp add: complete_task_def Let_def io_bind_def on_store_def with_status_def m1_def m2_def)
  have "stored E (set_job (res_job_id r) ?js2 m2) (view_write (WriteResult r) v)"
    using st2 by (simp add: stored_def master_frame)
  from save_after_stored[OF this, of r ?js2] run
  show "stored E (snd (complete_task E r m)) (fold view_write (WriteResult r # result_writes r ?js2) v)"
    by simp
  show "fst (complete_task E r m) = Ok ()" using run by simp
  show "m_jobs (snd (complete_task E r m)) = (m_jobs m)(res_job_id r \<mapsto> ?js2)"
    using run by (simp add: master_frame m2_def m1_def)
  show "m_outbox (snd (complete_task E r m)) = m_outbox m" "m_registry (snd (complete_task E r m)) = m_registry m"
    "m_scheduler (snd (complete_task E r m)) = m_scheduler m" "m_passes (snd (complete_task E r m)) = m_passes m"
    "m_config (snd (complete_task E r m)) = m_config m"
    using run by (simp_all add: master_frame m2_def m1_def)
qed

lemma complete_task_unknown: "m_jobs m (res_job_id r) = None \<Longrightarrow> complete_task E r m = (Ok (), m)"
  by (simp add: complete_task_def)

section \<open>Lemmas: progress\<close>

lemma flt_val_magnitude: "flt_val (Finite False m e) = magnitude m e"
  by (simp add: magnitude_def signed_def)

lemma progress_upper:
  assumes "jm_completed_tasks jm \<le> jm_total_tasks jm" "jm_total_tasks jm < 2 ^ 24"
  shows "\<exists>m e. progress jm = Finite False m e \<and> magnitude m e \<le> 100"
proof (cases "jm_total_tasks jm = 0")
  case True
  then show ?thesis by (simp add: progress_def fzero_def magnitude_def)
next
  case False
  let ?c = "jm_completed_tasks jm" and ?t = "jm_total_tasks jm"
  have F: "0 < prec f32" "emin f32 \<le> 0" "1 \<le> emax f32" "prec f32 = 24" by (simp_all add: f32_def)
  obtain m e where c: "flt_of_int f32 (int ?c) = Finite False m e" "magnitude m e = real ?c"
    using flt_of_int_exact[of ?c f32] assms F by auto
  obtain m' e' where t: "flt_of_int f32 (int ?t) = Finite False m' e'" "magnitude m' e' = real ?t"
    using flt_of_int_exact[of ?t f32] assms F by auto
  obtain n f where h: "flt_of_int f32 100 = Finite False n f" "magnitude n f = 100"
    using flt_of_int_exact[of 100 f32] F by auto
  have m': "0 < m'" using t(2) False by (cases m') (simp_all add: magnitude_def)
  have "magnitude m (e - e') \<le> magnitude 1 0 * real m'"
  proof -
    have "magnitude m e \<le> magnitude m' e'" using c t assms(1) by simp
    then have "real m * 2 powi (e - e') * 2 powi e' \<le> real m' * 2 powi e'"
      by (simp add: magnitude_def mult.assoc flip: power_int_add)
    then show ?thesis by (simp add: magnitude_def)
  qed
  from round_exp_upper[OF m' F(1) _ _ _ this, of False] F obtain q g where
    q: "round_exp f32 False m m' (e - e') = Finite False q g" "magnitude q g \<le> magnitude 1 0"
    by auto
  have "magnitude (q * n) (g + f) = magnitude q g * magnitude n f"
    by (simp add: magnitude_def power_int_add)
  also have "\<dots> \<le> magnitude 100 0 * real 1"
    using q(2) h(2) by (simp add: magnitude_def)
  finally obtain p k where
    p: "round_exp f32 False (q * n) 1 (g + f) = Finite False p k" "magnitude p k \<le> magnitude 100 0"
    using round_exp_upper[of 1 f32 100 0 "q * n" "g + f" False] F by auto
  have "progress jm = Finite False p k"
    using False m' c t h q p by (simp add: progress_def)
  moreover have "magnitude p k \<le> 100" using p(2) by (simp add: magnitude_def)
  ultimately show ?thesis by blast
qed

lemma progress_complete:
  assumes "jm_completed_tasks jm = jm_total_tasks jm" "0 < jm_total_tasks jm" "jm_total_tasks jm < 2 ^ 24"
  shows "progress jm = flt_of_int f32 100"
proof -
  let ?t = "jm_total_tasks jm"
  obtain m e where t: "flt_of_int f32 (int ?t) = Finite False m e" "magnitude m e = real ?t"
    using flt_of_int_exact[of ?t f32] assms by (auto simp: f32_def)
  have m: "0 < m" using t(2) assms(2) by (cases m) (simp_all add: magnitude_def)
  have "round_exp f32 False m m 0 = Finite False (2 ^ 23) (- 23)"
    using round_flt_self[of m f32 False] m by (simp add: round_exp_def f32_def)
  moreover have "fmul f32 (Finite False (2 ^ 23) (- 23)) (flt_of_int f32 100) = flt_of_int f32 100"
    by (simp add: flt_eval)
  ultimately show ?thesis
    using assms m t by (simp add: progress_def)
qed

section \<open>Lemmas: submission\<close>

lemma status_progress:
  assumes "m_jobs m job = Some js"
    and "jm_completed_tasks (job_state_metrics js) \<le> jm_total_tasks (job_state_metrics js)"
    and "jm_total_tasks (job_state_metrics js) < 2 ^ 24"
  shows "\<exists>resp. get_job_status E job m = Ok resp \<and> is_finite (jsr_progress resp) \<and>
    0 \<le> flt_val (jsr_progress resp) \<and> flt_val (jsr_progress resp) \<le> 100 \<and>
    (jm_completed_tasks (job_state_metrics js) = jm_total_tasks (job_state_metrics js) \<and>
     0 < jm_total_tasks (job_state_metrics js) \<longrightarrow> jsr_progress resp = flt_of_int f32 100)"
proof -
  obtain n e where "progress (job_state_metrics js) = Finite False n e" "magnitude n e \<le> 100"
    using progress_upper[OF assms(2,3)] by blast
  moreover have "0 \<le> magnitude n e" by (simp add: magnitude_def)
  ultimately show ?thesis
    using assms progress_complete[of "job_state_metrics js"]
    by (auto simp: get_job_status_def flt_val_magnitude simp del: flt_val.simps)
qed

lemma persist_queued_ok:
  assumes "stored E m v" "view_jobs v job \<noteq> None"
  shows "\<exists>db. persist_queued E job ts tasks m =
      (Ok (fold (\<lambda>t f. f(task_id t \<mapsto> TS_Queued)) ts tasks), m\<lparr>m_store := db\<rparr>) \<and>
    stored E (m\<lparr>m_store := db\<rparr>) (fold (\<lambda>t. view_write (WriteStatus (task_id t) job TS_Queued)) ts v)"
  using assms
proof (induction ts arbitrary: tasks m v)
  case Nil
  then show ?case by (auto simp: io_return_def intro!: exI[of _ "m_store m"])
next
  case (Cons t ts)
  let ?w = "WriteStatus (task_id t) job TS_Queued"
  obtain db where db: "persist_task_status (uuids E) (codecs E) (task_id t) job TS_Queued (m_store m) = (Ok (), db)"
    using db_write_outcome[of "uuids E" "codecs E" "job_rows E" "task_rows E" "m_store m" v ?w] Cons.prems
    by (cases "persist_task_status (uuids E) (codecs E) (task_id t) job TS_Queued (m_store m)")
      (simp add: stored_def accepted_def)
  have st: "stored E (m\<lparr>m_store := db\<rparr>) (view_write ?w v)"
    using db_write_view[of "uuids E" "codecs E" "job_rows E" "task_rows E" "m_store m" v ?w] Cons.prems db
    by (simp add: stored_def del: view_write.simps)
  have "view_jobs (view_write ?w v) job \<noteq> None" using Cons.prems(2) by simp
  from Cons.IH[OF st this, of "tasks(task_id t \<mapsto> TS_Queued)"] show ?case
    using db by (simp add: io_bind_def on_store_def del: view_write.simps fun_upd_apply)
qed

definition admitted_job :: "master_env \<Rightarrow> job_id \<Rightarrow> dag_specification \<Rightarrow> job_state" where
  "admitted_job E job d =
     \<lparr>job_dag = d, job_state_status = JS_Accepted,
      job_tasks = fold (\<lambda>t f. f(task_id t \<mapsto> TS_Queued)) (tasks_of E d job) Map.empty,
      job_results = [], job_state_metrics = initial_metrics E d job (tasks_of E d job), job_error = None\<rparr>"

definition admit_writes :: "master_env \<Rightarrow> job_id \<Rightarrow> dag_specification \<Rightarrow> store_write list" where
  "admit_writes E job d =
     WriteJob job d JS_Accepted # map (\<lambda>t. WriteStatus (task_id t) job TS_Queued) (tasks_of E d job)"

lemma admit_job_ok:
  assumes "stored E m v" "validate d = Ok ()"
  shows "\<exists>db. admit_job E job d m =
      (Ok (tasks_of E d job), set_job job (admitted_job E job d) (m\<lparr>m_store := db\<rparr>)) \<and>
    stored E (m\<lparr>m_store := db\<rparr>) (fold view_write (admit_writes E job d) v)"
proof -
  let ?w = "WriteJob job d JS_Accepted"
  obtain db where db: "persist_job (uuids E) (codecs E) job d JS_Accepted (m_store m) = (Ok (), db)"
    using db_write_outcome[of "uuids E" "codecs E" "job_rows E" "task_rows E" "m_store m" v ?w] assms
    by (cases "persist_job (uuids E) (codecs E) job d JS_Accepted (m_store m)")
      (simp add: stored_def accepted_def)
  have st: "stored E (m\<lparr>m_store := db\<rparr>) (view_write ?w v)"
    using db_write_view[of "uuids E" "codecs E" "job_rows E" "task_rows E" "m_store m" v ?w] assms db
    by (simp add: stored_def del: view_write.simps)
  obtain db' where db': "persist_queued E job (tasks_of E d job) Map.empty (m\<lparr>m_store := db\<rparr>) =
      (Ok (fold (\<lambda>t f. f(task_id t \<mapsto> TS_Queued)) (tasks_of E d job) Map.empty), m\<lparr>m_store := db'\<rparr>)"
    and st': "stored E (m\<lparr>m_store := db'\<rparr>)
      (fold (\<lambda>t. view_write (WriteStatus (task_id t) job TS_Queued)) (tasks_of E d job) (view_write ?w v))"
    using persist_queued_ok[OF st, of job "tasks_of E d job" Map.empty] by auto
  from stored_status[OF st', of "uuids E" "codecs E" job JS_Accepted "fzero f32"
      "initial_metrics E d job (tasks_of E d job)" None "[]"] db db' assms(2)
  show ?thesis
    by (auto simp: admit_job_def io_bind_def on_store_def io_lift_def Let_def admitted_job_def
        admit_writes_def on_store_ignore fold_map comp_def simp del: view_write.simps)
qed

lemma admit_job_invalid: "validate d = Err e \<Longrightarrow> admit_job E job d m = (Err e, m)"
  by (simp add: admit_job_def io_bind_def io_lift_def)

lemma validate_cases: "validate d = Ok () \<or> (\<exists>e. validate d = Err e)"
proof -
  have "validate_nodes d ns = Ok () \<or> (\<exists>e. validate_nodes d ns = Err e)" for ns
    by (induction ns) auto
  then show ?thesis by (simp add: validate_def)
qed

lemma fold_queued: "fold (\<lambda>t f. f(task_id t \<mapsto> TS_Queued)) ts f tid =
    (if tid \<in> task_id ` set ts then Some TS_Queued else f tid)"
  by (induction ts arbitrary: f) auto

lemma admitted_tasks:
  "job_tasks (admitted_job E job d) tid = (if tid \<in> task_id ` set (tasks_of E d job) then Some TS_Queued else None)"
  by (simp add: admitted_job_def fold_queued)

section \<open>Lemmas: scheduling passes\<close>

text \<open>The requests and the statuses a sequence of choices leads to.\<close>

definition sent :: "registry \<Rightarrow> worker_id option \<Rightarrow> task \<Rightarrow> (string \<times> task) list" where
  "sent r w t =
     (case w of
        None \<Rightarrow> []
      | Some i \<Rightarrow> (case workers r i of None \<Rightarrow> [] | Some info \<Rightarrow> [(execute_url (wi_address info), t)]))"

definition assign_in :: "worker_id option \<Rightarrow> task \<Rightarrow> job_map \<Rightarrow> job_map" where
  "assign_in w t jobs =
     (case (w, jobs (task_job_id t)) of
        (Some i, Some js) \<Rightarrow> jobs(task_job_id t \<mapsto> assigned_job (task_id t) i js)
      | _ \<Rightarrow> jobs)"

abbreviation choices :: "master_env \<Rightarrow> nat \<Rightarrow> master \<Rightarrow> worker_id option list" where
  "choices E n m \<equiv> fst (select_many (select_worker (worker_iter E) (m_registry m)) n (m_scheduler m))"

lemma length_select_many: "length (fst (select_many sel n s)) = n"
proof (induction n arbitrary: s)
  case 0
  then show ?case by simp
next
  case (Suc n)
  obtain w s' where "sel s = (w, s')" by (cases "sel s")
  with Suc[of s'] show ?case by (cases "select_many sel n s'") simp
qed

lemma choices_Suc: "choices E (Suc n) m = chosen E m # choices E n (schedule_task E t m)"
  by (simp add: master_frame chosen_def split: prod.splits)

lemma fold_schedule:
  "m_outbox (fold (schedule_task E) ts m) =
     m_outbox m @ concat (map2 (sent (m_registry m)) (choices E (length ts) m) ts)"
  "m_jobs (fold (schedule_task E) ts m) =
     fold (\<lambda>(w, t). assign_in w t) (zip (choices E (length ts) m) ts) (m_jobs m)"
  "m_registry (fold (schedule_task E) ts m) = m_registry m"
  "m_passes (fold (schedule_task E) ts m) = m_passes m"
  "m_config (fold (schedule_task E) ts m) = m_config m"
proof (induction ts arbitrary: m)
  case Nil
  { case 1 show ?case by simp }
  { case 2 show ?case by simp }
  { case 3 show ?case by simp }
  { case 4 show ?case by simp }
  { case 5 show ?case by simp }
next
  case (Cons t ts)
  have jobs: "m_jobs (schedule_task E t m) = assign_in (chosen E m) t (m_jobs m)" for m
    by (simp add: schedule_task_jobs assign_in_def)
  have out: "m_outbox (schedule_task E t m) = m_outbox m @ sent (m_registry m) (chosen E m) t" for m
    by (simp add: schedule_task_outbox sent_def)
  have ch: "choices E (length (t # ts)) m = chosen E m # choices E (length ts) (schedule_task E t m)" for m
    using choices_Suc[where n = "length ts" and t = t] by simp
  { case 1 show ?case unfolding ch using Cons.IH(1)[of "schedule_task E t m"] out
      by (simp add: schedule_task_frame(1) del: select_many.simps) }
  { case 2 show ?case unfolding ch using Cons.IH(2)[of "schedule_task E t m"] jobs by simp }
  { case 3 show ?case using Cons.IH(3)[of "schedule_task E t m"] by (simp add: schedule_task_frame) }
  { case 4 show ?case using Cons.IH(4)[of "schedule_task E t m"] by (simp add: schedule_task_frame) }
  { case 5 show ?case using Cons.IH(5)[of "schedule_task E t m"] by (simp add: schedule_task_frame) }
qed

text \<open>A job keeps its tasks, its graph, its results and its metrics while tasks are handed out.\<close>

lemma assign_in_job:
  "fold (\<lambda>(w, t). assign_in w t) wts jobs job = Some js' \<Longrightarrow>
   \<exists>js. jobs job = Some js \<and> job_dag js' = job_dag js \<and> job_results js' = job_results js \<and>
     job_state_metrics js' = job_state_metrics js \<and> job_error js' = job_error js"
proof (induction wts arbitrary: jobs)
  case Nil
  then show ?case by simp
next
  case (Cons wt wts)
  obtain w t where wt: "wt = (w, t)" by (cases wt)
  from Cons.IH[of "assign_in w t jobs"] Cons.prems wt show ?case
    by (auto simp: assign_in_def assigned_job_def split: option.splits if_splits)
qed

lemma assign_in_known:
  "jobs job \<noteq> None \<Longrightarrow> fold (\<lambda>(w, t). assign_in w t) wts jobs job \<noteq> None"
proof (induction wts arbitrary: jobs)
  case Nil
  then show ?case by simp
next
  case (Cons wt wts)
  obtain w t where wt: "wt = (w, t)" by (cases wt)
  with Cons.prems have "assign_in w t jobs job \<noteq> None"
    by (auto simp: assign_in_def split: option.splits)
  with Cons.IH wt show ?case by simp
qed

lemma assign_in_other:
  assumes "\<And>w t. (w, t) \<in> set wts \<Longrightarrow> (task_job_id t, task_id t) \<noteq> (job, tid)"
  shows "(\<exists>js. fold (\<lambda>(w, t). assign_in w t) wts jobs job = Some js \<and> job_tasks js tid = Some st) \<longleftrightarrow>
     (\<exists>js. jobs job = Some js \<and> job_tasks js tid = Some st)"
  using assms
proof (induction wts arbitrary: jobs)
  case Nil
  then show ?case by simp
next
  case (Cons wt wts)
  obtain w t where wt: "wt = (w, t)" by (cases wt)
  with Cons.prems[of w t] have ne: "(task_job_id t, task_id t) \<noteq> (job, tid)" by simp
  have "(\<exists>js. assign_in w t jobs job = Some js \<and> job_tasks js tid = Some st) \<longleftrightarrow>
      (\<exists>js. jobs job = Some js \<and> job_tasks js tid = Some st)"
    using ne by (auto simp: assign_in_def assigned_job_def split: option.splits)
  moreover have "(\<exists>js. fold (\<lambda>(w, t). assign_in w t) wts (assign_in w t jobs) job = Some js \<and> job_tasks js tid = Some st) \<longleftrightarrow>
      (\<exists>js. assign_in w t jobs job = Some js \<and> job_tasks js tid = Some st)"
    using Cons.prems by (intro Cons.IH) auto
  ultimately show ?case using wt by simp
qed

lemma rev_induct2 [consumes 1, case_names Nil snoc]:
  assumes "length xs = length ys" "P [] []"
    and "\<And>x xs y ys. length xs = length ys \<Longrightarrow> P xs ys \<Longrightarrow> P (xs @ [x]) (ys @ [y])"
  shows "P xs ys"
  using assms(1)
proof (induction xs arbitrary: ys rule: rev_induct)
  case Nil
  with assms(2) show ?case by simp
next
  case (snoc x xs)
  then obtain zs y where "ys = zs @ [y]" by (cases ys rule: rev_cases) auto
  with snoc assms(3) show ?case by simp
qed

lemma assign_in_keeps:
  assumes "jobs job = Some js" "w \<in> A" "job_tasks js tid = Some (TS_Assigned w)"
    "job_state_status js = JS_Running" "i \<in> A"
  shows "\<exists>js' w'. assign_in (Some i) u jobs job = Some js' \<and> w' \<in> A \<and>
    job_tasks js' tid = Some (TS_Assigned w') \<and> job_state_status js' = JS_Running"
  using assms by (auto simp: assign_in_def assigned_job_def split: option.splits)

lemma assign_in_assigned:
  assumes "length ws = length ts" "list_all (\<lambda>w. \<exists>v \<in> A. w = Some v) ws" "t \<in> set ts"
    and "jobs (task_job_id t) \<noteq> None"
  shows "\<exists>js w. fold (\<lambda>(w, t). assign_in w t) (zip ws ts) jobs (task_job_id t) = Some js \<and> w \<in> A \<and>
     job_tasks js (task_id t) = Some (TS_Assigned w) \<and> job_state_status js = JS_Running"
  using assms(1-3)
proof (induction ws ts rule: rev_induct2)
  case Nil
  then show ?case by simp
next
  case (snoc x ws u ts)
  let ?jobs = "fold (\<lambda>(w, t). assign_in w t) (zip ws ts) jobs"
  from snoc.prems obtain i where x: "x = Some i" "i \<in> A" by auto
  show ?case
  proof (cases "t \<in> set ts")
    case True
    with snoc obtain js w where "?jobs (task_job_id t) = Some js" "w \<in> A"
      "job_tasks js (task_id t) = Some (TS_Assigned w)" "job_state_status js = JS_Running" by auto
    from assign_in_keeps[where jobs = ?jobs, OF this x(2), of u] show ?thesis
      using x(1) snoc.hyps by auto
  next
    case False
    with snoc.prems have "u = t" by simp
    moreover have "?jobs (task_job_id t) \<noteq> None"
      using assms(4) by (rule assign_in_known)
    moreover then obtain js where "?jobs (task_job_id t) = Some js" by auto
    ultimately have "assign_in x u ?jobs (task_job_id t) = Some (assigned_job (task_id t) i js)"
      using x(1) by (simp add: assign_in_def)
    then show ?thesis using x snoc.hyps by (auto simp: assigned_job_def)
  qed
qed

text \<open>What a pass sees: the queued tasks of the plan of every job.\<close>

lemma tasks_of_job: "t \<in> set (tasks_of E d job) \<Longrightarrow> task_job_id t = job"
  by (auto simp: materialize_tasks_def Let_def split: option.splits if_splits)

lemma snapshot_iff:
  assumes "iterates (job_iter E)" "finite (dom (m_jobs m))"
  shows "t \<in> set (queued_tasks_snapshot E m) \<longleftrightarrow>
    (\<exists>js. m_jobs m (task_job_id t) = Some js \<and> t \<in> set (tasks_of E (job_dag js) (task_job_id t)) \<and>
      job_tasks js (task_id t) = Some TS_Queued)"
proof -
  have en: "enumerates (job_iter E (m_jobs m)) (m_jobs m)"
    using assms by (simp add: iterates_def)
  show ?thesis
    using tasks_of_job
    by (fastforce simp: queued_tasks_snapshot_def is_queued_def enumerates_set[OF en])
qed

text \<open>A plan has one task per partition, so a snapshot has no task twice.\<close>

lemma tasks_of_partitions: "distinct (map task_partition (tasks_of E d job))"
  by (auto simp: materialize_tasks_def Let_def comp_def split: option.splits)

lemma snapshot_distinct:
  assumes "iterates (job_iter E)" "finite (dom (m_jobs m))"
  shows "distinct (map (\<lambda>t. (task_job_id t, task_partition t)) (queued_tasks_snapshot E m))"
proof -
  let ?key = "\<lambda>t. (task_job_id t, task_partition t)"
  have "distinct (map ?key (concat (map (\<lambda>(job, js). filter (is_queued js) (tasks_of E (job_dag js) job)) xs)))"
    if "distinct (map fst xs)" for xs :: "(job_id \<times> job_state) list"
    using that
  proof (induction xs)
    case (Cons x xs)
    obtain job js where x: "x = (job, js)" by (cases x)
    have "map ?key (tasks_of E (job_dag js) job) = map (Pair job) (map task_partition (tasks_of E (job_dag js) job))"
      using tasks_of_job by auto
    with tasks_of_partitions[where E = E and d = "job_dag js" and job = job] have "distinct (map ?key (tasks_of E (job_dag js) job))"
      by (simp only: distinct_map[of "Pair job"]) (simp add: inj_on_def)
    then have "distinct (map ?key (filter (is_queued js) (tasks_of E (job_dag js) job)))"
      by (rule distinct_map_filter)
    moreover have "?key a \<noteq> ?key b" if "a \<in> set (filter (is_queued js) (tasks_of E (job_dag js) job))"
      "b \<in> set (concat (map (\<lambda>(job, js). filter (is_queued js) (tasks_of E (job_dag js) job)) xs))" for a b
    proof -
      from that(2) obtain j k where jk: "(j, k) \<in> set xs" "b \<in> set (tasks_of E (job_dag k) j)" by auto
      then have "task_job_id b = j" by (intro tasks_of_job)
      moreover have "task_job_id a = job" using that(1) by (simp add: tasks_of_job[where t = a and E = E and d = "job_dag js" and job = job])
      moreover have "job \<notin> fst ` set xs" using Cons.prems x by simp
      with jk(1) have "j \<noteq> job" by force
      ultimately show ?thesis by simp
    qed
    then have "?key ` set (filter (is_queued js) (tasks_of E (job_dag js) job)) \<inter>
        ?key ` set (concat (map (\<lambda>(job, js). filter (is_queued js) (tasks_of E (job_dag js) job)) xs)) = {}"
      by blast
    moreover have "distinct (map ?key (concat (map (\<lambda>(job, js). filter (is_queued js) (tasks_of E (job_dag js) job)) xs)))"
      using Cons by simp
    ultimately show ?case unfolding x list.map concat.simps prod.case map_append distinct_append set_map by blast
  qed simp
  moreover have "distinct (map fst (job_iter E (m_jobs m)))"
    using assms by (simp add: iterates_def enumerates_def)
  ultimately show ?thesis unfolding queued_tasks_snapshot_def by blast
qed

text \<open>With an available worker and a scheduler in step, every task of a list goes out, once.\<close>

lemma sent_active:
  assumes "list_all (\<lambda>w. \<exists>v \<in> active r. w = Some v) ws" "length ws = length ts"
  shows "map snd (concat (map2 (sent r) ws ts)) = ts"
    "\<forall>q \<in> set (concat (map2 (sent r) ws ts)). \<exists>w \<in> active r. fst q = execute_url (wi_address (the (workers r w)))"
  using assms(2,1)
proof (induction ws ts rule: list_induct2)
  case Nil
  { case 1 show ?case by simp }
  { case 2 show ?case by simp }
next
  case (Cons x ws t ts)
  { case 1
    then obtain v info where "x = Some v" "workers r v = Some info" by (auto simp: active_def)
    with 1 Cons.IH(1) show ?case by (simp add: sent_def) }
  { case 2
    then obtain v info where v: "x = Some v" "workers r v = Some info" "v \<in> active r" by (auto simp: active_def)
    with 2 Cons.IH(2) show ?case by (auto simp: sent_def intro!: bexI[of _ v]) }
qed

definition can_schedule :: "master_env \<Rightarrow> master \<Rightarrow> bool" where
  "can_schedule E m \<longleftrightarrow> iterates (worker_iter E) \<and> registry_ok (m_registry m) \<and>
     in_step (m_registry m) (m_scheduler m) \<and> active (m_registry m) \<noteq> {}"

lemma can_schedule_choices:
  assumes "can_schedule E m"
  shows "list_all (\<lambda>w. \<exists>v \<in> active (m_registry m). w = Some v) (choices E n m)"
  using assms by (intro round_robin.select_many_active) (auto simp: can_schedule_def)

lemma fold_schedule_active:
  assumes "can_schedule E m"
  shows "map snd (m_outbox (fold (schedule_task E) ts m)) = map snd (m_outbox m) @ ts"
    "\<forall>q \<in> set (drop (length (m_outbox m)) (m_outbox (fold (schedule_task E) ts m))).
       \<exists>w \<in> active (m_registry m). fst q = execute_url (wi_address (the (workers (m_registry m) w)))"
    "t \<in> set ts \<Longrightarrow> m_jobs m (task_job_id t) \<noteq> None \<Longrightarrow>
       \<exists>js w. m_jobs (fold (schedule_task E) ts m) (task_job_id t) = Some js \<and> w \<in> active (m_registry m) \<and>
         job_tasks js (task_id t) = Some (TS_Assigned w) \<and> job_state_status js = JS_Running"
  using sent_active[OF can_schedule_choices[OF assms, of "length ts"] length_select_many]
    assign_in_assigned[OF length_select_many can_schedule_choices[OF assms, of "length ts"], of t "m_jobs m"]
  by (simp_all add: fold_schedule)

lemma schedule_task_can_schedule:
  assumes "can_schedule E m"
  shows "can_schedule E (schedule_task E t m)"
  using assms round_robin.select_in_step[of "worker_iter E" "m_registry m" "m_scheduler m"]
  by (simp add: can_schedule_def schedule_task_frame)

lemma fold_can_schedule: "can_schedule E m \<Longrightarrow> can_schedule E (fold (schedule_task E) ts m)"
  by (induction ts arbitrary: m) (auto intro: schedule_task_can_schedule)

section \<open>Examples\<close>

definition example_env :: master_env where
  "example_env = \<lparr>uuids = example_uuid_api, codecs = example_codec, node_order = (\<lambda>_. key_order),
     stage_order = (\<lambda>_. key_order), worker_iter = key_order, job_iter = key_order,
     job_rows = key_order, task_rows = key_order\<rparr>"

definition simple_dag :: dag_specification where
  "simple_dag = \<lparr>dag_nodes = [node ''a'' (OT_Read ''in.jsonl'' ''jsonl'')], dag_edges = [], dag_partitions = 1\<rparr>"

definition simple_task :: task where
  "simple_task = hd (tasks_of example_env simple_dag 1)"

definition simple_job :: job_state where
  "simple_job = \<lparr>job_dag = simple_dag, job_state_status = JS_Accepted,
     job_tasks = [task_id simple_task \<mapsto> TS_Queued], job_results = [],
     job_state_metrics = default_job_metrics\<lparr>jm_total_tasks := 1, jm_pending_tasks := 1\<rparr>, job_error = None\<rparr>"

definition example_worker :: worker_info where
  "example_worker = \<lparr>wi_id = 5, wi_address = ''w5:9000'', wi_status = WS_Active, wi_last_heartbeat = 0,
     wi_metrics = default_worker_metrics\<rparr>"

text \<open>A master with one job of one queued task, and one worker.\<close>

definition example_master :: master where
  "example_master = \<lparr>m_config = default_config, m_registry = add_worker example_worker default_registry,
     m_scheduler = default_scheduler, m_jobs = [1 \<mapsto> simple_job],
     m_store = fold (\<lambda>w db. snd (db_write example_uuid_api example_codec w db))
       [WriteJob 1 simple_dag JS_Accepted, WriteStatus (task_id simple_task) 1 TS_Queued] empty_store,
     m_outbox = [], m_passes = 0\<rparr>"

definition example_view :: store_view where
  "example_view = fold view_write
     [WriteJob 1 simple_dag JS_Accepted, WriteStatus (task_id simple_task) 1 TS_Queued] empty_view"

lemma example_stored: "stored example_env example_master example_view"
  unfolding stored_def example_view_def example_master_def example_env_def master_env.simps master.simps
  by (intro database.writes_view empty_store_view example_codec_ok iterates_key_order)

lemma example_view_eq:
  "view_jobs example_view = [1 \<mapsto> (JS_Accepted, simple_dag)]"
  "view_tasks example_view = [task_id simple_task \<mapsto> (1, TS_Queued, None)]"
  by (simp_all add: example_view_def empty_view_def accepted_def)

lemma example_tasks:
  "tasks_of example_env simple_dag 1 = [simple_task]" "task_job_id simple_task = 1"
proof -
  have "length (tasks_of example_env simple_dag 1) = 1"
    by (simp add: simple_dag_def node_def materialize_tasks_def read_source_def Let_def
        ordered_nodes_def inject_local_shuffle_def inject_node_def)
  then obtain t where t: "tasks_of example_env simple_dag 1 = [t]"
    by (metis One_nat_def length_0_conv length_Suc_conv)
  then show "tasks_of example_env simple_dag 1 = [simple_task]" by (simp add: simple_task_def)
  with tasks_of_job[where t = simple_task and E = example_env and d = simple_dag and job = 1] show "task_job_id simple_task = 1" by simp
qed

lemma example_master_active: "active (m_registry example_master) = {5}"
  by (auto simp: active_def example_master_def add_worker_def default_registry_def example_worker_def
      split: if_splits)

lemma example_can_schedule: "can_schedule example_env example_master"
proof -
  have "in_step (m_registry example_master) (m_scheduler example_master)"
    by (simp add: in_step_def example_master_def default_scheduler_def)
  moreover have "registry_ok (m_registry example_master)"
    by (simp add: example_master_def)
  ultimately show ?thesis
    using iterates_key_order example_master_active by (simp add: can_schedule_def example_env_def)
qed

lemma example_jobs: "m_jobs example_master = [1 \<mapsto> simple_job]"
  by (simp add: example_master_def)

definition example_result :: task_result where
  "example_result = \<lparr>res_task_id = task_id simple_task, res_job_id = 1,
     res_operator = OT_Identity, res_stage_id = 0, res_partition = 0,
     res_location = \<lparr>rl_path = ''out'', rl_size_bytes = 2\<rparr>,
     res_metrics = \<lparr>tm_processed_records = 1, tm_duration_ms = 3, tm_cpu_time_ms = 3, tm_wall_time_ms = 3\<rparr>,
     res_status = TS_Completed, res_trace = None, res_final_partitions = None\<rparr>"

section \<open>Properties\<close>

text \<open>
  Claim C8. A scheduling pass with a worker available and the scheduler in step. What it sends are
  exactly the tasks that some job's plan has and that are queued in that job: each of them, none twice (not
  even two for the same partition of a job), and nothing else. Each goes to the address of an available
  worker, and is afterwards assigned to an available worker, with its job running.
\<close>

theorem pass_dispatches_all:
  assumes "can_schedule E m" "iterates (job_iter E)" "finite (dom (m_jobs m))"
  shows "\<exists>news. m_outbox (schedule_all_queued_tasks E m) = m_outbox m @ news \<and>
    snd ` set news = {t. \<exists>js. m_jobs m (task_job_id t) = Some js \<and>
      t \<in> set (tasks_of E (job_dag js) (task_job_id t)) \<and> job_tasks js (task_id t) = Some TS_Queued} \<and>
    distinct (map (\<lambda>q. (task_job_id (snd q), task_partition (snd q))) news) \<and>
    (\<forall>q \<in> set news. (\<exists>w \<in> active (m_registry m). fst q = execute_url (wi_address (the (workers (m_registry m) w)))) \<and>
       (\<exists>js' w. m_jobs (schedule_all_queued_tasks E m) (task_job_id (snd q)) = Some js' \<and>
          w \<in> active (m_registry m) \<and> job_tasks js' (task_id (snd q)) = Some (TS_Assigned w) \<and>
          job_state_status js' = JS_Running))"
proof -
  let ?ts = "queued_tasks_snapshot E m" and ?m = "schedule_all_queued_tasks E m"
  define news where "news = concat (map2 (sent (m_registry m)) (choices E (length ?ts) m) ?ts)"
  have out: "m_outbox ?m = m_outbox m @ news"
    by (simp add: schedule_all_queued_tasks_def fold_schedule(1) news_def)
  have tasks: "map snd news = ?ts"
    using fold_schedule_active(1)[OF assms(1), of ?ts] out by (simp add: schedule_all_queued_tasks_def)
  then have "snd ` set news = set ?ts" by (metis list.set_map)
  then have set: "snd ` set news = {t. \<exists>js. m_jobs m (task_job_id t) = Some js \<and>
      t \<in> set (tasks_of E (job_dag js) (task_job_id t)) \<and> job_tasks js (task_id t) = Some TS_Queued}"
    using snapshot_iff[OF assms(2,3)] by auto
  have "map (\<lambda>q. (task_job_id (snd q), task_partition (snd q))) news =
      map (\<lambda>t. (task_job_id t, task_partition t)) ?ts" unfolding tasks[symmetric] by simp
  then have dist: "distinct (map (\<lambda>q. (task_job_id (snd q), task_partition (snd q))) news)"
    using snapshot_distinct[OF assms(2,3)] by simp
  have urls: "\<forall>q \<in> set news. \<exists>w \<in> active (m_registry m). fst q = execute_url (wi_address (the (workers (m_registry m) w)))"
    using fold_schedule_active(2)[OF assms(1), of ?ts] out by (simp add: schedule_all_queued_tasks_def)
  have "\<exists>js' w. m_jobs ?m (task_job_id (snd q)) = Some js' \<and> w \<in> active (m_registry m) \<and>
      job_tasks js' (task_id (snd q)) = Some (TS_Assigned w) \<and> job_state_status js' = JS_Running"
    if "q \<in> set news" for q
  proof -
    from that tasks have "snd q \<in> set ?ts" by (metis imageI list.set_map)
    with fold_schedule_active(3)[OF assms(1) this] snapshot_iff[OF assms(2,3), of "snd q"] show ?thesis
      unfolding schedule_all_queued_tasks_def by auto
  qed
  with out set dist urls show ?thesis by blast
qed

theorem pass_dispatches_all_witness:
  "map snd (m_outbox (schedule_all_queued_tasks example_env example_master)) = [simple_task] \<and>
   (\<exists>js. m_jobs (schedule_all_queued_tasks example_env example_master) 1 = Some js \<and>
      job_tasks js (task_id simple_task) = Some (TS_Assigned 5) \<and> job_state_status js = JS_Running)"
proof -
  let ?m = "schedule_all_queued_tasks example_env example_master"
  have "iterates (job_iter example_env)" by (simp add: example_env_def iterates_key_order)
  from pass_dispatches_all[OF example_can_schedule this] obtain news where
    out: "m_outbox ?m = m_outbox example_master @ news"
    and set: "snd ` set news = {t. \<exists>js. m_jobs example_master (task_job_id t) = Some js \<and>
      t \<in> set (tasks_of example_env (job_dag js) (task_job_id t)) \<and> job_tasks js (task_id t) = Some TS_Queued}"
    and dist: "distinct (map (\<lambda>q. (task_job_id (snd q), task_partition (snd q))) news)"
    and state: "\<forall>q \<in> set news. \<exists>js' w. m_jobs ?m (task_job_id (snd q)) = Some js' \<and>
      w \<in> active (m_registry example_master) \<and> job_tasks js' (task_id (snd q)) = Some (TS_Assigned w) \<and>
      job_state_status js' = JS_Running"
    by (auto simp: example_jobs)
  have one: "snd ` set news = {simple_task}"
    unfolding set using example_tasks by (auto simp: example_jobs simple_job_def)
  moreover have "distinct (map snd news)"
    using dist by (auto simp: distinct_map inj_on_def)
  ultimately have "length (map snd news) = 1"
    using distinct_card[of "map snd news"] by simp
  then obtain u where u: "map snd news = [u]" by (cases "map snd news") auto
  have "set (map snd news) = {simple_task}" using one by simp
  with u have tasks: "map snd news = [simple_task]" unfolding u by simp
  from u obtain q where q: "news = [q]" by (cases news) auto
  with tasks have "q \<in> set news" "snd q = simple_task" by simp_all
  with state obtain js w where "m_jobs ?m 1 = Some js" "w \<in> {5}"
    "job_tasks js (task_id simple_task) = Some (TS_Assigned w)" "job_state_status js = JS_Running"
    unfolding example_master_active by (metis example_tasks(2))
  moreover have "m_outbox example_master = []" by (simp add: example_master_def)
  ultimately show ?thesis using out tasks by auto
qed

text \<open>
  Claim C7. A result for a job the master knows, with a store that works. The task gets the
  reported status. A completed result is appended to the results and counted, and the job has
  succeeded exactly if now every task is completed, otherwise its status stays; a failed result
  is counted, fails the job and sets its error; any other report changes the status of the task
  only. No other job is touched, nothing is sent; a result for an unknown job changes nothing.
\<close>

theorem complete_task_correct:
  assumes "stored E m v" "accepted (WriteResult r) v"
  shows "fst (complete_task E r m) = Ok () \<and>
    (m_jobs m (res_job_id r) = None \<longrightarrow> snd (complete_task E r m) = m) \<and>
    (\<forall>js. m_jobs m (res_job_id r) = Some js \<longrightarrow>
      (\<exists>js'. m_jobs (snd (complete_task E r m)) = (m_jobs m)(res_job_id r \<mapsto> js') \<and>
        job_tasks js' = (job_tasks js)(res_task_id r \<mapsto> res_status r) \<and> job_dag js' = job_dag js \<and>
        (res_status r = TS_Completed \<longrightarrow>
           job_results js' = job_results js @ [r] \<and> job_error js' = job_error js \<and>
           jm_completed_tasks (job_state_metrics js') = jm_completed_tasks (job_state_metrics js) + 1 \<and>
           job_state_status js' =
             (if \<forall>st \<in> ran (job_tasks js'). st = TS_Completed then JS_Succeeded else job_state_status js)) \<and>
        (\<forall>msg. res_status r = TS_Failed msg \<longrightarrow>
           job_results js' = job_results js \<and> job_error js' = Some msg \<and>
           jm_failed_tasks (job_state_metrics js') = jm_failed_tasks (job_state_metrics js) + 1 \<and>
           job_state_status js' = JS_Failed) \<and>
        (res_status r \<noteq> TS_Completed \<and> \<not> is_failed (res_status r) \<longrightarrow>
           js' = js\<lparr>job_tasks := job_tasks js'\<rparr>))) \<and>
    m_outbox (snd (complete_task E r m)) = m_outbox m"
proof (cases "m_jobs m (res_job_id r)")
  case None
  then show ?thesis by (simp add: complete_task_unknown)
next
  case (Some js)
  let ?js = "job_after r (with_status r js)"
  have "job_tasks ?js = (job_tasks js)(res_task_id r \<mapsto> res_status r)" "job_dag ?js = job_dag js"
    by (simp_all add: with_status_def)
  moreover have "res_status r = TS_Completed \<Longrightarrow>
      job_results ?js = job_results js @ [r] \<and> job_error ?js = job_error js \<and>
      jm_completed_tasks (job_state_metrics ?js) = jm_completed_tasks (job_state_metrics js) + 1 \<and>
      job_state_status ?js =
        (if \<forall>st \<in> ran (job_tasks ?js). st = TS_Completed then JS_Succeeded else job_state_status js)"
    by (simp add: job_after_def with_status_def all_completed_def Let_def)
  moreover have "res_status r = TS_Failed msg \<Longrightarrow>
      job_results ?js = job_results js \<and> job_error ?js = Some msg \<and>
      jm_failed_tasks (job_state_metrics ?js) = jm_failed_tasks (job_state_metrics js) + 1 \<and>
      job_state_status ?js = JS_Failed" for msg
    by (simp add: job_after_def with_status_def Let_def)
  moreover have "res_status r \<noteq> TS_Completed \<and> \<not> is_failed (res_status r) \<Longrightarrow>
      ?js = js\<lparr>job_tasks := job_tasks ?js\<rparr>"
    by (cases "res_status r") (simp_all add: job_after_def with_status_def Let_def)
  ultimately show ?thesis
    using complete_task_known[OF Some assms] Some by (intro conjI allI impI exI[of _ ?js]) auto
qed

theorem complete_task_correct_witness:
  "fst (complete_task example_env example_result example_master) = Ok () \<and>
   (\<exists>js. m_jobs (snd (complete_task example_env example_result example_master)) = [1 \<mapsto> js] \<and>
      job_results js = [example_result])"
proof -
  have "accepted (WriteResult example_result) example_view"
    by (simp add: accepted_def example_view_eq example_result_def)
  from complete_task_correct[OF example_stored this] show ?thesis
    by (auto simp: example_jobs simple_job_def example_result_def)
qed

text \<open>
  Results are not told apart from repetitions: when a completed result arrives a
  second time, it is appended and counted again, so that the counter can exceed the number of
  tasks, although the statuses of the tasks are those after the first arrival.
\<close>

theorem completion_counted_twice:
  assumes "stored E m v" "accepted (WriteResult r) v" "m_jobs m (res_job_id r) = Some js"
    and "res_status r = TS_Completed"
  shows "\<exists>js1 js2.
    m_jobs (snd (complete_task E r m)) (res_job_id r) = Some js1 \<and>
    m_jobs (snd (complete_task E r (snd (complete_task E r m)))) (res_job_id r) = Some js2 \<and>
    job_tasks js2 = job_tasks js1 \<and> job_results js2 = job_results js @ [r, r] \<and>
    jm_completed_tasks (job_state_metrics js2) = jm_completed_tasks (job_state_metrics js) + 2"
proof -
  let ?m1 = "snd (complete_task E r m)" and ?js1 = "job_after r (with_status r js)"
  note one = complete_task_known[OF assms(3,1,2)]
  have js1: "m_jobs ?m1 (res_job_id r) = Some ?js1" using one(2) by simp
  have "accepted (WriteResult r) (fold view_write (WriteResult r # result_writes r ?js1) v)"
  proof -
    have "view_tasks (view_write (WriteResult r) v) (res_task_id r) \<noteq> None"
      using assms(2) by (simp add: accepted_def)
    moreover have "view_tasks (fold view_write (result_writes r ?js1) v') = view_tasks v'" for v'
      by (simp add: result_writes_def split: task_status.splits)
    ultimately show ?thesis by (simp add: accepted_def del: view_write.simps)
  qed
  note two = complete_task_known[OF js1 one(3) this]
  let ?js2 = "job_after r (with_status r ?js1)"
  have "job_tasks ?js2 = job_tasks ?js1" by (simp add: with_status_def)
  moreover have "job_results ?js2 = job_results js @ [r, r]"
    "jm_completed_tasks (job_state_metrics ?js2) = jm_completed_tasks (job_state_metrics js) + 2"
    using assms(4) by (simp_all add: job_after_def with_status_def Let_def)
  ultimately show ?thesis using js1 two(2) by auto
qed

theorem completion_counted_twice_witness:
  "\<exists>js. m_jobs (snd (complete_task example_env example_result
       (snd (complete_task example_env example_result example_master)))) 1 = Some js \<and>
     job_results js = [example_result, example_result] \<and>
     jm_completed_tasks (job_state_metrics js) = 2"
proof -
  have "accepted (WriteResult example_result) example_view"
    by (simp add: accepted_def example_view_eq example_result_def)
  from completion_counted_twice[OF example_stored this, of simple_job] show ?thesis
    by (auto simp: example_jobs example_result_def) (auto simp: simple_job_def default_job_metrics_def)
qed

text \<open>
  The per-worker figures of a job are never filled in: the worker of a task is looked
  up after the status that named it has been overwritten by the reported one.
\<close>

theorem worker_figures_stay_empty:
  "jm_workers (job_state_metrics (job_after r (js\<lparr>job_tasks := (job_tasks js)(res_task_id r \<mapsto> res_status r)\<rparr>))) =
   jm_workers (job_state_metrics js)"
  by (simp add: job_after_def Let_def count_completed_def count_failed_def split: task_status.splits)

text \<open>
  The lock on the jobs is released between assigning a task and marking its job as running. When a
  (repeated) completed result of the task arrives in between and no other task of the job is
  pending, the job succeeds and is then set back to running, with every task completed.
\<close>

theorem marked_running_late:
  assumes js: "m_jobs m (task_job_id t) = Some js" and st: "stored E m v" and row: "view_tasks v (task_id t) \<noteq> None"
    and r: "res_job_id r = task_job_id t" "res_task_id r = task_id t" "res_status r = TS_Completed"
    and rest: "\<And>tid s. job_tasks js tid = Some s \<Longrightarrow> tid \<noteq> task_id t \<Longrightarrow> s = TS_Completed"
  shows "let m1 = io_ignore (on_store (persist_task_status (uuids E) (codecs E) (task_id t) (task_job_id t)
                 (TS_Assigned w))) (assign_task t w m);
             m2 = snd (complete_task E r m1);
             m3 = mark_running E (task_job_id t) m2
    in (\<exists>js2. m_jobs m2 (task_job_id t) = Some js2 \<and> job_state_status js2 = JS_Succeeded) \<and>
       (\<exists>js3. m_jobs m3 (task_job_id t) = Some js3 \<and> job_state_status js3 = JS_Running \<and> all_completed js3)"
proof -
  let ?w = "WriteStatus (task_id t) (task_job_id t) (TS_Assigned w)"
  define m1 where "m1 = io_ignore (on_store (persist_task_status (uuids E) (codecs E) (task_id t) (task_job_id t)
      (TS_Assigned w))) (assign_task t w m)"
  let ?js1 = "js\<lparr>job_tasks := (job_tasks js)(task_id t \<mapsto> TS_Assigned w)\<rparr>"
  have js1: "m_jobs m1 (res_job_id r) = Some ?js1"
    using js r(1) by (simp add: m1_def master_frame assign_task_jobs)
  have "stored E (assign_task t w m) v" using st by (simp add: stored_def master_frame)
  then have st1: "stored E m1 (view_write ?w v)" unfolding m1_def by (rule stored_persist)
  have "accepted (WriteResult r) (view_write ?w v)" using row r by (auto simp: accepted_def)
  note jobs = complete_task_known(2)[OF js1 st1 this]
  let ?js2 = "job_after r (with_status r ?js1)"
  have done_all: "all_completed (with_status r ?js1)"
    using rest r(2,3) by (auto simp: all_completed_def with_status_def ran_def split: if_splits)
  then have two: "job_state_status ?js2 = JS_Succeeded" "all_completed ?js2"
    using r(3) by (simp_all add: job_after_def Let_def all_completed_def)
  have "m_jobs (mark_running E (task_job_id t) (snd (complete_task E r m1))) (task_job_id t) =
      Some (?js2\<lparr>job_state_status := JS_Running\<rparr>)"
    using jobs r(1) by (simp add: mark_running_jobs)
  moreover have "all_completed (?js2\<lparr>job_state_status := JS_Running\<rparr>)"
    using two(2) unfolding all_completed_def by simp
  ultimately show ?thesis unfolding Let_def m1_def[symmetric] using jobs two(1) r(1) by auto
qed

theorem marked_running_late_witness:
  "\<exists>js. m_jobs (mark_running example_env 1 (snd (complete_task example_env example_result
       (io_ignore (on_store (persist_task_status (uuids example_env) (codecs example_env) (task_id simple_task) 1
          (TS_Assigned 5))) (assign_task simple_task 5 example_master))))) 1 = Some js \<and>
     job_state_status js = JS_Running \<and> all_completed js"
  using marked_running_late[of example_master simple_task simple_job example_env example_view example_result 5,
      OF _ example_stored]
  by (auto simp: example_jobs example_tasks example_view_eq example_result_def simple_job_def Let_def
      split: if_splits)

end
