(* ===== verification/Master_Recovery.thy ===== *)
theory Master_Recovery
  imports Master
begin

text \<open>
  Restarting the master (\<open>Master::new\<close> in \<open>src/src/master/mod.rs\<close>): the jobs and tasks of a
  new master are those of the store. \<open>mirrors\<close> says that a master and the contents of its store
  agree; every operation of the master keeps it (for tasks that belong to their job), and so
  does a restart.
\<close>

section \<open>Loading\<close>

definition loaded_job :: "job_map \<Rightarrow> job_id \<Rightarrow> job_state" where
  "loaded_job jobs job =
     (case jobs job of Some js \<Rightarrow> js | None \<Rightarrow> recovered_job placeholder_dag JS_Pending)"

definition extend_job :: "task_id \<Rightarrow> task_status \<Rightarrow> task_result option \<Rightarrow> job_state \<Rightarrow> job_state" where
  "extend_job tid st res js =
     js\<lparr>job_tasks := (job_tasks js)(tid \<mapsto> normalized_status st),
        job_results := job_results js @ completed_only res\<rparr>"

lemma load_one_eq:
  "load_one (tid, job, st, res) jobs = jobs(job \<mapsto> extend_job tid st res (loaded_job jobs job))"
  by (simp add: load_one_def loaded_job_def extend_job_def recovered_job_def split: option.splits)

lemma load_jobs_eq:
  "enumerates js m \<Longrightarrow> load_jobs js Map.empty job = map_option (\<lambda>(st, d). recovered_job d st) (m job)"
proof -
  have gen: "distinct (map fst js) \<Longrightarrow> load_jobs js jobs job =
      (case map_of js job of Some (st, d) \<Rightarrow> Some (recovered_job d st) | None \<Rightarrow> jobs job)" for jobs
  proof (induction js arbitrary: jobs)
    case Nil
    then show ?case by (simp add: load_jobs_def)
  next
    case (Cons x js)
    obtain j st d where x: "x = (j, st, d)" by (cases x)
    have step: "load_jobs (x # js) jobs = load_jobs js (jobs(j \<mapsto> recovered_job d st))"
      by (simp add: load_jobs_def x)
    define jobs' where "jobs' = jobs(j \<mapsto> recovered_job d st)"
    have eq: "load_jobs (x # js) jobs job = load_jobs js jobs' job" by (simp only: step jobs'_def)
    have "jobs' job = (if job = j then Some (recovered_job d st) else jobs job)" by (simp add: jobs'_def)
    moreover have "map_of js j = None" using Cons.prems x by (simp add: map_of_eq_None_iff)
    ultimately show ?case
      unfolding eq using Cons.IH[of jobs'] Cons.prems x by (auto split: option.splits)
  qed
  assume "enumerates js m"
  then show ?thesis using gen[of Map.empty] by (auto simp: enumerates_def split: option.splits)
qed

type_synonym loaded_task = "task_id \<times> job_id \<times> task_status \<times> task_result option"

definition tasks_for :: "job_id \<Rightarrow> loaded_task list \<Rightarrow> loaded_task list" where
  "tasks_for job ts = filter (\<lambda>x. fst (snd x) = job) ts"

definition row_status :: "loaded_task \<Rightarrow> task_id \<times> task_status" where
  "row_status x = (fst x, normalized_status (fst (snd (snd x))))"

definition row_results :: "loaded_task \<Rightarrow> task_result list" where
  "row_results x = completed_only (snd (snd (snd x)))"

lemma fold_load_one:
  assumes "distinct (map fst ts)" "\<forall>x \<in> set ts. fst x \<notin> dom (job_tasks (loaded_job jobs job))"
  shows "fold load_one ts jobs job =
    (if jobs job = None \<and> tasks_for job ts = [] then None
     else Some ((loaded_job jobs job)
       \<lparr>job_tasks := (job_tasks (loaded_job jobs job)) ++
          map_of (map row_status (tasks_for job ts)),
        job_results := job_results (loaded_job jobs job) @
          concat (map row_results (tasks_for job ts))\<rparr>))"
  using assms
proof (induction ts arbitrary: jobs)
  case Nil
  then show ?case by (auto simp: tasks_for_def loaded_job_def)
next
  case (Cons x ts)
  obtain tid j st res where x: "x = (tid, j, st, res)" by (cases x)
  let ?jobs = "load_one x jobs"
  show ?case
  proof (cases "j = job")
    case False
    then have "?jobs job = jobs job" "loaded_job ?jobs job = loaded_job jobs job"
      by (simp_all add: x load_one_eq loaded_job_def)
    with Cons.IH[of ?jobs] Cons.prems False x show ?thesis
      by (simp add: tasks_for_def)
  next
    case True
    have l: "loaded_job ?jobs job = extend_job tid st res (loaded_job jobs job)" "?jobs job \<noteq> None"
      using True by (simp_all add: x load_one_eq loaded_job_def)
    have tid: "tid \<notin> fst ` set ts" using Cons.prems(1) x by simp
    have fresh: "\<forall>y \<in> set ts. fst y \<notin> dom (job_tasks (loaded_job ?jobs job))"
      unfolding l extend_job_def using Cons.prems x tid by auto
    have "tid \<notin> dom (map_of (map row_status (tasks_for job ts)))"
      using tid by (auto simp: dom_map_of_conv_image_fst tasks_for_def row_status_def image_image)
    from map_add_upd_left[OF this]
    have add: "(job_tasks (loaded_job jobs job))(tid \<mapsto> normalized_status st) ++ map_of (map row_status (tasks_for job ts)) =
        (job_tasks (loaded_job jobs job) ++ map_of (map row_status (tasks_for job ts)))(tid \<mapsto> normalized_status st)" .
    have mine: "tasks_for job (x # ts) = x # tasks_for job ts" using True x by (simp add: tasks_for_def)
    have "fold load_one ts ?jobs job = Some ((extend_job tid st res (loaded_job jobs job))
        \<lparr>job_tasks := (job_tasks (extend_job tid st res (loaded_job jobs job))) ++ map_of (map row_status (tasks_for job ts)),
         job_results := job_results (extend_job tid st res (loaded_job jobs job)) @
           concat (map row_results (tasks_for job ts))\<rparr>)"
      using Cons.IH[OF _ fresh] Cons.prems(1) l by simp
    then show ?thesis
      unfolding mine by (simp add: add extend_job_def row_status_def row_results_def x)
  qed
qed

text \<open>What a master knows of a job after loading.\<close>

definition recovers :: "store_view \<Rightarrow> job_id \<Rightarrow> loaded_task list \<Rightarrow> job_state \<Rightarrow> bool" where
  "recovers v job ts js \<longleftrightarrow>
     (case view_jobs v job of
        Some (st, d) \<Rightarrow> job_state_status js = st \<and> job_dag js = d
      | None \<Rightarrow> job_state_status js = JS_Pending \<and> job_dag js = placeholder_dag) \<and>
     (\<forall>tid. job_tasks js tid =
        (case view_tasks v tid of
           Some (j, st, _) \<Rightarrow> if j = job then Some (normalized_status st) else None | None \<Rightarrow> None)) \<and>
     job_results js = concat (map row_results (tasks_for job ts)) \<and>
     job_state_metrics js = default_job_metrics \<and> job_error js = None"

lemma loaded_tasks_map:
  assumes "enumerates ts (view_tasks v)"
  shows "map_of (map row_status (tasks_for job ts)) tid =
    (case view_tasks v tid of
       Some (j, st, _) \<Rightarrow> if j = job then Some (normalized_status st) else None | None \<Rightarrow> None)"
proof -
  have "map_of (map row_status (tasks_for job ts)) tid =
      (case map_of ts tid of
         Some (j, st, _) \<Rightarrow> if j = job then Some (normalized_status st) else None | None \<Rightarrow> None)"
    if "distinct (map fst ts)"
    using that
  proof (induction ts)
    case Nil
    then show ?case by (simp add: tasks_for_def)
  next
    case (Cons x ts)
    obtain k j st r where x: "x = (k, j, st, r)" by (cases x)
    have "map_of ts k = None" using Cons.prems x by (simp add: map_of_eq_None_iff)
    with Cons x show ?case by (auto simp: tasks_for_def row_status_def)
  qed
  with assms show ?thesis by (simp add: enumerates_def)
qed

lemma loaded_jobs:
  assumes "enumerates js (view_jobs v)" "enumerates ts (view_tasks v)"
  shows "case fold load_one ts (load_jobs js Map.empty) job of
      None \<Rightarrow> view_jobs v job = None \<and> tasks_for job ts = []
    | Some js' \<Rightarrow> recovers v job ts js' \<and> (view_jobs v job \<noteq> None \<or> tasks_for job ts \<noteq> [])"
proof -
  let ?jobs = "load_jobs js Map.empty"
  have base: "?jobs job = map_option (\<lambda>(st, d). recovered_job d st) (view_jobs v job)"
    by (rule load_jobs_eq[OF assms(1)])
  have empty: "job_tasks (loaded_job ?jobs job) = Map.empty" "job_results (loaded_job ?jobs job) = []"
    by (auto simp: loaded_job_def base recovered_job_def split: option.splits)
  have "fold load_one ts ?jobs job =
      (if ?jobs job = None \<and> tasks_for job ts = [] then None
       else Some ((loaded_job ?jobs job)
         \<lparr>job_tasks := map_of (map row_status (tasks_for job ts)),
          job_results := concat (map row_results (tasks_for job ts))\<rparr>))"
    using fold_load_one[of ts ?jobs job] assms(2) empty by (simp add: enumerates_def)
  then show ?thesis
    using loaded_tasks_map[OF assms(2), of job]
    by (auto simp: base recovers_def loaded_job_def recovered_job_def split: option.splits)
qed

section \<open>Requeueing\<close>

lemma requeue_row_frame [master_frame]:
  "m_jobs (requeue_row E x m) = m_jobs m" "m_registry (requeue_row E x m) = m_registry m"
  "m_scheduler (requeue_row E x m) = m_scheduler m" "m_outbox (requeue_row E x m) = m_outbox m"
  "m_passes (requeue_row E x m) = m_passes m" "m_config (requeue_row E x m) = m_config m"
  by (simp_all add: requeue_row_def master_frame split: prod.splits)

lemma fold_requeue_frame:
  "m_jobs (fold (requeue_row E) ts m) = m_jobs m" "m_registry (fold (requeue_row E) ts m) = m_registry m"
  "m_scheduler (fold (requeue_row E) ts m) = m_scheduler m" "m_outbox (fold (requeue_row E) ts m) = m_outbox m"
  "m_passes (fold (requeue_row E) ts m) = m_passes m" "m_config (fold (requeue_row E) ts m) = m_config m"
  by (induction ts arbitrary: m) (simp_all add: master_frame)

definition requeued :: "store_view \<Rightarrow> store_view" where
  "requeued v = v\<lparr>view_tasks := (\<lambda>tid. map_option (\<lambda>(j, st, r). (j, normalized_status st, r)) (view_tasks v tid))\<rparr>"

lemma normalized_id: "\<not> needs_requeue st \<Longrightarrow> normalized_status st = st"
  and normalized_requeue: "needs_requeue st \<Longrightarrow> normalized_status st = TS_Queued"
  and normalized_idem [simp]: "normalized_status (normalized_status st) = normalized_status st"
  by (cases st; simp)+

lemma requeue_row_stored:
  assumes "stored E m v" "view_tasks v tid = Some (job, st, r)"
  shows "stored E (requeue_row E (tid, job, st, r) m)
    (v\<lparr>view_tasks := (view_tasks v)(tid \<mapsto> (job, normalized_status st, r))\<rparr>)"
proof (cases "needs_requeue st")
  case True
  with stored_persist(2)[OF assms(1), of tid job TS_Queued] assms(2) show ?thesis
    by (simp add: requeue_row_def normalized_requeue accepted_def)
next
  case False
  with assms show ?thesis
    by (simp add: requeue_row_def normalized_id map_upd_triv)
qed

lemma fold_requeue_stored:
  assumes "stored E m v" "distinct (map fst ts)" "\<forall>(k, x) \<in> set ts. view_tasks v k = Some x"
  shows "stored E (fold (requeue_row E) ts m)
    (v\<lparr>view_tasks := (\<lambda>tid. if tid \<in> fst ` set ts
        then map_option (\<lambda>(j, st, r). (j, normalized_status st, r)) (view_tasks v tid)
        else view_tasks v tid)\<rparr>)"
  using assms
proof (induction ts arbitrary: m v)
  case Nil
  then show ?case by simp
next
  case (Cons x ts)
  obtain tid job st r where x: "x = (tid, job, st, r)" by (cases x)
  let ?v = "v\<lparr>view_tasks := (view_tasks v)(tid \<mapsto> (job, normalized_status st, r))\<rparr>"
  have vt: "view_tasks v tid = Some (job, st, r)" using Cons.prems(3) x by simp
  have st1: "stored E (requeue_row E x m) ?v"
    unfolding x using Cons.prems(1) vt by (rule requeue_row_stored)
  have rows: "\<forall>(k, y) \<in> set ts. view_tasks ?v k = Some y"
    using Cons.prems(2,3) x by force
  have "(\<lambda>k. if k \<in> fst ` set ts
        then map_option (\<lambda>(j, st, r). (j, normalized_status st, r)) (view_tasks ?v k) else view_tasks ?v k) =
      (\<lambda>k. if k \<in> fst ` set (x # ts)
        then map_option (\<lambda>(j, st, r). (j, normalized_status st, r)) (view_tasks v k) else view_tasks v k)"
    using vt x by (auto simp: fun_eq_iff)
  with Cons.IH[OF st1 _ rows] Cons.prems(2) show ?case by simp
qed

lemma master_new_frame [simp]:
  "m_registry (master_new E cfg db) = default_registry" "m_scheduler (master_new E cfg db) = default_scheduler"
  "m_outbox (master_new E cfg db) = []" "m_passes (master_new E cfg db) = 0" "m_config (master_new E cfg db) = cfg"
  by (simp_all add: master_new_def Let_def fold_requeue_frame)

lemma master_new_facts:
  assumes v: "db_view (uuids E) (codecs E) (job_rows E) (task_rows E) db v"
  shows "\<exists>ts. enumerates ts (view_tasks v) \<and> stored E (master_new E cfg db) (requeued v) \<and>
    (\<forall>job. case m_jobs (master_new E cfg db) job of
        None \<Rightarrow> view_jobs v job = None \<and> tasks_for job ts = []
      | Some js \<Rightarrow> recovers v job ts js \<and> (view_jobs v job \<noteq> None \<or> tasks_for job ts \<noteq> []))"
proof -
  from database.jobs_view[OF v] obtain js where
    js: "load_all_jobs (job_rows E) (uuids E) (codecs E) db = Ok js" "enumerates js (view_jobs v)" by blast
  from database.tasks_view[OF v] obtain ts where
    ts: "load_all_tasks (task_rows E) (uuids E) (codecs E) db = Ok ts" "enumerates ts (view_tasks v)" by blast
  let ?m = "\<lparr>m_config = cfg, m_registry = default_registry, m_scheduler = default_scheduler,
      m_jobs = fold load_one ts (load_jobs js Map.empty), m_store = db, m_outbox = [], m_passes = 0\<rparr>"
  have new: "master_new E cfg db = fold (requeue_row E) ts ?m"
    using js(1) ts(1) by (simp add: master_new_def Let_def)
  have "stored E ?m v" using v by (simp add: stored_def)
  moreover have "distinct (map fst ts)" "\<forall>(k, x) \<in> set ts. view_tasks v k = Some x"
    using ts(2) enumerates_set[OF ts(2)] by (auto simp: enumerates_def)
  ultimately have st: "stored E (master_new E cfg db) (v\<lparr>view_tasks := (\<lambda>tid. if tid \<in> fst ` set ts
      then map_option (\<lambda>(j, st, r). (j, normalized_status st, r)) (view_tasks v tid) else view_tasks v tid)\<rparr>)"
    unfolding new by (rule fold_requeue_stored)
  have "(\<lambda>tid. if tid \<in> fst ` set ts
      then map_option (\<lambda>(j, st, r). (j, normalized_status st, r)) (view_tasks v tid) else view_tasks v tid) =
      (\<lambda>tid. map_option (\<lambda>(j, st, r). (j, normalized_status st, r)) (view_tasks v tid))"
  proof
    fix tid
    show "(if tid \<in> fst ` set ts
        then map_option (\<lambda>(j, st, r). (j, normalized_status st, r)) (view_tasks v tid) else view_tasks v tid) =
      map_option (\<lambda>(j, st, r). (j, normalized_status st, r)) (view_tasks v tid)"
      unfolding enumerates_keys[OF ts(2)] by (cases "view_tasks v tid") auto
  qed
  with st have "stored E (master_new E cfg db) (requeued v)" by (simp add: requeued_def)
  moreover have "m_jobs (master_new E cfg db) = fold load_one ts (load_jobs js Map.empty)"
    by (simp add: new fold_requeue_frame)
  ultimately show ?thesis
    using ts(2) loaded_jobs[OF js(2) ts(2)] by auto
qed

section \<open>Memory and store agree\<close>

definition mirrors :: "job_map \<Rightarrow> store_view \<Rightarrow> bool" where
  "mirrors jobs v \<longleftrightarrow>
     (\<forall>job. view_jobs v job = map_option (\<lambda>js. (job_state_status js, job_dag js)) (jobs job)) \<and>
     (\<forall>tid job st. (\<exists>r. view_tasks v tid = Some (job, st, r)) \<longleftrightarrow>
        (\<exists>js. jobs job = Some js \<and> job_tasks js tid = Some st))"

text \<open>No other job has a task with that identifier.\<close>

definition owns :: "job_map \<Rightarrow> job_id \<Rightarrow> task_id \<Rightarrow> bool" where
  "owns jobs job tid \<longleftrightarrow> (\<forall>j js. jobs j = Some js \<longrightarrow> tid \<in> dom (job_tasks js) \<longrightarrow> j = job)"

lemma mirrors_empty: "mirrors Map.empty empty_view"
  by (simp add: mirrors_def empty_view_def)

lemma mirrors_jobs: "mirrors jobs v \<Longrightarrow> view_jobs v job = None \<longleftrightarrow> jobs job = None"
  by (simp add: mirrors_def)

lemma mirrors_owns:
  assumes "mirrors jobs v" "jobs job = Some js" "tid \<in> dom (job_tasks js)"
  shows "owns jobs job tid"
proof -
  obtain st where "job_tasks js tid = Some st" using assms(3) by auto
  with assms(1,2) obtain r where r: "view_tasks v tid = Some (job, st, r)"
    unfolding mirrors_def by blast
  show ?thesis
    unfolding owns_def
  proof (intro allI impI)
    fix j js' assume "jobs j = Some js'" "tid \<in> dom (job_tasks js')"
    with assms(1) obtain st' r' where "view_tasks v tid = Some (j, st', r')"
      unfolding mirrors_def by blast
    with r show "j = job" by simp
  qed
qed

lemma mirrors_owner:
  assumes "mirrors jobs v" "owns jobs job tid" "view_tasks v tid = Some (j, st, r)"
  shows "j = job"
  using assms unfolding mirrors_def owns_def by blast

lemma mirrors_job_update:
  assumes "mirrors jobs v" "jobs job = Some js" "job_tasks js' = job_tasks js"
  shows "mirrors (jobs(job \<mapsto> js')) (v\<lparr>view_jobs := (view_jobs v)(job \<mapsto> (job_state_status js', job_dag js'))\<rparr>)"
proof -
  have "(\<exists>k. (jobs(job \<mapsto> js')) j = Some k \<and> job_tasks k tid = Some st) \<longleftrightarrow>
      (\<exists>k. jobs j = Some k \<and> job_tasks k tid = Some st)" for j tid st
    using assms(2,3) by auto
  with assms(1) show ?thesis by (simp add: mirrors_def)
qed

lemma mirrors_same:
  assumes "mirrors jobs v" "jobs job = Some js" "job_tasks js' = job_tasks js" "job_dag js' = job_dag js"
    "job_state_status js' = job_state_status js"
  shows "mirrors (jobs(job \<mapsto> js')) v"
proof -
  have "v\<lparr>view_jobs := (view_jobs v)(job \<mapsto> (job_state_status js', job_dag js'))\<rparr> = v"
    using assms by (simp add: mirrors_def map_upd_triv)
  with mirrors_job_update[OF assms(1-3)] show ?thesis by simp
qed

lemma mirrors_task_update:
  assumes m: "mirrors jobs v" "jobs job = Some js" "owns jobs job tid"
    and js': "job_tasks js' = (job_tasks js)(tid \<mapsto> st)" "job_dag js' = job_dag js"
      "job_state_status js' = job_state_status js"
  shows "mirrors (jobs(job \<mapsto> js')) (v\<lparr>view_tasks := (view_tasks v)(tid \<mapsto> (job, st, r))\<rparr>)"
proof -
  have "(\<exists>q. ((view_tasks v)(tid \<mapsto> (job, st, r))) k = Some (j, s, q)) \<longleftrightarrow>
      (\<exists>x. (jobs(job \<mapsto> js')) j = Some x \<and> job_tasks x k = Some s)" for k j s
  proof (cases "k = tid")
    case True
    have "j \<noteq> job \<Longrightarrow> jobs j = Some x \<Longrightarrow> job_tasks x tid \<noteq> Some s" for x
      using m(3) by (auto simp: owns_def)
    with True js'(1) show ?thesis by auto
  next
    case False
    then have "(\<exists>x. (jobs(job \<mapsto> js')) j = Some x \<and> job_tasks x k = Some s) \<longleftrightarrow>
        (\<exists>x. jobs j = Some x \<and> job_tasks x k = Some s)"
      using js'(1) m(2) by auto
    with False m(1) show ?thesis by (simp add: mirrors_def)
  qed
  moreover have "view_jobs v j = map_option (\<lambda>js. (job_state_status js, job_dag js)) ((jobs(job \<mapsto> js')) j)" for j
    using m(1,2) js'(2,3) by (simp add: mirrors_def)
  ultimately show ?thesis unfolding mirrors_def by simp
qed

lemma write_status_view:
  assumes "mirrors jobs v" "jobs job \<noteq> None" "owns jobs job tid"
  shows "\<exists>r. view_write (WriteStatus tid job st) v = v\<lparr>view_tasks := (view_tasks v)(tid \<mapsto> (job, st, r))\<rparr>"
  using assms mirrors_owner[OF assms(1,3)]
  by (cases "view_tasks v tid") (auto simp: accepted_def mirrors_jobs)

lemma write_result_view:
  assumes "mirrors jobs v" "jobs (res_job_id r) \<noteq> None" "owns jobs (res_job_id r) (res_task_id r)"
  shows "accepted (WriteResult r) v"
    "view_write (WriteResult r) v =
       v\<lparr>view_tasks := (view_tasks v)(res_task_id r \<mapsto> (res_job_id r, res_status r, Some r))\<rparr>"
proof -
  show acc: "accepted (WriteResult r) v" using assms by (simp add: accepted_def mirrors_jobs)
  show "view_write (WriteResult r) v =
       v\<lparr>view_tasks := (view_tasks v)(res_task_id r \<mapsto> (res_job_id r, res_status r, Some r))\<rparr>"
    using acc mirrors_owner[OF assms(1,3)] by (cases "view_tasks v (res_task_id r)") auto
qed

section \<open>Every operation keeps them in agreement\<close>

lemma schedule_task_mirrors:
  assumes m: "mirrors (m_jobs m) v" "m_jobs m (task_job_id t) = Some js"
    and own: "owns (m_jobs m) (task_job_id t) (task_id t)"
  shows "mirrors (m_jobs (schedule_task E t m)) (fold view_write (schedule_writes E t m) v)"
proof (cases "chosen E m")
  case None
  with m show ?thesis by (simp add: schedule_task_jobs schedule_writes_def)
next
  case (Some w)
  let ?job = "task_job_id t" and ?st = "TS_Assigned w"
  let ?ja = "js\<lparr>job_tasks := (job_tasks js)(task_id t \<mapsto> ?st)\<rparr>"
  let ?jb = "assigned_job (task_id t) w js"
  obtain r where r: "view_write (WriteStatus (task_id t) ?job ?st) v =
      v\<lparr>view_tasks := (view_tasks v)(task_id t \<mapsto> (?job, ?st, r))\<rparr>"
    using write_status_view[OF m(1) _ own, of ?st] m(2) by auto
  let ?w = "v\<lparr>view_tasks := (view_tasks v)(task_id t \<mapsto> (?job, ?st, r))\<rparr>"
  have one: "mirrors ((m_jobs m)(?job \<mapsto> ?ja)) ?w"
    by (rule mirrors_task_update[OF m own]) simp_all
  have jobs: "m_jobs (schedule_task E t m) = ((m_jobs m)(?job \<mapsto> ?ja))(?job \<mapsto> ?jb)"
    using Some m(2) by (simp add: schedule_task_jobs)
  show ?thesis
  proof (cases "job_state_status js = JS_Running")
    case True
    have "mirrors (((m_jobs m)(?job \<mapsto> ?ja))(?job \<mapsto> ?jb)) ?w"
      by (rule mirrors_same[OF one, where job = ?job and js = ?ja and js' = ?jb]) (use True in \<open>simp_all add: assigned_job_def\<close>)
    with True Some m(2) r jobs show ?thesis
      by (simp add: schedule_writes_def running_writes_def del: view_write.simps fun_upd_upd)
  next
    case False
    have "mirrors (((m_jobs m)(?job \<mapsto> ?ja))(?job \<mapsto> ?jb))
        (?w\<lparr>view_jobs := (view_jobs ?w)(?job \<mapsto> (job_state_status ?jb, job_dag ?jb))\<rparr>)"
      by (rule mirrors_job_update[OF one, where js = ?ja]) (simp_all add: assigned_job_def)
    moreover have "view_write (WriteJob ?job (job_dag js) JS_Running) ?w =
        ?w\<lparr>view_jobs := (view_jobs ?w)(?job \<mapsto> (job_state_status ?jb, job_dag ?jb))\<rparr>"
      by (simp add: assigned_job_def)
    ultimately show ?thesis
      using False Some m(2) r jobs
      by (simp add: schedule_writes_def running_writes_def del: view_write.simps fun_upd_upd)
  qed
qed

lemma complete_task_mirrors:
  assumes m: "mirrors (m_jobs m) v" "m_jobs m (res_job_id r) = Some js"
    and own: "owns (m_jobs m) (res_job_id r) (res_task_id r)"
  shows "mirrors ((m_jobs m)(res_job_id r \<mapsto> job_after r (with_status r js)))
    (fold view_write (WriteResult r # result_writes r (job_after r (with_status r js))) v)"
proof -
  let ?job = "res_job_id r" and ?ja = "with_status r js" and ?jb = "job_after r (with_status r js)"
  let ?w = "v\<lparr>view_tasks := (view_tasks v)(res_task_id r \<mapsto> (?job, res_status r, Some r))\<rparr>"
  have v1: "view_write (WriteResult r) v = ?w"
    using write_result_view(2)[OF m(1) _ own] m(2) by simp
  have one: "mirrors ((m_jobs m)(?job \<mapsto> ?ja)) ?w"
    by (rule mirrors_task_update[OF m own]) (simp_all add: with_status_def)
  have upd: "mirrors ((m_jobs m)(?job \<mapsto> ?jb))
      (?w\<lparr>view_jobs := (view_jobs ?w)(?job \<mapsto> (job_state_status ?jb, job_dag ?jb))\<rparr>)"
    using mirrors_job_update[OF one, of ?job ?ja ?jb] by simp
  show ?thesis
  proof (cases "result_writes r ?jb = []")
    case True
    then have "job_state_status ?jb = job_state_status ?ja"
      by (auto simp: result_writes_def job_after_def Let_def all_completed_def split: task_status.splits if_splits)
    with mirrors_same[OF one, of ?job ?ja ?jb] True v1 show ?thesis by (simp del: view_write.simps)
  next
    case False
    then have "result_writes r ?jb = [WriteJob ?job (job_dag ?jb) (job_state_status ?jb)]"
      by (auto simp: result_writes_def job_after_def Let_def all_completed_def split: task_status.splits if_splits)
    with upd v1 show ?thesis by simp
  qed
qed

lemma fold_status_view:
  assumes "view_jobs v job \<noteq> None"
  shows "view_jobs (fold (\<lambda>t. view_write (WriteStatus (task_id t) job st)) ts v) = view_jobs v"
    "\<And>tid. view_tasks v tid = None \<Longrightarrow>
      view_tasks (fold (\<lambda>t. view_write (WriteStatus (task_id t) job st)) ts v) tid =
        (if tid \<in> task_id ` set ts then Some (job, st, None) else None)"
    "\<And>tid. tid \<notin> task_id ` set ts \<Longrightarrow>
      view_tasks (fold (\<lambda>t. view_write (WriteStatus (task_id t) job st)) ts v) tid = view_tasks v tid"
  using assms
proof (induction ts rule: rev_induct)
  case Nil
  { case 1 show ?case by simp }
  { case 2 then show ?case by simp }
  { case 3 show ?case by simp }
next
  case (snoc t ts)
  { case 1 then show ?case using snoc.IH(1) by simp }
  { case (2 tid)
    from snoc.IH(2)[OF 2] snoc.IH(1)[OF 2(2)] 2 show ?case by (auto simp: accepted_def) }
  { case (3 tid)
    from snoc.IH(3)[of tid] snoc.IH(1)[OF 3(2)] 3 show ?case by (auto simp: accepted_def) }
qed

lemma admit_job_mirrors:
  assumes m: "mirrors jobs v" "jobs job = None"
    and fresh: "\<forall>t \<in> set (tasks_of E d job). view_tasks v (task_id t) = None"
  shows "mirrors (jobs(job \<mapsto> admitted_job E job d)) (fold view_write (admit_writes E job d) v)"
proof -
  let ?ts = "tasks_of E d job" and ?start = "v\<lparr>view_jobs := (view_jobs v)(job \<mapsto> (JS_Accepted, d))\<rparr>"
  let ?v = "fold view_write (admit_writes E job d) v"
  have v: "?v = fold (\<lambda>t. view_write (WriteStatus (task_id t) job TS_Queued)) ?ts ?start"
    by (simp add: admit_writes_def fold_map comp_def)
  note st = fold_status_view[of ?start job, simplified]
  have jobs: "view_jobs ?v = (view_jobs v)(job \<mapsto> (JS_Accepted, d))" unfolding v st(1) by simp
  have tasks: "view_tasks ?v tid =
      (if tid \<in> task_id ` set ?ts then Some (job, TS_Queued, None) else view_tasks v tid)" for tid
  proof (cases "tid \<in> task_id ` set ?ts")
    case True
    with fresh have "view_tasks v tid = None" by auto
    with True st(2)[where tid = tid and st = TS_Queued and ts = ?ts] show ?thesis
      unfolding v by (simp del: view_write.simps)
  next
    case False
    with st(3)[where tid = tid and st = TS_Queued and ts = ?ts] show ?thesis
      unfolding v by (simp del: view_write.simps)
  qed
  have "(\<exists>r. view_tasks ?v tid = Some (j, s, r)) \<longleftrightarrow>
      (\<exists>js. (jobs(job \<mapsto> admitted_job E job d)) j = Some js \<and> job_tasks js tid = Some s)" for tid j s
  proof (cases "j = job")
    case True
    have "\<nexists>s r. view_tasks v tid = Some (job, s, r)" using m by (simp add: mirrors_def)
    with True show ?thesis by (auto simp: tasks admitted_tasks)
  next
    case False
    have old: "(\<exists>r. view_tasks v tid = Some (j, s, r)) \<longleftrightarrow> (\<exists>js. jobs j = Some js \<and> job_tasks js tid = Some s)"
      using m(1) by (simp add: mirrors_def)
    have "view_tasks v tid = None" if "tid \<in> task_id ` set ?ts" using that fresh by auto
    with False have "(\<exists>r. view_tasks ?v tid = Some (j, s, r)) \<longleftrightarrow> (\<exists>r. view_tasks v tid = Some (j, s, r))"
      by (simp add: tasks)
    with old False show ?thesis by simp
  qed
  moreover have "view_jobs ?v j = map_option (\<lambda>js. (job_state_status js, job_dag js))
      ((jobs(job \<mapsto> admitted_job E job d)) j)" for j
    using m(1) by (simp add: jobs mirrors_def admitted_job_def)
  ultimately show ?thesis unfolding mirrors_def by blast
qed

text \<open>A restarted master agrees with its store, whose assigned and running tasks are queued again.\<close>

lemma tasks_for_iff:
  "enumerates ts (view_tasks v) \<Longrightarrow> tasks_for job ts \<noteq> [] \<longleftrightarrow> (\<exists>tid st r. view_tasks v tid = Some (job, st, r))"
  by (fastforce simp: tasks_for_def filter_empty_conv enumerates_set[symmetric])

definition restarted_job :: "loaded_task list \<Rightarrow> job_id \<Rightarrow> job_state \<Rightarrow> job_state" where
  "restarted_job ts job js =
     \<lparr>job_dag = job_dag js, job_state_status = job_state_status js,
      job_tasks = map_option normalized_status \<circ> job_tasks js,
      job_results = concat (map row_results (tasks_for job ts)),
      job_state_metrics = default_job_metrics, job_error = None\<rparr>"

lemma recovers_mirrors:
  assumes "mirrors jobs v" "jobs job = Some js" "recovers v job ts js'"
  shows "js' = restarted_job ts job js"
proof -
  have "job_tasks js' tid = map_option normalized_status (job_tasks js tid)" for tid
  proof (cases "job_tasks js tid")
    case None
    then have "\<nexists>st r. view_tasks v tid = Some (job, st, r)"
      using assms(1,2) by (simp add: mirrors_def)
    with assms(3) None show ?thesis by (auto simp: recovers_def split: option.splits)
  next
    case (Some st)
    then obtain r where "view_tasks v tid = Some (job, st, r)"
      using assms(1,2) unfolding mirrors_def by blast
    with assms(3) Some show ?thesis by (simp add: recovers_def)
  qed
  then have "job_tasks js' = map_option normalized_status \<circ> job_tasks js" by (simp add: fun_eq_iff)
  moreover have "view_jobs v job = Some (job_state_status js, job_dag js)"
    using assms(1,2) by (simp add: mirrors_def)
  ultimately show ?thesis
    using assms(3) by (simp add: recovers_def restarted_job_def)
qed

lemma restart_jobs:
  assumes "db_view (uuids E) (codecs E) (job_rows E) (task_rows E) db v" "mirrors jobs v"
  shows "\<exists>ts. enumerates ts (view_tasks v) \<and> stored E (master_new E cfg db) (requeued v) \<and>
    m_jobs (master_new E cfg db) = (\<lambda>job. map_option (restarted_job ts job) (jobs job))"
proof -
  obtain ts where ts: "enumerates ts (view_tasks v)" "stored E (master_new E cfg db) (requeued v)"
    and new: "\<And>job. case m_jobs (master_new E cfg db) job of
        None \<Rightarrow> view_jobs v job = None \<and> tasks_for job ts = []
      | Some js \<Rightarrow> recovers v job ts js \<and> (view_jobs v job \<noteq> None \<or> tasks_for job ts \<noteq> [])"
    using master_new_facts[OF assms(1), of cfg] by blast
  have "m_jobs (master_new E cfg db) job = map_option (restarted_job ts job) (jobs job)" for job
  proof (cases "jobs job")
    case None
    then have "view_jobs v job = None" "tasks_for job ts = []"
      using assms(2) tasks_for_iff[OF ts(1), of job] by (simp_all add: mirrors_def)
    with new[of job] None show ?thesis by (auto split: option.splits)
  next
    case (Some js)
    then have "view_jobs v job \<noteq> None" using assms(2) by (simp add: mirrors_def)
    with new[of job] obtain js' where "m_jobs (master_new E cfg db) job = Some js'" "recovers v job ts js'"
      by (auto split: option.splits)
    with recovers_mirrors[OF assms(2) Some] Some show ?thesis by simp
  qed
  with ts show ?thesis by (intro exI[of _ ts]) (simp add: fun_eq_iff)
qed

lemma restart_mirrors:
  assumes "mirrors jobs v"
  shows "mirrors (\<lambda>job. map_option (restarted_job ts job) (jobs job)) (requeued v)"
proof -
  have "(\<exists>r. view_tasks (requeued v) tid = Some (job, st, r)) \<longleftrightarrow>
      (\<exists>st'. (\<exists>r. view_tasks v tid = Some (job, st', r)) \<and> st = normalized_status st')" for tid job st
    by (auto simp: requeued_def)
  also have "\<dots> tid job st \<longleftrightarrow> (\<exists>st'. (\<exists>js. jobs job = Some js \<and> job_tasks js tid = Some st') \<and>
      st = normalized_status st')" for tid job st
    using assms by (simp add: mirrors_def)
  finally show ?thesis
    using assms by (auto simp: mirrors_def restarted_job_def requeued_def comp_def option.map_comp)
qed

end
