(* ===== verification/Partition.thy ===== *)
theory Partition
  imports Config
begin

text \<open>
  \<open>src/src/worker/partition.rs\<close> and the partition type of \<open>src/src/worker/ops/mod.rs\<close>: the
  cache that keeps the records of one partition in memory and moves them to a spill file once
  they outgrow the configured limit, and the store that names and writes result files.

  A cache is a record of the fields of \<open>PartitionCache\<close>; its operations run over the file
  system. Every caller drops a cache whose operation failed, so an operation returns the
  updated cache when it succeeds and only the file system otherwise. Byte counts stay far
  below \<open>2 ^ 64\<close> and are natural numbers.

  The second half states what a cache promises as the locale \<open>record_buffer\<close> (putting a
  record appends it to what the buffer holds, draining returns all of it in order), proves
  the laws for the cache, and derives the behaviour of filling and emptying a partition.
\<close>

section \<open>The cache\<close>

record partition_cache =
  in_memory :: "json list"
  spilled_file :: "path option"
  in_memory_bytes :: nat
  spilled_bytes :: nat
  limit_bytes :: nat
  spill_path :: path
  record_count :: nat

definition cache_new :: "nat \<Rightarrow> path \<Rightarrow> partition_cache" where
  "cache_new limit path =
     \<lparr>in_memory = [], spilled_file = None, in_memory_bytes = 0, spilled_bytes = 0,
      limit_bytes = limit, spill_path = path, record_count = 0\<rparr>"

definition serialize :: "serde_api \<Rightarrow> json \<Rightarrow> (error, string) res" where
  "serialize S v = (case to_vec S v of Inl msg \<Rightarrow> Err (SerdeError msg) | Inr line \<Rightarrow> Ok line)"

definition deserialize :: "serde_api \<Rightarrow> string \<Rightarrow> (error, json) res" where
  "deserialize S s = (case from_str S s of Inl msg \<Rightarrow> Err (SerdeError msg) | Inr v \<Rightarrow> Ok v)"

definition estimate_size :: "serde_api \<Rightarrow> json \<Rightarrow> (error, nat) res" where
  "estimate_size S v = res_bind (serialize S v) (\<lambda>line. Ok (length line))"

definition total_size_bytes :: "partition_cache \<Rightarrow> nat" where
  "total_size_bytes c = spilled_bytes c + in_memory_bytes c"

definition has_spill :: "partition_cache \<Rightarrow> bool" where
  "has_spill c \<longleftrightarrow> spilled_file c \<noteq> None"

text \<open>The loop over the drained records: one line each; the result counts the bytes.\<close>

fun spill_lines :: "serde_api \<Rightarrow> path \<Rightarrow> json list \<Rightarrow> nat fsio" where
  "spill_lines S p [] = io_return 0"
| "spill_lines S p (v # vs) =
     io_bind (io_lift (serialize S v)) (\<lambda>line.
     io_bind (append_file p line) (\<lambda>_.
     io_bind (append_file p [newline]) (\<lambda>_.
     io_bind (spill_lines S p vs) (\<lambda>n. io_return (length line + 1 + n)))))"

definition cache_spill_to_disk :: "serde_api \<Rightarrow> partition_cache \<Rightarrow> partition_cache fsio" where
  "cache_spill_to_disk S c =
     (if in_memory c = [] then io_return c
      else
        io_bind (ensure_parent (spill_path c)) (\<lambda>_.
        io_bind (append_file (spill_path c) []) (\<lambda>_.
        io_bind (spill_lines S (spill_path c) (in_memory c)) (\<lambda>bytes_written.
          io_return (c\<lparr>in_memory := [], spilled_file := Some (spill_path c),
                      spilled_bytes := spilled_bytes c + bytes_written,
                      in_memory_bytes := 0\<rparr>)))))"

definition maybe_spill :: "serde_api \<Rightarrow> partition_cache \<Rightarrow> partition_cache fsio" where
  "maybe_spill S c =
     (if total_size_bytes c > limit_bytes c then cache_spill_to_disk S c else io_return c)"

definition push :: "serde_api \<Rightarrow> json \<Rightarrow> partition_cache \<Rightarrow> partition_cache fsio" where
  "push S v c =
     io_bind (io_lift (estimate_size S v)) (\<lambda>size.
       maybe_spill S (c\<lparr>in_memory_bytes := in_memory_bytes c + size,
                       record_count := record_count c + 1,
                       in_memory := in_memory c @ [v]\<rparr>))"

fun push_batch :: "serde_api \<Rightarrow> json list \<Rightarrow> partition_cache \<Rightarrow> partition_cache fsio" where
  "push_batch S [] c = io_return c"
| "push_batch S (v # vs) c = io_bind (push S v c) (push_batch S vs)"

text \<open>Reading the spill file back: blank lines are skipped, any other has to be JSON.\<close>

definition parse_lines :: "serde_api \<Rightarrow> string list \<Rightarrow> (error, json list) res" where
  "parse_lines S ls = res_mapM (deserialize S) (filter (\<lambda>l. trim l \<noteq> []) ls)"

definition drain_spilled :: "serde_api \<Rightarrow> partition_cache \<Rightarrow> json list fsio" where
  "drain_spilled S c =
     (case spilled_file c of
        None \<Rightarrow> io_return []
      | Some p \<Rightarrow>
          io_bind (read_file p) (\<lambda>content.
          io_bind (io_lift (parse_lines S (lines content))) (\<lambda>data s.
            (Ok data, io_ignore (remove_file p) s))))"

definition drain_all :: "serde_api \<Rightarrow> partition_cache \<Rightarrow> (json list \<times> partition_cache) fsio" where
  "drain_all S c =
     io_bind (drain_spilled S c) (\<lambda>spilled.
       let data = spilled @ in_memory c
       in io_return (data, c\<lparr>in_memory := [], spilled_file := None, in_memory_bytes := 0,
            spilled_bytes := (case spilled_file c of None \<Rightarrow> spilled_bytes c | Some _ \<Rightarrow> 0),
            record_count := length data\<rparr>))"

section \<open>Partitions\<close>

record partition_data =
  partition_id :: nat
  cache :: partition_cache

definition partition_empty :: "nat \<Rightarrow> nat \<Rightarrow> path \<Rightarrow> partition_data" where
  "partition_empty pid limit path = \<lparr>partition_id = pid, cache = cache_new limit path\<rparr>"

definition from_records ::
    "serde_api \<Rightarrow> nat \<Rightarrow> nat \<Rightarrow> path \<Rightarrow> json list \<Rightarrow> partition_data fsio" where
  "from_records S pid limit path records =
     io_bind (push_batch S records (cache_new limit path)) (\<lambda>c.
       io_return \<lparr>partition_id = pid, cache = c\<rparr>)"

definition into_parts :: "serde_api \<Rightarrow> partition_data \<Rightarrow> (nat \<times> path \<times> json list) fsio" where
  "into_parts S p =
     (let limit = limit_bytes (cache p); path = spill_path (cache p)
      in io_bind (drain_all S (cache p)) (\<lambda>(records, _). io_return (limit, path, records)))"

section \<open>The store\<close>

record partition_store =
  root :: path
  store_config :: config

definition store_new :: "config \<Rightarrow> fs \<Rightarrow> partition_store \<times> fs" where
  "store_new cfg s =
     (\<lparr>root = data_dir cfg, store_config = cfg\<rparr>, io_ignore (create_dir_all (data_dir cfg)) s)"

definition partition_path :: "uuid_api \<Rightarrow> partition_store \<Rightarrow> job_id \<Rightarrow> nat \<Rightarrow> nat \<Rightarrow> path" where
  "partition_path U st job stage part =
     path_join (root st)
       (uuid_to_string U job @ ''/'' @ show_nat stage @ ''/part-'' @ show_nat part @ ''.bin'')"

definition store_spill_path :: "uuid_api \<Rightarrow> partition_store \<Rightarrow> job_id \<Rightarrow> nat \<Rightarrow> nat \<Rightarrow> path" where
  "store_spill_path U st job stage part =
     path_join (root st)
       (uuid_to_string U job @ ''/'' @ show_nat stage @ ''/spill-'' @ show_nat part @ ''.bin'')"

definition spill_to_disk :: "path \<Rightarrow> string \<Rightarrow> unit fsio" where
  "spill_to_disk p data = io_bind (ensure_parent p) (\<lambda>_. write_file p data)"

definition read_from_disk :: "path \<Rightarrow> string fsio" where
  "read_from_disk p = read_file p"

definition write_placeholder :: "path \<Rightarrow> unit fsio" where
  "write_placeholder p = spill_to_disk p ''partition placeholder''"

definition record_buf :: "serde_api \<Rightarrow> json list \<Rightarrow> (error, string) res" where
  "record_buf S records =
     res_bind (res_mapM (serialize S) records) (\<lambda>ls. Ok (concat (map (\<lambda>l. l @ [newline]) ls)))"

definition write_records :: "serde_api \<Rightarrow> path \<Rightarrow> json list \<Rightarrow> nat fsio" where
  "write_records S p records =
     io_bind (io_lift (record_buf S records)) (\<lambda>buf.
     io_bind (spill_to_disk p buf) (\<lambda>_. io_return (length buf)))"

definition should_spill :: "partition_store \<Rightarrow> nat \<Rightarrow> bool" where
  "should_spill st current_size_mb \<longleftrightarrow>
     spill_threshold_mb (store_config st) \<le> current_size_mb \<or>
     max_memory_mb (store_config st) \<le> current_size_mb"

section \<open>Lines\<close>

text \<open>The text of a record file, and the size of a record.\<close>

definition text_of :: "serde_api \<Rightarrow> json \<Rightarrow> string" where
  "text_of S v = (case to_vec S v of Inl _ \<Rightarrow> [] | Inr s \<Rightarrow> s)"

definition encode :: "serde_api \<Rightarrow> json list \<Rightarrow> string" where
  "encode S vs = concat (map (\<lambda>v. text_of S v @ [newline]) vs)"

definition size_of :: "serde_api \<Rightarrow> json list \<Rightarrow> nat" where
  "size_of S vs = sum_list (map (\<lambda>v. length (text_of S v)) vs)"

lemma encode_simps [simp]:
  "encode S [] = []"
  "encode S (v # vs) = text_of S v @ newline # encode S vs"
  "encode S (vs @ ws) = encode S vs @ encode S ws"
  by (simp_all add: encode_def)

lemma size_of_simps [simp]:
  "size_of S [] = 0"
  "size_of S (v # vs) = length (text_of S v) + size_of S vs"
  "size_of S (vs @ ws) = size_of S vs + size_of S ws"
  by (simp_all add: size_of_def)

lemma length_encode: "length (encode S vs) = size_of S vs + length vs"
  by (induction vs) auto

lemma split_by_line:
  "newline \<notin> set a \<Longrightarrow>
   split_by (\<lambda>c. c = newline) (a @ newline # b) = a # split_by (\<lambda>c. c = newline) b"
  by (induction a) (auto split: list.splits)

lemma lines_cons:
  assumes "newline \<notin> set a" "carriage_return \<notin> set a"
  shows "lines (a @ newline # b) = a # lines b"
proof -
  have "strip_cr a = a"
    using assms(2) by (auto simp: strip_cr_def dest: last_in_set)
  then show ?thesis
    by (cases "split_by (\<lambda>c. c = newline) b") (auto simp: lines_def split_by_line[OF assms(1)])
qed

lemma lines_Nil [simp]: "lines [] = []"
  by (simp add: lines_def)

lemma reads_backD:
  assumes "reads_back S v"
  shows "to_vec S v = Inr (text_of S v)" "newline \<notin> set (text_of S v)"
    "carriage_return \<notin> set (text_of S v)" "trim (text_of S v) \<noteq> []"
    "from_str S (text_of S v) = Inr v"
  using assms by (auto simp: reads_back_def text_of_def split: sum.splits)

lemma serialize_text: "reads_back S v \<Longrightarrow> serialize S v = Ok (text_of S v)"
  by (simp add: serialize_def reads_backD(1))

lemma lines_encode:
  "list_all (reads_back S) vs \<Longrightarrow> lines (encode S vs) = map (text_of S) vs"
  by (induction vs) (auto simp: lines_cons reads_backD)

lemma parse_lines_encode:
  assumes "list_all (reads_back S) vs"
  shows "parse_lines S (lines (encode S vs)) = Ok vs"
proof -
  have "filter (\<lambda>l. trim l \<noteq> []) (map (text_of S) vs) = map (text_of S) vs"
    using assms by (auto simp: list_all_iff reads_backD)
  moreover have "res_mapM (deserialize S) (map (text_of S) vs) = Ok vs"
    using assms by (induction vs) (auto simp: deserialize_def reads_backD)
  ultimately show ?thesis
    by (simp add: parse_lines_def lines_encode[OF assms])
qed

lemma record_buf_encode: "list_all (reads_back S) vs \<Longrightarrow> record_buf S vs = Ok (encode S vs)"
proof -
  assume ok: "list_all (reads_back S) vs"
  then have "res_mapM (serialize S) vs = Ok (map (text_of S) vs)"
    by (intro res_mapM_total) (auto simp: list_all_iff serialize_text)
  then show ?thesis by (simp add: record_buf_def encode_def comp_def)
qed


section \<open>The contract of a record buffer\<close>

text \<open>
  What a client may assume of a buffer of records kept in some storage: putting an admissible
  record succeeds and appends it, and only the storage of this buffer changes (\<open>frame\<close>).
  \<open>record_buffer\<close> adds draining: all records come back in order, and the storage is vacant.
\<close>

locale appendable =
  fixes holds :: "'c \<Rightarrow> 's \<Rightarrow> 'v list \<Rightarrow> bool"
    and admissible :: "'v \<Rightarrow> bool"
    and frame :: "'c \<Rightarrow> 's \<Rightarrow> 'c \<Rightarrow> 's \<Rightarrow> bool"
    and put :: "'v \<Rightarrow> 'c \<Rightarrow> ('s, 'e, 'c) io"
    and put_all :: "'v list \<Rightarrow> 'c \<Rightarrow> ('s, 'e, 'c) io"
  assumes put_law: "holds c s rs \<Longrightarrow> admissible v \<Longrightarrow>
      \<exists>c' s'. put v c s = (Ok c', s') \<and> holds c' s' (rs @ [v]) \<and> frame c s c' s'"
    and put_all_Nil: "put_all [] c = io_return c"
    and put_all_Cons: "put_all (v # vs) c = io_bind (put v c) (put_all vs)"
    and frame_refl: "frame c s c s"
    and frame_trans: "frame c s c' s' \<Longrightarrow> frame c' s' c'' s'' \<Longrightarrow> frame c s c'' s''"
begin

lemma put_all_law:
  "holds c s rs \<Longrightarrow> list_all admissible vs \<Longrightarrow>
   \<exists>c' s'. put_all vs c s = (Ok c', s') \<and> holds c' s' (rs @ vs) \<and> frame c s c' s'"
proof (induction vs arbitrary: c s rs)
  case Nil
  then show ?case by (auto simp: put_all_Nil io_return_def frame_refl)
next
  case (Cons v vs)
  then obtain c1 s1 where one: "put v c s = (Ok c1, s1)" "holds c1 s1 (rs @ [v])" "frame c s c1 s1"
    using put_law[of c s rs v] by auto
  with Cons.IH[of c1 s1 "rs @ [v]"] Cons.prems(2) obtain c2 s2 where
    "put_all vs c1 s1 = (Ok c2, s2)" "holds c2 s2 (rs @ v # vs)" "frame c1 s1 c2 s2"
    by auto
  with one frame_trans[OF one(3)] show ?case
    by (auto simp: put_all_Cons io_bind_def)
qed

end

locale record_buffer = appendable +
  fixes new :: "'l \<Rightarrow> 'p \<Rightarrow> 'c"
    and slot :: "'c \<Rightarrow> 'p"
    and drain :: "'c \<Rightarrow> ('s, 'e, 'v list \<times> 'c) io"
    and vacant :: "'p \<Rightarrow> 's \<Rightarrow> bool"
  assumes new_law: "vacant p s \<Longrightarrow> holds (new l p) s []"
    and slot_new: "slot (new l p) = p"
    and slot_frame: "frame c s c' s' \<Longrightarrow> slot c' = slot c"
    and drain_law: "holds c s rs \<Longrightarrow>
      \<exists>c' s'. drain c s = (Ok (rs, c'), s') \<and> vacant (slot c) s' \<and> frame c s c' s'"
begin

lemma fill_law:
  assumes "vacant p s" "list_all admissible vs"
  obtains c s' where "put_all vs (new l p) s = (Ok c, s')" "holds c s' vs" "frame (new l p) s c s'"
  using put_all_law[OF new_law[OF assms(1)] assms(2), of l] by auto

lemma fill_and_drain:
  assumes "vacant p s" "list_all admissible vs"
  obtains c1 s1 c2 s2 where "put_all vs (new l p) s = (Ok c1, s1)" "drain c1 s1 = (Ok (vs, c2), s2)"
    "vacant p s2" "frame (new l p) s c2 s2"
proof -
  obtain c1 s1 where one: "put_all vs (new l p) s = (Ok c1, s1)" "holds c1 s1 vs"
    "frame (new l p) s c1 s1"
    by (rule fill_law[OF assms])
  from drain_law[OF one(2)] obtain c2 s2 where
    two: "drain c1 s1 = (Ok (vs, c2), s2)" "vacant (slot c1) s2" "frame c1 s1 c2 s2"
    by blast
  from two(2) have "vacant p s2"
    by (simp only: slot_frame[OF one(3)] slot_new)
  with one two frame_trans[OF one(3) two(3)] that show ?thesis by blast
qed

end

section \<open>The cache meets the contract\<close>

text \<open>
  What a cache holds: everything in memory while the records fit the limit, everything in the
  spill file once they do not, behind the lines \<open>old\<close> that were in the file before.
\<close>

definition text_at :: "fs \<Rightarrow> path \<Rightarrow> string" where
  "text_at s p = (case files s p of None \<Rightarrow> [] | Some t \<Rightarrow> t)"

definition cache_holds ::
    "serde_api \<Rightarrow> json list \<Rightarrow> partition_cache \<Rightarrow> fs \<Rightarrow> json list \<Rightarrow> bool" where
  "cache_holds S old c s rs \<longleftrightarrow>
     healthy s \<and> list_all (reads_back S) (old @ rs) \<and> record_count c = length rs \<and>
     (case spilled_file c of
        None \<Rightarrow> in_memory c = rs \<and> in_memory_bytes c = size_of S rs \<and> spilled_bytes c = 0 \<and>
                size_of S rs \<le> limit_bytes c \<and> text_at s (spill_path c) = encode S old
      | Some p \<Rightarrow> p = spill_path c \<and> in_memory c = [] \<and> in_memory_bytes c = 0 \<and>
                  spilled_bytes c = length (encode S rs) \<and> limit_bytes c < size_of S rs \<and>
                  files s p = Some (encode S (old @ rs)))"

definition cache_frame :: "partition_cache \<Rightarrow> fs \<Rightarrow> partition_cache \<Rightarrow> fs \<Rightarrow> bool" where
  "cache_frame c s c' s' \<longleftrightarrow>
     limit_bytes c' = limit_bytes c \<and> spill_path c' = spill_path c \<and>
     changes_only {spill_path c} s s'"

definition path_vacant :: "path \<Rightarrow> fs \<Rightarrow> bool" where
  "path_vacant p s \<longleftrightarrow> healthy s \<and> text_at s p = []"

lemma spill_lines_encode:
  "healthy s \<Longrightarrow> list_all (reads_back S) vs \<Longrightarrow>
   spill_lines S p vs s =
     (Ok (length (encode S vs)),
      if vs = [] then s else s\<lparr>files := (files s)(p \<mapsto> text_at s p @ encode S vs)\<rparr>)"
proof (induction vs arbitrary: s)
  case Nil
  then show ?case by (simp add: io_return_def)
next
  case (Cons v vs)
  let ?s = "s\<lparr>files := (files s)(p \<mapsto> text_at s p @ text_of S v @ [newline])\<rparr>"
  have "spill_lines S p vs ?s = (Ok (length (encode S vs)),
      s\<lparr>files := (files s)(p \<mapsto> text_at s p @ encode S (v # vs))\<rparr>)"
    using Cons.IH[of ?s] Cons.prems by (cases vs) (auto simp: text_at_def)
  with Cons.prems show ?case
    by (auto simp: serialize_text append_file_eq io_bind_def io_lift_def io_return_def text_at_def
        split: option.splits)
qed

lemma cache_spill_encode:
  assumes "healthy s" "list_all (reads_back S) (in_memory c)" "in_memory c \<noteq> []"
  shows "cache_spill_to_disk S c s =
    (Ok (c\<lparr>in_memory := [], spilled_file := Some (spill_path c),
           spilled_bytes := spilled_bytes c + length (encode S (in_memory c)),
           in_memory_bytes := 0\<rparr>),
     s\<lparr>files := (files s)(spill_path c \<mapsto> text_at s (spill_path c) @ encode S (in_memory c))\<rparr>)"
proof -
  let ?s = "s\<lparr>files := (files s)(spill_path c \<mapsto> text_at s (spill_path c))\<rparr>"
  have app: "append_file (spill_path c) [] s = (Ok (), ?s)"
    using assms(1) by (auto simp: append_file_eq text_at_def split: option.splits)
  have "spill_lines S (spill_path c) (in_memory c) ?s =
    (Ok (length (encode S (in_memory c))),
     s\<lparr>files := (files s)(spill_path c \<mapsto> text_at s (spill_path c) @ encode S (in_memory c))\<rparr>)"
    using assms spill_lines_encode[of ?s S "in_memory c" "spill_path c"]
    by (simp add: text_at_def)
  with assms app show ?thesis
    by (simp add: cache_spill_to_disk_def ensure_parent_eq io_bind_def io_return_def)
qed

lemma push_holds:
  assumes holds: "cache_holds S old c s rs" and v: "reads_back S v"
  shows "\<exists>c' s'. push S v c s = (Ok c', s') \<and> cache_holds S old c' s' (rs @ [v]) \<and>
    cache_frame c s c' s'"
proof -
  let ?c = "c\<lparr>in_memory_bytes := in_memory_bytes c + length (text_of S v),
      record_count := record_count c + 1, in_memory := in_memory c @ [v]\<rparr>"
  have push: "push S v c s = maybe_spill S ?c s"
    using v by (simp add: push_def estimate_size_def serialize_text)
  have ok: "healthy s" "list_all (reads_back S) (in_memory ?c)"
    using holds v by (auto simp: cache_holds_def split: option.splits)
  note spill = cache_spill_encode[OF ok, simplified]
  show ?thesis
  proof (cases "spilled_file c")
    case None
    with holds have c: "in_memory c = rs" "in_memory_bytes c = size_of S rs" "spilled_bytes c = 0"
      "text_at s (spill_path c) = encode S old" "record_count c = length rs"
      "list_all (reads_back S) (old @ rs)"
      by (auto simp: cache_holds_def)
    show ?thesis
    proof (cases "limit_bytes c < size_of S (rs @ [v])")
      case True
      then show ?thesis
        using None c v spill ok(1)
        by (simp add: push maybe_spill_def total_size_bytes_def cache_holds_def cache_frame_def)
    next
      case False
      then show ?thesis
        using None c v ok(1)
        by (simp add: push maybe_spill_def total_size_bytes_def cache_holds_def cache_frame_def
            io_return_def)
    qed
  next
    case (Some p)
    with holds have c: "p = spill_path c" "in_memory c = []" "in_memory_bytes c = 0"
      "spilled_bytes c = length (encode S rs)" "limit_bytes c < size_of S rs"
      "files s p = Some (encode S (old @ rs))" "record_count c = length rs"
      "list_all (reads_back S) (old @ rs)"
      by (auto simp: cache_holds_def)
    have "limit_bytes c < total_size_bytes ?c"
      using c by (simp add: total_size_bytes_def length_encode)
    then show ?thesis
      using Some c v spill ok(1)
      by (simp add: push maybe_spill_def cache_holds_def cache_frame_def text_at_def)
  qed
qed

lemma drain_all_holds:
  assumes "cache_holds S old c s rs"
  shows "\<exists>c' s'. drain_all S c s = (Ok ((if has_spill c then old else []) @ rs, c'), s') \<and>
    cache_frame c s c' s' \<and>
    text_at s' (spill_path c) = (if has_spill c then [] else encode S old)"
proof (cases "spilled_file c")
  case None
  with assms show ?thesis
    by (auto simp: drain_all_def drain_spilled_def cache_holds_def cache_frame_def has_spill_def
        cache_new_def io_return_def)
next
  case (Some p)
  with assms have c: "p = spill_path c" "in_memory c = []" "healthy s"
    "files s p = Some (encode S (old @ rs))" "list_all (reads_back S) (old @ rs)"
    by (auto simp: cache_holds_def)
  from c Some have "drain_spilled S c s = (Ok (old @ rs), s\<lparr>files := (files s)(p := None)\<rparr>)"
    by (simp add: drain_spilled_def parse_lines_encode[OF c(5), simplified] read_file_eq
        io_bind_def io_lift_def io_ignore_def remove_file_eq)
  with Some c show ?thesis
    by (simp add: drain_all_def io_bind_def io_return_def cache_frame_def has_spill_def
        cache_new_def text_at_def)
qed

text \<open>A new cache on a path whose file holds the lines \<open>old\<close>.\<close>

lemma cache_new_holds:
  "healthy s \<Longrightarrow> text_at s p = encode S old \<Longrightarrow> list_all (reads_back S) old \<Longrightarrow>
   cache_holds S old (cache_new limit p) s []"
  by (simp add: cache_holds_def cache_new_def)

lemma cache_frame_refl: "cache_frame c s c s"
  by (simp add: cache_frame_def)

lemma cache_frame_trans:
  "cache_frame c s c' s' \<Longrightarrow> cache_frame c' s' c'' s'' \<Longrightarrow> cache_frame c s c'' s''"
  using changes_only_trans[of "{spill_path c}" s s' "{spill_path c}" s'']
  by (auto simp: cache_frame_def)

interpretation stale_cache: appendable "cache_holds S old" "reads_back S" cache_frame
  "push S" "push_batch S" for S old
  by unfold_locales (auto intro: push_holds cache_frame_refl cache_frame_trans)

interpretation fresh_cache: record_buffer "cache_holds S []" "reads_back S" cache_frame
  "push S" "push_batch S" cache_new spill_path "drain_all S" path_vacant for S
proof unfold_locales
  show "cache_holds S [] (cache_new l p) s []" if "path_vacant p s" for l p s
    using that by (simp add: path_vacant_def cache_new_holds)
  show "spill_path (cache_new l p) = p" for l p
    by (simp add: cache_new_def)
  show "spill_path c' = spill_path c" if "cache_frame c s c' s'" for c s c' s'
    using that by (simp add: cache_frame_def)
  show "\<exists>c' s'. drain_all S c s = (Ok (rs, c'), s') \<and> path_vacant (spill_path c) s' \<and>
      cache_frame c s c' s'" if "cache_holds S [] c s rs" for c s rs
    using drain_all_holds[OF that] that
    by (auto simp: path_vacant_def cache_frame_def cache_holds_def changes_only_healthy)
qed

section \<open>Filling and emptying partitions\<close>

definition partition_holds :: "serde_api \<Rightarrow> fs \<Rightarrow> partition_data \<Rightarrow> json list \<Rightarrow> bool" where
  "partition_holds S s p rs \<longleftrightarrow> cache_holds S [] (cache p) s rs"

abbreviation part_path :: "partition_data \<Rightarrow> path" where
  "part_path p \<equiv> spill_path (cache p)"

abbreviation part_limit :: "partition_data \<Rightarrow> nat" where
  "part_limit p \<equiv> limit_bytes (cache p)"

lemma partition_holds_frame:
  assumes "partition_holds S s p rs" "changes_only P s s'" "part_path p \<notin> P"
  shows "partition_holds S s' p rs"
  using assms changes_only_file[OF assms(2,3)]
  by (auto simp: partition_holds_def cache_holds_def changes_only_healthy text_at_def
      split: option.splits)

lemma partition_holds_readable: "partition_holds S s p rs \<Longrightarrow> list_all (reads_back S) rs"
  by (simp add: partition_holds_def cache_holds_def)

lemma partition_holds_healthy: "partition_holds S s p rs \<Longrightarrow> healthy s"
  by (simp add: partition_holds_def cache_holds_def)

lemma path_vacant_frame: "path_vacant q s \<Longrightarrow> changes_only P s s' \<Longrightarrow> q \<notin> P \<Longrightarrow> path_vacant q s'"
  using changes_only_file[of P s s' q] changes_only_healthy[of P s s']
  by (simp add: path_vacant_def text_at_def)

lemma partition_empty_holds:
  "path_vacant p s \<Longrightarrow> partition_holds S s (partition_empty pid limit p) []"
  by (simp add: partition_holds_def partition_empty_def path_vacant_def cache_new_holds)

lemma from_records_holds:
  assumes "path_vacant path s" "list_all (reads_back S) rs"
  obtains p s' where "from_records S pid limit path rs s = (Ok p, s')"
    "partition_holds S s' p rs" "partition_id p = pid" "part_limit p = limit" "part_path p = path"
    "changes_only {path} s s'"
proof -
  obtain c s' where c: "push_batch S rs (cache_new limit path) s = (Ok c, s')"
    "cache_holds S [] c s' rs" "cache_frame (cache_new limit path) s c s'"
    by (rule fresh_cache.fill_law[OF assms])
  then show ?thesis
    using that[of "\<lparr>partition_id = pid, cache = c\<rparr>" s']
    by (simp add: from_records_def io_bind_def io_return_def partition_holds_def cache_frame_def
        cache_new_def)
qed

lemma into_parts_holds:
  assumes "partition_holds S s p rs"
  obtains s' where "into_parts S p s = (Ok (part_limit p, part_path p, rs), s')"
    "path_vacant (part_path p) s'" "changes_only {part_path p} s s'"
proof -
  from fresh_cache.drain_law[OF assms[unfolded partition_holds_def]] obtain c s' where
    "drain_all S (cache p) s = (Ok (rs, c), s')" "path_vacant (part_path p) s'"
    "cache_frame (cache p) s c s'"
    by blast
  with that show ?thesis
    by (simp add: into_parts_def io_bind_def io_return_def cache_frame_def)
qed

text \<open>Several partitions, each with a spill file of its own.\<close>

definition parts_hold :: "serde_api \<Rightarrow> fs \<Rightarrow> partition_data list \<Rightarrow> json list list \<Rightarrow> bool" where
  "parts_hold S s ps rss \<longleftrightarrow>
     list_all2 (partition_holds S s) ps rss \<and> distinct (map part_path ps)"

lemma parts_hold_Nil [simp]: "parts_hold S s [] rss \<longleftrightarrow> rss = []"
  by (auto simp: parts_hold_def)

lemma parts_hold_single [simp]: "parts_hold S s [p] [rs] \<longleftrightarrow> partition_holds S s p rs"
  by (auto simp: parts_hold_def)

lemma parts_hold_Cons:
  "parts_hold S s (p # ps) rss \<longleftrightarrow>
     (\<exists>rs rss'. rss = rs # rss' \<and> partition_holds S s p rs \<and> part_path p \<notin> part_path ` set ps \<and>
                parts_hold S s ps rss')"
  by (auto simp: parts_hold_def list_all2_Cons1)

lemma parts_hold_length: "parts_hold S s ps rss \<Longrightarrow> length ps = length rss"
  by (auto simp: parts_hold_def dest: list_all2_lengthD)

lemma parts_hold_frame:
  assumes "parts_hold S s ps rss" "changes_only P s s'" "part_path ` set ps \<inter> P = {}"
  shows "parts_hold S s' ps rss"
proof -
  have "list_all2 (partition_holds S s') ps rss"
    using assms(1,3) unfolding parts_hold_def
    by (auto elim!: list.rel_mono_strong intro: partition_holds_frame[OF _ assms(2)])
  with assms(1) show ?thesis by (simp add: parts_hold_def)
qed

section \<open>Result files\<close>

lemma path_join_inject:
  assumes "path_join b r = path_join b r'" "r \<noteq> []" "r' \<noteq> []" "hd r \<noteq> slash" "hd r' \<noteq> slash"
  shows "r = r'"
  using assms by (auto simp: path_join_def split: if_splits)

text \<open>What naming files by identifiers needs: printed identifiers differ and have no slash.\<close>

definition uuid_names_ok :: "uuid_api \<Rightarrow> bool" where
  "uuid_names_ok U \<longleftrightarrow>
     inj (uuid_to_string U) \<and> (\<forall>u. uuid_to_string U u \<noteq> [] \<and> slash \<notin> set (uuid_to_string U u))"

definition file_name :: "uuid_api \<Rightarrow> string \<Rightarrow> job_id \<Rightarrow> nat \<Rightarrow> nat \<Rightarrow> string" where
  "file_name U kind job stage part =
     uuid_to_string U job @ slash # show_nat stage @ slash # kind @ CHR ''-'' # show_nat part @ ''.bin''"

lemma paths_file_name:
  "partition_path U st job stage part = path_join (root st) (file_name U ''part'' job stage part)"
  "store_spill_path U st job stage part = path_join (root st) (file_name U ''spill'' job stage part)"
  by (simp_all add: partition_path_def store_spill_path_def file_name_def slash_def)

lemma file_name_inject:
  assumes "uuid_names_ok U" "CHR ''-'' \<notin> set k" "CHR ''-'' \<notin> set k'"
    and eq: "file_name U k job stage part = file_name U k' job' stage' part'"
  shows "k = k' \<and> job = job' \<and> stage = stage' \<and> part = part'"
proof -
  have no: "slash \<notin> set (uuid_to_string U u)" "slash \<notin> set (show_nat n)" for u n
    using assms(1) show_nat_no_char[of slash] by (auto simp: uuid_names_ok_def is_digit_def slash_def)
  from separator_inject[OF eq[unfolded file_name_def] no(1) no(1)]
  have job: "uuid_to_string U job = uuid_to_string U job'"
    and r1: "show_nat stage @ slash # k @ CHR ''-'' # show_nat part @ ''.bin'' =
             show_nat stage' @ slash # k' @ CHR ''-'' # show_nat part' @ ''.bin''"
    by auto
  from separator_inject[OF r1 no(2) no(2)]
  have stage: "stage = stage'"
    and r2: "k @ CHR ''-'' # show_nat part @ ''.bin'' = k' @ CHR ''-'' # show_nat part' @ ''.bin''"
    by auto
  from separator_inject[OF r2 assms(2,3)] job stage assms(1) show ?thesis
    by (auto simp: uuid_names_ok_def dest: injD)
qed

lemma file_name_start:
  "uuid_names_ok U \<Longrightarrow> file_name U k job stage part \<noteq> [] \<and> hd (file_name U k job stage part) \<noteq> slash"
  unfolding uuid_names_ok_def file_name_def by (metis Nil_is_append_conv hd_append2 hd_in_set)

lemma store_path_inject:
  assumes "uuid_names_ok U" "CHR ''-'' \<notin> set k" "CHR ''-'' \<notin> set k'"
    and "path_join b (file_name U k job stage part) = path_join b (file_name U k' job' stage' part')"
  shows "k = k' \<and> job = job' \<and> stage = stage' \<and> part = part'"
  using file_name_inject[OF assms(1-3)] path_join_inject[OF assms(4)] file_name_start[OF assms(1)]
  by blast

lemma write_records_encode:
  assumes "healthy s" "list_all (reads_back S) rs"
  shows "write_records S p rs s =
    (Ok (length (encode S rs)), s\<lparr>files := (files s)(p \<mapsto> encode S rs)\<rparr>)"
  using assms
  by (simp add: write_records_def record_buf_encode spill_to_disk_def ensure_parent_eq
      write_file_eq io_bind_def io_return_def io_lift_def)

section \<open>Example data\<close>

definition rec_a :: json where
  "rec_a = JObject [(''k'', JString ''a''), (''v'', JNumber (NInt 1))]"

definition rec_b :: json where
  "rec_b = JObject [(''k'', JString ''b''), (''v'', JNumber (NInt 2))]"

definition text_a :: string where
  "text_a = ''{'' @ quote2 ''k'' @ '':'' @ quote2 ''a'' @ '','' @ quote2 ''v'' @ '':1}''"

definition text_b :: string where
  "text_b = ''{'' @ quote2 ''k'' @ '':'' @ quote2 ''b'' @ '','' @ quote2 ''v'' @ '':2}''"

text \<open>What counting the two records gives, per key and in all.\<close>

definition count_row :: "string \<Rightarrow> json" where
  "count_row k = JObject [(''count'', JNumber (NInt 1)), (''k'', JString k)]"

definition count_total :: json where
  "count_total = JObject [(''count'', JNumber (NInt 2))]"

definition count_text :: "string \<Rightarrow> string" where
  "count_text k = ''{'' @ quote2 ''count'' @ '':1,'' @ quote2 ''k'' @ '':'' @ quote2 k @ ''}''"

definition total_text :: string where
  "total_text = ''{'' @ quote2 ''count'' @ '':2}''"

definition example_serde :: serde_api where
  "example_serde = table_serde
     [(rec_a, text_a), (rec_b, text_b), (count_row ''a'', count_text ''a''),
      (count_row ''b'', count_text ''b''), (count_total, total_text)]"

definition example_fs :: fs where
  "example_fs = \<lparr>files = Map.empty, faults = \<lambda>_. None\<rparr>"

lemmas example_record_defs = rec_a_def rec_b_def text_a_def text_b_def quote2_def
  count_row_def count_total_def count_text_def total_text_def

lemma example_text [simp]:
  "text_of example_serde rec_a = text_a" "text_of example_serde rec_b = text_b"
  by (simp_all add: text_of_def example_serde_def table_serde_def example_record_defs)

lemma example_reads_back [simp]: "reads_back example_serde rec_a" "reads_back example_serde rec_b"
  "reads_back example_serde (count_row ''a'')" "reads_back example_serde (count_row ''b'')"
  "reads_back example_serde count_total"
  by (simp_all add: reads_back_def example_serde_def table_serde_def example_record_defs newline_def
      carriage_return_def trim_def trim_end_matches_def is_whitespace_def)

lemma example_text_length [simp]: "length text_a = 15" "length text_b = 15"
  by (simp_all add: example_record_defs)

lemma example_fs_vacant [simp]: "path_vacant p example_fs" "healthy example_fs"
  by (simp_all add: path_vacant_def healthy_def example_fs_def text_at_def)

text \<open>A partition with both records in memory.\<close>

definition example_part :: partition_data where
  "example_part = \<lparr>partition_id = 3,
     cache = (cache_new 100 ''/d/s'')\<lparr>in_memory := [rec_a, rec_b], in_memory_bytes := 30,
       record_count := 2\<rparr>\<rparr>"

lemma example_part_holds: "parts_hold example_serde example_fs [example_part] [[rec_a, rec_b]]"
  by (simp add: partition_holds_def cache_holds_def example_part_def cache_new_def)
    (simp add: text_at_def example_fs_def)

lemma example_part_simps [simp]:
  "partition_id example_part = 3" "part_limit example_part = 100" "part_path example_part = ''/d/s''"
  by (simp_all add: example_part_def cache_new_def)

text \<open>A partition stays in the slot it was made for.\<close>

lemma push_path: "push S v c s = (Ok c', s') \<Longrightarrow> spill_path c' = spill_path c"
  by (auto simp: push_def maybe_spill_def cache_spill_to_disk_def io_return_def elim!: io_bind_OkE
      split: if_splits)

lemma push_batch_path: "push_batch S vs c s = (Ok c', s') \<Longrightarrow> spill_path c' = spill_path c"
  by (induction vs arbitrary: c s) (auto simp: io_return_def dest: push_path elim!: io_bind_OkE)

lemma from_records_path: "from_records S pid limit file rs s = (Ok p, s') \<Longrightarrow> part_path p = file"
  by (auto simp: from_records_def io_return_def cache_new_def dest!: push_batch_path elim!: io_bind_OkE)

lemma into_parts_path: "into_parts S p s = (Ok (limit, file, rs), s') \<Longrightarrow> file = part_path p"
  by (auto simp: into_parts_def io_return_def Let_def elim!: io_bind_OkE)

section \<open>Properties\<close>

text \<open>
  Claim C10. Filling a partition and emptying it returns the records in their order, whatever
  the limit: the records go to disk exactly when their serialized size exceeds the limit,
  memory never holds more than the limit, no file other than the spill file is touched, and
  the spill file is gone afterwards.
\<close>

theorem partition_roundtrip:
  assumes "path_vacant path s" "list_all (reads_back S) rs"
  shows "\<exists>p s1 s2. from_records S pid limit path rs s = (Ok p, s1) \<and>
    into_parts S p s1 = (Ok (limit, path, rs), s2) \<and>
    (has_spill (cache p) \<longleftrightarrow> limit < size_of S rs) \<and>
    in_memory_bytes (cache p) = size_of S (in_memory (cache p)) \<and>
    size_of S (in_memory (cache p)) \<le> limit \<and> record_count (cache p) = length rs \<and>
    changes_only {path} s s2 \<and> path_vacant path s2"
proof -
  obtain p s1 where p: "from_records S pid limit path rs s = (Ok p, s1)"
    "partition_holds S s1 p rs" "part_limit p = limit" "part_path p = path" "changes_only {path} s s1"
    by (rule from_records_holds[OF assms, of pid limit])
  obtain s2 where s2: "into_parts S p s1 = (Ok (part_limit p, part_path p, rs), s2)"
    "path_vacant (part_path p) s2" "changes_only {part_path p} s1 s2"
    by (rule into_parts_holds[OF p(2)])
  from p(2,3) have "(has_spill (cache p) \<longleftrightarrow> limit < size_of S rs) \<and>
    in_memory_bytes (cache p) = size_of S (in_memory (cache p)) \<and>
    size_of S (in_memory (cache p)) \<le> limit \<and> record_count (cache p) = length rs"
    by (auto simp: partition_holds_def cache_holds_def has_spill_def split: option.splits)
  with p s2 changes_only_trans[OF p(5) s2(3)] show ?thesis by auto
qed

theorem partition_roundtrip_witness:
  "\<exists>p s1 s2. from_records example_serde 0 5 ''/d/s'' [rec_a, rec_b] example_fs = (Ok p, s1) \<and>
    into_parts example_serde p s1 = (Ok (5, ''/d/s'', [rec_a, rec_b]), s2) \<and> has_spill (cache p)"
  using partition_roundtrip[of "''/d/s''" example_fs example_serde "[rec_a, rec_b]" 0 5]
  by auto

text \<open>
  A spill file left by an earlier attempt (a task that failed while a partition was
  on disk) is appended to, not replaced: when the new records exceed the limit, emptying the
  partition returns the old records in front of the new ones.
\<close>

theorem stale_spill_file_is_read:
  assumes "healthy s" "files s path = Some (encode S old)" "list_all (reads_back S) (old @ rs)"
    and "limit < size_of S rs"
  shows "\<exists>p s1 s2. from_records S pid limit path rs s = (Ok p, s1) \<and>
    into_parts S p s1 = (Ok (limit, path, old @ rs), s2)"
proof -
  have "cache_holds S old (cache_new limit path) s []"
    using assms by (intro cache_new_holds) (simp_all add: text_at_def)
  from stale_cache.put_all_law[OF this, of rs] assms(3) obtain c s1 where
    c: "push_batch S rs (cache_new limit path) s = (Ok c, s1)" "cache_holds S old c s1 rs"
    "limit_bytes c = limit" "spill_path c = path"
    by (auto simp: cache_frame_def cache_new_def)
  with assms(4) have "has_spill c"
    by (auto simp: cache_holds_def has_spill_def split: option.splits)
  with drain_all_holds[OF c(2)] c show ?thesis
    by (auto simp: from_records_def into_parts_def io_bind_def io_return_def)
qed

theorem stale_spill_file_is_read_witness:
  "\<exists>p s1 s2. from_records example_serde 0 2 ''/d/s'' [rec_b]
      (example_fs\<lparr>files := [''/d/s'' \<mapsto> encode example_serde [rec_a]]\<rparr>) = (Ok p, s1) \<and>
    into_parts example_serde p s1 = (Ok (2, ''/d/s'', [rec_a, rec_b]), s2)"
  using stale_spill_file_is_read[of "example_fs\<lparr>files := [''/d/s'' \<mapsto> encode example_serde [rec_a]]\<rparr>"
      "''/d/s''" example_serde "[rec_a]" "[rec_b]" 2 0]
  by simp

text \<open>
  Two partitions that spill to the same path, as the two inputs of a join read by
  one task do, spoil each other: the first one drained returns the records of both, the second
  one finds no file and fails.
\<close>

theorem shared_spill_path:
  assumes "path_vacant path s" "list_all (reads_back S) (as @ bs)"
    and "limit < size_of S as" "limit < size_of S bs"
  shows "\<exists>p q s1 s2 s3. from_records S 0 limit path as s = (Ok p, s1) \<and>
    from_records S 1 limit path bs s1 = (Ok q, s2) \<and>
    into_parts S p s2 = (Ok (limit, path, as @ bs), s3) \<and>
    into_parts S q s3 = (Err (IoError no_such_file), s3)"
proof -
  from assms(2) have ab: "list_all (reads_back S) as" "list_all (reads_back S) bs" by auto
  obtain p s1 where p: "from_records S 0 limit path as s = (Ok p, s1)"
    "partition_holds S s1 p as" "part_limit p = limit" "part_path p = path"
    by (rule from_records_holds[OF assms(1) ab(1), of 0 limit])
  then have sp: "spilled_file (cache p) = Some path" "in_memory (cache p) = []" "healthy s1"
    "files s1 path = Some (encode S as)"
    using assms(3) by (auto simp: partition_holds_def cache_holds_def split: option.splits)
  have "cache_holds S as (cache_new limit path) s1 []"
    using sp ab by (intro cache_new_holds) (simp_all add: text_at_def)
  from stale_cache.put_all_law[OF this ab(2)] obtain c s2 where
    c: "push_batch S bs (cache_new limit path) s1 = (Ok c, s2)" "cache_holds S as c s2 bs"
    "limit_bytes c = limit" "spill_path c = path"
    by (auto simp: cache_frame_def cache_new_def)
  let ?q = "\<lparr>partition_id = 1, cache = c\<rparr>"
  let ?s3 = "s2\<lparr>files := (files s2)(path := None)\<rparr>"
  from c assms(4) have sc: "spilled_file c = Some path" "healthy s2"
    "files s2 path = Some (encode S (as @ bs))"
    by (auto simp: cache_holds_def split: option.splits)
  have q: "from_records S 1 limit path bs s1 = (Ok ?q, s2)"
    using c by (simp add: from_records_def io_bind_def io_return_def)
  have dp: "into_parts S p s2 = (Ok (limit, path, as @ bs), ?s3)"
    using sp sc p parse_lines_encode[OF assms(2)]
    by (simp add: into_parts_def drain_all_def drain_spilled_def read_file_eq io_bind_def io_lift_def
        io_ignore_def remove_file_eq io_return_def del: encode_simps)
  have "into_parts S ?q ?s3 = (Err (IoError no_such_file), ?s3)"
    using sc by (simp add: into_parts_def drain_all_def drain_spilled_def read_file_def io_bind_def)
  with p q dp show ?thesis by blast
qed

theorem shared_spill_path_witness:
  "\<exists>p q s1 s2 s3. from_records example_serde 0 2 ''/d/s'' [rec_a] example_fs = (Ok p, s1) \<and>
    from_records example_serde 1 2 ''/d/s'' [rec_b] s1 = (Ok q, s2) \<and>
    into_parts example_serde p s2 = (Ok (2, ''/d/s'', [rec_a, rec_b]), s3) \<and>
    into_parts example_serde q s3 = (Err (IoError no_such_file), s3)"
  using shared_spill_path[of "''/d/s''" example_fs example_serde "[rec_a]" "[rec_b]" 2]
  by simp

text \<open>
  Result files are named apart: two result files of a store have the same path only
  if job, stage and partition agree, and no result file is a spill file.
\<close>

theorem partition_paths_distinct:
  assumes "uuid_names_ok U"
  shows "(partition_path U st job stage part = partition_path U st job' stage' part' \<longleftrightarrow>
      job = job' \<and> stage = stage' \<and> part = part') \<and>
    partition_path U st job stage part \<noteq> store_spill_path U st job' stage' part'"
  using store_path_inject[OF assms, of "''part''" "''part''" "root st" job stage part job' stage' part']
    store_path_inject[OF assms, of "''part''" "''spill''" "root st" job stage part job' stage' part']
  by (auto simp: paths_file_name)

lemma example_uuid_names: "uuid_names_ok example_uuid_api"
  using show_nat_no_char[of slash]
  by (auto simp: uuid_names_ok_def example_uuid_api_def inj_def is_digit_def slash_def
      intro: unsigned_word_eqI)

theorem partition_paths_distinct_witness:
  "partition_path example_uuid_api \<lparr>root = ''/d'', store_config = default_config\<rparr> 7 1 0 \<noteq>
   partition_path example_uuid_api \<lparr>root = ''/d'', store_config = default_config\<rparr> 7 1 1"
  using partition_paths_distinct[OF example_uuid_names] by simp

text \<open>
  A result file written by a task and read back line by line
  holds the records in order; the reported size is the size of the file.
\<close>

theorem result_file_roundtrip:
  assumes "healthy s" "list_all (reads_back S) rs"
  shows "\<exists>n s' text. write_records S p rs s = (Ok n, s') \<and> read_from_disk p s' = (Ok text, s') \<and>
    length text = n \<and> parse_lines S (lines text) = Ok rs \<and> changes_only {p} s s'"
  using assms by (auto simp: write_records_encode read_from_disk_def read_file_eq parse_lines_encode)

theorem result_file_roundtrip_witness:
  "\<exists>n s' text. write_records example_serde ''/d/part-0.bin'' [rec_a, rec_b] example_fs = (Ok n, s') \<and>
    read_from_disk ''/d/part-0.bin'' s' = (Ok text, s') \<and>
    parse_lines example_serde (lines text) = Ok [rec_a, rec_b]"
  using result_file_roundtrip[of example_fs example_serde "[rec_a, rec_b]" "''/d/part-0.bin''"] by auto

end
