(* ===== verification/Ops_Base.thy ===== *)
theory Ops_Base
  imports Partition
begin

text \<open>
  The trait \<open>ExecutableOp\<close> of \<open>src/src/worker/ops/mod.rs\<close> as an interface: an operator turns
  partitions into partitions over the file system, and its meaning is a function on the record
  lists the partitions hold. \<open>executable_op\<close> states that an operator implements its meaning;
  \<open>partitionwise_op\<close> is the shape of filter, map and flat_map (prepare once, then rewrite each
  partition in place), which gives the contract once for all three; \<open>chain_law\<close> composes
  operators. The lemmas on \<open>io_mapM (into_parts S)\<close> carry the operators that gather all
  partitions first.
\<close>

abbreviation readable :: "serde_api \<Rightarrow> json list list \<Rightarrow> bool" where
  "readable S rss \<equiv> list_all (list_all (reads_back S)) rss"

abbreviation part_paths :: "partition_data list \<Rightarrow> path set" where
  "part_paths ps \<equiv> part_path ` set ps"

section \<open>The interface\<close>

locale executable_op =
  fixes S :: serde_api
    and execute :: "partition_data list \<Rightarrow> partition_data list fsio"
    and meaning :: "json list list \<Rightarrow> (error, json list list) res"
    and ready :: "partition_data list \<Rightarrow> fs \<Rightarrow> bool"
    and touched :: "partition_data list \<Rightarrow> path set"
    and out_ids :: "partition_data list \<Rightarrow> nat list"
  assumes execute_law:
    "parts_hold S s ps rss \<Longrightarrow> ready ps s \<Longrightarrow> meaning rss = Ok outs \<Longrightarrow> readable S outs \<Longrightarrow>
     \<exists>ps' s'. execute ps s = (Ok ps', s') \<and> parts_hold S s' ps' outs \<and>
              map partition_id ps' = out_ids ps \<and> changes_only (touched ps) s s'"
begin

text \<open>Two operators in sequence implement the composition of their meanings.\<close>

lemma chain_law:
  assumes "executable_op S execute' meaning' ready' touched' out_ids'"
    and "parts_hold S s ps rss" "ready ps s"
    and "meaning rss = Ok mids" "readable S mids"
    and "\<And>ps' s'. parts_hold S s' ps' mids \<Longrightarrow> ready' ps' s'"
    and "meaning' mids = Ok outs" "readable S outs"
  shows "\<exists>ps' s'. io_bind (execute ps) execute' s = (Ok ps', s') \<and> parts_hold S s' ps' outs"
proof -
  from execute_law[OF assms(2-5)] obtain ps1 s1 where
    one: "execute ps s = (Ok ps1, s1)" "parts_hold S s1 ps1 mids"
    by blast
  from executable_op.execute_law[OF assms(1) one(2) assms(6)[OF one(2)] assms(7,8)] one
  show ?thesis by (auto simp: io_bind_def)
qed

end

section \<open>Operators that rewrite each partition\<close>

definition process :: "serde_api \<Rightarrow> (json list \<Rightarrow> (error, json list) res) \<Rightarrow>
    partition_data \<Rightarrow> partition_data fsio" where
  "process S f p =
     io_bind (into_parts S p) (\<lambda>(limit, path, records).
     io_bind (io_lift (f records)) (\<lambda>out.
       from_records S (partition_id p) limit path out))"

lemma process_holds:
  assumes "partition_holds S s p rs" "f rs = Ok out" "list_all (reads_back S) out"
  obtains p' s' where "process S f p s = (Ok p', s')" "partition_holds S s' p' out"
    "partition_id p' = partition_id p" "part_limit p' = part_limit p" "part_path p' = part_path p"
    "changes_only {part_path p} s s'"
proof -
  obtain s1 where s1: "into_parts S p s = (Ok (part_limit p, part_path p, rs), s1)"
    "path_vacant (part_path p) s1" "changes_only {part_path p} s s1"
    by (rule into_parts_holds[OF assms(1)])
  obtain p' s2 where
    "from_records S (partition_id p) (part_limit p) (part_path p) out s1 = (Ok p', s2)"
    "partition_holds S s2 p' out" "partition_id p' = partition_id p"
    "part_limit p' = part_limit p" "part_path p' = part_path p" "changes_only {part_path p} s1 s2"
    by (rule from_records_holds[OF s1(2) assms(3)])
  with s1 assms(2) changes_only_same[OF s1(3)] show ?thesis
    by (intro that[of p' s2]) (auto simp: process_def io_bind_def io_lift_def)
qed

lemma process_error:
  assumes "partition_holds S s p rs" "f rs = Err e"
  shows "\<exists>s'. process S f p s = (Err e, s')"
proof -
  obtain s1 where "into_parts S p s = (Ok (part_limit p, part_path p, rs), s1)"
    by (rule into_parts_holds[OF assms(1)])
  with assms(2) show ?thesis by (simp add: process_def io_bind_def io_lift_def)
qed

text \<open>What is the same before and after: numbers, limits and spill paths.\<close>

definition same_slots :: "partition_data list \<Rightarrow> partition_data list \<Rightarrow> bool" where
  "same_slots ps ps' \<longleftrightarrow>
     map partition_id ps' = map partition_id ps \<and>
     map part_limit ps' = map part_limit ps \<and> map part_path ps' = map part_path ps"

lemma same_slots_paths: "same_slots ps ps' \<Longrightarrow> part_paths ps' = part_paths ps"
  unfolding same_slots_def by (metis list.set_map)

lemma mapM_process_holds:
  "parts_hold S s ps rss \<Longrightarrow> res_mapM f rss = Ok outs \<Longrightarrow> readable S outs \<Longrightarrow>
   \<exists>ps' s'. io_mapM (process S f) ps s = (Ok ps', s') \<and> parts_hold S s' ps' outs \<and>
     same_slots ps ps' \<and> changes_only (part_paths ps) s s'"
proof (induction ps arbitrary: s rss outs)
  case Nil
  then show ?case by (auto simp: io_return_def same_slots_def)
next
  case (Cons p ps)
  from Cons.prems(1) obtain rs rss' where rss: "rss = rs # rss'" and p: "partition_holds S s p rs"
    and fresh: "part_path p \<notin> part_paths ps" and ps: "parts_hold S s ps rss'"
    by (auto simp: parts_hold_Cons)
  from Cons.prems(2) rss obtain out outs' where
    f: "f rs = Ok out" "res_mapM f rss' = Ok outs'" "outs = out # outs'"
    by (auto elim!: res_bind_OkE)
  with Cons.prems(3) have out: "list_all (reads_back S) out" "readable S outs'" by auto
  obtain p' s1 where p': "process S f p s = (Ok p', s1)" "partition_holds S s1 p' out"
    "partition_id p' = partition_id p" "part_limit p' = part_limit p" "part_path p' = part_path p"
    "changes_only {part_path p} s s1"
    by (rule process_holds[where f = f, OF p f(1) out(1)])
  have "parts_hold S s1 ps rss'"
    using fresh by (intro parts_hold_frame[OF ps p'(6)]) auto
  from Cons.IH[OF this f(2) out(2)] obtain ps' s2 where
    ps': "io_mapM (process S f) ps s1 = (Ok ps', s2)" "parts_hold S s2 ps' outs'"
    "same_slots ps ps'" "changes_only (part_paths ps) s1 s2"
    by blast
  have "partition_holds S s2 p' out"
    using fresh p'(5) by (intro partition_holds_frame[OF p'(2) ps'(4)]) auto
  then have "parts_hold S s2 (p' # ps') outs"
    using ps'(2,3) p'(5) fresh f(3) by (auto simp: parts_hold_Cons same_slots_paths)
  moreover have "changes_only (part_paths (p # ps)) s s2"
    using changes_only_trans[OF p'(6) ps'(4)] by (simp add: changes_only_mono)
  moreover have "same_slots (p # ps) (p' # ps')"
    using p' ps'(3) by (simp add: same_slots_def)
  ultimately show ?case
    using p'(1) ps'(1) by (auto simp: io_bind_def io_return_def)
qed

lemma process_path: "process S f p s = (Ok p', s') \<Longrightarrow> part_path p' = part_path p"
  by (auto simp: process_def dest!: from_records_path into_parts_path elim!: io_bind_OkE)

lemma mapM_process_paths: "io_mapM (process S f) ps s = (Ok ps', s') \<Longrightarrow> map part_path ps' = map part_path ps"
  by (induction ps arbitrary: s ps') (auto simp: io_return_def dest!: process_path elim!: io_bind_OkE)

lemma mapM_process_error:
  "parts_hold S s ps rss \<Longrightarrow> res_mapM f rss = Err e \<Longrightarrow>
   (\<And>rs out. rs \<in> set rss \<Longrightarrow> f rs = Ok out \<Longrightarrow> list_all (reads_back S) out) \<Longrightarrow>
   \<exists>s'. io_mapM (process S f) ps s = (Err e, s')"
proof (induction ps arbitrary: s rss)
  case Nil
  then show ?case by simp
next
  case (Cons p ps)
  from Cons.prems(1) obtain rs rss' where rss: "rss = rs # rss'" and p: "partition_holds S s p rs"
    and fresh: "part_path p \<notin> part_paths ps" and ps: "parts_hold S s ps rss'"
    by (auto simp: parts_hold_Cons)
  show ?case
  proof (cases "f rs")
    case (Ok out)
    then have "list_all (reads_back S) out" using Cons.prems(3) rss by auto
    then obtain p' s1 where p': "process S f p s = (Ok p', s1)" "changes_only {part_path p} s s1"
      by (rule process_holds[where f = f, OF p Ok])
    have "parts_hold S s1 ps rss'"
      using fresh by (intro parts_hold_frame[OF ps p'(2)]) auto
    moreover have "res_mapM f rss' = Err e"
      using Cons.prems(2) rss Ok by (cases "res_mapM f rss'") auto
    ultimately have "\<exists>s'. io_mapM (process S f) ps s1 = (Err e, s')"
      using Cons.IH[of s1 rss'] Cons.prems(3) rss by auto
    with p'(1) show ?thesis by (auto simp: io_bind_def)
  next
    case (Err e')
    with Cons.prems(2) rss have "e' = e" by simp
    with process_error[where f = f, OF p Err] show ?thesis by (auto simp: io_bind_def)
  next
    case Panic
    with Cons.prems(2) rss show ?thesis by simp
  qed
qed

text \<open>The meaning: every partition's records are rewritten, or the first error is the result.\<close>

definition rewrite_all :: "(error, 'k) res \<Rightarrow> ('k \<Rightarrow> json list \<Rightarrow> (error, json list) res) \<Rightarrow>
    json list list \<Rightarrow> (error, json list list) res" where
  "rewrite_all prepare transform rss = res_bind prepare (\<lambda>k. res_mapM (transform k) rss)"

locale partitionwise_op =
  fixes S :: serde_api
    and execute :: "partition_data list \<Rightarrow> partition_data list fsio"
    and prepare :: "(error, 'k) res"
    and transform :: "'k \<Rightarrow> json list \<Rightarrow> (error, json list) res"
  assumes execute_eq:
    "execute ps = io_bind (io_lift prepare) (\<lambda>k. io_mapM (process S (transform k)) ps)"
begin

lemma execute_in_place:
  assumes "parts_hold S s ps rss" "rewrite_all prepare transform rss = Ok outs" "readable S outs"
  shows "\<exists>ps' s'. execute ps s = (Ok ps', s') \<and> parts_hold S s' ps' outs \<and>
    same_slots ps ps' \<and> changes_only (part_paths ps) s s'"
proof -
  from assms(2) obtain k where k: "prepare = Ok k" "res_mapM (transform k) rss = Ok outs"
    by (auto simp: rewrite_all_def elim!: res_bind_OkE)
  from mapM_process_holds[OF assms(1) k(2) assms(3)] k(1) show ?thesis
    by (simp add: execute_eq)
qed

lemma execute_prepare_error: "prepare = Err e \<Longrightarrow> execute ps s = (Err e, s)"
  by (simp add: execute_eq io_lift_def)

lemma execute_error:
  assumes "parts_hold S s ps rss" "rewrite_all prepare transform rss = Err e"
    and "\<And>k rs out. prepare = Ok k \<Longrightarrow> rs \<in> set rss \<Longrightarrow> transform k rs = Ok out \<Longrightarrow>
      list_all (reads_back S) out"
  shows "\<exists>s'. execute ps s = (Err e, s')"
proof (cases prepare)
  case (Ok k)
  with assms(2) have "res_mapM (transform k) rss = Err e" by (simp add: rewrite_all_def)
  with mapM_process_error[OF assms(1), of "transform k" e] assms(3)[OF Ok] show ?thesis
    by (auto simp: execute_eq Ok)
next
  case (Err e')
  with assms(2) show ?thesis by (auto simp: rewrite_all_def execute_prepare_error)
next
  case Panic
  with assms(2) show ?thesis by (simp add: rewrite_all_def)
qed

end

sublocale partitionwise_op \<subseteq> executable_op S execute "rewrite_all prepare transform" "\<lambda>_ _. True" part_paths
    "map partition_id"
  using execute_in_place by unfold_locales (unfold same_slots_def, blast)

section \<open>Operators that gather all partitions\<close>

lemma gather_parts:
  "parts_hold S s ps rss \<Longrightarrow>
   \<exists>s'. io_mapM (into_parts S) ps s =
          (Ok (map2 (\<lambda>p rs. (part_limit p, part_path p, rs)) ps rss), s') \<and>
        changes_only (part_paths ps) s s' \<and> (\<forall>q \<in> part_paths ps. path_vacant q s')"
proof (induction ps arbitrary: s rss)
  case Nil
  then show ?case by (auto simp: io_return_def)
next
  case (Cons p ps)
  from Cons.prems obtain rs rss' where rss: "rss = rs # rss'" and p: "partition_holds S s p rs"
    and fresh: "part_path p \<notin> part_paths ps" and ps: "parts_hold S s ps rss'"
    by (auto simp: parts_hold_Cons)
  obtain s1 where s1: "into_parts S p s = (Ok (part_limit p, part_path p, rs), s1)"
    "path_vacant (part_path p) s1" "changes_only {part_path p} s s1"
    by (rule into_parts_holds[OF p])
  have "parts_hold S s1 ps rss'"
    using fresh by (intro parts_hold_frame[OF ps s1(3)]) auto
  from Cons.IH[OF this] obtain s2 where
    s2: "io_mapM (into_parts S) ps s1 =
           (Ok (map2 (\<lambda>p rs. (part_limit p, part_path p, rs)) ps rss'), s2)"
        "changes_only (part_paths ps) s1 s2" "\<forall>q \<in> part_paths ps. path_vacant q s2"
    by blast
  have "path_vacant (part_path p) s2"
    using s1(2) s2(2) fresh by (rule path_vacant_frame)
  moreover have "changes_only (part_paths (p # ps)) s s2"
    using changes_only_trans[OF s1(3) s2(2)] by (simp add: changes_only_mono)
  ultimately show ?case
    using s1(1) s2(1,3) rss by (auto simp: io_bind_def io_return_def)
qed

lemma gathered_records:
  "length ps = length rss \<Longrightarrow>
   map (\<lambda>(_, _, rs). rs) (map2 (\<lambda>p rs. (part_limit p, part_path p, rs)) ps rss) = rss"
  by (induction ps rss rule: list_induct2) auto

text \<open>The loop of reduce and shuffle: the records of all partitions, one after the other.\<close>

definition gather :: "serde_api \<Rightarrow> partition_data list \<Rightarrow> json list fsio" where
  "gather S ps =
     io_bind (io_mapM (into_parts S) ps) (\<lambda>parts. io_return (concat (map (\<lambda>(_, _, rs). rs) parts)))"

lemma gather_holds:
  assumes "parts_hold S s ps rss"
  obtains s' where "gather S ps s = (Ok (concat rss), s')" "changes_only (part_paths ps) s s'"
    "\<forall>q \<in> part_paths ps. path_vacant q s'"
  using gather_parts[OF assms] gathered_records[OF parts_hold_length[OF assms]] that
  by (auto simp: gather_def io_bind_def io_return_def)

text \<open>One output partition in the slot of the first input partition.\<close>

lemma single_output:
  assumes "\<forall>q \<in> part_paths ps. path_vacant q s" "ps \<noteq> []" "list_all (reads_back S) out"
  obtains p s' where
    "from_records S pid (part_limit (hd ps)) (part_path (hd ps)) out s = (Ok p, s')"
    "parts_hold S s' [p] [out]" "partition_id p = pid" "part_path p = part_path (hd ps)"
    "part_limit p = part_limit (hd ps)" "changes_only (part_paths ps) s s'"
proof -
  have "path_vacant (part_path (hd ps)) s" using assms(1,2) by (cases ps) auto
  from from_records_holds[OF this assms(3), of pid "part_limit (hd ps)"] obtain p s' where
    p: "from_records S pid (part_limit (hd ps)) (part_path (hd ps)) out s = (Ok p, s')"
    "partition_holds S s' p out" "partition_id p = pid" "part_limit p = part_limit (hd ps)"
    "part_path p = part_path (hd ps)" "changes_only {part_path (hd ps)} s s'"
    by blast
  then have "changes_only (part_paths ps) s s'"
    using assms(2) by (intro changes_only_mono[OF p(6)]) (cases ps; simp)
  with p that show ?thesis by simp
qed

end
