(* ===== verification/Op_Read.thy ===== *)
theory Op_Read
  imports Ops_Base "HOL-Library.Sublist"
begin

text \<open>
  \<open>src/src/worker/ops/read.rs\<close>: reading the share of an input file that belongs to one partition,
  in the formats csv, jsonl (ndjson) and json. A share is chosen by index modulo the number of
  partitions; a modulus of zero panics.
\<close>

section \<open>Rows\<close>

definition infer_number :: "string \<Rightarrow> json" where
  "infer_number raw =
     (case parse_i64 raw of
        Some i \<Rightarrow> JNumber (NInt i)
      | None \<Rightarrow>
          (case Option.bind (parse_flt f64 raw) from_f64 of
             Some n \<Rightarrow> JNumber n | None \<Rightarrow> JString raw))"

definition column_key :: "string list \<Rightarrow> nat \<Rightarrow> string" where
  "column_key headers idx = (if idx < length headers then headers ! idx else ''col'' @ show_nat idx)"

definition parse_csv_line_to_object :: "string list \<Rightarrow> string \<Rightarrow> json" where
  "parse_csv_line_to_object headers row =
     JObject (fold (\<lambda>(idx, col). obj_insert (column_key headers idx) (infer_number (trim col)))
       (enumerate 0 (split_by (\<lambda>c. c = CHR '','') row)) [])"

fun normalize_json_value :: "json \<Rightarrow> json" where
  "normalize_json_value (JObject m) = JObject m"
| "normalize_json_value v = JObject (obj_insert ''value'' v [])"

section \<open>The share of a partition\<close>

record read_op =
  read_path :: string
  read_format :: string
  read_partition_id :: nat
  read_total_partitions :: nat
  read_cache_limit_bytes :: nat
  read_spill_path :: path

definition read_op_new :: "string \<Rightarrow> string \<Rightarrow> nat \<Rightarrow> nat \<Rightarrow> nat \<Rightarrow> path \<Rightarrow> read_op" where
  "read_op_new file format pid parts limit spill =
     \<lparr>read_path = file, read_format = format, read_partition_id = pid,
      read_total_partitions = max parts 1, read_cache_limit_bytes = limit, read_spill_path = spill\<rparr>"

text \<open>A loop over indexed items that works on those whose index modulo \<open>n\<close> is \<open>pid\<close>.\<close>

fun select_rows :: "nat \<Rightarrow> nat \<Rightarrow> (nat \<Rightarrow> 'a \<Rightarrow> (error, json list) res) \<Rightarrow> nat \<Rightarrow> 'a list \<Rightarrow>
    (error, json list) res" where
  "select_rows n pid f idx [] = Ok []"
| "select_rows n pid f idx (x # xs) =
     (if n = 0 then Panic
      else res_bind (if idx mod n = pid then f idx x else Ok []) (\<lambda>r.
           res_bind (select_rows n pid f (Suc idx) xs) (\<lambda>rs. Ok (r @ rs))))"

text \<open>\<open>BufRead::read_line\<close>: the first line with its line end, and the rest.\<close>

definition read_line :: "string \<Rightarrow> string \<times> string" where
  "read_line s =
     (let l = takeWhile (\<lambda>c. c \<noteq> newline) s
      in (case dropWhile (\<lambda>c. c \<noteq> newline) s of [] \<Rightarrow> (l, []) | c # rest \<Rightarrow> (l @ [c], rest)))"

definition csv_headers :: "string \<Rightarrow> string list" where
  "csv_headers header_line =
     map trim (split_by (\<lambda>c. c = CHR '','')
       (trim_end_matches (\<lambda>c. c = carriage_return \<or> c = newline) header_line))"

definition read_csv :: "nat \<Rightarrow> nat \<Rightarrow> string \<Rightarrow> (error, json list) res" where
  "read_csv n pid content =
     (case read_line content of (header_line, rest) \<Rightarrow>
        if trim header_line = [] then Err (Message ''CSV header is empty'')
        else select_rows n pid (\<lambda>_ l. Ok [parse_csv_line_to_object (csv_headers header_line) l]) 0
               (filter (\<lambda>l. trim l \<noteq> []) (lines rest)))"

definition json_line :: "serde_api \<Rightarrow> nat \<Rightarrow> string \<Rightarrow> (error, json list) res" where
  "json_line S idx l =
     (if trim l = [] then Ok []
      else (case from_str S l of
              Inl e \<Rightarrow> Err (Message (''failed to parse json line '' @ show_nat idx @ '': '' @ e))
            | Inr v \<Rightarrow> Ok [normalize_json_value v]))"

definition read_jsonl :: "serde_api \<Rightarrow> nat \<Rightarrow> nat \<Rightarrow> string \<Rightarrow> (error, json list) res" where
  "read_jsonl S n pid content = select_rows n pid (json_line S) 0 (lines content)"

definition read_json :: "serde_api \<Rightarrow> nat \<Rightarrow> nat \<Rightarrow> string \<Rightarrow> (error, json list) res" where
  "read_json S n pid buf =
     (if List.find (\<lambda>c. \<not> is_whitespace c) buf = Some (CHR ''['') then
        (case from_str S buf of
           Inl e \<Rightarrow> res_context ''parsing json array input'' (Err (SerdeError e))
         | Inr (JArray elements) \<Rightarrow>
             select_rows n pid (\<lambda>_ e. Ok [normalize_json_value e]) 0 elements
         | Inr _ \<Rightarrow> Err (Message ''json input is not an array''))
      else select_rows n pid (json_line S) 0 (lines buf))"

definition read_text :: "serde_api \<Rightarrow> string \<Rightarrow> nat \<Rightarrow> nat \<Rightarrow> string \<Rightarrow> (error, json list) res" where
  "read_text S format n pid content =
     (if format = ''csv'' then read_csv n pid content
      else if format = ''jsonl'' \<or> format = ''ndjson'' then read_jsonl S n pid content
      else if format = ''json'' then read_json S n pid content
      else Err (Message (''unsupported format '' @ quote1 format)))"

definition io_context :: "string \<Rightarrow> 'a fsio \<Rightarrow> 'a fsio" where
  "io_context c m s = (case m s of (r, s') \<Rightarrow> (res_context c r, s'))"

definition read_execute :: "serde_api \<Rightarrow> read_op \<Rightarrow> partition_data list \<Rightarrow> partition_data list fsio" where
  "read_execute S op _ =
     io_bind (io_context (''opening input '' @ read_path op) (read_file (read_path op))) (\<lambda>content.
     io_bind (io_lift (read_text S (read_format op) (read_total_partitions op)
                        (read_partition_id op) content)) (\<lambda>records.
     io_bind (from_records S (read_partition_id op) (read_cache_limit_bytes op) (read_spill_path op)
               records) (\<lambda>p.
       io_return [p])))"

section \<open>Lemmas: shares\<close>

text \<open>What the single partition of an undivided reading gets, divided.\<close>

lemma select_rows_divide:
  assumes "0 < n"
  shows "select_rows 1 0 f k xs = Ok rs \<Longrightarrow>
    \<exists>out. (\<forall>i < n. select_rows n i f k xs = Ok (out i) \<and> subseq (out i) rs) \<and>
      mset rs = (\<Sum>i < n. mset (out i))"
proof (induction xs arbitrary: k rs)
  case Nil
  then show ?case by (intro exI[of _ "\<lambda>_. []"]) simp
next
  case (Cons x xs)
  from Cons.prems obtain r rs' where r: "f k x = Ok r" "select_rows 1 0 f (Suc k) xs = Ok rs'" "rs = r @ rs'"
    by (auto elim!: res_bind_OkE)
  from Cons.IH[OF r(2)] obtain out where
    out: "\<And>i. i < n \<Longrightarrow> select_rows n i f (Suc k) xs = Ok (out i) \<and> subseq (out i) rs'"
      "mset rs' = (\<Sum>i < n. mset (out i))"
    by blast
  let ?out = "\<lambda>i. (if k mod n = i then r else []) @ out i"
  have "(\<Sum>i < n. mset (?out i)) = (\<Sum>i < n. if k mod n = i then mset r else {#}) + mset rs'"
    by (simp add: out(2) sum.distrib if_distrib[of mset] cong: if_cong)
  also have "\<dots> = mset rs"
    using assms r(3) by (simp add: sum.delta)
  moreover have "select_rows n i f k (x # xs) = Ok (?out i) \<and> subseq (?out i) rs" if "i < n" for i
    using that out(1)[OF that] assms r
    by (auto intro: subseq_drop_many list_emb_append_mono)
  ultimately show ?case by (intro exI[of _ ?out]) simp
qed

text \<open>Each format is such a loop, or fails whatever the share is.\<close>

lemma read_csv_cases:
  obtains e where "\<And>n pid. read_csv n pid content = Err e"
  | hs ls where "\<And>n pid. read_csv n pid content =
      select_rows n pid (\<lambda>_ l. Ok [parse_csv_line_to_object hs l]) 0 ls"
  by (cases "read_line content"; cases "trim (fst (read_line content)) = []")
    (simp_all add: read_csv_def)

lemma read_json_cases:
  obtains e where "\<And>n pid. read_json S n pid content = Err e"
  | vs where "\<And>n pid. read_json S n pid content =
      select_rows n pid (\<lambda>_ v. Ok [normalize_json_value v]) 0 vs"
  | "\<And>n pid. read_json S n pid content = select_rows n pid (json_line S) 0 (lines content)"
proof (cases "List.find (\<lambda>c. \<not> is_whitespace c) content = Some (CHR ''['')")
  case True
  show ?thesis
  proof (cases "from_str S content")
    case (Inl e)
    with True that(1) show ?thesis by (simp add: read_json_def)
  next
    case (Inr v)
    with True that(1,2) show ?thesis by (cases v) (simp_all add: read_json_def)
  qed
next
  case False
  with that(3) show ?thesis by (simp add: read_json_def)
qed

lemma read_text_cases:
  obtains e where "\<And>n pid. read_text S format n pid content = Err e"
  | hs ls where "\<And>n pid. read_text S format n pid content =
      select_rows n pid (\<lambda>_ l. Ok [parse_csv_line_to_object hs l]) 0 ls"
  | vs where "\<And>n pid. read_text S format n pid content =
      select_rows n pid (\<lambda>_ v. Ok [normalize_json_value v]) 0 vs"
  | "\<And>n pid. read_text S format n pid content = select_rows n pid (json_line S) 0 (lines content)"
proof -
  consider "format = ''csv''" | "format = ''jsonl'' \<or> format = ''ndjson''" | "format = ''json''"
    | "format \<notin> {''csv'', ''jsonl'', ''ndjson'', ''json''}"
    by blast
  then show ?thesis
  proof cases
    case 1
    then have "read_text S format n pid content = read_csv n pid content" for n pid
      by (simp add: read_text_def)
    with that(1,2) show ?thesis by (cases rule: read_csv_cases[of content]) auto
  next
    case 2
    with that(4) show ?thesis by (auto simp: read_text_def read_jsonl_def)
  next
    case 3
    then have "read_text S format n pid content = read_json S n pid content" for n pid
      by (simp add: read_text_def)
    with that(1,3,4) show ?thesis by (cases rule: read_json_cases[of S content]) auto
  next
    case 4
    with that(1) show ?thesis by (simp add: read_text_def)
  qed
qed

lemma read_text_divide:
  assumes "0 < n" "read_text S format 1 0 content = Ok rs"
  shows "\<exists>out. (\<forall>i < n. read_text S format n i content = Ok (out i) \<and> subseq (out i) rs) \<and>
    mset rs = (\<Sum>i < n. mset (out i))"
proof (cases rule: read_text_cases[of S format content])
  case (1 e)
  with assms(2) show ?thesis by simp
next
  case (2 hs ls)
  with assms show ?thesis by (simp only: select_rows_divide)
next
  case (3 vs)
  with assms show ?thesis by (simp only: select_rows_divide)
next
  case 4
  with assms show ?thesis by (simp only: select_rows_divide)
qed

lemma select_rows_all:
  "select_rows n pid f k xs = Ok rs \<Longrightarrow> (\<And>i x out. x \<in> set xs \<Longrightarrow> f i x = Ok out \<Longrightarrow> list_all P out) \<Longrightarrow>
   list_all P rs"
proof (induction xs arbitrary: k rs)
  case Nil
  then show ?case by simp
next
  case (Cons x xs)
  from Cons.prems(1) obtain r rs' where
    "(if k mod n = pid then f k x else Ok []) = Ok r" "select_rows n pid f (Suc k) xs = Ok rs'" "rs = r @ rs'"
    by (auto split: if_splits elim!: res_bind_OkE)
  with Cons.IH[of "Suc k" rs'] Cons.prems(2) show ?case
    by (auto split: if_splits)
qed

fun is_object :: "json \<Rightarrow> bool" where
  "is_object (JObject _) = True"
| "is_object _ = False"

lemma normalize_object [simp]: "is_object (normalize_json_value v)"
  by (cases v) auto

lemma json_line_objects: "json_line S i l = Ok out \<Longrightarrow> list_all is_object out"
  by (auto simp: json_line_def split: if_splits sum.splits)

lemma read_text_objects:
  assumes "read_text S format n pid content = Ok rs"
  shows "list_all is_object rs"
proof (cases rule: read_text_cases[of S format content])
  case (1 e)
  with assms show ?thesis by simp
next
  case (2 hs ls)
  with assms show ?thesis
    by (auto intro: select_rows_all[where P = is_object] simp: parse_csv_line_to_object_def)
next
  case (3 vs)
  with assms show ?thesis by (auto intro: select_rows_all[where P = is_object])
next
  case 4
  with assms show ?thesis by (auto intro: select_rows_all[where P = is_object] json_line_objects)
qed

section \<open>Lemmas: rows\<close>

lemma parse_i64_show_int:
  assumes "- (2 ^ 63) \<le> i" "i < 2 ^ 63"
  shows "parse_i64 (show_int i) = Some i"
proof -
  have dig: "list_all is_digit (show_nat n)" for n
    using show_nat_digits by (auto simp: list_all_iff)
  show ?thesis
  proof (cases "i < 0")
    case True
    with dig assms show ?thesis by (simp add: parse_i64_def show_int_def)
  next
    case False
    obtain c cs where s: "show_nat (nat i) = c # cs" by (cases "show_nat (nat i)") auto
    with dig[of "nat i"] have "c \<noteq> CHR ''-''" "c \<noteq> CHR ''+''" by (auto simp: is_digit_def)
    with s dig[of "nat i"] digits_val_show_nat[of "nat i"] False assms show ?thesis
      by (simp add: parse_i64_def show_int_def)
  qed
qed

lemma csv_row_get:
  assumes "distinct headers" "length (split_by (\<lambda>c. c = CHR '','') row) \<le> length headers"
    and "i < length (split_by (\<lambda>c. c = CHR '','') row)"
  shows "value_get (parse_csv_line_to_object headers row) (headers ! i) =
    Some (infer_number (trim (split_by (\<lambda>c. c = CHR '','') row ! i)))"
proof -
  let ?cols = "split_by (\<lambda>c. c = CHR '','') row"
  let ?kvs = "map (\<lambda>(idx, col). (column_key headers idx, infer_number (trim col))) (enumerate 0 ?cols)"
  have row: "parse_csv_line_to_object headers row = JObject (obj_insert_all ?kvs [])"
    by (simp add: parse_csv_line_to_object_def obj_insert_all_def fold_map comp_def case_prod_unfold)
  have keys: "map fst ?kvs = take (length ?cols) headers"
    using assms(2) by (intro nth_equalityI) (auto simp: nth_enumerate_eq column_key_def)
  then have dist: "distinct (map fst ?kvs)"
    using assms(1) by simp
  have "?kvs ! i = (headers ! i, infer_number (trim (?cols ! i)))" "i < length ?kvs"
    using assms by (simp_all add: nth_enumerate_eq column_key_def)
  then have "(headers ! i, infer_number (trim (?cols ! i))) \<in> set ?kvs"
    by (metis nth_mem)
  with dist have "map_of ?kvs (headers ! i) = Some (infer_number (trim (?cols ! i)))"
    by (rule map_of_is_SomeI)
  with obj_insert_all_get[OF dist, of "[]" "headers ! i"] row show ?thesis by simp
qed

section \<open>The operator\<close>

definition read_ready :: "read_op \<Rightarrow> string \<Rightarrow> partition_data list \<Rightarrow> fs \<Rightarrow> bool" where
  "read_ready op content ps s \<longleftrightarrow>
     files s (read_path op) = Some content \<and> path_vacant (read_spill_path op) s"

lemma read_run:
  assumes "read_ready op content ps s"
    and "read_text S (read_format op) (read_total_partitions op) (read_partition_id op) content = Ok rs"
    and "list_all (reads_back S) rs"
  shows "\<exists>p s'. read_execute S op ps s = (Ok [p], s') \<and> parts_hold S s' [p] [rs] \<and>
    partition_id p = read_partition_id op \<and> part_path p = read_spill_path op \<and>
    changes_only {read_spill_path op} s s'"
proof -
  from assms(1) have vacant: "path_vacant (read_spill_path op) s" and "healthy s"
    "files s (read_path op) = Some content"
    by (auto simp: read_ready_def path_vacant_def)
  then have "io_context (''opening input '' @ read_path op) (read_file (read_path op)) s = (Ok content, s)"
    by (simp add: io_context_def read_file_eq)
  moreover obtain p s' where
    "from_records S (read_partition_id op) (read_cache_limit_bytes op) (read_spill_path op) rs s = (Ok p, s')"
    "partition_holds S s' p rs" "partition_id p = read_partition_id op" "part_path p = read_spill_path op"
    "changes_only {read_spill_path op} s s'"
    by (rule from_records_holds[OF vacant assms(3)])
  ultimately show ?thesis
    using assms(2) by (auto simp: read_execute_def io_bind_def io_lift_def io_return_def)
qed

interpretation read_op: executable_op S "read_execute S op"
  "\<lambda>_. res_bind (read_text S (read_format op) (read_total_partitions op) (read_partition_id op) content)
     (\<lambda>rs. Ok [rs])"
  "read_ready op content" "\<lambda>_. {read_spill_path op}" "\<lambda>_. [read_partition_id op]" for S op content
proof
  show "\<exists>ps' s'. read_execute S op ps s = (Ok ps', s') \<and> parts_hold S s' ps' outs \<and>
      map partition_id ps' = [read_partition_id op] \<and>
      changes_only {read_spill_path op} s s'"
    if "read_ready op content ps s"
      "res_bind (read_text S (read_format op) (read_total_partitions op) (read_partition_id op) content)
         (\<lambda>rs. Ok [rs]) = Ok outs" "readable S outs" for ps s outs
    using that read_run[OF that(1), of S] by (auto elim!: res_bind_OkE)
qed

section \<open>Properties\<close>

text \<open>
  Claim C11. The shares of an input file are disjoint and complete: if the file can be read as
  a whole, then for any number of partitions every share can be read, each share keeps the
  order of the file, and together the shares have every record of the file exactly as often as
  the file has it.
\<close>

theorem read_shares_cover:
  assumes "0 < n" "read_text S format 1 0 content = Ok rs"
  shows "\<exists>shares. length shares = n \<and> mset (concat shares) = mset rs \<and>
    (\<forall>i < n. read_text S format n i content = Ok (shares ! i) \<and> subseq (shares ! i) rs)"
proof -
  obtain out where out: "\<And>i. i < n \<Longrightarrow> read_text S format n i content = Ok (out i) \<and> subseq (out i) rs"
    "mset rs = (\<Sum>i < n. mset (out i))"
    using read_text_divide[OF assms] by blast
  have "mset (concat (map out [0..<m])) = (\<Sum>i < m. mset (out i))" for m
    by (induction m) simp_all
  with out show ?thesis by (intro exI[of _ "map out [0..<n]"]) simp
qed

theorem read_shares_cover_witness:
  "\<exists>shares. length shares = 2 \<and> (\<forall>i < 2. read_text example_serde ''jsonl'' 2 i
      (text_a @ [newline] @ text_b @ [newline]) = Ok (shares ! i)) \<and> mset (concat shares) = {#rec_a, rec_b#}"
proof -
  have vs: "list_all (reads_back example_serde) [rec_a, rec_b]" by simp
  have "lines (encode example_serde [rec_a, rec_b]) = [text_a, text_b]"
    by (simp only: lines_encode[OF vs]) simp
  then have ls: "lines (text_a @ newline # text_b @ [newline]) = [text_a, text_b]"
    by simp
  have "json_line example_serde k text_a = Ok [rec_a]" "json_line example_serde k text_b = Ok [rec_b]" for k
    using reads_backD[of example_serde rec_a] reads_backD[of example_serde rec_b]
    by (simp_all add: json_line_def) (simp_all add: rec_a_def rec_b_def)
  then have "read_text example_serde ''jsonl'' 1 0 (text_a @ [newline] @ text_b @ [newline]) =
      Ok [rec_a, rec_b]"
    by (simp add: read_text_def read_jsonl_def ls)
  from read_shares_cover[OF _ this, of 2] show ?thesis by auto
qed

text \<open>
  Reading delivers exactly one partition, with the number and the spill path of the
  operator and the records of the share, all of them objects; the input file is left as it is.
\<close>

theorem read_correct:
  assumes "read_ready op content ps s" "list_all (reads_back S) rs" "read_spill_path op \<noteq> read_path op"
    and "read_text S (read_format op) (read_total_partitions op) (read_partition_id op) content = Ok rs"
  shows "\<exists>p s'. read_execute S op ps s = (Ok [p], s') \<and> parts_hold S s' [p] [rs] \<and>
    partition_id p = read_partition_id op \<and> part_path p = read_spill_path op \<and>
    list_all is_object rs \<and> files s' (read_path op) = Some content"
proof -
  obtain p s' where run: "read_execute S op ps s = (Ok [p], s')" "parts_hold S s' [p] [rs]"
    "partition_id p = read_partition_id op" "part_path p = read_spill_path op"
    "changes_only {read_spill_path op} s s'"
    using read_run[OF assms(1,4,2)] by blast
  have "files s' (read_path op) = files s (read_path op)"
    using assms(3) by (intro changes_only_file[OF run(5)]) auto
  with run read_text_objects[OF assms(4)] assms(1) show ?thesis by (auto simp: read_ready_def)
qed

theorem read_correct_witness:
  "\<exists>p s'. read_execute example_serde (read_op_new ''/in'' ''csv'' 0 1 100 ''/sp'') []
      \<lparr>files = [''/in'' \<mapsto> ''k'' @ [newline]], faults = \<lambda>_. None\<rparr> = (Ok [p], s') \<and>
    parts_hold example_serde s' [p] [[]]"
proof -
  let ?op = "read_op_new ''/in'' ''csv'' 0 1 100 ''/sp''"
  have "read_text example_serde ''csv'' 1 0 (''k'' @ [newline]) = Ok []"
    by (simp add: read_text_def read_csv_def read_line_def newline_def trim_def trim_end_matches_def
        is_whitespace_def)
  then show ?thesis
    using read_correct[of ?op "''k'' @ [newline]" "[]"
        "\<lparr>files = [''/in'' \<mapsto> ''k'' @ [newline]], faults = \<lambda>_. None\<rparr>" example_serde "[]"]
    by (auto simp: read_op_new_def read_ready_def path_vacant_def healthy_def text_at_def)
qed

text \<open>
  A row of a csv file with distinct column names becomes an object in which each
  column name has the value of its column; an integer of 64 bits keeps its value.
\<close>

theorem csv_row_correct:
  assumes "distinct headers" "length (split_by (\<lambda>c. c = CHR '','') row) \<le> length headers"
    and "i < length (split_by (\<lambda>c. c = CHR '','') row)"
    and "trim (split_by (\<lambda>c. c = CHR '','') row ! i) = show_int v" "- (2 ^ 63) \<le> v" "v < 2 ^ 63"
  shows "value_get (parse_csv_line_to_object headers row) (headers ! i) = Some (JNumber (NInt v))"
  using csv_row_get[OF assms(1-3)] parse_i64_show_int[OF assms(5,6)] assms(4)
  by (simp add: infer_number_def)

theorem csv_row_correct_witness:
  "value_get (parse_csv_line_to_object [''a'', ''b''] ''x,-7'') ''b'' = Some (JNumber (NInt (- 7)))"
proof -
  have "split_by (\<lambda>c. c = CHR '','') ''x,-7'' = [''x'', ''-7'']" by simp
  moreover have "show_int (- 7) = ''-7''"
    by code_simp
  moreover have "trim ''-7'' = ''-7''"
    by (simp add: trim_def trim_end_matches_def is_whitespace_def)
  ultimately show ?thesis
    using csv_row_correct[of "[''a'', ''b'']" "''x,-7''" 1 "- 7"] by simp
qed

end
