(* ===== verification/Op_Filter.thy ===== *)
theory Op_Filter
  imports Ops_Base
begin

text \<open>
  \<open>src/src/worker/ops/filter.rs\<close>: the predicate language of the filter operator, its parser,
  its evaluation on a record and the operator itself.
\<close>

section \<open>Predicates\<close>

datatype predicate =
    AlwaysTrue
  | AlwaysFalse
  | NonEmpty
  | HasField string
  | Equals string json
  | Gt string flt
  | Lt string flt

text \<open>\<open>field=rest\<close>, split at the first equality sign; the field is not empty.\<close>

definition split_field_value :: "string \<Rightarrow> string \<Rightarrow> (filter_error, string \<times> string) res" where
  "split_field_value raw rest =
     (let (field, val) = splitn2 (CHR ''='') rest
      in if field = [] then Err (InvalidPredicate raw)
         else (case val of None \<Rightarrow> Err (InvalidPredicate raw) | Some v \<Rightarrow> Ok (field, v)))"

definition parse_threshold :: "string \<Rightarrow> string \<Rightarrow> (filter_error, flt) res" where
  "parse_threshold raw v =
     (case parse_flt f64 v of None \<Rightarrow> Err (InvalidPredicate raw) | Some n \<Rightarrow> Ok n)"

definition parse :: "string \<Rightarrow> (filter_error, predicate) res" where
  "parse raw =
     (if raw = ''non_empty'' then Ok NonEmpty
      else if raw = ''always_true'' then Ok AlwaysTrue
      else if raw = ''always_false'' then Ok AlwaysFalse
      else case strip_prefix ''has_field:'' raw of Some rest \<Rightarrow> Ok (HasField rest)
      | None \<Rightarrow>
        (case strip_prefix ''equals:'' raw of
           Some rest \<Rightarrow> res_bind (split_field_value raw rest) (\<lambda>(field, val).
             Ok (Equals field (JString val)))
         | None \<Rightarrow>
           (case strip_prefix ''gt:'' raw of
              Some rest \<Rightarrow> res_bind (split_field_value raw rest) (\<lambda>(field, val).
                res_bind (parse_threshold raw val) (\<lambda>num. Ok (Gt field num)))
            | None \<Rightarrow>
              (case strip_prefix ''lt:'' raw of
                 Some rest \<Rightarrow> res_bind (split_field_value raw rest) (\<lambda>(field, val).
                   res_bind (parse_threshold raw val) (\<lambda>num. Ok (Lt field num)))
               | None \<Rightarrow> Err (UnknownPredicate raw)))))"

fun eval_predicate :: "json \<Rightarrow> predicate \<Rightarrow> bool" where
  "eval_predicate r AlwaysTrue = True"
| "eval_predicate r AlwaysFalse = False"
| "eval_predicate r NonEmpty =
     (case r of JObject m \<Rightarrow> m \<noteq> [] \<and> list_all (\<lambda>(k, v). v \<noteq> JNull) m | _ \<Rightarrow> False)"
| "eval_predicate r (HasField field) =
     (case r of JObject m \<Rightarrow> obj_get m field \<noteq> None | _ \<Rightarrow> False)"
| "eval_predicate r (Equals field expected) =
     (case r of
        JObject m \<Rightarrow>
          (case (obj_get m field, expected) of
             (Some (JString actual), JString e) \<Rightarrow> to_lowercase actual = to_lowercase e
           | (Some val, e) \<Rightarrow> json_eq val e
           | _ \<Rightarrow> False)
      | _ \<Rightarrow> False)"
| "eval_predicate r (Gt field threshold) =
     (case r of
        JObject m \<Rightarrow>
          (case Option.bind (obj_get m field) value_as_f64 of
             Some n \<Rightarrow> flt_less threshold n | None \<Rightarrow> False)
      | _ \<Rightarrow> False)"
| "eval_predicate r (Lt field threshold) =
     (case r of
        JObject m \<Rightarrow>
          (case Option.bind (obj_get m field) value_as_f64 of
             Some n \<Rightarrow> flt_less n threshold | None \<Rightarrow> False)
      | _ \<Rightarrow> False)"

section \<open>The operator\<close>

record filter_op =
  filter_predicate :: string

fun filter_result :: "(filter_error, 'a) res \<Rightarrow> (error, 'a) res" where
  "filter_result (Ok x) = Ok x"
| "filter_result (Err e) = Err (FilterE e)"
| "filter_result Panic = Panic"

definition filter_execute ::
    "serde_api \<Rightarrow> filter_op \<Rightarrow> partition_data list \<Rightarrow> partition_data list fsio" where
  "filter_execute S op ps =
     io_bind (io_lift (filter_result (parse (filter_predicate op)))) (\<lambda>pr.
       io_mapM (\<lambda>p.
         io_bind (into_parts S p) (\<lambda>(limit, path, records).
           from_records S (partition_id p) limit path
             (filter (\<lambda>r. eval_predicate r pr) records))) ps)"

interpretation filter_op: partitionwise_op S "filter_execute S op"
  "filter_result (parse (filter_predicate op))"
  "\<lambda>pr records. Ok (filter (\<lambda>r. eval_predicate r pr) records)" for S op
  by unfold_locales (simp add: filter_execute_def process_def[abs_def] case_prod_unfold)

section \<open>Lemmas\<close>

lemma split_field_value_eq:
  "f \<noteq> [] \<Longrightarrow> CHR ''='' \<notin> set f \<Longrightarrow> split_field_value raw (f @ CHR ''='' # v) = Ok (f, v)"
  by (simp add: split_field_value_def splitn2_sep)

lemma filter_all_readable:
  "parts_hold S s ps rss \<Longrightarrow> readable S (map (filter P) rss)"
  unfolding parts_hold_def
  by (fastforce simp: list_all_iff list_all2_conv_all_nth in_set_conv_nth
      dest!: partition_holds_readable)

lemma rewrite_all_filter:
  "rewrite_all (Ok k) (\<lambda>pr rs. Ok (f pr rs)) rss = Ok (map (f k) rss)"
  by (simp add: rewrite_all_def res_mapM_total)

text \<open>The text of a predicate, for those the language can write down.\<close>

fun show_predicate :: "predicate \<Rightarrow> string \<Rightarrow> string" where
  "show_predicate AlwaysTrue _ = ''always_true''"
| "show_predicate AlwaysFalse _ = ''always_false''"
| "show_predicate NonEmpty _ = ''non_empty''"
| "show_predicate (HasField f) _ = ''has_field:'' @ f"
| "show_predicate (Equals f _) v = ''equals:'' @ f @ ''='' @ v"
| "show_predicate (Gt f _) v = ''gt:'' @ f @ ''='' @ v"
| "show_predicate (Lt f _) v = ''lt:'' @ f @ ''='' @ v"

fun predicate_text :: "predicate \<Rightarrow> string \<Rightarrow> bool" where
  "predicate_text (Equals f e) v \<longleftrightarrow> f \<noteq> [] \<and> CHR ''='' \<notin> set f \<and> e = JString v"
| "predicate_text (Gt f n) v \<longleftrightarrow> f \<noteq> [] \<and> CHR ''='' \<notin> set f \<and> parse_flt f64 v = Some n"
| "predicate_text (Lt f n) v \<longleftrightarrow> f \<noteq> [] \<and> CHR ''='' \<notin> set f \<and> parse_flt f64 v = Some n"
| "predicate_text _ v \<longleftrightarrow> True"

lemma parse_show: "predicate_text p v \<Longrightarrow> parse (show_predicate p v) = Ok p"
  by (cases p) (auto simp: parse_def split_field_value_eq parse_threshold_def)

lemma parse_OkD: "parse raw = Ok p \<Longrightarrow> \<exists>v. predicate_text p v \<and> raw = show_predicate p v"
  by (auto simp: parse_def split_field_value_def parse_threshold_def strip_prefix_eq splitn2_Some
      split: if_splits option.splits prod.splits elim!: res_bind_OkE
      intro: exI[of _ "[]"])

section \<open>Properties\<close>

text \<open>
  The parser and the printed form of predicates agree: a text is accepted with
  result \<open>p\<close> exactly when it is the printed form of \<open>p\<close> with a non-empty field name free
  of equality signs (and, for a comparison, a number); everything else is an error.
\<close>

theorem predicate_parse_exact:
  "parse raw = Ok p \<longleftrightarrow> (\<exists>v. predicate_text p v \<and> raw = show_predicate p v)"
  using parse_show parse_OkD by blast

text \<open>
  Filtering keeps, in every partition, exactly the records that satisfy the
  predicate, in their order, and leaves partition numbers, limits and spill paths as they
  were; a text that is no predicate is an error before any partition is touched.
\<close>

theorem filter_correct:
  assumes "parts_hold S s ps rss"
  shows "case parse (filter_predicate op) of
     Ok pr \<Rightarrow> \<exists>ps' s'. filter_execute S op ps s = (Ok ps', s') \<and> same_slots ps ps' \<and>
       parts_hold S s' ps' (map (filter (\<lambda>r. eval_predicate r pr)) rss)
   | Err e \<Rightarrow> filter_execute S op ps s = (Err (FilterE e), s)
   | Panic \<Rightarrow> False"
proof (cases "parse (filter_predicate op)")
  case (Ok pr)
  then show ?thesis
    using filter_op.execute_in_place[OF assms, of op] filter_all_readable[OF assms]
    by (auto simp: rewrite_all_filter)
next
  case (Err e)
  then show ?thesis by (simp add: filter_op.execute_prepare_error)
next
  case Panic
  then show ?thesis
    by (auto simp: parse_def split_field_value_def parse_threshold_def
        split: if_splits option.splits prod.splits)
qed

theorem filter_correct_witness:
  "\<exists>ps' s'. filter_execute example_serde \<lparr>filter_predicate = ''equals:k=B''\<rparr>
      [example_part] example_fs = (Ok ps', s') \<and> parts_hold example_serde s' ps' [[rec_b]]"
proof -
  have "parse ''equals:k=B'' = Ok (Equals ''k'' (JString ''B''))"
    "filter (\<lambda>r. eval_predicate r (Equals ''k'' (JString ''B''))) [rec_a, rec_b] = [rec_b]"
    by code_simp+
  then show ?thesis
    using filter_correct[OF example_part_holds, of "\<lparr>filter_predicate = ''equals:k=B''\<rparr>"]
    by (auto simp del: filter.simps)
qed

end
