(* ===== verification/Op_Map.thy ===== *)
theory Op_Map
  imports Ops_Base
begin

text \<open>
  \<open>src/src/worker/ops/map.rs\<close>: the named functions the map operator applies to every string and
  number inside a record. \<open>checks\<close> tells whether the build has overflow checks: doubling an
  \<open>i64\<close> out of range panics with them and wraps without.
\<close>

section \<open>The functions\<close>

definition wrap_i64 :: "int \<Rightarrow> int" where
  "wrap_i64 i = (i + 2 ^ 63) mod 2 ^ 64 - 2 ^ 63"

definition i64_double :: "bool \<Rightarrow> int \<Rightarrow> (error, json) res" where
  "i64_double checks i =
     (if - (2 ^ 63) \<le> i * 2 \<and> i * 2 < 2 ^ 63 then Ok (JNumber (NInt (i * 2)))
      else if checks then Panic
      else Ok (JNumber (NInt (wrap_i64 (i * 2)))))"

definition f64_double :: "string \<Rightarrow> flt \<Rightarrow> (error, json) res" where
  "f64_double msg f =
     (case from_f64 (fmul f64 f (flt_of_int f64 2)) of
        Some n \<Rightarrow> Ok (JNumber n) | None \<Rightarrow> Err (Message msg))"

definition apply_string :: "bool \<Rightarrow> string \<Rightarrow> string \<Rightarrow> (error, json) res" where
  "apply_string checks func s =
     (if func = ''identity'' then Ok (JString s)
      else if func = ''uppercase'' then Ok (JString (to_uppercase s))
      else if func = ''lowercase'' then Ok (JString (to_lowercase s))
      else if func = ''double'' then
        (case parse_i64 s of
           Some i \<Rightarrow> i64_double checks i
         | None \<Rightarrow>
           (case parse_flt f64 s of
              Some f \<Rightarrow> f64_double ''failed to convert doubled float from string'' f
            | None \<Rightarrow> Ok (JString s)))
      else Err (MapE (UnknownFunction func)))"

definition apply_number :: "bool \<Rightarrow> string \<Rightarrow> number \<Rightarrow> (error, json) res" where
  "apply_number checks func n =
     (if func = ''double'' then
        (case as_i64 n of
           Some i \<Rightarrow> i64_double checks i
         | None \<Rightarrow>
           (case as_f64 n of
              Some f \<Rightarrow> f64_double ''failed to convert doubled float'' f
            | None \<Rightarrow> Ok JNull))
      else if func \<in> {''identity'', ''uppercase'', ''lowercase''} then Ok (JNumber n)
      else Err (MapE (UnknownFunction func)))"

fun apply_fn :: "bool \<Rightarrow> string \<Rightarrow> json \<Rightarrow> (error, json) res"
  and apply_array :: "bool \<Rightarrow> string \<Rightarrow> json list \<Rightarrow> (error, json list) res"
  and apply_fields :: "bool \<Rightarrow> string \<Rightarrow> obj \<Rightarrow> (error, obj) res" where
  "apply_fn c func (JString s) = apply_string c func s"
| "apply_fn c func (JNumber n) = apply_number c func n"
| "apply_fn c func (JArray vs) = res_bind (apply_array c func vs) (\<lambda>out. Ok (JArray out))"
| "apply_fn c func (JObject m) = res_bind (apply_fields c func m) (\<lambda>out. Ok (JObject out))"
| "apply_fn c func JNull = Ok JNull"
| "apply_fn c func (JBool b) = Ok (JBool b)"
| "apply_array c func [] = Ok []"
| "apply_array c func (v # vs) =
     res_bind (apply_fn c func v) (\<lambda>w. res_bind (apply_array c func vs) (\<lambda>ws. Ok (w # ws)))"
| "apply_fields c func [] = Ok []"
| "apply_fields c func ((k, v) # m) =
     res_bind (apply_fn c func v) (\<lambda>w.
       res_bind (apply_fields c func m) (\<lambda>m'. Ok ((k, w) # m')))"

section \<open>The operator\<close>

record map_op =
  map_func :: string

definition map_execute ::
    "bool \<Rightarrow> serde_api \<Rightarrow> map_op \<Rightarrow> partition_data list \<Rightarrow> partition_data list fsio" where
  "map_execute checks S op ps =
     io_mapM (\<lambda>p.
       io_bind (into_parts S p) (\<lambda>(limit, path, records).
       io_bind (io_lift (res_mapM (apply_fn checks (map_func op)) records)) (\<lambda>mapped.
         from_records S (partition_id p) limit path mapped))) ps"

interpretation map_op: partitionwise_op S "map_execute checks S op" "Ok ()"
  "\<lambda>_. res_mapM (apply_fn checks (map_func op))" for checks S op
  by unfold_locales (simp add: map_execute_def process_def[abs_def])

section \<open>Lemmas\<close>

text \<open>What every function keeps of a value: nulls, booleans, array lengths, field names.\<close>

fun same_shape :: "json \<Rightarrow> json \<Rightarrow> bool"
  and same_items :: "json list \<Rightarrow> json list \<Rightarrow> bool"
  and same_fields :: "obj \<Rightarrow> obj \<Rightarrow> bool" where
  "same_shape (JString _) w = (case w of JString _ \<Rightarrow> True | JNumber _ \<Rightarrow> True | _ \<Rightarrow> False)"
| "same_shape (JNumber _) w = (case w of JNumber _ \<Rightarrow> True | _ \<Rightarrow> False)"
| "same_shape (JArray vs) w = (case w of JArray ws \<Rightarrow> same_items vs ws | _ \<Rightarrow> False)"
| "same_shape (JObject m) w = (case w of JObject m' \<Rightarrow> same_fields m m' | _ \<Rightarrow> False)"
| "same_shape JNull w = (w = JNull)"
| "same_shape (JBool b) w = (w = JBool b)"
| "same_items [] ws = (ws = [])"
| "same_items (v # vs) ws = (case ws of [] \<Rightarrow> False | w # ws' \<Rightarrow> same_shape v w \<and> same_items vs ws')"
| "same_fields [] m = (m = [])"
| "same_fields ((k, v) # m) m' =
     (case m' of [] \<Rightarrow> False | (l, w) # r \<Rightarrow> k = l \<and> same_shape v w \<and> same_fields m r)"

text \<open>Values without any string or number.\<close>

fun inert :: "json \<Rightarrow> bool" where
  "inert (JString _) = False"
| "inert (JNumber _) = False"
| "inert (JArray vs) = list_all inert vs"
| "inert (JObject m) = list_all (\<lambda>(k, v). inert v) m"
| "inert _ = True"

lemma i64_double_shape: "i64_double c i = Ok w \<Longrightarrow> \<exists>n. w = JNumber n"
  by (auto simp: i64_double_def split: if_splits)

lemma f64_double_shape: "f64_double m f = Ok w \<Longrightarrow> \<exists>n. w = JNumber n"
  by (auto simp: f64_double_def split: option.splits)

lemma apply_string_shape: "apply_string c func s = Ok w \<Longrightarrow> same_shape (JString s) w"
  by (auto simp: apply_string_def dest!: i64_double_shape f64_double_shape
      split: if_splits option.splits)

lemma apply_number_shape: "apply_number c func n = Ok w \<Longrightarrow> same_shape (JNumber n) w"
  by (cases n) (auto simp: apply_number_def dest!: i64_double_shape f64_double_shape
      split: if_splits option.splits)

lemma apply_shape:
  "apply_fn c func v = Ok w \<Longrightarrow> same_shape v w"
  "apply_array c func vs = Ok ws \<Longrightarrow> same_items vs ws"
  "apply_fields c func m = Ok m' \<Longrightarrow> same_fields m m'"
  by (induction c func v and c func vs and c func m arbitrary: w and ws and m'
      rule: apply_fn_apply_array_apply_fields.induct)
    (auto dest!: apply_string_shape apply_number_shape elim!: res_bind_OkE simp del: same_shape.simps(1,2))

lemma same_fields_keys: "same_fields m m' \<Longrightarrow> map fst m' = map fst m"
  by (induction m arbitrary: m') (auto split: list.splits)

lemma apply_identity:
  "func = ''identity'' \<Longrightarrow> apply_fn c func v = Ok v"
  "func = ''identity'' \<Longrightarrow> apply_array c func vs = Ok vs"
  "func = ''identity'' \<Longrightarrow> apply_fields c func m = Ok m"
  by (induction c func v and c func vs and c func m rule: apply_fn_apply_array_apply_fields.induct)
    (auto simp: apply_string_def apply_number_def)

definition known_function :: "string \<Rightarrow> bool" where
  "known_function f \<longleftrightarrow> f \<in> {''identity'', ''uppercase'', ''lowercase'', ''double''}"

lemma apply_unknown:
  "\<not> known_function func \<Longrightarrow>
   apply_fn c func v = (if inert v then Ok v else Err (MapE (UnknownFunction func)))"
  "\<not> known_function func \<Longrightarrow>
   apply_array c func vs = (if list_all inert vs then Ok vs else Err (MapE (UnknownFunction func)))"
  "\<not> known_function func \<Longrightarrow>
   apply_fields c func m =
     (if list_all (\<lambda>(k, v). inert v) m then Ok m else Err (MapE (UnknownFunction func)))"
  by (induction c func v and c func vs and c func m rule: apply_fn_apply_array_apply_fields.induct)
    (auto simp: apply_string_def apply_number_def known_function_def)

lemma wrap_i64_range: "- (2 ^ 63) \<le> wrap_i64 i \<and> wrap_i64 i < 2 ^ 63"
  using pos_mod_bound[of "2 ^ 64" "i + 2 ^ 63"] pos_mod_sign[of "2 ^ 64" "i + 2 ^ 63"]
  by (simp add: wrap_i64_def)

lemma wrap_i64_cong: "(wrap_i64 i - i) mod 2 ^ 64 = 0"
proof -
  have "(wrap_i64 i - i) mod 2 ^ 64 = ((i + 2 ^ 63) mod 2 ^ 64 - (i + 2 ^ 63)) mod 2 ^ 64"
    by (simp add: wrap_i64_def algebra_simps)
  also have "\<dots> = 0" by (simp add: mod_diff_left_eq)
  finally show ?thesis .
qed

section \<open>Properties\<close>

text \<open>
  Mapping rewrites every record and keeps its shape: nulls and booleans as they
  are, arrays of the same length, objects with the same field names in the same order, numbers
  as numbers; partitions keep their numbers, limits, spill paths and numbers of records.
\<close>

theorem map_correct:
  assumes "parts_hold S s ps rss"
    and "res_mapM (res_mapM (apply_fn checks (map_func op))) rss = Ok outs" "readable S outs"
  shows "\<exists>ps' s'. map_execute checks S op ps s = (Ok ps', s') \<and> parts_hold S s' ps' outs \<and>
    same_slots ps ps' \<and> list_all2 (list_all2 same_shape) rss outs"
proof -
  have "list_all2 (list_all2 same_shape) rss outs"
    using res_mapM_Ok[OF assms(2)]
    by (rule list.rel_mono_strong)
      (auto dest!: res_mapM_Ok elim!: list.rel_mono_strong apply_shape)
  then show ?thesis
    using map_op.execute_in_place[OF assms(1) _ assms(3), of checks op] assms(2)
    by (auto simp: rewrite_all_def)
qed

theorem map_correct_witness:
  "\<exists>ps' s'. map_execute True example_serde \<lparr>map_func = ''identity''\<rparr> [example_part] example_fs =
      (Ok ps', s') \<and> parts_hold example_serde s' ps' [[rec_a, rec_b]]"
  using map_correct[OF example_part_holds, of True "\<lparr>map_func = ''identity''\<rparr>" "[[rec_a, rec_b]]"]
  by (auto simp: apply_identity)

text \<open>
  A function name the operator does not know is an error only for records that
  contain a string or a number; records of nulls, booleans and empty containers pass
  unchanged.
\<close>

theorem unknown_function:
  assumes "\<not> known_function func"
  shows "apply_fn checks func v =
    (if inert v then Ok v else Err (MapE (UnknownFunction func)))"
  using assms by (rule apply_unknown)

theorem unknown_function_witness:
  "apply_fn True ''triple'' (JArray [JNull, JBool True]) = Ok (JArray [JNull, JBool True]) \<and>
   apply_fn True ''triple'' rec_a = Err (MapE (UnknownFunction ''triple''))"
  using unknown_function[of "''triple''" True "JArray [JNull, JBool True]"]
    unknown_function[of "''triple''" True rec_a]
  by (simp add: known_function_def rec_a_def)

text \<open>
  Doubling an integer gives twice its value when that is in the range of \<open>i64\<close>;
  outside it panics in a build with overflow checks and otherwise gives the value that agrees
  modulo \<open>2 ^ 64\<close> and is in range, which is not the double.
\<close>

theorem double_integer:
  assumes "- (2 ^ 63) \<le> i" "i < 2 ^ 63"
  shows "case apply_fn checks ''double'' (JNumber (NInt i)) of
     Ok v \<Rightarrow> \<exists>j. v = JNumber (NInt j) \<and> - (2 ^ 63) \<le> j \<and> j < 2 ^ 63 \<and> (j - 2 * i) mod 2 ^ 64 = 0 \<and>
              (- (2 ^ 62) \<le> i \<and> i < 2 ^ 62 \<longrightarrow> j = 2 * i)
   | Err _ \<Rightarrow> False
   | Panic \<Rightarrow> checks \<and> \<not> (- (2 ^ 62) \<le> i \<and> i < 2 ^ 62)"
  using assms wrap_i64_range[of "i * 2"] wrap_i64_cong[of "i * 2"]
  by (auto simp: apply_number_def i64_double_def mult.commute)

theorem double_integer_witness:
  "apply_fn False ''double'' (JNumber (NInt (2 ^ 62))) = Ok (JNumber (NInt (- (2 ^ 63))))"
proof -
  have "apply_fn False ''double'' (JNumber (NInt (2 ^ 62))) \<noteq> Panic"
    using double_integer[of "2 ^ 62" False] by auto
  then show ?thesis by (simp add: apply_number_def i64_double_def wrap_i64_def)
qed

end
