(* ===== verification/Op_Flat_Map.thy ===== *)
theory Op_Flat_Map
  imports Ops_Base
begin

text \<open>
  \<open>src/src/worker/ops/flat_map.rs\<close>: operations that turn one record into several: splitting a
  text field into tokens, one record per element of an array field, one record per field.
\<close>

section \<open>Operations on a record\<close>

fun as_array :: "json \<Rightarrow> json list option" where
  "as_array (JArray vs) = Some vs"
| "as_array _ = None"

definition is_token_sep :: "char \<Rightarrow> bool" where
  "is_token_sep c \<longleftrightarrow> is_whitespace c \<or> c = CHR '',''"

definition tokens :: "string \<Rightarrow> string list" where
  "tokens s = map trim (filter (\<lambda>t. trim t \<noteq> []) (split_by is_token_sep s))"

fun split_field :: "json \<Rightarrow> string \<Rightarrow> json list" where
  "split_field (JObject m) field =
     (case obj_get m field of
        None \<Rightarrow> [JObject m]
      | Some val \<Rightarrow>
          (case value_as_str val of
             Some s \<Rightarrow>
               (if tokens s = [] then [JObject m]
                else map (\<lambda>tok. JObject (obj_insert field (JString tok) m)) (tokens s))
           | None \<Rightarrow> [JObject m]))"
| "split_field r field = [r]"

fun explode_array :: "json \<Rightarrow> string \<Rightarrow> json list" where
  "explode_array (JObject m) field =
     (case obj_get m field of
        None \<Rightarrow> [JObject m]
      | Some val \<Rightarrow>
          (case as_array val of
             Some arr \<Rightarrow>
               (if arr = [] then [] else map (\<lambda>e. JObject (obj_insert field e m)) arr)
           | None \<Rightarrow> [JObject m]))"
| "explode_array r field = [r]"

fun json_expand :: "json \<Rightarrow> json list" where
  "json_expand (JObject m) =
     (let out = map (\<lambda>(k, v). JObject (obj_insert k v [])) m
      in if out = [] then [JObject m] else out)"
| "json_expand r = [r]"

definition flat_apply :: "string \<Rightarrow> json \<Rightarrow> (error, json list) res" where
  "flat_apply func r =
     (if func = ''identity'' then Ok [r]
      else case strip_prefix ''split:'' func of Some field \<Rightarrow> Ok (split_field r field)
      | None \<Rightarrow>
        (case strip_prefix ''explode_array:'' func of Some field \<Rightarrow> Ok (explode_array r field)
         | None \<Rightarrow>
           if func = ''json_expand'' then Ok (json_expand r)
           else Err (FlatMapE (UnknownOperation func))))"

section \<open>The operator\<close>

record flat_map_op =
  flat_func :: string

definition flat_map_execute ::
    "serde_api \<Rightarrow> flat_map_op \<Rightarrow> partition_data list \<Rightarrow> partition_data list fsio" where
  "flat_map_execute S op ps =
     io_mapM (\<lambda>p.
       io_bind (into_parts S p) (\<lambda>(limit, path, records).
       io_bind (io_lift (res_mapM (flat_apply (flat_func op)) records)) (\<lambda>expanded.
         from_records S (partition_id p) limit path (concat expanded)))) ps"

interpretation flat_map_op: partitionwise_op S "flat_map_execute S op" "Ok ()"
  "\<lambda>_ records. res_bind (res_mapM (flat_apply (flat_func op)) records) (\<lambda>expanded. Ok (concat expanded))"
  for S op
proof
  have "io_bind (io_lift (res_bind r (\<lambda>e. Ok (g e)))) f = io_bind (io_lift r) (\<lambda>e. f (g e))"
    for r :: "(error, json list list) res" and g :: "json list list \<Rightarrow> json list"
      and f :: "json list \<Rightarrow> partition_data fsio"
    by (cases r) simp_all
  then show "flat_map_execute S op ps = io_bind (io_lift (Ok ())) (\<lambda>k. io_mapM (process S
      (\<lambda>records. res_bind (res_mapM (flat_apply (flat_func op)) records) (\<lambda>expanded. Ok (concat expanded)))) ps)"
    for ps
    by (simp add: flat_map_execute_def process_def[abs_def])
qed

section \<open>Lemmas\<close>

text \<open>The operations the language has; each is total.\<close>

definition known_flat :: "string \<Rightarrow> bool" where
  "known_flat func \<longleftrightarrow> func = ''identity'' \<or> func = ''json_expand'' \<or>
     (\<exists>field. func = ''split:'' @ field \<or> func = ''explode_array:'' @ field)"

definition expand :: "string \<Rightarrow> json \<Rightarrow> json list" where
  "expand func r = (case flat_apply func r of Ok rs \<Rightarrow> rs | _ \<Rightarrow> [])"

lemma known_flat_alt:
  "known_flat func \<longleftrightarrow> func = ''identity'' \<or> func = ''json_expand'' \<or>
     strip_prefix ''split:'' func \<noteq> None \<or> strip_prefix ''explode_array:'' func \<noteq> None"
proof -
  have "(\<exists>f. func = p @ f) \<longleftrightarrow> strip_prefix p func \<noteq> None" for p
    using strip_prefix_eq[of p func] by auto
  then show ?thesis unfolding known_flat_def ex_disj_distrib by blast
qed

lemma flat_apply_total:
  "flat_apply func r =
     (if known_flat func then Ok (expand func r) else Err (FlatMapE (UnknownOperation func)))"
  unfolding known_flat_alt expand_def flat_apply_def
  by (simp split: option.splits)

lemma flat_mapM_total:
  "known_flat func \<Longrightarrow> res_mapM (flat_apply func) rs = Ok (map (expand func) rs)"
  by (rule res_mapM_total) (simp add: flat_apply_total)

lemma dropWhile_none: "(\<And>c. c \<in> set t \<Longrightarrow> \<not> P c) \<Longrightarrow> dropWhile P t = t"
  by (cases t) auto

lemma trim_id: "(\<And>c. c \<in> set t \<Longrightarrow> \<not> is_whitespace c) \<Longrightarrow> trim t = t"
  using dropWhile_none[of t is_whitespace] dropWhile_none[of "rev t" is_whitespace]
  by (simp add: trim_def trim_end_matches_def)

lemma tokens_eq: "tokens s = filter (\<lambda>t. t \<noteq> []) (split_by is_token_sep s)"
proof -
  have "trim t = t" if "t \<in> set (split_by is_token_sep s)" for t
    using split_by_pieces[OF that] by (auto intro!: trim_id simp: is_token_sep_def)
  then have "filter (\<lambda>t. trim t \<noteq> []) (split_by is_token_sep s) =
      filter (\<lambda>t. t \<noteq> []) (split_by is_token_sep s)"
    "\<forall>t \<in> set (split_by is_token_sep s). trim t = t"
    by (auto intro!: filter_cong)
  then show ?thesis by (auto simp: tokens_def intro!: map_idI)
qed

lemma concat_split_by: "concat (split_by p s) = filter (\<lambda>c. \<not> p c) s"
proof (induction s)
  case Nil
  then show ?case by simp
next
  case (Cons c s)
  then show ?case by (cases "split_by p s") auto
qed

lemma concat_tokens: "concat (tokens s) = filter (\<lambda>c. \<not> is_token_sep c) s"
proof -
  have "concat (filter (\<lambda>t. t \<noteq> []) ws) = concat ws" for ws :: "string list"
    by (induction ws) auto
  then show ?thesis by (simp add: tokens_eq concat_split_by)
qed

lemma tokens_clean: "t \<in> set (tokens s) \<Longrightarrow> t \<noteq> [] \<and> (\<forall>c \<in> set t. \<not> is_token_sep c)"
  using split_by_pieces[of t is_token_sep s] by (auto simp: tokens_eq)

section \<open>Properties\<close>

text \<open>
  A flat map with a known operation replaces each record by its expansion, in
  order, in every partition; an unknown operation is an error as soon as there is a record,
  and is accepted silently on empty partitions.
\<close>

theorem flat_map_correct:
  assumes "parts_hold S s ps rss"
    and "readable S (map (\<lambda>rs. concat (map (expand (flat_func op)) rs)) rss)"
  shows "if known_flat (flat_func op) then
      \<exists>ps' s'. flat_map_execute S op ps s = (Ok ps', s') \<and> same_slots ps ps' \<and>
        parts_hold S s' ps' (map (\<lambda>rs. concat (map (expand (flat_func op)) rs)) rss)
    else if concat rss = [] then
      \<exists>ps' s'. flat_map_execute S op ps s = (Ok ps', s') \<and> parts_hold S s' ps' rss
    else \<exists>s'. flat_map_execute S op ps s = (Err (FlatMapE (UnknownOperation (flat_func op))), s')"
proof -
  let ?f = "\<lambda>_::unit. \<lambda>rs. res_bind (res_mapM (flat_apply (flat_func op)) rs) (\<lambda>e. Ok (concat e))"
  let ?e = "FlatMapE (UnknownOperation (flat_func op))"
  have known: "rewrite_all (Ok ()) ?f rss = Ok (map (\<lambda>rs. concat (map (expand (flat_func op)) rs)) rss)"
    if "known_flat (flat_func op)"
    by (simp add: rewrite_all_def flat_mapM_total[OF that] res_mapM_total)
  have nil: "rewrite_all (Ok ()) ?f rss = Ok rss" if "concat rss = []"
    using that by (induction rss) (auto simp: rewrite_all_def)
  have one: "?f () rs = (if rs = [] then Ok [] else Err ?e)" if "\<not> known_flat (flat_func op)" for rs
    using that by (cases rs) (simp_all add: flat_apply_total)
  have unknown: "rewrite_all (Ok ()) ?f rss = Err ?e"
    if "\<not> known_flat (flat_func op)" "concat rss \<noteq> []"
    using that(2) unfolding rewrite_all_def by (induction rss) (auto simp: one[OF that(1)])
  have empty: "readable S rss" if "concat rss = []"
    using that by (auto simp: list_all_iff)
  consider "known_flat (flat_func op)" | "\<not> known_flat (flat_func op)" "concat rss = []"
    | "\<not> known_flat (flat_func op)" "concat rss \<noteq> []"
    by blast
  then show ?thesis
  proof cases
    case 1
    with flat_map_op.execute_in_place[OF assms(1) known[OF 1] assms(2)] show ?thesis by auto
  next
    case 2
    with flat_map_op.execute_in_place[OF assms(1) nil[OF 2(2)] empty[OF 2(2)]] show ?thesis
      by (simp del: concat_eq_Nil_conv) blast
  next
    case 3
    have "list_all (reads_back S) out" if "?f () rs = Ok out" for rs out
      using that by (auto simp: one[OF 3(1)] split: if_splits)
    with flat_map_op.execute_error[OF assms(1) unknown[OF 3]] 3 show ?thesis
      by (simp del: concat_eq_Nil_conv)
  qed
qed

theorem flat_map_correct_witness:
  "\<exists>s'. flat_map_execute example_serde \<lparr>flat_func = ''explode''\<rparr> [example_part] example_fs =
     (Err (FlatMapE (UnknownOperation ''explode'')), s')"
proof -
  have "expand ''explode'' r = []" for r by (simp add: expand_def flat_apply_def)
  then show ?thesis
    using flat_map_correct[OF example_part_holds, of "\<lparr>flat_func = ''explode''\<rparr>"]
    by (simp add: known_flat_def)
qed

text \<open>
  Splitting a field loses no text: the tokens are the non-empty maximal pieces
  without whitespace and commas, their concatenation is the text without its separators, and
  each resulting record differs from the original in that field only; a text with no token
  leaves the record as it is.
\<close>

theorem split_field_correct:
  assumes "obj_get m field = Some (JString str)"
  shows "if list_all is_token_sep str then split_field (JObject m) field = [JObject m]
    else \<exists>toks. concat toks = filter (\<lambda>c. \<not> is_token_sep c) str \<and>
      (\<forall>t \<in> set toks. t \<noteq> [] \<and> (\<forall>c \<in> set t. \<not> is_token_sep c)) \<and>
      list_all2 (\<lambda>t r. \<exists>m'. r = JObject m' \<and> obj_get m' = (obj_get m)(field \<mapsto> JString t))
        toks (split_field (JObject m) field)"
proof -
  have empty: "tokens str = [] \<longleftrightarrow> list_all is_token_sep str"
  proof -
    have "tokens str = [] \<longleftrightarrow> concat (tokens str) = []"
      using tokens_clean[of _ str] by fastforce
    also have "\<dots> \<longleftrightarrow> list_all is_token_sep str"
      by (simp add: concat_tokens filter_empty_conv list_all_iff)
    finally show ?thesis .
  qed
  show ?thesis
  proof (cases "list_all is_token_sep str")
    case True
    with assms empty show ?thesis by simp
  next
    case False
    with assms empty have
      "split_field (JObject m) field = map (\<lambda>t. JObject (obj_insert field (JString t) m)) (tokens str)"
      by simp
    then show ?thesis
      using False concat_tokens[of str] tokens_clean[of _ str]
      by (auto intro!: exI[of _ "tokens str"] simp: list_all2_map2 fun_eq_iff list_all2_same)
  qed
qed

theorem split_field_correct_witness:
  "\<exists>toks. concat toks = ''abc'' \<and> list_all2 (\<lambda>t r. \<exists>m'. r = JObject m' \<and>
      obj_get m' = (obj_get [(''w'', JString ''a, bc'')])(''w'' \<mapsto> JString t))
    toks (split_field (JObject [(''w'', JString ''a, bc'')]) ''w'')"
  using split_field_correct[of "[(''w'', JString ''a, bc'')]" "''w''" "''a, bc''"]
  by (auto simp: obj_get_def is_token_sep_def is_whitespace_def)

end
