(* ===== verification/Op_Reduce.thy ===== *)
theory Op_Reduce
  imports Ops_Base
begin

text \<open>
  \<open>src/src/worker/ops/reduce.rs\<close>: reducing all records to one, and reducing them by key. The
  groups of \<open>ReduceByKeyOp\<close> are a hash map; the order in which it is iterated is the
  argument \<open>it\<close>. Sums, minima and maxima are computed in \<open>f64\<close>.
\<close>

section \<open>Reducers\<close>

datatype reducer_kind =
    Sum "string option"
  | Min "string option"
  | Max "string option"
  | Count
  | Collect

definition reducer_parse :: "string \<Rightarrow> (error, reducer_kind) res" where
  "reducer_parse raw =
     (if raw = ''count'' then Ok Count
      else if raw = ''collect'' then Ok Collect
      else case splitn2 (CHR '':'') raw of (op, field) \<Rightarrow>
        (if op = ''sum'' then Ok (Sum field)
         else if op = ''min'' then Ok (Min field)
         else if op = ''max'' then Ok (Max field)
         else Err (ReduceE (UnknownReducer raw))))"

fun extract_number :: "json \<Rightarrow> string option \<Rightarrow> flt option" where
  "extract_number (JNumber n) None = as_f64 n"
| "extract_number (JObject m) (Some f) = Option.bind (obj_get m f) value_as_f64"
| "extract_number _ _ = None"

text \<open>The loop of \<open>fold_numeric\<close>: the first number starts the accumulator.\<close>

fun fold_step ::
    "(flt \<Rightarrow> flt \<Rightarrow> flt) \<Rightarrow> string option \<Rightarrow> flt \<times> nat \<Rightarrow> json \<Rightarrow> flt \<times> nat" where
  "fold_step f field (acc, cnt) r =
     (case extract_number r field of
        Some n \<Rightarrow> (if cnt = 0 then n else f acc n, cnt + 1)
      | None \<Rightarrow> (acc, cnt))"

definition fold_numeric :: "json list \<Rightarrow> string option \<Rightarrow> (flt \<Rightarrow> flt \<Rightarrow> flt) \<Rightarrow> flt \<times> nat" where
  "fold_numeric records field f = foldl (fold_step f field) (fzero f64, 0) records"

definition single_kv :: "string \<Rightarrow> json \<Rightarrow> obj" where
  "single_kv k v = obj_insert k v []"

definition number_or_zero :: "flt \<times> nat \<Rightarrow> json" where
  "number_or_zero r =
     (let v = (if snd r = 0 then fzero f64 else fst r)
      in JNumber (case from_f64 v of Some n \<Rightarrow> n | None \<Rightarrow> NInt 0))"

definition field_key :: "string \<Rightarrow> string option \<Rightarrow> string" where
  "field_key op field = (case field of Some f \<Rightarrow> op @ ''_'' @ f | None \<Rightarrow> op)"

fun apply_reducer :: "reducer_kind \<Rightarrow> json list \<Rightarrow> (error, json option) res" where
  "apply_reducer Count records =
     Ok (Some (JObject (single_kv ''count'' (JNumber (NInt (int (length records)))))))"
| "apply_reducer Collect records = Ok (Some (JObject (single_kv ''collect'' (JArray records))))"
| "apply_reducer (Sum field) records =
     Ok (Some (JObject (single_kv (field_key ''sum'' field)
       (number_or_zero (fold_numeric records field (fadd f64))))))"
| "apply_reducer (Min field) records =
     Ok (Some (JObject (single_kv (field_key ''min'' field)
       (number_or_zero (fold_numeric records field fmin)))))"
| "apply_reducer (Max field) records =
     Ok (Some (JObject (single_kv (field_key ''max'' field)
       (number_or_zero (fold_numeric records field fmax)))))"

section \<open>Reducing everything\<close>

record reduce_op =
  reduce_reducer :: string

definition reduce_execute ::
    "serde_api \<Rightarrow> reduce_op \<Rightarrow> partition_data list \<Rightarrow> partition_data list fsio" where
  "reduce_execute S op ps =
     io_bind (io_lift (reducer_parse (reduce_reducer op))) (\<lambda>reducer.
       case ps of
         [] \<Rightarrow> io_return []
       | first # _ \<Rightarrow>
           io_bind (gather S ps) (\<lambda>all_records.
           io_bind (io_lift (apply_reducer reducer all_records)) (\<lambda>output.
           io_bind (from_records S (partition_id first) (part_limit first) (part_path first)
                     [case output of Some v \<Rightarrow> v | None \<Rightarrow> JNull]) (\<lambda>result.
             io_return [result]))))"

section \<open>Reducing by key\<close>

record reduce_by_key_op =
  rbk_key :: string
  rbk_reducer :: string

definition key_of :: "string \<Rightarrow> json \<Rightarrow> string option" where
  "key_of key r = Option.bind (value_get r key) value_as_str"

fun group_records :: "string \<Rightarrow> (string \<rightharpoonup> json list) \<Rightarrow> json list \<Rightarrow>
    (error, string \<rightharpoonup> json list) res" where
  "group_records key g [] = Ok g"
| "group_records key g (r # rs) =
     (case key_of key r of
        None \<Rightarrow> Err (ReduceE (ReduceMissingKey key))
      | Some k \<Rightarrow>
          group_records key (g(k \<mapsto> (case g k of None \<Rightarrow> [] | Some v \<Rightarrow> v) @ [r])) rs)"

fun group_partitions :: "serde_api \<Rightarrow> string \<Rightarrow> (string \<rightharpoonup> json list) \<Rightarrow>
    partition_data list \<Rightarrow> (string \<rightharpoonup> json list) fsio" where
  "group_partitions S key g [] = io_return g"
| "group_partitions S key g (p # ps) =
     io_bind (into_parts S p) (\<lambda>(_, _, recs).
     io_bind (io_lift (group_records key g recs)) (\<lambda>g'. group_partitions S key g' ps))"

definition reduced_row ::
    "reduce_by_key_op \<Rightarrow> reducer_kind \<Rightarrow> string \<times> json list \<Rightarrow> (error, json) res" where
  "reduced_row op reducer = (\<lambda>(k, recs).
     res_bind (apply_reducer reducer recs) (\<lambda>agg.
       let obj = obj_insert (rbk_key op) (JString k) []
       in Ok (JObject
            (case agg of
               Some (JObject inner) \<Rightarrow> obj_insert_all inner obj
             | Some v \<Rightarrow> obj_insert (rbk_reducer op) v obj
             | None \<Rightarrow> obj))))"

definition reduce_by_key_execute ::
    "((string \<rightharpoonup> json list) \<Rightarrow> (string \<times> json list) list) \<Rightarrow> serde_api \<Rightarrow> reduce_by_key_op \<Rightarrow>
     partition_data list \<Rightarrow> partition_data list fsio" where
  "reduce_by_key_execute it S op ps =
     (case ps of
        [] \<Rightarrow> io_return []
      | first # _ \<Rightarrow>
          (case reducer_parse (rbk_reducer op) of
             Ok reducer \<Rightarrow>
               io_bind (group_partitions S (rbk_key op) Map.empty ps) (\<lambda>grouped.
               io_bind (io_lift (res_mapM (reduced_row op reducer) (it grouped))) (\<lambda>out_records.
               io_bind (from_records S (partition_id first) (part_limit first) (part_path first)
                         out_records) (\<lambda>result.
                 io_return [result])))
           | _ \<Rightarrow> io_lift (Err (ReduceE (UnsupportedReducer (rbk_reducer op))))))"

section \<open>Lemmas: folding numbers\<close>

definition numbers :: "string option \<Rightarrow> json list \<Rightarrow> flt list" where
  "numbers field records = List.map_filter (\<lambda>r. extract_number r field) records"

fun foldl1 :: "('a \<Rightarrow> 'a \<Rightarrow> 'a) \<Rightarrow> 'a \<Rightarrow> 'a list \<Rightarrow> 'a" where
  "foldl1 f z [] = z"
| "foldl1 f z (x # xs) = foldl f x xs"

lemma numbers_simps [simp]:
  "numbers field [] = []"
  "numbers field (r # rs) =
     (case extract_number r field of Some n \<Rightarrow> n # numbers field rs | None \<Rightarrow> numbers field rs)"
  by (simp_all add: numbers_def map_filter_simps split: option.splits)

lemma fold_step_run:
  "foldl (fold_step f field) (acc, cnt) rs =
     (if cnt = 0 then foldl1 f acc (numbers field rs) else foldl f acc (numbers field rs),
      cnt + length (numbers field rs))"
  by (induction rs arbitrary: acc cnt) (auto split: option.splits)

lemma fold_numeric_eq:
  "fold_numeric rs field f = (foldl1 f (fzero f64) (numbers field rs), length (numbers field rs))"
  by (simp add: fold_numeric_def fold_step_run)

lemma foldl_extreme:
  fixes better :: "real \<Rightarrow> real \<Rightarrow> real"
  assumes f: "\<And>a b. is_finite a \<Longrightarrow> is_finite b \<Longrightarrow>
      is_finite (f a b) \<and> flt_val (f a b) = better (flt_val a) (flt_val b) \<and> f a b \<in> {a, b}"
  shows "is_finite x \<Longrightarrow> list_all is_finite xs \<Longrightarrow>
    is_finite (foldl f x xs) \<and> foldl f x xs \<in> set (x # xs) \<and>
    flt_val (foldl f x xs) = foldl better (flt_val x) (map flt_val xs)"
proof (induction xs arbitrary: x)
  case Nil
  then show ?case by simp
next
  case (Cons y ys)
  from Cons.prems f[of x y] have "is_finite (f x y)" "flt_val (f x y) = better (flt_val x) (flt_val y)"
    "f x y \<in> {x, y}" by auto
  with Cons.IH[of "f x y"] Cons.prems(2) show ?case by auto
qed

lemma foldl_min_le: "foldl min (a::real) xs \<le> a \<and> (\<forall>x \<in> set xs. foldl min a xs \<le> x)"
  by (induction xs arbitrary: a) (auto, (meson min.boundedE order_trans)+)

lemma foldl_max_ge: "(a::real) \<le> foldl max a xs \<and> (\<forall>x \<in> set xs. x \<le> foldl max a xs)"
  by (induction xs arbitrary: a) (auto, (meson max.boundedE order_trans)+)

section \<open>Lemmas: grouping\<close>

definition group_of :: "string \<Rightarrow> json list \<Rightarrow> string \<Rightarrow> json list" where
  "group_of key rs k = filter (\<lambda>r. key_of key r = Some k) rs"

definition keyed :: "string \<Rightarrow> json list \<Rightarrow> bool" where
  "keyed key rs \<longleftrightarrow> list_all (\<lambda>r. key_of key r \<noteq> None) rs"

definition groups :: "string \<Rightarrow> json list \<Rightarrow> (string \<rightharpoonup> json list)" where
  "groups key rs = (\<lambda>k. if group_of key rs k = [] then None else Some (group_of key rs k))"

definition merge_groups :: "(string \<rightharpoonup> json list) \<Rightarrow> string \<Rightarrow> json list \<Rightarrow> (string \<rightharpoonup> json list)" where
  "merge_groups g key rs =
     (\<lambda>k. if group_of key rs k = [] then g k
          else Some ((case g k of None \<Rightarrow> [] | Some v \<Rightarrow> v) @ group_of key rs k))"

lemma merge_groups_empty [simp]: "merge_groups Map.empty key rs = groups key rs"
  by (simp add: merge_groups_def groups_def fun_eq_iff)

lemma group_of_Cons [simp]:
  "group_of key (r # rs) k = (if key_of key r = Some k then r # group_of key rs k else group_of key rs k)"
  by (simp add: group_of_def)

lemma group_records_eq:
  "group_records key g rs =
     (if keyed key rs then Ok (merge_groups g key rs) else Err (ReduceE (ReduceMissingKey key)))"
proof (induction rs arbitrary: g)
  case Nil
  then show ?case by (simp add: keyed_def merge_groups_def group_of_def)
next
  case (Cons r rs)
  show ?case
  proof (cases "key_of key r")
    case None
    then show ?thesis by (simp add: keyed_def)
  next
    case (Some k)
    have "merge_groups (g(k \<mapsto> (case g k of None \<Rightarrow> [] | Some v \<Rightarrow> v) @ [r])) key rs =
        merge_groups g key (r # rs)"
      using Some by (auto simp: merge_groups_def fun_eq_iff split: option.splits)
    with Some Cons.IH show ?thesis by (simp add: keyed_def)
  qed
qed

lemma merge_groups_append: "merge_groups (merge_groups g key rs) key rs' = merge_groups g key (rs @ rs')"
  by (auto simp: merge_groups_def group_of_def fun_eq_iff split: option.splits)

lemma group_partitions_holds:
  "parts_hold S s ps rss \<Longrightarrow>
   \<exists>s'. group_partitions S key g ps s =
          (if keyed key (concat rss) then Ok (merge_groups g key (concat rss))
           else Err (ReduceE (ReduceMissingKey key)), s') \<and>
        (keyed key (concat rss) \<longrightarrow>
           changes_only (part_paths ps) s s' \<and> (\<forall>q \<in> part_paths ps. path_vacant q s'))"
proof (induction ps arbitrary: s rss g)
  case Nil
  then show ?case by (auto simp: io_return_def keyed_def merge_groups_def group_of_def)
next
  case (Cons p ps)
  from Cons.prems obtain rs rss' where rss: "rss = rs # rss'" and p: "partition_holds S s p rs"
    and fresh: "part_path p \<notin> part_paths ps" and ps: "parts_hold S s ps rss'"
    by (auto simp: parts_hold_Cons)
  obtain s1 where s1: "into_parts S p s = (Ok (part_limit p, part_path p, rs), s1)"
    "path_vacant (part_path p) s1" "changes_only {part_path p} s s1"
    by (rule into_parts_holds[OF p])
  have keyed: "keyed key (concat rss) \<longleftrightarrow> keyed key rs \<and> keyed key (concat rss')"
    by (simp add: rss keyed_def)
  show ?case
  proof (cases "keyed key rs")
    case False
    with s1 keyed show ?thesis by (simp add: io_bind_def io_lift_def group_records_eq)
  next
    case True
    have "parts_hold S s1 ps rss'"
      using fresh by (intro parts_hold_frame[OF ps s1(3)]) auto
    from Cons.IH[OF this, of "merge_groups g key rs"] obtain s2 where
      s2: "group_partitions S key (merge_groups g key rs) ps s1 =
             (if keyed key (concat rss') then Ok (merge_groups g key (concat rss))
              else Err (ReduceE (ReduceMissingKey key)), s2)"
        "keyed key (concat rss') \<Longrightarrow> changes_only (part_paths ps) s1 s2 \<and>
           (\<forall>q \<in> part_paths ps. path_vacant q s2)"
      by (auto simp: rss merge_groups_append)
    have run: "group_partitions S key g (p # ps) s =
        group_partitions S key (merge_groups g key rs) ps s1"
      using s1(1) True by (simp add: io_bind_def io_lift_def group_records_eq)
    have "path_vacant (part_path p) s2" "changes_only (part_paths (p # ps)) s s2"
      if "keyed key (concat rss')"
      using path_vacant_frame[OF s1(2), of "part_paths ps" s2] s2(2)[OF that] fresh
        changes_only_trans[OF s1(3), of "part_paths ps" s2]
      by auto
    with run s2 keyed True show ?thesis by auto
  qed
qed

lemma groups_finite: "finite (dom (groups key rs))"
proof (rule finite_subset)
  show "dom (groups key rs) \<subseteq> (\<lambda>r. the (key_of key r)) ` set rs"
    by (auto simp: groups_def group_of_def filter_empty_conv split: if_splits) force
qed simp

lemma groups_dom: "dom (groups key rs) = {k. \<exists>r \<in> set rs. key_of key r = Some k}"
  by (auto simp: groups_def group_of_def filter_empty_conv split: if_splits)

section \<open>Lemmas: results\<close>

text \<open>A reducer never fails: the record it computes, and the row of one group.\<close>

definition reduce_value :: "reducer_kind \<Rightarrow> json list \<Rightarrow> json" where
  "reduce_value k rs = (case apply_reducer k rs of Ok (Some v) \<Rightarrow> v | _ \<Rightarrow> JNull)"

lemma apply_reducer_total: "apply_reducer k rs = Ok (Some (reduce_value k rs))"
  by (cases k) (simp_all add: reduce_value_def)

lemma reduce_value_object: "\<exists>f v. reduce_value k rs = JObject [(f, v)]"
  by (cases k) (simp_all add: reduce_value_def single_kv_def)

definition row_of :: "reduce_by_key_op \<Rightarrow> reducer_kind \<Rightarrow> string \<Rightarrow> json list \<Rightarrow> json" where
  "row_of op k key rs =
     (case reduce_value k rs of
        JObject inner \<Rightarrow> JObject (obj_insert_all inner [(rbk_key op, JString key)])
      | _ \<Rightarrow> JNull)"

lemma reduced_row_eq: "reduced_row op k (key, rs) = Ok (row_of op k key rs)"
  using reduce_value_object[of k rs]
  by (auto simp: reduced_row_def apply_reducer_total row_of_def)

lemma row_of_count:
  "row_of op Count key rs =
     JObject (obj_insert ''count'' (JNumber (NInt (int (length rs)))) [(rbk_key op, JString key)])"
  by (simp add: row_of_def reduce_value_def single_kv_def obj_insert_all_def)

lemma reduced_rows:
  assumes "iterates it"
  shows "\<exists>outs. res_mapM (reduced_row op k) (it (groups key rs)) = Ok outs \<and>
    mset outs = image_mset (\<lambda>x. row_of op k x (group_of key rs x))
      (mset_set {x. \<exists>r \<in> set rs. key_of key r = Some x})"
proof -
  let ?g = "groups key rs"
  let ?row = "\<lambda>(x, rs). row_of op k x rs"
  have en: "enumerates (it ?g) ?g"
    using assms groups_finite by (simp add: iterates_def)
  have "res_mapM (reduced_row op k) (it ?g) = Ok (map ?row (it ?g))"
    by (rule res_mapM_total) (auto simp: reduced_row_eq)
  moreover have "mset (map ?row (it ?g)) = image_mset (\<lambda>x. row_of op k x (the (?g x))) (mset_set (dom ?g))"
    by (simp add: enumerates_mset_keys[OF en] multiset.map_comp comp_def)
  moreover have "\<dots> = image_mset (\<lambda>x. row_of op k x (group_of key rs x)) (mset_set (dom ?g))"
    using groups_finite by (intro image_mset_cong) (auto simp: groups_def split: if_splits)
  ultimately show ?thesis by (simp add: groups_dom)
qed

lemma reducer_parse_no_panic: "reducer_parse raw \<noteq> Panic"
  by (auto simp: reducer_parse_def split: prod.splits if_splits)

section \<open>The operators\<close>

lemma reduce_by_key_run:
  assumes "iterates it" "parts_hold S s ps rss" "ps \<noteq> []" "reducer_parse (rbk_reducer op) = Ok k"
    and "keyed (rbk_key op) (concat rss)"
    and "res_mapM (reduced_row op k) (it (groups (rbk_key op) (concat rss))) = Ok outs"
    and "list_all (reads_back S) outs"
  shows "\<exists>p s'. reduce_by_key_execute it S op ps s = (Ok [p], s') \<and> parts_hold S s' [p] [outs] \<and>
    partition_id p = partition_id (hd ps) \<and> part_path p = part_path (hd ps) \<and>
    changes_only (part_paths ps) s s'"
proof -
  let ?rs = "concat rss" and ?key = "rbk_key op"
  obtain first rest where ps: "ps = first # rest" using assms(3) by (cases ps) auto
  obtain s1 where s1: "group_partitions S ?key Map.empty ps s = (Ok (groups ?key ?rs), s1)"
    "changes_only (part_paths ps) s s1" "\<forall>q \<in> part_paths ps. path_vacant q s1"
    using group_partitions_holds[OF assms(2), of ?key Map.empty] assms(5) by auto
  obtain p s2 where
    "from_records S (partition_id first) (part_limit (hd ps)) (part_path (hd ps)) outs s1 = (Ok p, s2)"
    "parts_hold S s2 [p] [outs]" "partition_id p = partition_id first" "part_path p = part_path (hd ps)"
    "changes_only (part_paths ps) s1 s2"
    by (rule single_output[OF s1(3) assms(3,7), of "partition_id first"])
  with s1 assms(4,6) ps changes_only_same[OF s1(2)] show ?thesis
    by (auto simp: reduce_by_key_execute_def io_bind_def io_return_def io_lift_def)
qed

lemma reduce_by_key_missing:
  assumes "parts_hold S s ps rss" "reducer_parse (rbk_reducer op) = Ok k"
    and "\<not> keyed (rbk_key op) (concat rss)"
  shows "\<exists>s'. reduce_by_key_execute it S op ps s = (Err (ReduceE (ReduceMissingKey (rbk_key op))), s')"
proof (cases ps)
  case Nil
  with assms(1,3) show ?thesis by (simp add: keyed_def)
next
  case (Cons first rest)
  with group_partitions_holds[OF assms(1), of "rbk_key op" Map.empty] assms(2,3) show ?thesis
    by (auto simp: reduce_by_key_execute_def io_bind_def)
qed

lemma reduce_run:
  assumes "parts_hold S s ps rss" "ps \<noteq> []" "reducer_parse (reduce_reducer op) = Ok k"
    and "reads_back S (reduce_value k (concat rss))"
  shows "\<exists>p s'. reduce_execute S op ps s = (Ok [p], s') \<and>
    parts_hold S s' [p] [[reduce_value k (concat rss)]] \<and> partition_id p = partition_id (hd ps) \<and>
    part_path p = part_path (hd ps) \<and> changes_only (part_paths ps) s s'"
proof -
  obtain first rest where ps: "ps = first # rest" using assms(2) by (cases ps) auto
  obtain s1 where s1: "gather S ps s = (Ok (concat rss), s1)" "changes_only (part_paths ps) s s1"
    "\<forall>q \<in> part_paths ps. path_vacant q s1"
    by (rule gather_holds[OF assms(1)])
  let ?out = "[reduce_value k (concat rss)]"
  have "list_all (reads_back S) ?out" using assms(4) by simp
  then obtain p s2 where
    "from_records S (partition_id first) (part_limit (hd ps)) (part_path (hd ps)) ?out s1 = (Ok p, s2)"
    "parts_hold S s2 [p] [?out]" "partition_id p = partition_id first" "part_path p = part_path (hd ps)"
    "changes_only (part_paths ps) s1 s2"
    by (rule single_output[OF s1(3) assms(2), of S ?out "partition_id first"])
  with assms(3) ps s1(1) changes_only_same[OF s1(2)] show ?thesis
    by (auto simp: reduce_execute_def io_bind_def io_return_def io_lift_def apply_reducer_total)
qed

text \<open>Their meanings.\<close>

definition reduce_meaning :: "reduce_op \<Rightarrow> json list list \<Rightarrow> (error, json list list) res" where
  "reduce_meaning op rss =
     res_bind (reducer_parse (reduce_reducer op)) (\<lambda>k.
       Ok (if rss = [] then [] else [[reduce_value k (concat rss)]]))"

definition reduce_by_key_meaning ::
    "((string \<rightharpoonup> json list) \<Rightarrow> (string \<times> json list) list) \<Rightarrow> reduce_by_key_op \<Rightarrow>
     json list list \<Rightarrow> (error, json list list) res" where
  "reduce_by_key_meaning it op rss =
     (if rss = [] then Ok []
      else case reducer_parse (rbk_reducer op) of
        Ok k \<Rightarrow>
          res_bind (group_records (rbk_key op) Map.empty (concat rss)) (\<lambda>g.
          res_bind (res_mapM (reduced_row op k) (it g)) (\<lambda>outs. Ok [outs]))
      | _ \<Rightarrow> Err (ReduceE (UnsupportedReducer (rbk_reducer op))))"

interpretation reduce_op: executable_op S "reduce_execute S op" "reduce_meaning op"
  "\<lambda>_ _. True" part_paths "\<lambda>ps. map partition_id (take 1 ps)" for S op
proof
  show "\<exists>ps' s'. reduce_execute S op ps s = (Ok ps', s') \<and> parts_hold S s' ps' outs \<and>
      map partition_id ps' = map partition_id (take 1 ps) \<and>
      changes_only (part_paths ps) s s'"
    if "parts_hold S s ps rss" "reduce_meaning op rss = Ok outs" "readable S outs" for s ps rss outs
  proof -
    from that(2) obtain k where k: "reducer_parse (reduce_reducer op) = Ok k"
      "outs = (if rss = [] then [] else [[reduce_value k (concat rss)]])"
      by (auto simp: reduce_meaning_def elim!: res_bind_OkE)
    show ?thesis
    proof (cases "ps = []")
      case True
      with that(1) k show ?thesis by (simp add: reduce_execute_def io_return_def)
    next
      case False
      then have "rss \<noteq> []" using parts_hold_length[OF that(1)] by auto
      with reduce_run[OF that(1) False k(1)] k(2) that(3) False show ?thesis
        by (cases ps) auto
    qed
  qed
qed

interpretation reduce_by_key_op: executable_op S "reduce_by_key_execute it S op"
  "reduce_by_key_meaning it op" "\<lambda>_ _. iterates it" part_paths
  "\<lambda>ps. map partition_id (take 1 ps)" for S it op
proof
  show "\<exists>ps' s'. reduce_by_key_execute it S op ps s = (Ok ps', s') \<and> parts_hold S s' ps' outs \<and>
      map partition_id ps' = map partition_id (take 1 ps) \<and>
      changes_only (part_paths ps) s s'"
    if "parts_hold S s ps rss" "iterates it" "reduce_by_key_meaning it op rss = Ok outs" "readable S outs"
    for s ps rss outs
  proof (cases "ps = []")
    case True
    with that(1,3) show ?thesis
      by (simp add: reduce_by_key_meaning_def reduce_by_key_execute_def io_return_def)
  next
    case False
    then have "rss \<noteq> []" using parts_hold_length[OF that(1)] by auto
    with that(3) obtain k rows where k: "reducer_parse (rbk_reducer op) = Ok k"
      "keyed (rbk_key op) (concat rss)"
      "res_mapM (reduced_row op k) (it (groups (rbk_key op) (concat rss))) = Ok rows" "outs = [rows]"
      by (auto simp: reduce_by_key_meaning_def group_records_eq split: res.splits if_splits
          elim!: res_bind_OkE)
    with reduce_by_key_run[OF that(2,1) False k(1-3)] that(4) False show ?thesis by (cases ps) auto
  qed
qed

section \<open>Properties\<close>

text \<open>
  Claim C24. Reduction by key, for every order in which the hash map of groups may be
  iterated: the result is one partition in the slot of the first input, with exactly one
  record per key that occurs in any of the inputs, computed from the records with that key in
  the order of the inputs; a record without a text key is an error.
\<close>

theorem reduce_by_key_correct:
  assumes "iterates it" "parts_hold S s ps rss" "ps \<noteq> []" "reducer_parse (rbk_reducer op) = Ok k"
    and "\<And>r x. r \<in> set (concat rss) \<Longrightarrow> key_of (rbk_key op) r = Some x \<Longrightarrow>
      reads_back S (row_of op k x (group_of (rbk_key op) (concat rss) x))"
  shows "if keyed (rbk_key op) (concat rss) then
      \<exists>p outs s'. reduce_by_key_execute it S op ps s = (Ok [p], s') \<and> parts_hold S s' [p] [outs] \<and>
        partition_id p = partition_id (hd ps) \<and> part_path p = part_path (hd ps) \<and>
        mset outs = image_mset (\<lambda>x. row_of op k x (group_of (rbk_key op) (concat rss) x))
          (mset_set {x. \<exists>r \<in> set (concat rss). key_of (rbk_key op) r = Some x})
    else \<exists>s'. reduce_by_key_execute it S op ps s = (Err (ReduceE (ReduceMissingKey (rbk_key op))), s')"
proof -
  let ?rs = "concat rss" and ?key = "rbk_key op"
  let ?keys = "{x. \<exists>r \<in> set ?rs. key_of ?key r = Some x}"
  obtain outs where outs: "res_mapM (reduced_row op k) (it (groups ?key ?rs)) = Ok outs"
    "mset outs = image_mset (\<lambda>x. row_of op k x (group_of ?key ?rs x)) (mset_set ?keys)"
    using reduced_rows[OF assms(1)] by blast
  have "finite ?keys" using groups_finite[of ?key ?rs] by (simp add: groups_dom)
  then have "set outs = (\<lambda>x. row_of op k x (group_of ?key ?rs x)) ` ?keys"
    using arg_cong[OF outs(2), of set_mset] by simp
  with assms(5) have "list_all (reads_back S) outs" by (auto simp: list_all_iff)
  with reduce_by_key_run[OF assms(1-4) _ outs(1)] reduce_by_key_missing[OF assms(2,4)] outs(2)
  show ?thesis by (simp only: if_bool_eq_conj) blast
qed

lemma example_keys:
  "key_of ''k'' rec_a = Some ''a''" "key_of ''k'' rec_b = Some ''b''"
  by (simp_all add: key_of_def rec_a_def rec_b_def obj_get_def)

lemma example_counts:
  "row_of \<lparr>rbk_key = ''k'', rbk_reducer = ''count''\<rparr> Count ''a'' [rec_a] = count_row ''a''"
  "row_of \<lparr>rbk_key = ''k'', rbk_reducer = ''count''\<rparr> Count ''b'' [rec_b] = count_row ''b''"
  by (simp_all add: row_of_count count_row_def)

theorem reduce_by_key_correct_witness:
  "\<exists>p outs s'. reduce_by_key_execute key_order example_serde
      \<lparr>rbk_key = ''k'', rbk_reducer = ''count''\<rparr> [example_part] example_fs = (Ok [p], s') \<and>
    parts_hold example_serde s' [p] [outs] \<and> mset outs = {#count_row ''a'', count_row ''b''#}"
proof -
  let ?op = "\<lparr>rbk_key = ''k'', rbk_reducer = ''count''\<rparr>"
  have grp: "group_of ''k'' [rec_a, rec_b] ''a'' = [rec_a]" "group_of ''k'' [rec_a, rec_b] ''b'' = [rec_b]"
    by (simp_all add: example_keys) (simp_all add: group_of_def)
  have keys: "{x. \<exists>r \<in> set (concat [[rec_a, rec_b]]). key_of (rbk_key ?op) r = Some x} = {''a'', ''b''}"
    by (auto simp: example_keys)
  have "if keyed (rbk_key ?op) (concat [[rec_a, rec_b]]) then
      \<exists>p outs s'. reduce_by_key_execute key_order example_serde ?op [example_part] example_fs = (Ok [p], s') \<and>
        parts_hold example_serde s' [p] [outs] \<and> partition_id p = partition_id (hd [example_part]) \<and>
        part_path p = part_path (hd [example_part]) \<and>
        mset outs = image_mset (\<lambda>x. row_of ?op Count x (group_of (rbk_key ?op) (concat [[rec_a, rec_b]]) x))
          (mset_set {x. \<exists>r \<in> set (concat [[rec_a, rec_b]]). key_of (rbk_key ?op) r = Some x})
    else \<exists>s'. reduce_by_key_execute key_order example_serde ?op [example_part] example_fs =
      (Err (ReduceE (ReduceMissingKey (rbk_key ?op))), s')"
    by (rule reduce_by_key_correct[OF iterates_key_order example_part_holds])
      (use grp in \<open>auto simp: reducer_parse_def example_keys example_counts simp del: group_of_Cons\<close>)
  then show ?thesis
    unfolding keys by (auto simp: keyed_def example_keys example_counts grp simp del: group_of_Cons)
qed

text \<open>
  Reducing everything gives one partition in the slot of the first input with one
  record, the reduction of the records of all inputs in order; with no input there is no
  output, and an unknown reducer is an error.
\<close>

theorem reduce_correct:
  assumes "parts_hold S s ps rss"
    and "\<And>k. reducer_parse (reduce_reducer op) = Ok k \<Longrightarrow> reads_back S (reduce_value k (concat rss))"
  shows "case reducer_parse (reduce_reducer op) of
     Ok k \<Rightarrow> if ps = [] then reduce_execute S op ps s = (Ok [], s)
       else \<exists>p s'. reduce_execute S op ps s = (Ok [p], s') \<and>
         parts_hold S s' [p] [[reduce_value k (concat rss)]] \<and>
         partition_id p = partition_id (hd ps) \<and> part_path p = part_path (hd ps)
   | Err e \<Rightarrow> e = ReduceE (UnknownReducer (reduce_reducer op)) \<and> reduce_execute S op ps s = (Err e, s)
   | Panic \<Rightarrow> False"
proof (cases "reducer_parse (reduce_reducer op)")
  case (Ok k)
  show ?thesis
  proof (cases "ps = []")
    case True
    with Ok show ?thesis by (simp add: reduce_execute_def io_return_def)
  next
    case False
    with reduce_run[OF assms(1) False Ok assms(2)[OF Ok]] Ok show ?thesis by auto
  qed
next
  case (Err e)
  then show ?thesis
    by (auto simp: reduce_execute_def io_lift_def reducer_parse_def split: if_splits prod.splits)
next
  case Panic
  then show ?thesis by (simp add: reducer_parse_no_panic)
qed

theorem reduce_correct_witness:
  "\<exists>p s'. reduce_execute example_serde \<lparr>reduce_reducer = ''count''\<rparr> [example_part] example_fs =
      (Ok [p], s') \<and> parts_hold example_serde s' [p] [[count_total]]"
proof -
  have "reduce_value Count [rec_a, rec_b] = count_total"
    by (simp add: reduce_value_def single_kv_def count_total_def)
  then show ?thesis
    using reduce_correct[OF example_part_holds, of "\<lparr>reduce_reducer = ''count''\<rparr>"]
    by (auto simp: reducer_parse_def)
qed

text \<open>
  The minimum and maximum reducers return one of the numbers of the field (records
  without a number there are ignored), and no number of the field is below the minimum or
  above the maximum.
\<close>

theorem min_max_correct:
  assumes "numbers field rs \<noteq> []" "list_all is_finite (numbers field rs)"
  shows "\<exists>lo hi. reduce_value (Min field) rs = JObject [(field_key ''min'' field, JNumber (NFloat lo))] \<and>
    reduce_value (Max field) rs = JObject [(field_key ''max'' field, JNumber (NFloat hi))] \<and>
    lo \<in> set (numbers field rs) \<and> hi \<in> set (numbers field rs) \<and>
    (\<forall>n \<in> set (numbers field rs). flt_val lo \<le> flt_val n \<and> flt_val n \<le> flt_val hi)"
proof -
  obtain x xs where ns: "numbers field rs = x # xs" using assms(1) by (cases "numbers field rs") auto
  with assms(2) have fin: "is_finite x" "list_all is_finite xs" by auto
  note lo = foldl_extreme[where f = fmin and better = min, OF fmin_val fin]
  note hi = foldl_extreme[where f = fmax and better = max, OF fmax_val fin]
  have bounds: "flt_val (foldl fmin x xs) \<le> flt_val n \<and> flt_val n \<le> flt_val (foldl fmax x xs)"
    if "n \<in> set (x # xs)" for n
    using that lo hi foldl_min_le[of "flt_val x" "map flt_val xs"]
      foldl_max_ge[of "flt_val x" "map flt_val xs"] by auto
  show ?thesis
    using lo hi bounds
    by (intro exI[of _ "foldl fmin x xs"] exI[of _ "foldl fmax x xs"])
      (simp add: reduce_value_def fold_numeric_eq ns number_or_zero_def from_f64_def single_kv_def)
qed

theorem min_max_correct_witness:
  "\<exists>lo hi. reduce_value (Min (Some ''v'')) [rec_a, rec_b] = JObject [(''min_v'', JNumber (NFloat lo))] \<and>
    reduce_value (Max (Some ''v'')) [rec_a, rec_b] = JObject [(''max_v'', JNumber (NFloat hi))]"
proof -
  have "numbers (Some ''v'') [rec_a, rec_b] = [flt_of_int f64 1, flt_of_int f64 2]"
    by (simp add: rec_a_def rec_b_def obj_get_def)
  moreover have "is_finite (flt_of_int f64 1)" "is_finite (flt_of_int f64 2)"
    by (simp_all add: flt_eval)
  ultimately show ?thesis
    using min_max_correct[of "Some ''v''" "[rec_a, rec_b]"] by (auto simp: field_key_def)
qed

end
