(* ===== verification/Op_Join.thy ===== *)
theory Op_Join
  imports Ops_Base
begin

text \<open>
  \<open>src/src/worker/ops/join.rs\<close>: the hash join of two partitions. The hash map from keys to right
  records is only looked up, never iterated. A right record counts as matched by its position:
  the code searches the first index whose key and record equal the one at hand.
\<close>

section \<open>Records\<close>

fun as_object :: "json \<Rightarrow> obj option" where
  "as_object (JObject m) = Some m"
| "as_object _ = None"

definition extract_key :: "serde_api \<Rightarrow> obj \<Rightarrow> string \<Rightarrow> (error, string) res" where
  "extract_key S m key =
     (case obj_get m key of
        None \<Rightarrow> Err (JoinE (JoinMissingKey key))
      | Some (JString s) \<Rightarrow> Ok s
      | Some (JNumber n) \<Rightarrow> Ok (number_to_string S n)
      | Some _ \<Rightarrow> Err (JoinE InvalidKey))"

definition prefix_fields :: "obj \<Rightarrow> string \<Rightarrow> obj" where
  "prefix_fields m prefix = fold (\<lambda>(k, v). obj_insert (prefix @ k) v) m []"

definition combine_records :: "obj \<Rightarrow> obj \<Rightarrow> obj" where
  "combine_records l r = obj_insert_all (prefix_fields r ''right_'') (prefix_fields l ''left_'')"

definition combine_left_only :: "obj \<Rightarrow> obj" where
  "combine_left_only l = obj_insert (''right_'' @ ''missing'') JNull (prefix_fields l ''left_'')"

definition combine_right_only :: "obj \<Rightarrow> obj" where
  "combine_right_only r = obj_insert (''left_'' @ ''missing'') JNull (prefix_fields r ''right_'')"

section \<open>The operator\<close>

record join_op =
  join_key :: string
  join_join_type :: join_type

definition keyed_record :: "serde_api \<Rightarrow> join_op \<Rightarrow> json \<Rightarrow> (error, string \<times> obj) res" where
  "keyed_record S op r =
     (case as_object r of
        None \<Rightarrow> Err (JoinE NonObject)
      | Some m \<Rightarrow> res_bind (extract_key S m (join_key op)) (\<lambda>k. Ok (k, m)))"

text \<open>The two indexes over the right records.\<close>

definition add_right :: "(string \<rightharpoonup> obj list) \<Rightarrow> string \<times> obj \<Rightarrow> (string \<rightharpoonup> obj list)" where
  "add_right rm = (\<lambda>(k, m). rm(k \<mapsto> (case rm k of None \<Rightarrow> [] | Some ms \<Rightarrow> ms) @ [m]))"

fun index_right :: "serde_api \<Rightarrow> join_op \<Rightarrow> (string \<rightharpoonup> obj list) \<Rightarrow> (string \<times> obj) list \<Rightarrow>
    json list \<Rightarrow> (error, (string \<rightharpoonup> obj list) \<times> (string \<times> obj) list) res" where
  "index_right S op rm idx [] = Ok (rm, idx)"
| "index_right S op rm idx (r # rs) =
     res_bind (keyed_record S op r) (\<lambda>km. index_right S op (add_right rm km) (idx @ [km]) rs)"

fun position :: "('a \<Rightarrow> bool) \<Rightarrow> 'a list \<Rightarrow> nat option" where
  "position P [] = None"
| "position P (x # xs) = (if P x then Some 0 else map_option Suc (position P xs))"

definition match_right ::
    "(string \<times> obj) list \<Rightarrow> string \<Rightarrow> obj \<Rightarrow> bool list \<times> obj list \<Rightarrow> obj \<Rightarrow> bool list \<times> obj list" where
  "match_right idx lkey lobj = (\<lambda>(matched, out) robj.
     (case position (\<lambda>(k, m). k = lkey \<and> obj_eq m robj) idx of
        Some pos \<Rightarrow> matched[pos := True]
      | None \<Rightarrow> matched,
      out @ [combine_records lobj robj]))"

definition join_one :: "join_op \<Rightarrow> (string \<rightharpoonup> obj list) \<Rightarrow> (string \<times> obj) list \<Rightarrow>
    bool list \<times> obj list \<Rightarrow> string \<times> obj \<Rightarrow> bool list \<times> obj list" where
  "join_one op rm idx st = (\<lambda>(lkey, lobj).
     case rm lkey of
       Some rvec \<Rightarrow> foldl (match_right idx lkey lobj) st rvec
     | None \<Rightarrow>
         if join_join_type op \<in> {LeftJoin, Full}
         then (fst st, snd st @ [combine_left_only lobj]) else st)"

fun join_left :: "serde_api \<Rightarrow> join_op \<Rightarrow> (string \<rightharpoonup> obj list) \<Rightarrow> (string \<times> obj) list \<Rightarrow>
    bool list \<times> obj list \<Rightarrow> json list \<Rightarrow> (error, bool list \<times> obj list) res" where
  "join_left S op rm idx st [] = Ok st"
| "join_left S op rm idx st (l # ls) =
     res_bind (keyed_record S op l) (\<lambda>kl. join_left S op rm idx (join_one op rm idx st kl) ls)"

definition join_right :: "join_op \<Rightarrow> (string \<times> obj) list \<Rightarrow> bool list \<Rightarrow> obj list" where
  "join_right op idx matched =
     (if join_join_type op \<in> {RightJoin, Full}
      then map (\<lambda>((k, m), _). combine_right_only m) (filter (\<lambda>(_, b). \<not> b) (zip idx matched))
      else [])"

definition join_records :: "serde_api \<Rightarrow> join_op \<Rightarrow> json list \<Rightarrow> json list \<Rightarrow> (error, json list) res" where
  "join_records S op left right =
     res_bind (index_right S op Map.empty [] right) (\<lambda>(rm, idx).
     res_bind (join_left S op rm idx (replicate (length idx) False, []) left) (\<lambda>(matched, out).
       Ok (map JObject (out @ join_right op idx matched))))"

definition join_execute ::
    "serde_api \<Rightarrow> join_op \<Rightarrow> partition_data list \<Rightarrow> partition_data list fsio" where
  "join_execute S op ps =
     (case ps of
        [left, right] \<Rightarrow>
          io_bind (into_parts S left) (\<lambda>(_, _, left_records).
          io_bind (into_parts S right) (\<lambda>(_, _, right_records).
          io_bind (io_lift (join_records S op left_records right_records)) (\<lambda>output.
          io_bind (from_records S (min (partition_id left) (partition_id right)) (part_limit left)
                    (part_path left) output) (\<lambda>result.
            io_return [result]))))
      | _ \<Rightarrow> io_lift (Err (JoinE (WrongInputCount (length ps)))))"

section \<open>Lemmas: indexes\<close>

definition rows_with :: "string \<Rightarrow> (string \<times> obj) list \<Rightarrow> obj list" where
  "rows_with k idx = map snd (filter (\<lambda>km. fst km = k) idx)"

definition right_map_of :: "(string \<times> obj) list \<Rightarrow> (string \<rightharpoonup> obj list)" where
  "right_map_of idx = (\<lambda>k. if rows_with k idx = [] then None else Some (rows_with k idx))"

lemma rows_with_simps [simp]:
  "rows_with k [] = []"
  "rows_with k ((k', m) # idx) = (if k' = k then m # rows_with k idx else rows_with k idx)"
  "rows_with k (idx @ idx') = rows_with k idx @ rows_with k idx'"
  by (simp_all add: rows_with_def)

lemma add_right_map: "add_right (right_map_of idx) km = right_map_of (idx @ [km])"
  by (cases km) (auto simp: add_right_def right_map_of_def fun_eq_iff)

lemma index_right_eq:
  "index_right S op (right_map_of idx) idx rs =
     res_bind (res_mapM (keyed_record S op) rs) (\<lambda>kms. Ok (right_map_of (idx @ kms), idx @ kms))"
proof (induction rs arbitrary: idx)
  case Nil
  then show ?case by simp
next
  case (Cons r rs)
  show ?case
  proof (cases "keyed_record S op r")
    case (Ok km)
    with Cons.IH[of "idx @ [km]"] show ?thesis
      by (cases "res_mapM (keyed_record S op) rs") (simp_all add: add_right_map)
  qed simp_all
qed

lemma right_map_empty: "right_map_of [] = Map.empty"
  by (simp add: right_map_of_def fun_eq_iff)

lemma position_Some:
  "position P xs = Some i \<longleftrightarrow> i < length xs \<and> P (xs ! i) \<and> (\<forall>j < i. \<not> P (xs ! j))"
proof (induction xs arbitrary: i)
  case Nil
  then show ?case by simp
next
  case (Cons x xs)
  show ?case
  proof (cases i)
    case 0
    then show ?thesis by auto
  next
    case (Suc n)
    with Cons.IH[of n] show ?thesis by (auto simp: less_Suc_eq_0_disj)
  qed
qed

section \<open>Lemmas: the loop over the left records\<close>

definition left_rows :: "join_op \<Rightarrow> (string \<times> obj) list \<Rightarrow> string \<times> obj \<Rightarrow> obj list" where
  "left_rows op idx = (\<lambda>(k, l).
     if rows_with k idx = [] then
       (if join_join_type op \<in> {LeftJoin, Full} then [combine_left_only l] else [])
     else map (combine_records l) (rows_with k idx))"

definition mark_row :: "(string \<times> obj) list \<Rightarrow> string \<Rightarrow> bool list \<Rightarrow> obj \<Rightarrow> bool list" where
  "mark_row idx k matched m =
     (case position (\<lambda>(k', m'). k' = k \<and> obj_eq m' m) idx of
        Some pos \<Rightarrow> matched[pos := True] | None \<Rightarrow> matched)"

definition mark_rows :: "(string \<times> obj) list \<Rightarrow> bool list \<Rightarrow> string \<times> obj \<Rightarrow> bool list" where
  "mark_rows idx matched kl = foldl (mark_row idx (fst kl)) matched (rows_with (fst kl) idx)"

lemma match_right_fold:
  "foldl (match_right idx k l) (matched, out) ms =
     (foldl (mark_row idx k) matched ms, out @ map (combine_records l) ms)"
  by (induction ms arbitrary: matched out) (simp_all add: match_right_def mark_row_def)

lemma join_one_eq:
  "join_one op (right_map_of idx) idx (matched, out) kl =
     (mark_rows idx matched kl, out @ left_rows op idx kl)"
  by (cases kl)
    (simp add: join_one_def right_map_of_def match_right_fold mark_rows_def left_rows_def)

lemma join_left_eq:
  "join_left S op (right_map_of idx) idx (matched, out) ls =
     res_bind (res_mapM (keyed_record S op) ls) (\<lambda>kls.
       Ok (foldl (mark_rows idx) matched kls, out @ concat (map (left_rows op idx) kls)))"
proof (induction ls arbitrary: matched out)
  case Nil
  then show ?case by simp
next
  case (Cons l ls)
  show ?case
  proof (cases "keyed_record S op l")
    case (Ok kl)
    with Cons.IH show ?thesis
      by (cases "res_mapM (keyed_record S op) ls") (simp_all add: join_one_eq)
  qed simp_all
qed

lemma length_mark_row [simp]: "length (mark_row idx k matched m) = length matched"
  by (simp add: mark_row_def split: option.splits)

lemma length_mark_fold [simp]: "length (foldl (mark_row idx k) matched ms) = length matched"
  by (induction ms arbitrary: matched) simp_all

lemma length_mark_rows [simp]: "length (foldl (mark_rows idx) matched kls) = length matched"
  by (induction kls arbitrary: matched) (simp_all add: mark_rows_def)

text \<open>
  No two equal rows: every row is found at its own place. (Equality is that of the source; a
  row differs from itself only if it contains a float that is not a number, which JSON text
  cannot express.)
\<close>

definition rows_distinct :: "(string \<times> obj) list \<Rightarrow> bool" where
  "rows_distinct idx \<longleftrightarrow>
     (\<forall>i < length idx. obj_eq (snd (idx ! i)) (snd (idx ! i)) \<and>
        (\<forall>j < i. fst (idx ! j) = fst (idx ! i) \<longrightarrow> \<not> obj_eq (snd (idx ! j)) (snd (idx ! i))))"

lemma position_own:
  assumes "rows_distinct idx" "i < length idx" "idx ! i = (k, m)"
  shows "position (\<lambda>(k', m'). k' = k \<and> obj_eq m' m) idx = Some i"
  using assms unfolding position_Some rows_distinct_def by (auto simp: case_prod_unfold)

lemma mark_row_nth:
  assumes "rows_distinct idx" "length matched = length idx" "m \<in> set (rows_with k idx)"
  shows "\<exists>i < length idx. idx ! i = (k, m) \<and> mark_row idx k matched m = matched[i := True]"
proof -
  from assms(3) obtain i where "i < length idx" "idx ! i = (k, m)"
    by (auto simp: rows_with_def in_set_conv_nth)
  with position_own[OF assms(1)] show ?thesis by (auto simp: mark_row_def)
qed

lemma mark_fold_nth:
  assumes "rows_distinct idx" "i < length idx"
  shows "length matched = length idx \<Longrightarrow> set ms \<subseteq> set (rows_with k idx) \<Longrightarrow>
    foldl (mark_row idx k) matched ms ! i \<longleftrightarrow> matched ! i \<or> (fst (idx ! i) = k \<and> snd (idx ! i) \<in> set ms)"
proof (induction ms arbitrary: matched)
  case Nil
  then show ?case by simp
next
  case (Cons m ms)
  from Cons.prems obtain j where j: "j < length idx" "idx ! j = (k, m)"
    "mark_row idx k matched m = matched[j := True]"
    using mark_row_nth[OF assms(1) Cons.prems(1), of m k] by auto
  have "i = j" if "idx ! i = (k, m)"
    using position_own[OF assms(1) j(1,2)] position_own[OF assms that] by simp
  then have "matched[j := True] ! i \<longleftrightarrow> matched ! i \<or> idx ! i = (k, m)"
    using j Cons.prems(1) assms(2) by (auto simp: nth_list_update)
  with Cons.IH[of "matched[j := True]"] Cons.prems j(3) show ?case
    by (auto simp: prod_eq_iff)
qed

lemma mark_rows_nth:
  assumes "rows_distinct idx" "i < length idx"
  shows "length matched = length idx \<Longrightarrow>
    foldl (mark_rows idx) matched kls ! i \<longleftrightarrow> matched ! i \<or> fst (idx ! i) \<in> fst ` set kls"
proof (induction kls arbitrary: matched)
  case Nil
  then show ?case by simp
next
  case (Cons kl kls)
  have "snd (idx ! i) \<in> set (rows_with (fst (idx ! i)) idx)"
    using assms(2) by (auto simp: rows_with_def)
  then have "mark_rows idx matched kl ! i \<longleftrightarrow> matched ! i \<or> fst (idx ! i) = fst kl"
    unfolding mark_rows_def using mark_fold_nth[OF assms Cons.prems, of "rows_with (fst kl) idx" "fst kl"]
    by auto
  with Cons show ?case by (auto simp: mark_rows_def)
qed

lemma filter_zip_nth:
  assumes "length bs = length xs" "\<And>i. i < length xs \<Longrightarrow> bs ! i \<longleftrightarrow> P (xs ! i)"
  shows "map fst (filter (\<lambda>(_, b). \<not> b) (zip xs bs)) = filter (\<lambda>x. \<not> P x) xs"
proof -
  have "bs = map P xs"
    using assms by (intro nth_equalityI) auto
  then show ?thesis
    by (induction xs arbitrary: bs) auto
qed

text \<open>The specification of a join on keyed rows.\<close>

definition join_spec :: "join_op \<Rightarrow> (string \<times> obj) list \<Rightarrow> (string \<times> obj) list \<Rightarrow> obj list" where
  "join_spec op lks rks =
     concat (map (left_rows op rks) lks) @
     (if join_join_type op \<in> {RightJoin, Full}
      then map (combine_right_only \<circ> snd) (filter (\<lambda>(k, _). k \<notin> fst ` set lks) rks) else [])"

lemma join_records_eq:
  assumes "res_mapM (keyed_record S op) left = Ok lks" "res_mapM (keyed_record S op) right = Ok rks"
  shows "join_records S op left right =
    Ok (map JObject (concat (map (left_rows op rks) lks) @
      join_right op rks (foldl (mark_rows rks) (replicate (length rks) False) lks)))"
proof -
  have "index_right S op Map.empty [] right = Ok (right_map_of rks, rks)"
    using index_right_eq[of S op "[]" right] assms(2) by (simp add: right_map_empty)
  with join_left_eq[of S op rks] assms(1) show ?thesis by (simp add: join_records_def)
qed

lemma join_records_spec:
  assumes "res_mapM (keyed_record S op) left = Ok lks" "res_mapM (keyed_record S op) right = Ok rks"
    and "rows_distinct rks"
  shows "join_records S op left right = Ok (map JObject (join_spec op lks rks))"
proof -
  let ?m = "foldl (mark_rows rks) (replicate (length rks) False) lks"
  have "map fst (filter (\<lambda>(_, b). \<not> b) (zip rks ?m)) = filter (\<lambda>x. \<not> fst x \<in> fst ` set lks) rks"
    by (rule filter_zip_nth) (simp_all add: mark_rows_nth[OF assms(3)])
  then have "map (combine_right_only \<circ> snd) (map fst (filter (\<lambda>(_, b). \<not> b) (zip rks ?m))) =
      map (combine_right_only \<circ> snd) (filter (\<lambda>(k, _). k \<notin> fst ` set lks) rks)"
    by (simp add: case_prod_unfold)
  then show ?thesis
    by (simp add: join_records_eq[OF assms(1,2)] join_spec_def join_right_def case_prod_unfold comp_def)
qed

section \<open>Lemmas: combined rows\<close>

lemma prefix_fields_insert_all:
  "prefix_fields m p = obj_insert_all (map (\<lambda>(k, v). (p @ k, v)) m) []"
  by (simp add: prefix_fields_def obj_insert_all_def fold_map comp_def case_prod_unfold)

lemma map_of_prefixed:
  "map_of (map (\<lambda>(k, v). (p @ k, v)) m) q = Option.bind (strip_prefix p q) (map_of m)"
proof (induction m)
  case Nil
  then show ?case by (cases "strip_prefix p q") simp_all
next
  case (Cons kv m)
  then show ?case by (cases kv; cases "strip_prefix p q") (auto simp: strip_prefix_eq)
qed

lemma prefix_fields_get:
  assumes "obj_ok m"
  shows "obj_get (prefix_fields m p) q = Option.bind (strip_prefix p q) (obj_get m)"
proof -
  have "distinct (map fst (map (\<lambda>(k, v). (p @ k, v)) m))"
    using obj_ok_distinct[OF assms] by (simp add: distinct_map comp_def case_prod_unfold inj_on_def)
  from obj_insert_all_get[OF this, of "[]" q] show ?thesis
    by (simp add: prefix_fields_insert_all map_of_prefixed obj_get_def[abs_def] split: option.splits)
qed

lemma prefix_fields_ok: "obj_ok (prefix_fields m p)"
  by (simp add: prefix_fields_insert_all obj_insert_all_ok)

section \<open>The operator\<close>

lemma join_run:
  assumes "parts_hold S s [l, r] [ls, rs]" "join_records S op ls rs = Ok out" "list_all (reads_back S) out"
  shows "\<exists>p s'. join_execute S op [l, r] s = (Ok [p], s') \<and> parts_hold S s' [p] [out] \<and>
    partition_id p = min (partition_id l) (partition_id r) \<and>
    changes_only {part_path l, part_path r} s s'"
proof -
  from assms(1) have lr: "partition_holds S s l ls" "partition_holds S s r rs" "part_path r \<noteq> part_path l"
    by (auto simp: parts_hold_def)
  obtain s1 where s1: "into_parts S l s = (Ok (part_limit l, part_path l, ls), s1)"
    "path_vacant (part_path l) s1" "changes_only {part_path l} s s1"
    by (rule into_parts_holds[OF lr(1)])
  have "partition_holds S s1 r rs"
    using lr(3) by (intro partition_holds_frame[OF lr(2) s1(3)]) simp
  then obtain s2 where s2: "into_parts S r s1 = (Ok (part_limit r, part_path r, rs), s2)"
    "changes_only {part_path r} s1 s2"
    by (rule into_parts_holds)
  have "path_vacant (part_path l) s2"
    using lr(3) by (intro path_vacant_frame[OF s1(2) s2(2)]) simp
  from from_records_holds[OF this assms(3)] obtain p s3 where
    p: "from_records S (min (partition_id l) (partition_id r)) (part_limit l) (part_path l) out s2 = (Ok p, s3)"
    "partition_holds S s3 p out" "partition_id p = min (partition_id l) (partition_id r)"
    "changes_only {part_path l} s2 s3"
    by blast
  have "changes_only {part_path l, part_path r} s s3"
    using changes_only_trans[OF changes_only_trans[OF s1(3) s2(2)] p(4)] by (simp add: insert_commute)
  with p s1(1) s2(1) assms(2) show ?thesis
    by (simp add: join_execute_def io_bind_def io_lift_def io_return_def)
qed

fun join_meaning :: "serde_api \<Rightarrow> join_op \<Rightarrow> json list list \<Rightarrow> (error, json list list) res" where
  "join_meaning S op [ls, rs] = res_bind (join_records S op ls rs) (\<lambda>out. Ok [out])"
| "join_meaning S op rss = Err (JoinE (WrongInputCount (length rss)))"

interpretation join_op: executable_op S "join_execute S op" "join_meaning S op" "\<lambda>_ _. True" part_paths
  "\<lambda>ps. [min (partition_id (hd ps)) (partition_id (last ps))]" for S op
proof
  show "\<exists>ps' s'. join_execute S op ps s = (Ok ps', s') \<and> parts_hold S s' ps' outs \<and>
      map partition_id ps' = [min (partition_id (hd ps)) (partition_id (last ps))] \<and>
      changes_only (part_paths ps) s s'"
    if hyps: "parts_hold S s ps rss" "join_meaning S op rss = Ok outs" "readable S outs" for s ps rss outs
  proof -
    from hyps(2) obtain ls rs out where rss: "rss = [ls, rs]" "join_records S op ls rs = Ok out" "outs = [out]"
      by (cases "(S, op, rss)" rule: join_meaning.cases) (auto elim!: res_bind_OkE)
    then obtain l r where ps: "ps = [l, r]"
      using parts_hold_length[OF hyps(1)] by (auto simp: length_Suc_conv)
    with join_run[of S s l r ls rs op out] rss hyps show ?thesis by auto
  qed
qed

section \<open>Properties\<close>

text \<open>
  Claim C25. A join of two partitions whose records all carry a key: every left record is
  combined with every right record of the same key, in order; a left join keeps left records
  without a partner, a right join appends the right records whose key occurs on no left
  record, a full join does both. It holds when no two right records are equal.
\<close>

theorem join_correct:
  assumes "parts_hold S s [l, r] [ls, rs]"
    and "res_mapM (keyed_record S op) ls = Ok lks" "res_mapM (keyed_record S op) rs = Ok rks"
    and "rows_distinct rks" "list_all (reads_back S) (map JObject (join_spec op lks rks))"
  shows "\<exists>p s'. join_execute S op [l, r] s = (Ok [p], s') \<and>
    parts_hold S s' [p] [map JObject (join_spec op lks rks)] \<and>
    partition_id p = min (partition_id l) (partition_id r)"
  using join_run[OF assms(1) join_records_spec[OF assms(2-4)] assms(5)] by blast

theorem join_correct_witness:
  "\<exists>p s'. join_execute example_serde \<lparr>join_key = ''k'', join_join_type = Inner\<rparr>
      [example_part, partition_empty 1 9 ''/d/t''] example_fs = (Ok [p], s') \<and>
    parts_hold example_serde s' [p] [[]] \<and> partition_id p = 1"
proof -
  let ?op = "\<lparr>join_key = ''k'', join_join_type = Inner\<rparr>"
  have parts: "parts_hold example_serde example_fs [example_part, partition_empty 1 9 ''/d/t'']
      [[rec_a, rec_b], []]"
    using example_part_holds partition_empty_holds[of "''/d/t''" example_fs example_serde 1 9]
    by (simp add: parts_hold_Cons) (simp add: partition_empty_def cache_new_def)
  have lks: "res_mapM (keyed_record example_serde ?op) [rec_a, rec_b] =
      Ok [(''a'', [(''k'', JString ''a''), (''v'', JNumber (NInt 1))]),
          (''b'', [(''k'', JString ''b''), (''v'', JNumber (NInt 2))])]"
    by (simp add: keyed_record_def rec_a_def rec_b_def extract_key_def obj_get_def)
  have pid: "partition_id (partition_empty n 9 ''/d/t'') = n" for n
    by (simp add: partition_empty_def)
  show ?thesis
    using join_correct[OF parts lks, of "[]"]
    by (auto simp: rows_distinct_def join_spec_def left_rows_def pid)
qed

text \<open>
  Joining anything but two partitions is an error that names their number, and no
  partition is drained. (The inputs of a join are the outputs of its parents one after the
  other, so a parent that shuffled to two or more partitions leads here.)
\<close>

theorem join_wrong_count:
  assumes "length ps \<noteq> 2"
  shows "join_execute S op ps s = (Err (JoinE (WrongInputCount (length ps))), s)"
  using assms by (auto simp: join_execute_def io_lift_def split: list.splits)

theorem join_wrong_count_witness:
  "join_execute example_serde \<lparr>join_key = ''k'', join_join_type = Inner\<rparr> [example_part] example_fs =
    (Err (JoinE (WrongInputCount 1)), example_fs)"
  using join_wrong_count[of "[example_part]"] by simp

text \<open>
  With two equal records on the right, a right (or full) join reports a matched
  record as unmatched: the search for the position of the record always finds the first of
  the two, so the second is emitted once more, without a left part.
\<close>

theorem join_duplicate_right_row:
  assumes "keyed_record S op l = Ok (k, lo)" "keyed_record S op r = Ok (k, ro)" "obj_eq ro ro"
    and "join_join_type op \<in> {RightJoin, Full}"
  shows "join_records S op [l] [r, r] =
    Ok (map JObject [combine_records lo ro, combine_records lo ro, combine_right_only ro])"
proof -
  have "res_mapM (keyed_record S op) [l] = Ok [(k, lo)]"
    "res_mapM (keyed_record S op) [r, r] = Ok [(k, ro), (k, ro)]"
    using assms(1,2) by simp_all
  from join_records_eq[OF this] assms(3,4) show ?thesis
    by (simp add: left_rows_def join_right_def mark_rows_def mark_row_def)
qed

theorem join_duplicate_right_row_witness:
  "join_records example_serde \<lparr>join_key = ''k'', join_join_type = RightJoin\<rparr>
      [JObject [(''k'', JString ''a'')]] [JObject [(''k'', JString ''a'')], JObject [(''k'', JString ''a'')]] =
    Ok [JObject [(''left_k'', JString ''a''), (''right_k'', JString ''a'')],
        JObject [(''left_k'', JString ''a''), (''right_k'', JString ''a'')],
        JObject [(''left_missing'', JNull), (''right_k'', JString ''a'')]]"
proof -
  let ?o = "[(''k'', JString ''a'')]"
  have "combine_records ?o ?o = [(''left_k'', JString ''a''), (''right_k'', JString ''a'')]"
    "combine_right_only ?o = [(''left_missing'', JNull), (''right_k'', JString ''a'')]"
    by code_simp+
  then show ?thesis
    using join_duplicate_right_row[of example_serde "\<lparr>join_key = ''k'', join_join_type = RightJoin\<rparr>"
        "JObject ?o" "''a''" ?o "JObject ?o" ?o]
    by (simp add: keyed_record_def extract_key_def obj_get_def)
qed

text \<open>
  A combined row holds the fields of both sides under their prefixes and nothing
  else, so no field of either record is lost or overwritten.
\<close>

theorem combined_row_fields:
  assumes "obj_ok l" "obj_ok r"
  shows "obj_get (combine_records l r) q =
    (case strip_prefix ''right_'' q of
       Some f \<Rightarrow> obj_get r f
     | None \<Rightarrow> Option.bind (strip_prefix ''left_'' q) (obj_get l))"
proof -
  have "strip_prefix ''left_'' q = None" if "strip_prefix ''right_'' q = Some f" for f
    using that by (auto simp: strip_prefix_eq)
  moreover have "obj_get (combine_records l r) q =
      (case obj_get (prefix_fields r ''right_'') q of
         Some v \<Rightarrow> Some v | None \<Rightarrow> obj_get (prefix_fields l ''left_'') q)"
    unfolding combine_records_def
    using obj_insert_all_get[OF obj_ok_distinct[OF prefix_fields_ok[of r "''right_''"]], of "prefix_fields l ''left_''" q]
    by (simp add: obj_get_def)
  ultimately show ?thesis
    using assms by (auto simp: prefix_fields_get split: option.splits)
qed

theorem combined_row_fields_witness:
  "obj_get (combine_records [(''k'', JNull)] [(''k'', JBool True)]) ''right_k'' = Some (JBool True)"
  using combined_row_fields[of "[(''k'', JNull)]" "[(''k'', JBool True)]" "''right_k''"]
  by (simp add: obj_ok_def obj_get_def)

end
