(* ===== verification/Op_Shuffle.thy ===== *)
theory Op_Shuffle
  imports Ops_Base "HOL-Library.Sublist"
begin

text \<open>
  \<open>src/src/worker/ops/shuffle.rs\<close>: records are distributed over buckets by the hash of a field.
  The algorithm of \<open>DefaultHasher\<close> is left open by its documentation, so the hash of a value
  is the argument \<open>hash\<close>; the directory for temporary files, used when there is no input, is
  the argument \<open>tmp\<close>.
\<close>

section \<open>Buckets\<close>

datatype hash_key = HashStr string | HashBool bool | HashInt int

type_synonym hasher = "hash_key \<Rightarrow> 64 word"

definition bucket_key :: "serde_api \<Rightarrow> json \<Rightarrow> string \<Rightarrow> hash_key" where
  "bucket_key S v key =
     (case v of
        JObject m \<Rightarrow>
          (case obj_get m key of
             Some (JString s) \<Rightarrow> HashStr s
           | Some (JNumber n) \<Rightarrow> HashStr (number_to_string S n)
           | Some (JBool b) \<Rightarrow> HashBool b
           | _ \<Rightarrow> HashInt 0)
      | _ \<Rightarrow> HashInt 0)"

definition compute_bucket :: "hasher \<Rightarrow> serde_api \<Rightarrow> json \<Rightarrow> string \<Rightarrow> nat \<Rightarrow> nat" where
  "compute_bucket hash S v key parts = unat (hash (bucket_key S v key)) mod parts"

record shuffle_by_key_op =
  sh_key :: string
  sh_total_partitions :: nat

definition add_record ::
    "hasher \<Rightarrow> serde_api \<Rightarrow> shuffle_by_key_op \<Rightarrow> json list list \<Rightarrow> json \<Rightarrow> json list list" where
  "add_record hash S op buckets r =
     (let target = compute_bucket hash S r (sh_key op) (sh_total_partitions op)
      in buckets[target := buckets ! target @ [r]])"

definition bucket_path :: "path \<Rightarrow> nat \<Rightarrow> path" where
  "bucket_path base idx = path_join base (''bucket-'' @ show_nat idx @ ''.bin'')"

definition spill_base :: "path \<Rightarrow> partition_data list \<Rightarrow> path" where
  "spill_base tmp ps =
     (case ps of
        [] \<Rightarrow> tmp
      | p # _ \<Rightarrow> (case path_parent (part_path p) of None \<Rightarrow> tmp | Some d \<Rightarrow> d))"

definition shuffle_limit :: "partition_data list \<Rightarrow> nat" where
  "shuffle_limit ps = (case ps of [] \<Rightarrow> 2 ^ 64 - 1 | p # _ \<Rightarrow> part_limit p)"

definition shuffle_execute :: "hasher \<Rightarrow> path \<Rightarrow> serde_api \<Rightarrow> shuffle_by_key_op \<Rightarrow>
    partition_data list \<Rightarrow> partition_data list fsio" where
  "shuffle_execute hash tmp S op ps =
     (if sh_total_partitions op = 0 then io_lift (Err (ShuffleE InvalidPartitions))
      else
        io_bind (gather S ps) (\<lambda>records.
          let buckets = foldl (add_record hash S op) (replicate (sh_total_partitions op) []) records
          in io_mapM (\<lambda>(idx, rs).
               from_records S idx (shuffle_limit ps) (bucket_path (spill_base tmp ps) idx) rs)
               (enumerate 0 buckets)))"

section \<open>Lemmas\<close>

definition bucket :: "hasher \<Rightarrow> serde_api \<Rightarrow> shuffle_by_key_op \<Rightarrow> json list \<Rightarrow> nat \<Rightarrow> json list" where
  "bucket hash S op rs i =
     filter (\<lambda>r. compute_bucket hash S r (sh_key op) (sh_total_partitions op) = i) rs"

definition shuffled :: "hasher \<Rightarrow> serde_api \<Rightarrow> shuffle_by_key_op \<Rightarrow> json list \<Rightarrow> json list list" where
  "shuffled hash S op rs = map (bucket hash S op rs) [0..<sh_total_partitions op]"

lemma compute_bucket_less: "0 < n \<Longrightarrow> compute_bucket hash S v key n < n"
  by (simp add: compute_bucket_def)

lemma fold_add_record:
  assumes "0 < sh_total_partitions op"
  shows "foldl (add_record hash S op) (replicate (sh_total_partitions op) []) rs = shuffled hash S op rs"
proof (induction rs rule: rev_induct)
  case Nil
  then show ?case
    by (intro nth_equalityI) (simp_all add: shuffled_def bucket_def)
next
  case (snoc r rs)
  let ?t = "compute_bucket hash S r (sh_key op) (sh_total_partitions op)"
  have "?t < sh_total_partitions op" using assms by (rule compute_bucket_less)
  then have "(shuffled hash S op rs)[?t := shuffled hash S op rs ! ?t @ [r]] = shuffled hash S op (rs @ [r])"
    by (intro nth_equalityI) (auto simp: shuffled_def bucket_def nth_list_update)
  with snoc show ?case by (simp add: add_record_def Let_def)
qed

lemma bucket_path_inject: "bucket_path base i = bucket_path base j \<longleftrightarrow> i = j"
  using path_join_inject[of base "''bucket-'' @ show_nat i @ ''.bin''" "''bucket-'' @ show_nat j @ ''.bin''"]
  by (auto simp: bucket_path_def slash_def)

text \<open>The buckets partition the records.\<close>

lemma mset_shuffled:
  assumes "0 < sh_total_partitions op"
  shows "mset (concat (shuffled hash S op rs)) = mset rs"
proof -
  have "mset (concat (map (\<lambda>i. filter (\<lambda>r. f r = i) rs) [0..<n])) = filter_mset (\<lambda>r. f r < n) (mset rs)"
    for f :: "json \<Rightarrow> nat" and n
  proof (induction n)
    case 0
    then show ?case by simp
  next
    case (Suc n)
    have "filter_mset (\<lambda>r. f r < Suc n) M = filter_mset (\<lambda>r. f r < n) M + filter_mset (\<lambda>r. f r = n) M" for M
      by (induction M) auto
    with Suc show ?case by simp
  qed
  then show ?thesis
    using compute_bucket_less[OF assms]
    by (simp add: shuffled_def bucket_def[abs_def] filter_mset_True)
qed

text \<open>Writing one partition per bucket.\<close>

lemma write_buckets:
  assumes "\<And>i. i < k + length rss \<Longrightarrow> k \<le> i \<Longrightarrow> path_vacant (bucket_path base i) s" "readable S rss"
  shows "\<exists>ps' s'. io_mapM (\<lambda>(idx, rs). from_records S idx limit (bucket_path base idx) rs) (enumerate k rss) s =
      (Ok ps', s') \<and> parts_hold S s' ps' rss \<and> map partition_id ps' = [k..<k + length rss] \<and>
    map part_path ps' = map (bucket_path base) [k..<k + length rss] \<and>
    list_all (\<lambda>p. part_limit p = limit) ps' \<and>
    changes_only (bucket_path base ` {k..<k + length rss}) s s'"
  using assms
proof (induction rss arbitrary: k s)
  case Nil
  then show ?case by (simp add: io_return_def)
next
  case (Cons rs rss)
  have "path_vacant (bucket_path base k) s" "list_all (reads_back S) rs"
    using Cons.prems by simp_all
  from from_records_holds[OF this, of k limit] obtain p s1 where
    p: "from_records S k limit (bucket_path base k) rs s = (Ok p, s1)" "partition_holds S s1 p rs"
    "partition_id p = k" "part_limit p = limit" "part_path p = bucket_path base k"
    "changes_only {bucket_path base k} s s1"
    by blast
  have "path_vacant (bucket_path base i) s1" if "i < Suc k + length rss" "Suc k \<le> i" for i
    using that by (intro path_vacant_frame[OF Cons.prems(1) p(6)]) (auto simp: bucket_path_inject)
  from Cons.IH[of "Suc k", OF this] Cons.prems(2) obtain ps' s' where
    ps': "io_mapM (\<lambda>(idx, rs). from_records S idx limit (bucket_path base idx) rs) (enumerate (Suc k) rss) s1 =
      (Ok ps', s')" "parts_hold S s' ps' rss" "map partition_id ps' = [Suc k..<Suc k + length rss]"
    "map part_path ps' = map (bucket_path base) [Suc k..<Suc k + length rss]"
    "list_all (\<lambda>p. part_limit p = limit) ps'"
    "changes_only (bucket_path base ` {Suc k..<Suc k + length rss}) s1 s'"
    by auto
  have paths: "part_paths ps' = bucket_path base ` {Suc k..<Suc k + length rss}"
    by (metis list.set_map set_upt ps'(4))
  have fresh: "bucket_path base k \<notin> bucket_path base ` {Suc k..<Suc k + length rss}"
    by (auto simp: bucket_path_inject)
  then have "partition_holds S s' p rs"
    by (intro partition_holds_frame[OF p(2) ps'(6)]) (simp add: p(5))
  with ps'(2) paths fresh have "parts_hold S s' (p # ps') (rs # rss)"
    by (simp add: parts_hold_Cons p(5))
  moreover have "changes_only (bucket_path base ` {k..<k + length (rs # rss)}) s s'"
    by (rule changes_only_mono[OF changes_only_trans[OF p(6) ps'(6)]]) auto
  ultimately show ?case
    using p ps' by (auto simp: io_bind_def io_return_def upt_rec)
qed

text \<open>The bucket files are free, or files of the inputs, which are drained first.\<close>

definition shuffle_ready :: "path \<Rightarrow> shuffle_by_key_op \<Rightarrow> partition_data list \<Rightarrow> fs \<Rightarrow> bool" where
  "shuffle_ready tmp op ps s \<longleftrightarrow> healthy s \<and>
     (\<forall>i < sh_total_partitions op. bucket_path (spill_base tmp ps) i \<in> part_paths ps \<or>
        path_vacant (bucket_path (spill_base tmp ps) i) s)"

lemma shuffle_run:
  assumes "parts_hold S s ps rss" "shuffle_ready tmp op ps s" "0 < sh_total_partitions op"
    and "readable S (shuffled hash S op (concat rss))"
  shows "\<exists>ps' s'. shuffle_execute hash tmp S op ps s = (Ok ps', s') \<and>
    parts_hold S s' ps' (shuffled hash S op (concat rss)) \<and>
    map partition_id ps' = [0..<sh_total_partitions op] \<and>
    map part_path ps' = map (bucket_path (spill_base tmp ps)) [0..<sh_total_partitions op] \<and>
    changes_only (part_paths ps \<union> bucket_path (spill_base tmp ps) ` {0..<sh_total_partitions op}) s s'"
proof -
  let ?base = "spill_base tmp ps" and ?n = "sh_total_partitions op"
  obtain s1 where s1: "gather S ps s = (Ok (concat rss), s1)" "changes_only (part_paths ps) s s1"
    "\<forall>q \<in> part_paths ps. path_vacant q s1"
    by (rule gather_holds[OF assms(1)])
  have "path_vacant (bucket_path ?base i) s1" if "i < ?n" for i
  proof -
    from assms(2) that have "bucket_path ?base i \<in> part_paths ps \<or> path_vacant (bucket_path ?base i) s"
      unfolding shuffle_ready_def by blast
    then show ?thesis using s1(3) path_vacant_frame[OF _ s1(2)] by blast
  qed
  with write_buckets[of 0 "shuffled hash S op (concat rss)" ?base s1 S "shuffle_limit ps"] assms(4)
  obtain ps' s' where
    "io_mapM (\<lambda>(idx, rs). from_records S idx (shuffle_limit ps) (bucket_path ?base idx) rs)
       (enumerate 0 (shuffled hash S op (concat rss))) s1 = (Ok ps', s')"
    "parts_hold S s' ps' (shuffled hash S op (concat rss))" "map partition_id ps' = [0..<?n]"
    "map part_path ps' = map (bucket_path ?base) [0..<?n]"
    "changes_only (bucket_path ?base ` {0..<?n}) s1 s'"
    by (auto simp: shuffled_def)
  with s1 assms(3) changes_only_trans[OF s1(2)] show ?thesis
    by (auto simp: shuffle_execute_def io_bind_def fold_add_record)
qed

interpretation shuffle_op: executable_op S "shuffle_execute hash tmp S op"
  "\<lambda>rss. if sh_total_partitions op = 0 then Err (ShuffleE InvalidPartitions)
         else Ok (shuffled hash S op (concat rss))"
  "shuffle_ready tmp op"
  "\<lambda>ps. part_paths ps \<union> bucket_path (spill_base tmp ps) ` {0..<sh_total_partitions op}"
  "\<lambda>_. [0..<sh_total_partitions op]" for S hash tmp op
proof
  show "\<exists>ps' s'. shuffle_execute hash tmp S op ps s = (Ok ps', s') \<and> parts_hold S s' ps' outs \<and>
      map partition_id ps' = [0..<sh_total_partitions op] \<and>
      changes_only (part_paths ps \<union> bucket_path (spill_base tmp ps) ` {0..<sh_total_partitions op}) s s'"
    if "parts_hold S s ps rss" "shuffle_ready tmp op ps s"
      "(if sh_total_partitions op = 0 then Err (ShuffleE InvalidPartitions)
        else Ok (shuffled hash S op (concat rss))) = Ok outs" "readable S outs" for s ps rss outs
  proof -
    from that(3) have "0 < sh_total_partitions op" "outs = shuffled hash S op (concat rss)"
      by (auto split: if_splits)
    with shuffle_run[OF that(1,2)] that(4) show ?thesis by blast
  qed
qed

section \<open>Properties\<close>

text \<open>
  Claim C23. A shuffle produces exactly the requested number of partitions, numbered from
  zero; together they hold the records of all inputs, each as often as before; two records
  with the same key value are in the same partition, and within a partition the records keep
  their order. Zero partitions are an error.
\<close>

theorem shuffle_correct:
  assumes "parts_hold S s ps rss" "shuffle_ready tmp op ps s"
    and "readable S (shuffled hash S op (concat rss))"
  shows "if sh_total_partitions op = 0
    then shuffle_execute hash tmp S op ps s = (Err (ShuffleE InvalidPartitions), s)
    else \<exists>ps' s' outs. shuffle_execute hash tmp S op ps s = (Ok ps', s') \<and> parts_hold S s' ps' outs \<and>
      map partition_id ps' = [0..<sh_total_partitions op] \<and>
      mset (concat outs) = mset (concat rss) \<and>
      (\<forall>i < length outs. subseq (outs ! i) (concat rss)) \<and>
      (\<forall>i j r r'. i < length outs \<longrightarrow> j < length outs \<longrightarrow> r \<in> set (outs ! i) \<longrightarrow> r' \<in> set (outs ! j) \<longrightarrow>
         bucket_key S r (sh_key op) = bucket_key S r' (sh_key op) \<longrightarrow> i = j)"
proof (cases "sh_total_partitions op = 0")
  case True
  then show ?thesis by (simp add: shuffle_execute_def io_lift_def)
next
  case False
  let ?outs = "shuffled hash S op (concat rss)"
  have "subseq (?outs ! i) (concat rss)" if "i < length ?outs" for i
    using that by (simp add: shuffled_def bucket_def)
  moreover have "i = j" if "i < length ?outs" "j < length ?outs" "r \<in> set (?outs ! i)" "r' \<in> set (?outs ! j)"
    "bucket_key S r (sh_key op) = bucket_key S r' (sh_key op)" for i j r r'
    using that by (auto simp: shuffled_def bucket_def compute_bucket_def)
  moreover have "mset (concat ?outs) = mset (concat rss)"
    using False by (intro mset_shuffled) simp
  moreover obtain ps' s' where "shuffle_execute hash tmp S op ps s = (Ok ps', s')"
    "parts_hold S s' ps' ?outs" "map partition_id ps' = [0..<sh_total_partitions op]"
    using shuffle_run[OF assms(1,2) _ assms(3)] False by auto
  ultimately show ?thesis using False by (simp del: mset_concat) blast
qed

theorem shuffle_correct_witness:
  "\<exists>ps' s' outs. shuffle_execute (\<lambda>_. 5) ''/tmp'' example_serde \<lparr>sh_key = ''k'', sh_total_partitions = 2\<rparr>
      [example_part] example_fs = (Ok ps', s') \<and> parts_hold example_serde s' ps' outs \<and>
    mset (concat outs) = {#rec_a, rec_b#}"
proof -
  let ?op = "\<lparr>sh_key = ''k'', sh_total_partitions = 2\<rparr>"
  have "shuffled (\<lambda>_. 5) example_serde ?op [rec_a, rec_b] = [[], [rec_a, rec_b]]"
    by (simp add: shuffled_def bucket_def compute_bucket_def upt_rec)
  then show ?thesis
    using shuffle_correct[OF example_part_holds, of "''/tmp''" ?op "\<lambda>_. 5"]
    by (auto simp: shuffle_ready_def)
qed

lemma path_parent_append:
  assumes "slash \<notin> set y" "x \<noteq> []"
  shows "path_parent (x @ slash # y) = Some x"
proof -
  have "dropWhile (\<lambda>c. c \<noteq> slash) (rev y @ slash # rev x) = slash # rev x"
    using assms(1) by (subst dropWhile_append2) auto
  with assms show ?thesis by (cases x) (auto simp: path_parent_def)
qed

lemma spill_path_parent:
  assumes "uuid_names_ok U"
  shows "path_parent (store_spill_path U st job stage part) =
    Some (path_join (root st) (uuid_to_string U job @ slash # show_nat stage))"
proof -
  let ?d = "uuid_to_string U job @ slash # show_nat stage"
  let ?f = "''spill-'' @ show_nat part @ ''.bin''"
  have d: "?d \<noteq> []" "hd ?d \<noteq> slash" "hd (?d @ slash # ?f) \<noteq> slash"
    using assms unfolding uuid_names_ok_def by (auto simp: hd_append dest: hd_in_set)
      (metis hd_in_set)+
  have "store_spill_path U st job stage part = path_join (root st) (?d @ slash # ?f)"
    by (simp add: store_spill_path_def slash_def)
  also have "\<dots> = path_join (root st) ?d @ slash # ?f"
    using d by (auto simp: path_join_def)
  finally show ?thesis
    using path_parent_append[of ?f "path_join (root st) ?d"] show_nat_no_char[of slash part] d(1)
    by (auto simp: slash_def is_digit_def path_join_def)
qed

text \<open>
  The spill files of the buckets do not depend on the task: all tasks of a job that
  run in one data directory derive the same bucket paths from their spill paths, whatever
  their partition, so buckets that go to disk in concurrent tasks share files.
\<close>

theorem bucket_files_shared:
  assumes "uuid_names_ok U" "part_path p = store_spill_path U st job stage part"
    and "part_path q = store_spill_path U st job stage part'"
  shows "bucket_path (spill_base tmp (p # ps)) i = bucket_path (spill_base tmp (q # qs)) i"
  using assms by (simp add: spill_base_def spill_path_parent)

theorem bucket_files_shared_witness:
  "bucket_path (spill_base ''/tmp'' [partition_empty 0 9 (store_spill_path example_uuid_api
       \<lparr>root = ''/d'', store_config = default_config\<rparr> 7 1 0)]) 4 =
   bucket_path (spill_base ''/tmp'' [partition_empty 1 9 (store_spill_path example_uuid_api
       \<lparr>root = ''/d'', store_config = default_config\<rparr> 7 1 1)]) 4"
  by (rule bucket_files_shared[OF example_uuid_names]) (simp_all add: partition_empty_def cache_new_def)

end
