(* ===== verification/Ops.thy ===== *)
theory Ops
  imports Op_Read Op_Filter Op_Map Op_Flat_Map Op_Reduce Op_Join Op_Shuffle
begin

text \<open>
  \<open>src/src/worker/ops/mod.rs\<close>: the enum of executable operators, how a description becomes an
  operator, and the dispatch to the operator's code. What an execution depends on besides its
  inputs (the JSON library, the hasher, the directory for temporary files, whether the build
  checks overflow) is the record \<open>runtime\<close>; the iteration order of the hash map in a
  reduction by key is the argument \<open>it\<close>.

  The dispatch meets the interface \<open>executable_op\<close>, because each operator does.
\<close>

section \<open>Operators\<close>

record runtime =
  serde :: serde_api
  hasher :: hasher
  temp_dir :: path
  overflow_checks :: bool

type_synonym group_order = "(string \<rightharpoonup> json list) \<Rightarrow> (string \<times> json list) list"

datatype operator =
    ReadOp read_op
  | MapOp map_op
  | FilterOp filter_op
  | FlatMapOp flat_map_op
  | ReduceOp reduce_op
  | ReduceByKeyOp reduce_by_key_op
  | JoinOp join_op
  | ShuffleOp shuffle_by_key_op

fun from_type :: "operator_type \<Rightarrow> nat \<Rightarrow> nat \<Rightarrow> nat \<Rightarrow> path \<Rightarrow> (error, operator) res" where
  "from_type (OT_Read uri format) pid parts limit spill =
     Ok (ReadOp \<lparr>read_path = uri, read_format = format, read_partition_id = pid,
                 read_total_partitions = max parts 1, read_cache_limit_bytes = limit,
                 read_spill_path = spill\<rparr>)"
| "from_type (OT_Map script) pid parts limit spill = Ok (MapOp \<lparr>map_func = script\<rparr>)"
| "from_type (OT_Filter pr) pid parts limit spill = Ok (FilterOp \<lparr>filter_predicate = pr\<rparr>)"
| "from_type (OT_FlatMap func) pid parts limit spill = Ok (FlatMapOp \<lparr>flat_func = func\<rparr>)"
| "from_type (OT_Join key jt) pid parts limit spill =
     Ok (JoinOp \<lparr>join_key = key, join_join_type = jt\<rparr>)"
| "from_type (OT_Reduce reducer) pid parts limit spill = Ok (ReduceOp \<lparr>reduce_reducer = reducer\<rparr>)"
| "from_type (OT_ReduceByKey key reducer) pid parts limit spill =
     Ok (ReduceByKeyOp \<lparr>rbk_key = key, rbk_reducer = reducer\<rparr>)"
| "from_type (OT_ShuffleByKey key n) pid parts limit spill =
     Ok (ShuffleOp \<lparr>sh_key = key, sh_total_partitions = max n 1\<rparr>)"
| "from_type (OT_Aggregate aggregation) pid parts limit spill =
     Ok (ReduceOp \<lparr>reduce_reducer = aggregation\<rparr>)"
| "from_type OT_Identity pid parts limit spill = Ok (MapOp \<lparr>map_func = ''identity''\<rparr>)"

definition try_from :: "path \<Rightarrow> operator_type \<Rightarrow> (error, operator) res" where
  "try_from tmp value =
     from_type value 0 1 (2 ^ 64 - 1) (path_join tmp ''dpe-spill-default.bin'')"

fun operator_name :: "operator \<Rightarrow> string" where
  "operator_name (ReadOp _) = ''read''"
| "operator_name (MapOp _) = ''map''"
| "operator_name (FilterOp _) = ''filter''"
| "operator_name (FlatMapOp _) = ''flat_map''"
| "operator_name (ReduceOp _) = ''reduce''"
| "operator_name (ReduceByKeyOp _) = ''reduce_by_key''"
| "operator_name (JoinOp _) = ''join''"
| "operator_name (ShuffleOp _) = ''shuffle''"

fun operator_execute ::
    "runtime \<Rightarrow> group_order \<Rightarrow> operator \<Rightarrow> partition_data list \<Rightarrow> partition_data list fsio" where
  "operator_execute rt it (ReadOp op) ps = read_execute (serde rt) op ps"
| "operator_execute rt it (MapOp op) ps = map_execute (overflow_checks rt) (serde rt) op ps"
| "operator_execute rt it (FilterOp op) ps = filter_execute (serde rt) op ps"
| "operator_execute rt it (FlatMapOp op) ps = flat_map_execute (serde rt) op ps"
| "operator_execute rt it (ReduceOp op) ps = reduce_execute (serde rt) op ps"
| "operator_execute rt it (ReduceByKeyOp op) ps = reduce_by_key_execute it (serde rt) op ps"
| "operator_execute rt it (JoinOp op) ps = join_execute (serde rt) op ps"
| "operator_execute rt it (ShuffleOp op) ps =
     shuffle_execute (hasher rt) (temp_dir rt) (serde rt) op ps"

section \<open>The meaning of an operator\<close>

text \<open>\<open>src\<close> gives the contents of the input files.\<close>

fun operator_meaning :: "runtime \<Rightarrow> group_order \<Rightarrow> (path \<Rightarrow> string) \<Rightarrow> operator \<Rightarrow>
    json list list \<Rightarrow> (error, json list list) res" where
  "operator_meaning rt it src (ReadOp op) rss =
     res_bind (read_text (serde rt) (read_format op) (read_total_partitions op)
       (read_partition_id op) (src (read_path op))) (\<lambda>rs. Ok [rs])"
| "operator_meaning rt it src (MapOp op) rss =
     rewrite_all (Ok ()) (\<lambda>_. res_mapM (apply_fn (overflow_checks rt) (map_func op))) rss"
| "operator_meaning rt it src (FilterOp op) rss =
     rewrite_all (filter_result (parse (filter_predicate op)))
       (\<lambda>pr rs. Ok (filter (\<lambda>r. eval_predicate r pr) rs)) rss"
| "operator_meaning rt it src (FlatMapOp op) rss =
     rewrite_all (Ok ()) (\<lambda>_ rs. res_bind (res_mapM (flat_apply (flat_func op)) rs) (\<lambda>e. Ok (concat e))) rss"
| "operator_meaning rt it src (ReduceOp op) rss = reduce_meaning op rss"
| "operator_meaning rt it src (ReduceByKeyOp op) rss = reduce_by_key_meaning it op rss"
| "operator_meaning rt it src (JoinOp op) rss = join_meaning (serde rt) op rss"
| "operator_meaning rt it src (ShuffleOp op) rss =
     (if sh_total_partitions op = 0 then Err (ShuffleE InvalidPartitions)
      else Ok (shuffled (hasher rt) (serde rt) op (concat rss)))"

fun operator_ready :: "runtime \<Rightarrow> group_order \<Rightarrow> (path \<Rightarrow> string) \<Rightarrow> operator \<Rightarrow>
    partition_data list \<Rightarrow> fs \<Rightarrow> bool" where
  "operator_ready rt it src (ReadOp op) ps s = read_ready op (src (read_path op)) ps s"
| "operator_ready rt it src (ReduceByKeyOp op) ps s = iterates it"
| "operator_ready rt it src (ShuffleOp op) ps s = shuffle_ready (temp_dir rt) op ps s"
| "operator_ready rt it src _ ps s = True"

fun operator_touched :: "runtime \<Rightarrow> operator \<Rightarrow> partition_data list \<Rightarrow> path set" where
  "operator_touched rt (ReadOp op) ps = {read_spill_path op}"
| "operator_touched rt (ShuffleOp op) ps =
     part_paths ps \<union> bucket_path (spill_base (temp_dir rt) ps) ` {0..<sh_total_partitions op}"
| "operator_touched rt _ ps = part_paths ps"

fun operator_out_ids :: "operator \<Rightarrow> partition_data list \<Rightarrow> nat list" where
  "operator_out_ids (ReadOp op) ps = [read_partition_id op]"
| "operator_out_ids (ShuffleOp op) ps = [0..<sh_total_partitions op]"
| "operator_out_ids (JoinOp op) ps = [min (partition_id (hd ps)) (partition_id (last ps))]"
| "operator_out_ids (ReduceOp op) ps = map partition_id (take 1 ps)"
| "operator_out_ids (ReduceByKeyOp op) ps = map partition_id (take 1 ps)"
| "operator_out_ids _ ps = map partition_id ps"

interpretation operators: executable_op "serde rt" "operator_execute rt it op"
  "operator_meaning rt it src op" "operator_ready rt it src op" "operator_touched rt op"
  "operator_out_ids op" for rt it op src
proof
  show "\<exists>ps' s'. operator_execute rt it op ps s = (Ok ps', s') \<and> parts_hold (serde rt) s' ps' outs \<and>
      map partition_id ps' = operator_out_ids op ps \<and> changes_only (operator_touched rt op ps) s s'"
    if hyps: "parts_hold (serde rt) s ps rss" "operator_ready rt it src op ps s"
      "operator_meaning rt it src op rss = Ok outs" "readable (serde rt) outs" for s ps rss outs
  proof (cases op)
    case (ReadOp r)
    with hyps read_op.execute_law[of "serde rt" s ps rss r "src (read_path r)"] show ?thesis by simp
  next
    case (MapOp r)
    with hyps map_op.execute_law[of "serde rt" s ps rss "overflow_checks rt" r] show ?thesis by simp
  next
    case (FilterOp r)
    with hyps filter_op.execute_law[of "serde rt" s ps rss r] show ?thesis by simp
  next
    case (FlatMapOp r)
    with hyps flat_map_op.execute_law[of "serde rt" s ps rss r] show ?thesis by simp
  next
    case (ReduceOp r)
    with hyps reduce_op.execute_law[of "serde rt" s ps rss r] show ?thesis by simp
  next
    case (ReduceByKeyOp r)
    with hyps reduce_by_key_op.execute_law[of "serde rt" s ps rss it r] show ?thesis by simp
  next
    case (JoinOp r)
    with hyps join_op.execute_law[of "serde rt" s ps rss r] show ?thesis by simp
  next
    case (ShuffleOp r)
    with hyps shuffle_op.execute_law[of "serde rt" s ps rss "temp_dir rt" r "hasher rt"] show ?thesis
      by simp
  qed
qed

section \<open>Properties\<close>

text \<open>
  Claim C4. Every operator implements its meaning: on partitions that hold given records, in
  memory or in spill files, its execution succeeds whenever the meaning is defined, and its
  output partitions hold the records the meaning prescribes.
\<close>

theorem operator_refinement:
  assumes "parts_hold (serde rt) s ps rss" "operator_ready rt it src op ps s"
    and "operator_meaning rt it src op rss = Ok outs" "readable (serde rt) outs"
  shows "\<exists>ps' s'. operator_execute rt it op ps s = (Ok ps', s') \<and> parts_hold (serde rt) s' ps' outs \<and>
    map partition_id ps' = operator_out_ids op ps \<and> changes_only (operator_touched rt op ps) s s'"
  using assms by (rule operators.execute_law)

definition example_runtime :: runtime where
  "example_runtime = \<lparr>serde = example_serde, hasher = (\<lambda>_. 5), temp_dir = ''/tmp'', overflow_checks = False\<rparr>"

theorem operator_refinement_witness:
  "\<exists>ps' s'. operator_execute example_runtime key_order (FilterOp \<lparr>filter_predicate = ''always_true''\<rparr>)
      [example_part] example_fs = (Ok ps', s') \<and>
    parts_hold (serde example_runtime) s' ps' [[rec_a, rec_b]] \<and>
    map partition_id ps' = operator_out_ids (FilterOp \<lparr>filter_predicate = ''always_true''\<rparr>) [example_part] \<and>
    changes_only (operator_touched example_runtime (FilterOp \<lparr>filter_predicate = ''always_true''\<rparr>)
      [example_part]) example_fs s'"
proof (rule operator_refinement[where rss = "[[rec_a, rec_b]]" and src = "\<lambda>_. []"])
  show "parts_hold (serde example_runtime) example_fs [example_part] [[rec_a, rec_b]]"
    using example_part_holds by (simp add: example_runtime_def)
qed (simp_all add: rewrite_all_def parse_def example_runtime_def)

end
