(* ===== verification/Executor.thy ===== *)
theory Executor
  imports Ops Dag
begin

text \<open>
  \<open>src/src/worker/executor.rs\<close>: running a task on a worker. \<open>execute_sync\<close> builds the
  operators, runs them in order (each takes the outputs of its parents out of a table), writes
  the final partitions and reports a result; \<open>execute_once\<close> turns a panic that escapes into a
  failed result; \<open>execute_task\<close> retries, counting in 32 bits.

  What differs from run to run and is not computed from the task is an argument: the iteration
  order of the hash map in the reduction of each operator (\<open>orders\<close>) and the elapsed
  milliseconds (\<open>duration\<close>). Sending the result to the master is left to the transport.
\<close>

section \<open>Texts\<close>

definition escape_char :: "char \<Rightarrow> string" where
  "escape_char c =
     (if c = CHR 0x22 then [CHR 0x5C, CHR 0x22]
      else if c = CHR 0x5C then [CHR 0x5C, CHR 0x5C]
      else if c = newline then [CHR 0x5C, CHR ''n'']
      else if c = carriage_return then [CHR 0x5C, CHR ''r'']
      else if c = CHR 0x09 then [CHR 0x5C, CHR ''t'']
      else [c])"

definition debug_str :: "string \<Rightarrow> string" where
  "debug_str s = quote2 (concat (map escape_char s))"

fun debug_join :: "join_type \<Rightarrow> string" where
  "debug_join Inner = ''Inner''"
| "debug_join LeftJoin = ''Left''"
| "debug_join RightJoin = ''Right''"
| "debug_join Full = ''Full''"

text \<open>The derived \<open>Debug\<close> text of an operator description.\<close>

fun debug_operator :: "operator_type \<Rightarrow> string" where
  "debug_operator (OT_Read uri fmt) =
     ''Read { uri: '' @ debug_str uri @ '', format: '' @ debug_str fmt @ '' }''"
| "debug_operator (OT_Map f) = ''Map { script: '' @ debug_str f @ '' }''"
| "debug_operator (OT_Filter p) = ''Filter { predicate: '' @ debug_str p @ '' }''"
| "debug_operator (OT_Reduce r) = ''Reduce { reducer: '' @ debug_str r @ '' }''"
| "debug_operator (OT_ReduceByKey k r) =
     ''ReduceByKey { key: '' @ debug_str k @ '', op: '' @ debug_str r @ '' }''"
| "debug_operator (OT_FlatMap f) = ''FlatMap { func: '' @ debug_str f @ '' }''"
| "debug_operator (OT_Join k jt) =
     ''Join { key: '' @ debug_str k @ '', join_type: '' @ debug_join jt @ '' }''"
| "debug_operator (OT_ShuffleByKey k n) =
     ''ShuffleByKey { key: '' @ debug_str k @ '', total_partitions: '' @ show_nat n @ '' }''"
| "debug_operator (OT_Aggregate a) = ''Aggregate { aggregation: '' @ debug_str a @ '' }''"
| "debug_operator OT_Identity = ''Identity''"

text \<open>\<open>e.split("->").next()\<close>: the text before the first arrow.\<close>

fun before_arrow :: "string \<Rightarrow> string" where
  "before_arrow [] = []"
| "before_arrow [c] = [c]"
| "before_arrow (c # d # cs) =
     (if c = CHR ''-'' \<and> d = CHR ''>'' then [] else c # before_arrow (d # cs))"

section \<open>Results\<close>

definition failed_result :: "task_id \<Rightarrow> job_id \<Rightarrow> string \<Rightarrow> operator_type \<Rightarrow> nat \<Rightarrow> nat \<Rightarrow> string \<Rightarrow>
    path \<Rightarrow> nat \<Rightarrow> task_result" where
  "failed_result tid job op_name op stage part err file duration =
     \<lparr>res_task_id = tid, res_job_id = job, res_operator = op, res_stage_id = stage,
      res_partition = part, res_location = \<lparr>rl_path = file, rl_size_bytes = 0\<rparr>,
      res_metrics = \<lparr>tm_processed_records = 0, tm_duration_ms = duration,
                     tm_cpu_time_ms = duration, tm_wall_time_ms = duration\<rparr>,
      res_status = TS_Failed (op_name @ '': '' @ err), res_trace = None,
      res_final_partitions = None\<rparr>"

section \<open>The pipeline\<close>

type_synonym op_results = "string \<rightharpoonup> partition_data list"

text \<open>The outputs of the parents, in order, each removed from the table.\<close>

fun take_parents :: "string list \<Rightarrow> op_results \<Rightarrow> partition_data list \<times> op_results" where
  "take_parents [] results = ([], results)"
| "take_parents (p # ps) results =
     (case results p of
        Some parts \<Rightarrow> (let (rest, results') = take_parents ps (results(p := None))
                      in (parts @ rest, results'))
      | None \<Rightarrow> take_parents ps results)"

definition op_inputs :: "nat \<Rightarrow> nat \<Rightarrow> path \<Rightarrow> string list \<Rightarrow> op_results \<Rightarrow>
    partition_data list \<times> op_results" where
  "op_inputs pid limit spill edges results =
     (let parents = map before_arrow edges
      in if parents = [] then ([partition_empty pid limit spill], results)
         else take_parents parents results)"

definition get_or :: "'a \<Rightarrow> 'a list \<Rightarrow> nat \<Rightarrow> 'a" where
  "get_or d xs i = (if i < length xs then xs ! i else d)"

definition op_id_at :: "string list \<Rightarrow> nat \<Rightarrow> string" where
  "op_id_at ids idx = get_or (''op-'' @ show_nat idx) ids idx"

definition partition_info_of :: "partition_data \<Rightarrow> partition_info" where
  "partition_info_of p =
     \<lparr>pi_partition_id = partition_id p, pi_record_count = record_count (cache p),
      pi_spill_path = (if has_spill (cache p) then Some (spill_path (cache p)) else None)\<rparr>"

fun run_ops :: "runtime \<Rightarrow> (nat \<Rightarrow> group_order) \<Rightarrow> nat \<Rightarrow> nat \<Rightarrow> path \<Rightarrow> string list \<Rightarrow> string list list \<Rightarrow>
    nat \<Rightarrow> op_results \<Rightarrow> stage_trace list \<Rightarrow> operator list \<Rightarrow> (op_results \<times> stage_trace list) fsio" where
  "run_ops rt orders pid limit spill ids edges idx results stages [] = io_return (results, stages)"
| "run_ops rt orders pid limit spill ids edges idx results stages (op # ops) =
     (let (inputs, results') = op_inputs pid limit spill (get_or [] edges idx) results
      in io_bind (operator_execute rt (orders idx) op inputs) (\<lambda>parts.
           run_ops rt orders pid limit spill ids edges (Suc idx)
             (results'(op_id_at ids idx \<mapsto> parts))
             (stages @ [\<lparr>st_stage_id = idx, st_operator_id = op_id_at ids idx,
                         st_incoming_edges = get_or [] edges idx,
                         st_output_partitions = map partition_info_of parts\<rparr>]) ops))"

definition pipeline :: "runtime \<Rightarrow> (nat \<Rightarrow> group_order) \<Rightarrow> uuid_api \<Rightarrow> job_id \<Rightarrow> nat \<Rightarrow> nat \<Rightarrow> path \<Rightarrow>
    string list \<Rightarrow> string list list \<Rightarrow> operator list \<Rightarrow>
    (partition_data list \<times> execution_trace) fsio" where
  "pipeline rt orders U job pid limit spill ids edges ops =
     io_bind (run_ops rt orders pid limit spill ids edges 0 Map.empty [] ops) (\<lambda>(results, stages).
       case results (if ids = [] then ''final'' else last ids) of
         None \<Rightarrow> io_lift (Err (Message ''missing final operator output''))
       | Some parts \<Rightarrow> io_return (parts, \<lparr>et_job_id = uuid_to_string U job, et_stages = stages\<rparr>))"

section \<open>Writing the output\<close>

fun write_parts :: "runtime \<Rightarrow> uuid_api \<Rightarrow> partition_store \<Rightarrow> job_id \<Rightarrow> nat \<Rightarrow> nat \<Rightarrow>
    nat \<Rightarrow> partition_info list \<Rightarrow> partition_data list \<Rightarrow> (nat \<times> partition_info list) fsio" where
  "write_parts rt U store job stage part final_bytes infos [] = io_return (final_bytes, infos)"
| "write_parts rt U store job stage part final_bytes infos (p # ps) =
     io_bind (into_parts (serde rt) p) (\<lambda>(_, _, records).
     io_bind (write_records (serde rt) (partition_path U store job stage (partition_id p)) records)
       (\<lambda>bytes.
          write_parts rt U store job stage part
            (if partition_id p = part then bytes else final_bytes)
            (infos @ [\<lparr>pi_partition_id = partition_id p, pi_record_count = length records,
                       pi_spill_path = None\<rparr>]) ps))"

definition set_last_outputs :: "partition_info list \<Rightarrow> stage_trace list \<Rightarrow> stage_trace list" where
  "set_last_outputs infos stages =
     (if stages = [] then [] else butlast stages @ [(last stages)\<lparr>st_output_partitions := infos\<rparr>])"

section \<open>A task\<close>

definition task_operator_ids' :: "task \<Rightarrow> string list" where
  "task_operator_ids' t =
     (if task_operator_ids t = [] then map (\<lambda>i. ''op-'' @ show_nat i) [0..<length (task_operators t)]
      else task_operator_ids t)"

definition task_edges :: "task \<Rightarrow> string list list" where
  "task_edges t =
     (if task_incoming_edges t = [] then replicate (length (task_operator_ids' t)) []
      else task_incoming_edges t)"

definition operator_defs :: "task \<Rightarrow> operator_type list" where
  "operator_defs t = (if task_operators t = [] then [task_operator t] else task_operators t)"

definition completed_result :: "task \<Rightarrow> path \<Rightarrow> nat \<Rightarrow> nat \<Rightarrow> nat \<Rightarrow> execution_trace \<Rightarrow> task_result" where
  "completed_result t file bytes processed duration trace =
     \<lparr>res_task_id = task_id t, res_job_id = task_job_id t, res_operator = last (operator_defs t),
      res_stage_id = length (operator_defs t) - 1, res_partition = task_partition t,
      res_location = \<lparr>rl_path = file, rl_size_bytes = bytes\<rparr>,
      res_metrics = \<lparr>tm_processed_records = processed, tm_duration_ms = duration,
                     tm_cpu_time_ms = duration, tm_wall_time_ms = duration\<rparr>,
      res_status = TS_Completed, res_trace = Some trace,
      res_final_partitions =
        (if et_stages trace = [] then None
         else Some (st_output_partitions (last (et_stages trace))))\<rparr>"

definition build_operators :: "task \<Rightarrow> config \<Rightarrow> path \<Rightarrow> (error, operator list) res" where
  "build_operators t cfg spill =
     res_mapM (\<lambda>d. from_type d (task_partition t) (max (task_total_partitions t) 1)
                     (partition_cache_limit_bytes cfg) spill) (operator_defs t)"

text \<open>
  What the outcome of the pipeline becomes: its partitions are written and the task is completed,
  or the task failed. The outcome is \<open>Panic\<close> only if a panic escapes, which the caller then sees.
\<close>

definition finish_task :: "runtime \<Rightarrow> uuid_api \<Rightarrow> task \<Rightarrow> partition_store \<Rightarrow> nat \<Rightarrow> string \<Rightarrow>
    (error, partition_data list \<times> execution_trace) res \<times> fs \<Rightarrow> (error, task_result) res \<times> fs" where
  "finish_task rt U t store duration name result_data =
     (let stage = length (operator_defs t) - 1;
          file = partition_path U store (task_job_id t) stage (task_partition t);
          failed = (\<lambda>msg. failed_result (task_id t) (task_job_id t) name
                     (last (operator_defs t)) stage (task_partition t) msg file duration)
      in case result_data of
           (Ok (parts, trace), s) \<Rightarrow>
             (case write_parts rt U store (task_job_id t) stage (task_partition t) 0 [] parts s of
                (Ok (bytes, infos), s') \<Rightarrow>
                  (Ok (completed_result t file bytes
                         (sum_list (map (\<lambda>p. record_count (cache p)) parts)) duration
                         (trace\<lparr>et_stages := set_last_outputs infos (et_stages trace)\<rparr>)), s')
              | (Err e, s') \<Rightarrow>
                  (Ok (failed (''operator '' @ name @ '' failed writing output: '' @ show_error e)), s')
              | (Panic, s') \<Rightarrow> (Panic, s'))
         | (Err e, s) \<Rightarrow> (Ok (failed (''operator '' @ name @ '' failed: '' @ show_error e)), s)
         | (Panic, s) \<Rightarrow> (Ok (failed (''operator '' @ name @ '' panicked'')), s))"

definition execute_sync :: "runtime \<Rightarrow> (nat \<Rightarrow> group_order) \<Rightarrow> nat \<Rightarrow> uuid_api \<Rightarrow> task \<Rightarrow>
    partition_store \<Rightarrow> config \<Rightarrow> (fs, error, task_result) io" where
  "execute_sync rt orders duration U t store cfg s =
     (let stage = length (operator_defs t) - 1;
          spill = store_spill_path U store (task_job_id t) stage (task_partition t)
      in case build_operators t cfg spill of
           Err e \<Rightarrow>
             (Ok (failed_result (task_id t) (task_job_id t) (debug_operator (last (operator_defs t)))
                    (last (operator_defs t)) stage (task_partition t)
                    (''failed to build operator pipeline: '' @ show_error e)
                    (partition_path U store (task_job_id t) stage (task_partition t)) 0), s)
         | Panic \<Rightarrow> (Panic, s)
         | Ok ops \<Rightarrow>
             finish_task rt U t store duration
               (if ops = [] then ''unknown'' else operator_name (last ops))
               (pipeline rt orders U (task_job_id t) (task_partition t)
                  (partition_cache_limit_bytes cfg) spill (task_operator_ids' t) (task_edges t) ops s))"

definition execute_once :: "runtime \<Rightarrow> (nat \<Rightarrow> group_order) \<Rightarrow> nat \<Rightarrow> uuid_api \<Rightarrow> task \<Rightarrow>
    partition_store \<Rightarrow> config \<Rightarrow> fs \<Rightarrow> task_result \<times> fs" where
  "execute_once rt orders duration U t store cfg s =
     (let stage = (if task_operators t = [] then task_stage_id t else length (task_operators t) - 1);
          op = (if task_operators t = [] then task_operator t else last (task_operators t))
      in case execute_sync rt orders duration U t store cfg s of
           (Ok r, s') \<Rightarrow> (r, s')
         | (_, s') \<Rightarrow>
             (failed_result (task_id t) (task_job_id t) (debug_operator op) op stage
                (task_partition t) ''task panicked while joining''
                (partition_path U store (task_job_id t) stage (task_partition t)) 0, s'))"

section \<open>The executor\<close>

record executor =
  ex_config :: config
  ex_worker_id :: worker_id
  ex_master_addr :: string
  ex_store :: partition_store
  ex_available :: nat
  ex_tasks_completed :: "64 word"
  ex_tasks_failed :: "64 word"
  ex_records_processed :: "64 word"
  ex_active_task :: "task_id option"

definition executor_new :: "config \<Rightarrow> worker_id \<Rightarrow> string \<Rightarrow> fs \<Rightarrow> executor \<times> fs" where
  "executor_new cfg wid addr s =
     (case store_new cfg s of (store, s') \<Rightarrow>
        (\<lparr>ex_config = cfg, ex_worker_id = wid, ex_master_addr = addr, ex_store = store,
          ex_available = max (max_parallel_tasks cfg) 1, ex_tasks_completed = 0,
          ex_tasks_failed = 0, ex_records_processed = 0, ex_active_task = None\<rparr>, s'))"

definition count_result :: "task_result \<Rightarrow> executor \<Rightarrow> executor" where
  "count_result r ex =
     (case res_status r of
        TS_Completed \<Rightarrow>
          ex\<lparr>ex_tasks_completed := ex_tasks_completed ex + 1,
             ex_records_processed :=
               ex_records_processed ex + of_nat (tm_processed_records (res_metrics r))\<rparr>
      | TS_Failed _ \<Rightarrow> ex\<lparr>ex_tasks_failed := ex_tasks_failed ex + 1\<rparr>
      | _ \<Rightarrow> ex)"

text \<open>
  The loop of \<open>execute_task\<close>. \<open>once n\<close> is the \<open>n\<close>-th attempt; \<open>attempt\<close> is the 32-bit
  counter, whose overflow panics in a build with overflow checks.
\<close>

partial_function (option) retry_loop ::
  "(nat \<Rightarrow> fs \<Rightarrow> task_result \<times> fs) \<Rightarrow> bool \<Rightarrow> task_id \<Rightarrow> nat \<Rightarrow> u32 \<Rightarrow> executor \<Rightarrow> fs \<Rightarrow>
   ((error, task_result) res \<times> nat \<times> executor \<times> fs) option" where
  "retry_loop once checks tid n attempt ex s =
     (if checks \<and> attempt = - 1 then Some (Panic, n, ex, s)
      else
        (let attempt' = attempt + 1;
             (r, s') = once n s;
             ex' = count_result r (ex\<lparr>ex_active_task := Some tid\<rparr>)
         in if is_failed (res_status r) \<and> attempt' \<le> task_retry_limit (ex_config ex)
            then retry_loop once checks tid (Suc n) attempt' ex' s'
            else Some (Ok r, Suc n, ex'\<lparr>ex_active_task := None\<rparr>, s')))"

text \<open>What attempt \<open>n\<close> sees: the hash map orders and the elapsed time.\<close>

type_synonym attempt_env = "nat \<Rightarrow> (nat \<Rightarrow> group_order) \<times> nat"

definition run_attempt :: "runtime \<Rightarrow> attempt_env \<Rightarrow> uuid_api \<Rightarrow> executor \<Rightarrow> task \<Rightarrow> nat \<Rightarrow> fs \<Rightarrow>
    task_result \<times> fs" where
  "run_attempt rt env U ex t n =
     execute_once rt (fst (env n)) (snd (env n)) U t (ex_store ex) (ex_config ex)"

text \<open>A permit is taken for the whole of the loop and given back at its end.\<close>

definition execute_task :: "runtime \<Rightarrow> attempt_env \<Rightarrow> uuid_api \<Rightarrow> task \<Rightarrow> executor \<Rightarrow> fs \<Rightarrow>
    ((error, task_result) res \<times> nat \<times> executor \<times> fs) option" where
  "execute_task rt env U t ex s =
     map_option (\<lambda>(r, n, ex', s'). (r, n, ex'\<lparr>ex_available := ex_available ex' + 1\<rparr>, s'))
       (retry_loop (run_attempt rt env U ex t) (overflow_checks rt) (task_id t) 0 0
          (ex\<lparr>ex_available := ex_available ex - 1\<rparr>) s)"

definition snapshot_metrics :: "executor \<Rightarrow> worker_metrics" where
  "snapshot_metrics ex =
     \<lparr>wm_tasks_in_flight = max (max_parallel_tasks (ex_config ex)) 1 - ex_available ex,
      wm_cpu_pct = fzero f32, wm_memory_mb = 0,
      wm_tasks_completed = unat (ex_tasks_completed ex),
      wm_tasks_failed = unat (ex_tasks_failed ex),
      wm_records_processed = unat (ex_records_processed ex),
      wm_current_task = ex_active_task ex\<rparr>"

section \<open>Lemmas: results\<close>

definition result_for :: "task \<Rightarrow> task_result \<Rightarrow> bool" where
  "result_for t r \<longleftrightarrow>
     res_task_id r = task_id t \<and> res_job_id r = task_job_id t \<and> res_partition r = task_partition t \<and>
     (res_status r = TS_Completed \<and> res_trace r \<noteq> None \<or>
      is_failed (res_status r) \<and> res_trace r = None \<and> res_final_partitions r = None \<and>
      rl_size_bytes (res_location r) = 0)"

lemma failed_result_for:
  "result_for t (failed_result (task_id t) (task_job_id t) name op stage (task_partition t) msg file d)"
  by (simp add: result_for_def failed_result_def)

lemma completed_result_for: "result_for t (completed_result t file bytes n d trace)"
  by (simp add: result_for_def completed_result_def)

lemma from_type_total: "\<exists>op. from_type d pid parts limit spill = Ok op"
  by (cases d) simp_all

lemma build_operators_total: "\<exists>ops. build_operators t cfg spill = Ok ops \<and> length ops = length (operator_defs t)"
proof -
  have "\<exists>ys. res_mapM f xs = Ok ys \<and> length ys = length xs" if "\<And>x. \<exists>y. f x = Ok y"
    for f :: "operator_type \<Rightarrow> (error, operator) res" and xs
  proof (induction xs)
    case Nil
    then show ?case by simp
  next
    case (Cons x xs)
    with that[of x] show ?case by auto
  qed
  then show ?thesis by (simp add: build_operators_def from_type_total)
qed

lemma execute_sync_result:
  "execute_sync rt orders d U t store cfg s = (Ok r, s') \<Longrightarrow> result_for t r"
  unfolding execute_sync_def finish_task_def Let_def
  by (auto simp: failed_result_for completed_result_for split: res.splits prod.splits)

lemma execute_once_result: "result_for t (fst (execute_once rt orders d U t store cfg s))"
  using execute_sync_result[of rt orders d U t store cfg s]
  by (cases "execute_sync rt orders d U t store cfg s")
    (auto simp: execute_once_def Let_def failed_result_for split: res.splits)

section \<open>Lemmas: retries\<close>

definition settled :: "task_result \<Rightarrow> bool" where
  "settled r \<longleftrightarrow> res_status r = TS_Completed \<or> is_failed (res_status r)"

lemma count_result_simps [simp]:
  "ex_config (count_result r ex) = ex_config ex" "ex_available (count_result r ex) = ex_available ex"
  "ex_store (count_result r ex) = ex_store ex"
  by (simp_all add: count_result_def split: task_status.splits)

lemma count_result_counts:
  "settled r \<Longrightarrow>
   ex_tasks_failed (count_result r ex) = ex_tasks_failed ex + (if is_failed (res_status r) then 1 else 0)"
  "settled r \<Longrightarrow>
   ex_tasks_completed (count_result r ex) = ex_tasks_completed ex + (if is_failed (res_status r) then 0 else 1)"
  "settled r \<Longrightarrow> ex_records_processed (count_result r ex) = ex_records_processed ex +
     (if is_failed (res_status r) then 0 else of_nat (tm_processed_records (res_metrics r)))"
  by (auto simp: settled_def count_result_def split: task_status.splits)

lemma u32_step:
  fixes attempt limit :: u32
  assumes "unat attempt \<le> unat limit" "limit \<noteq> - 1"
  shows "attempt \<noteq> - 1" "unat (attempt + 1) = unat attempt + 1"
proof -
  have "unat limit < unat (- 1 :: u32)"
    using assms(2) by (metis unat_mono word_order.not_eq_extremum)
  with assms(1) show ne: "attempt \<noteq> - 1" by auto
  show "unat (attempt + 1) = unat attempt + 1"
    using ne by (simp add: unatSuc add.commute[of attempt] eq_neg_iff_add_eq_0)
qed

text \<open>
  Below the limit the loop returns: after as many attempts as were needed to complete, or
  after the last allowed one, which failed.
\<close>

lemma retry_loop_returns:
  assumes once: "\<And>n s. Q (fst (once n s))" and Q: "\<And>r. Q r \<Longrightarrow> settled r"
    and limit: "task_retry_limit (ex_config ex) \<noteq> - 1"
    and attempt: "unat attempt \<le> unat (task_retry_limit (ex_config ex))"
  shows "\<exists>r k ex' s'. retry_loop once checks tid n attempt ex s = Some (Ok r, n + k, ex', s') \<and>
    1 \<le> k \<and> unat attempt + k \<le> unat (task_retry_limit (ex_config ex)) + 1 \<and> Q r \<and>
    (is_failed (res_status r) \<longrightarrow> unat attempt + k = unat (task_retry_limit (ex_config ex)) + 1) \<and>
    ex_active_task ex' = None \<and> ex_available ex' = ex_available ex \<and> ex_config ex' = ex_config ex \<and>
    ex_tasks_failed ex' = ex_tasks_failed ex + of_nat (if is_failed (res_status r) then k else k - 1) \<and>
    ex_tasks_completed ex' = ex_tasks_completed ex + (if is_failed (res_status r) then 0 else 1) \<and>
    ex_records_processed ex' = ex_records_processed ex +
      (if is_failed (res_status r) then 0 else of_nat (tm_processed_records (res_metrics r)))"
  using attempt limit
proof (induction "unat (task_retry_limit (ex_config ex)) - unat attempt" arbitrary: attempt n ex s
    rule: less_induct)
  case less
  let ?lim = "task_retry_limit (ex_config ex)"
  note step = u32_step[OF less.prems]
  obtain r s' where once1: "once n s = (r, s')" by (cases "once n s")
  with once[of n s] have r: "Q r" by simp
  note settled = Q[OF r]
  let ?ex = "count_result r (ex\<lparr>ex_active_task := Some tid\<rparr>)"
  have unfold: "retry_loop once checks tid n attempt ex s =
      (if is_failed (res_status r) \<and> attempt + 1 \<le> ?lim
       then retry_loop once checks tid (Suc n) (attempt + 1) ?ex s'
       else Some (Ok r, Suc n, ?ex\<lparr>ex_active_task := None\<rparr>, s'))"
    using step(1) once1 by (subst retry_loop.simps) (simp add: Let_def)
  show ?case
  proof (cases "is_failed (res_status r) \<and> attempt + 1 \<le> ?lim")
    case True
    then have le: "unat (attempt + 1) \<le> unat (task_retry_limit (ex_config ?ex))"
      by (simp add: word_le_nat_alt)
    have "unat (task_retry_limit (ex_config ?ex)) - unat (attempt + 1) < unat ?lim - unat attempt"
      using le step(2) by simp
    from less.hyps[OF this le, where n = "Suc n" and s = s'] less.prems(2) obtain r' k ex' s2 where
      "retry_loop once checks tid (Suc n) (attempt + 1) ?ex s' = Some (Ok r', Suc n + k, ex', s2)"
      "1 \<le> k" "unat (attempt + 1) + k \<le> unat ?lim + 1" "Q r'"
      "is_failed (res_status r') \<Longrightarrow> unat (attempt + 1) + k = unat ?lim + 1"
      "ex_active_task ex' = None" "ex_available ex' = ex_available ex" "ex_config ex' = ex_config ex"
      "ex_tasks_failed ex' = ex_tasks_failed ?ex + of_nat (if is_failed (res_status r') then k else k - 1)"
      "ex_tasks_completed ex' = ex_tasks_completed ?ex + (if is_failed (res_status r') then 0 else 1)"
      "ex_records_processed ex' = ex_records_processed ?ex +
        (if is_failed (res_status r') then 0 else of_nat (tm_processed_records (res_metrics r')))"
      by auto
    with True unfold step(2) settled show ?thesis
      by (intro exI[of _ r'] exI[of _ "Suc k"] exI[of _ ex'] exI[of _ s2])
        (auto simp: count_result_counts of_nat_diff)
  next
    case False
    have "unat attempt = unat ?lim" if "is_failed (res_status r)"
      using False that less.prems(1) step(2) by (simp add: word_le_nat_alt)
    with False unfold settled r less.prems(1) show ?thesis
      by (intro exI[of _ r] exI[of _ 1] exI[of _ "?ex\<lparr>ex_active_task := None\<rparr>"] exI[of _ s'])
        (auto simp: count_result_counts)
  qed
qed

text \<open>With the largest limit the counter never exceeds it, and a task that keeps failing is retried forever.\<close>

lemma retry_loop_no_result:
  "retry_loop once checks tid n attempt ex s = Some y \<Longrightarrow>
   \<not> (\<not> checks \<and> (\<forall>n s. is_failed (res_status (fst (once n s)))) \<and>
      task_retry_limit (ex_config ex) = - 1)"
proof (rule retry_loop.raw_induct[where P = "\<lambda>once checks tid n attempt ex s y.
    \<not> (\<not> checks \<and> (\<forall>n s. is_failed (res_status (fst (once n s)))) \<and>
       task_retry_limit (ex_config ex) = - 1)", rotated])
  fix loop :: "(nat \<Rightarrow> fs \<Rightarrow> task_result \<times> fs) \<Rightarrow> bool \<Rightarrow> task_id \<Rightarrow> nat \<Rightarrow> u32 \<Rightarrow> executor \<Rightarrow> fs \<Rightarrow>
      ((error, task_result) res \<times> nat \<times> executor \<times> fs) option"
    and once :: "nat \<Rightarrow> fs \<Rightarrow> task_result \<times> fs" and checks tid n and attempt :: u32 and ex s y
  assume IH: "\<And>once checks tid n attempt ex s y. loop once checks tid n attempt ex s = Some y \<Longrightarrow>
      \<not> (\<not> checks \<and> (\<forall>n s. is_failed (res_status (fst (once n s)))) \<and>
        task_retry_limit (ex_config ex) = - 1)"
    and body: "(if checks \<and> attempt = - 1 then Some (Panic, n, ex, s)
      else let attempt' = attempt + 1; (r, s') = once n s;
               ex' = count_result r (ex\<lparr>ex_active_task := Some tid\<rparr>)
           in if is_failed (res_status r) \<and> attempt' \<le> task_retry_limit (ex_config ex)
              then loop once checks tid (Suc n) attempt' ex' s'
              else Some (Ok r, Suc n, ex'\<lparr>ex_active_task := None\<rparr>, s')) = Some y"
  show "\<not> (\<not> checks \<and> (\<forall>n s. is_failed (res_status (fst (once n s)))) \<and>
      task_retry_limit (ex_config ex) = - 1)"
  proof
    assume c: "\<not> checks \<and> (\<forall>n s. is_failed (res_status (fst (once n s)))) \<and>
      task_retry_limit (ex_config ex) = - 1"
    obtain r s' where r: "once n s = (r, s')" by (cases "once n s")
    with c have "is_failed (res_status r)" by (metis fst_conv)
    with body c r have "loop once checks tid (Suc n) (attempt + 1)
        (count_result r (ex\<lparr>ex_active_task := Some tid\<rparr>)) s' = Some y"
      by (simp add: Let_def)
    from IH[OF this] c show False by simp
  qed
qed

lemma retry_loop_forever:
  assumes "\<And>n s. is_failed (res_status (fst (once n s)))" "task_retry_limit (ex_config ex) = - 1"
  shows "retry_loop once False tid n attempt ex s = None"
  using retry_loop_no_result[of once False tid n attempt ex s] assms
  by (cases "retry_loop once False tid n attempt ex s") auto

lemma execute_task_returns:
  assumes "task_retry_limit (ex_config ex) \<noteq> - 1" "0 < ex_available ex"
  shows "\<exists>r k ex' s'. execute_task rt env U t ex s = Some (Ok r, k, ex', s') \<and>
    1 \<le> k \<and> k \<le> unat (task_retry_limit (ex_config ex)) + 1 \<and> result_for t r \<and>
    (is_failed (res_status r) \<longrightarrow> k = unat (task_retry_limit (ex_config ex)) + 1) \<and>
    ex_active_task ex' = None \<and> ex_available ex' = ex_available ex \<and>
    ex_tasks_failed ex' = ex_tasks_failed ex + of_nat (if is_failed (res_status r) then k else k - 1) \<and>
    ex_tasks_completed ex' = ex_tasks_completed ex + (if is_failed (res_status r) then 0 else 1) \<and>
    ex_records_processed ex' = ex_records_processed ex +
      (if is_failed (res_status r) then 0 else of_nat (tm_processed_records (res_metrics r)))"
proof -
  let ?ex = "ex\<lparr>ex_available := ex_available ex - 1\<rparr>"
  let ?once = "run_attempt rt env U ex t"
  have res: "result_for t (fst (?once n s))" for n s
    by (simp add: run_attempt_def execute_once_result)
  have settled: "result_for t r \<Longrightarrow> settled r" for r
    by (auto simp: result_for_def settled_def)
  from retry_loop_returns[where Q = "result_for t" and once = ?once and ex = ?ex and attempt = 0 and n = 0
      and checks = "overflow_checks rt" and tid = "task_id t" and s = s, OF res settled] assms(1)
  obtain r k ex' s' where
    "retry_loop ?once (overflow_checks rt) (task_id t) 0 0 ?ex s = Some (Ok r, k, ex', s')"
    "1 \<le> k" "k \<le> unat (task_retry_limit (ex_config ex)) + 1" "result_for t r"
    "is_failed (res_status r) \<Longrightarrow> k = unat (task_retry_limit (ex_config ex)) + 1"
    "ex_active_task ex' = None" "ex_available ex' = ex_available ex - 1"
    "ex_tasks_failed ex' = ex_tasks_failed ex + of_nat (if is_failed (res_status r) then k else k - 1)"
    "ex_tasks_completed ex' = ex_tasks_completed ex + (if is_failed (res_status r) then 0 else 1)"
    "ex_records_processed ex' = ex_records_processed ex +
      (if is_failed (res_status r) then 0 else of_nat (tm_processed_records (res_metrics r)))"
    by auto
  with assms(2) show ?thesis by (simp add: execute_task_def)
qed

section \<open>Lemmas: linear pipelines\<close>

lemma before_arrow_edge: "before_arrow i = i \<Longrightarrow> before_arrow (i @ ''->'' @ y) = i"
proof (induction i rule: before_arrow.induct)
  case (3 c d cs)
  then show ?case by (cases "c = CHR ''-'' \<and> d = CHR ''>''") auto
qed simp_all

text \<open>The edges of a chain: every operator but the first has its predecessor as only parent.\<close>

definition chain_edges :: "string list \<Rightarrow> string list list" where
  "chain_edges ids = map (\<lambda>i. if i = 0 then [] else [ids ! (i - 1) @ ''->'' @ ids ! i]) [0..<length ids]"

fun local_op :: "operator \<Rightarrow> bool" where
  "local_op (ReadOp _) = False"
| "local_op (ShuffleOp _) = False"
| "local_op _ = True"

text \<open>What a chain of operators computes, every intermediate result being printable.\<close>

fun chain_outputs :: "runtime \<Rightarrow> (nat \<Rightarrow> group_order) \<Rightarrow> (path \<Rightarrow> string) \<Rightarrow> nat \<Rightarrow> operator list \<Rightarrow>
    json list list \<Rightarrow> json list list \<Rightarrow> bool" where
  "chain_outputs rt orders src idx [] rss outs \<longleftrightarrow> outs = rss"
| "chain_outputs rt orders src idx (op # ops) rss outs \<longleftrightarrow>
     (case operator_meaning rt (orders idx) src op rss of
        Ok mid \<Rightarrow> readable (serde rt) mid \<and> chain_outputs rt orders src (Suc idx) ops mid outs
      | _ \<Rightarrow> False)"

lemma local_ready: "local_op op \<Longrightarrow> iterates it \<Longrightarrow> operator_ready rt it src op ps s"
  by (cases op) simp_all

lemma local_out_ids: "local_op op \<Longrightarrow> map partition_id ps = [pid] \<Longrightarrow> operator_out_ids op ps = [pid]"
  by (cases op) auto

lemma local_paths:
  assumes "local_op op" "operator_execute rt it op ps s = (Ok ps', s')"
  shows "part_paths ps' \<subseteq> part_paths ps"
proof -
  have keep: "part_paths ps' \<subseteq> part_paths ps"
    if "io_bind (io_lift r) (\<lambda>k. io_mapM (process S (f k)) ps) s = (Ok ps', s')" for r S and f :: "'k \<Rightarrow> _"
  proof -
    from that obtain k where "io_mapM (process S (f k)) ps s = (Ok ps', s')" by (auto elim!: io_bind_OkE)
    from arg_cong[OF mapM_process_paths[OF this], of set] show ?thesis by simp
  qed
  show ?thesis
  proof (cases op)
    case (MapOp r)
    with assms keep show ?thesis by (simp add: map_op.execute_eq keep del: io_bind_lift)
  next
    case (FilterOp r)
    with assms keep show ?thesis by (simp add: filter_op.execute_eq keep del: io_bind_lift)
  next
    case (FlatMapOp r)
    with assms keep show ?thesis by (simp add: flat_map_op.execute_eq keep del: io_bind_lift)
  next
    case (ReduceOp r)
    with assms show ?thesis
      by (auto simp: reduce_execute_def io_return_def dest!: from_records_path elim!: io_bind_OkE split: list.splits)
  next
    case (ReduceByKeyOp r)
    with assms show ?thesis
      by (auto simp: reduce_by_key_execute_def io_return_def io_lift_def dest!: from_records_path
          elim!: io_bind_OkE split: list.splits res.splits)
  next
    case (JoinOp r)
    with assms show ?thesis
      by (auto simp: join_execute_def io_return_def io_lift_def dest!: from_records_path
          elim!: io_bind_OkE split: list.splits res.splits)
  qed (use assms(1) in simp_all)
qed

lemma local_touched: "local_op op \<Longrightarrow> operator_touched rt op ps = part_paths ps"
  by (cases op) simp_all

lemma chain_inputs:
  assumes "before_arrow (ids ! (idx - 1)) = ids ! (idx - 1)" "0 < idx" "idx < length ids"
    and "results (ids ! (idx - 1)) = Some ps"
  shows "op_inputs pid limit spill (get_or [] (chain_edges ids) idx) results =
    (ps, results(ids ! (idx - 1) := None))"
  using assms by (simp add: op_inputs_def get_or_def chain_edges_def before_arrow_edge[simplified])

lemma run_chain:
  assumes "\<And>i. iterates (orders i)" "\<And>i. i \<in> set ids \<Longrightarrow> before_arrow i = i"
  shows "chain_outputs rt orders src idx ops rss outs \<Longrightarrow> list_all local_op ops \<Longrightarrow>
    results (ids ! (idx - 1)) = Some ps \<Longrightarrow> parts_hold (serde rt) s ps rss \<Longrightarrow>
    map partition_id ps = [pid] \<Longrightarrow> 0 < idx \<Longrightarrow> idx + length ops = length ids \<Longrightarrow>
    \<exists>ps' results' stages' s'.
      run_ops rt orders pid limit spill ids (chain_edges ids) idx results stages ops s =
        (Ok (results', stages @ stages'), s') \<and>
      results' (last ids) = Some ps' \<and> parts_hold (serde rt) s' ps' outs \<and> map partition_id ps' = [pid] \<and>
      part_paths ps' \<subseteq> part_paths ps \<and> changes_only (part_paths ps) s s'"
proof (induction ops arbitrary: idx rss results ps s stages)
  case Nil
  then have "ids ! (idx - 1) = last ids" by (metis add.right_neutral last_conv_nth length_greater_0_conv list.size(3))
  with Nil show ?case by (auto simp: io_return_def)
next
  case (Cons op ops)
  from Cons.prems(1) obtain mid where mid: "operator_meaning rt (orders idx) src op rss = Ok mid"
    "readable (serde rt) mid" "chain_outputs rt orders src (Suc idx) ops mid outs"
    by (auto split: res.splits)
  have "operator_ready rt (orders idx) src op ps s"
    using Cons.prems(2) assms(1) by (simp add: local_ready)
  from operators.execute_law[OF Cons.prems(4) this mid(1,2)] obtain ps1 s1 where
    run: "operator_execute rt (orders idx) op ps s = (Ok ps1, s1)" "parts_hold (serde rt) s1 ps1 mid"
      "map partition_id ps1 = operator_out_ids op ps" "changes_only (operator_touched rt op ps) s s1"
    by blast
  have op: "local_op op" using Cons.prems(2) by simp
  have frame: "part_paths ps1 \<subseteq> part_paths ps" "changes_only (part_paths ps) s s1"
    using local_paths[OF op run(1)] run(4) op by (simp_all add: local_touched)
  have ids1: "map partition_id ps1 = [pid]"
    using run(3) Cons.prems(2,5) by (simp add: local_out_ids)
  have lt: "idx < length ids" "idx - 1 < length ids" using Cons.prems(7) by auto
  have "op_inputs pid limit spill (get_or [] (chain_edges ids) idx) results =
      (ps, results(ids ! (idx - 1) := None))"
    using assms(2)[of "ids ! (idx - 1)"] lt Cons.prems(3,6) by (intro chain_inputs) auto
  moreover have "op_id_at ids idx = ids ! idx"
    using lt by (simp add: op_id_at_def get_or_def)
  moreover
  let ?res = "results(ids ! (idx - 1) := None, ids ! idx \<mapsto> ps1)"
  let ?st = "\<lparr>st_stage_id = idx, st_operator_id = ids ! idx,
          st_incoming_edges = get_or [] (chain_edges ids) idx,
          st_output_partitions = map partition_info_of ps1\<rparr>"
  have "\<exists>ps' results' stages' s'.
      run_ops rt orders pid limit spill ids (chain_edges ids) (Suc idx) ?res (stages @ [?st]) ops s1 =
        (Ok (results', (stages @ [?st]) @ stages'), s') \<and>
      results' (last ids) = Some ps' \<and> parts_hold (serde rt) s' ps' outs \<and> map partition_id ps' = [pid] \<and>
      part_paths ps' \<subseteq> part_paths ps1 \<and> changes_only (part_paths ps1) s1 s'"
    using Cons.prems(2,7) by (intro Cons.IH[OF mid(3) _ _ run(2) ids1]) simp_all
  then obtain ps' results' stages' s' where
    "run_ops rt orders pid limit spill ids (chain_edges ids) (Suc idx) ?res (stages @ [?st]) ops s1 =
       (Ok (results', stages @ (?st # stages')), s')"
    "results' (last ids) = Some ps'" "parts_hold (serde rt) s' ps' outs" "map partition_id ps' = [pid]"
    and rest: "part_paths ps' \<subseteq> part_paths ps1" "changes_only (part_paths ps1) s1 s'"
    by auto
  moreover have "part_paths ps' \<subseteq> part_paths ps" using rest(1) frame(1) by (rule subset_trans)
  moreover have "changes_only (part_paths ps) s s'"
    by (rule changes_only_same[OF frame(2) changes_only_mono[OF rest(2) frame(1)]])
  ultimately show ?case
    using run(1) by (simp add: io_bind_def Let_def)
qed

lemma read_paths: "read_execute S op ps s = (Ok ps', s') \<Longrightarrow> part_paths ps' \<subseteq> {read_spill_path op}"
  by (auto simp: read_execute_def dest!: from_records_path elim!: io_bind_OkE)

text \<open>Writing the single final partition.\<close>

lemma write_single:
  assumes "parts_hold (serde rt) s [p] [rs]"
  shows "\<exists>s'. write_parts rt U store job stage (partition_id p) 0 [] [p] s =
      (Ok (length (encode (serde rt) rs),
           [\<lparr>pi_partition_id = partition_id p, pi_record_count = length rs, pi_spill_path = None\<rparr>]), s') \<and>
    files s' (partition_path U store job stage (partition_id p)) = Some (encode (serde rt) rs) \<and>
    changes_only {part_path p, partition_path U store job stage (partition_id p)} s s'"
proof -
  from assms have p: "partition_holds (serde rt) s p rs" by simp
  obtain s1 where s1: "into_parts (serde rt) p s = (Ok (part_limit p, part_path p, rs), s1)"
    "path_vacant (part_path p) s1" "changes_only {part_path p} s s1"
    by (rule into_parts_holds[OF p])
  let ?file = "partition_path U store job stage (partition_id p)"
  have "changes_only {part_path p, ?file} s (s1\<lparr>files := (files s1)(?file \<mapsto> encode (serde rt) rs)\<rparr>)"
    using s1(3) by (auto simp: changes_only_def)
  moreover have "healthy s1" using s1(2) by (simp add: path_vacant_def)
  ultimately show ?thesis
    using write_records_encode[of s1 "serde rt" rs] partition_holds_readable[OF p] s1(1)
    by (simp add: io_bind_def io_return_def)
qed

text \<open>The whole pipeline, from the empty partition the first operator is given.\<close>

lemma pipeline_chain:
  assumes "\<And>i. iterates (orders i)" "\<And>i. i \<in> set ids \<Longrightarrow> before_arrow i = i"
    and "length ids = Suc (length ops)" "path_vacant spill s" "list_all local_op ops"
    and "operator_out_ids op [partition_empty pid limit spill] = [pid]"
    and "operator_ready rt (orders 0) src op [partition_empty pid limit spill] s"
    and "chain_outputs rt orders src 0 (op # ops) [[]] [rs]"
    and "operator_touched rt op [partition_empty pid limit spill] = {spill}"
    and "\<forall>ps' s'. operator_execute rt (orders 0) op [partition_empty pid limit spill] s = (Ok ps', s') \<longrightarrow>
      part_paths ps' \<subseteq> {spill}"
  shows "\<exists>p stages s'. pipeline rt orders U job pid limit spill ids (chain_edges ids) (op # ops) s =
      (Ok ([p], \<lparr>et_job_id = uuid_to_string U job, et_stages = stages\<rparr>), s') \<and>
    parts_hold (serde rt) s' [p] [rs] \<and> partition_id p = pid \<and> stages \<noteq> [] \<and>
    part_path p = spill \<and> changes_only {spill} s s'"
proof -
  let ?in = "[partition_empty pid limit spill]"
  obtain i0 ids' where ids: "ids = i0 # ids'" using assms(3) by (cases ids) auto
  from assms(8) obtain mid where mid: "operator_meaning rt (orders 0) src op [[]] = Ok mid"
    "readable (serde rt) mid" "chain_outputs rt orders src (Suc 0) ops mid [rs]"
    by (auto split: res.splits)
  have "parts_hold (serde rt) s ?in [[]]"
    using assms(4) by (simp add: partition_empty_holds)
  from operators.execute_law[OF this assms(7) mid(1,2)] assms(6) obtain ps1 s1 where
    run: "operator_execute rt (orders 0) op ?in s = (Ok ps1, s1)" "parts_hold (serde rt) s1 ps1 mid"
      "map partition_id ps1 = [pid]" "changes_only {spill} s s1"
    by (auto simp: assms(9))
  have frame: "part_paths ps1 \<subseteq> {spill}" using assms(10) run(1) by blast
  let ?st = "\<lparr>st_stage_id = 0, st_operator_id = i0, st_incoming_edges = [],
      st_output_partitions = map partition_info_of ps1\<rparr>"
  have "\<exists>ps' results' stages' s'. run_ops rt orders pid limit spill ids (chain_edges ids) (Suc 0)
      [i0 \<mapsto> ps1] [?st] ops s1 = (Ok (results', [?st] @ stages'), s') \<and>
      results' (last ids) = Some ps' \<and> parts_hold (serde rt) s' ps' [[rs] ! 0] \<and> map partition_id ps' = [pid] \<and>
      part_paths ps' \<subseteq> part_paths ps1 \<and> changes_only (part_paths ps1) s1 s'"
    by (rule run_chain[OF assms(1,2) _ assms(5) _ run(2,3)])
      (use mid(3) assms(3) in \<open>simp_all add: ids\<close>)
  then obtain ps' results' stages' s' where loop:
    "run_ops rt orders pid limit spill ids (chain_edges ids) (Suc 0) [i0 \<mapsto> ps1] [?st] ops s1 =
       (Ok (results', ?st # stages'), s')"
    "results' (last ids) = Some ps'" "parts_hold (serde rt) s' ps' [rs]" "map partition_id ps' = [pid]"
    "part_paths ps' \<subseteq> part_paths ps1" "changes_only (part_paths ps1) s1 s'"
    by auto
  then obtain p where p: "ps' = [p]" "partition_id p = pid" by auto
  have "changes_only {spill} s s'"
    by (rule changes_only_same[OF run(4) changes_only_mono[OF loop(6) frame]])
  moreover have "part_path p = spill" using loop(5) frame p(1) by auto
  moreover
  have "get_or [] (chain_edges ids) 0 = []"
    by (simp add: get_or_def chain_edges_def ids del: upt_Suc)
  then have first: "op_inputs pid limit spill (get_or [] (chain_edges ids) 0) Map.empty = (?in, Map.empty)"
    "op_id_at ids 0 = i0" "get_or [] (chain_edges ids) 0 = []"
    by (simp_all add: op_inputs_def op_id_at_def get_or_def ids)
  have "pipeline rt orders U job pid limit spill ids (chain_edges ids) (op # ops) s =
      (Ok ([p], \<lparr>et_job_id = uuid_to_string U job, et_stages = ?st # stages'\<rparr>), s')"
    using run(1) loop p first ids by (simp add: pipeline_def io_bind_def io_return_def)
  ultimately show ?thesis using loop(3) p by blast
qed

section \<open>Properties\<close>

text \<open>A task whose operators form a chain that starts with reading its input.\<close>

fun local_type :: "operator_type \<Rightarrow> bool" where
  "local_type (OT_Read _ _) = False"
| "local_type (OT_ShuffleByKey _ _) = False"
| "local_type _ = True"

definition linear_task :: "task \<Rightarrow> bool" where
  "linear_task t \<longleftrightarrow>
     (\<exists>uri fmt ops. task_operators t = OT_Read uri fmt # ops \<and> list_all local_type ops) \<and>
     length (task_operator_ids t) = length (task_operators t) \<and>
     list_all (\<lambda>i. before_arrow i = i) (task_operator_ids t) \<and>
     task_incoming_edges t = chain_edges (task_operator_ids t)"

lemma build_linear:
  assumes "linear_task t"
  shows "\<exists>op ops. build_operators t cfg spill = Ok (ReadOp op # ops) \<and> list_all local_op ops \<and>
    read_partition_id op = task_partition t \<and> read_spill_path op = spill \<and>
    length (task_operator_ids t) = Suc (length ops)"
proof -
  from assms obtain uri fmt ds where ds: "task_operators t = OT_Read uri fmt # ds"
    "list_all local_type ds" "length (task_operator_ids t) = Suc (length ds)"
    by (auto simp: linear_task_def)
  have "\<exists>ops. res_mapM (\<lambda>d. from_type d pid n limit spill) ds = Ok ops \<and> list_all local_op ops \<and>
      length ops = length ds" if "list_all local_type ds" for pid n limit and ds :: "operator_type list"
    using that
  proof (induction ds)
    case Nil
    then show ?case by simp
  next
    case (Cons d ds)
    then show ?case by (cases d) auto
  qed
  from this[OF ds(2), of "task_partition t" "max (task_total_partitions t) 1"
      "partition_cache_limit_bytes cfg"] obtain ops where
    "res_mapM (\<lambda>d. from_type d (task_partition t) (max (task_total_partitions t) 1)
       (partition_cache_limit_bytes cfg) spill) ds = Ok ops" "list_all local_op ops" "length ops = length ds"
    by blast
  with ds show ?thesis by (simp add: build_operators_def operator_defs_def)
qed

text \<open>The time of a completed task is the time its attempt took.\<close>

lemma execute_sync_duration:
  "execute_sync rt orders d U t store cfg s = (Ok r, s') \<Longrightarrow> res_status r = TS_Completed \<Longrightarrow>
   tm_duration_ms (res_metrics r) = d"
  by (auto simp: execute_sync_def finish_task_def completed_result_def failed_result_def Let_def
      split: res.splits prod.splits if_splits)

lemma execute_linear:
  assumes "linear_task t" "\<And>i. iterates (orders i)"
    and "build_operators t cfg (store_spill_path U store (task_job_id t) (length (task_operators t) - 1)
           (task_partition t)) = Ok (ReadOp op # ops)"
    and "read_ready op (src (read_path op)) [] s"
    and "chain_outputs rt orders src 0 (ReadOp op # ops) [[]] [rs]"
  shows "\<exists>r s'. execute_sync rt orders d U t store cfg s = (Ok r, s') \<and> res_status r = TS_Completed \<and>
    files s' (rl_path (res_location r)) = Some (encode (serde rt) rs) \<and>
    rl_path (res_location r) =
      partition_path U store (task_job_id t) (length (task_operators t) - 1) (task_partition t) \<and>
    rl_size_bytes (res_location r) = length (encode (serde rt) rs) \<and>
    tm_processed_records (res_metrics r) = length rs \<and>
    changes_only {read_spill_path op, rl_path (res_location r)} s s'"
proof -
  let ?ids = "task_operator_ids t" and ?pid = "task_partition t"
  let ?spill = "store_spill_path U store (task_job_id t) (length (task_operators t) - 1) ?pid"
  let ?limit = "partition_cache_limit_bytes cfg"
  have shape: "operator_defs t = task_operators t" "task_operator_ids' t = ?ids"
    "task_edges t = chain_edges ?ids" "\<And>i. i \<in> set ?ids \<Longrightarrow> before_arrow i = i"
    using assms(1) by (auto simp: linear_task_def operator_defs_def task_operator_ids'_def task_edges_def
        list_all_iff chain_edges_def)
  from build_linear[OF assms(1), of cfg ?spill] assms(3) have op: "read_partition_id op = ?pid"
    "read_spill_path op = ?spill" "list_all local_op ops" "length ?ids = Suc (length ops)"
    by auto
  let ?in = "[partition_empty ?pid ?limit ?spill]"
  have vacant: "path_vacant ?spill s" using assms(4) op(2) by (simp add: read_ready_def)
  have first: "operator_out_ids (ReadOp op) ?in = [?pid]" "operator_touched rt (ReadOp op) ?in = {?spill}"
    "operator_ready rt (orders 0) src (ReadOp op) ?in s"
    using assms(4) op(1,2) by (simp_all add: read_ready_def)
  have paths: "\<forall>ps' s'. operator_execute rt (orders 0) (ReadOp op) ?in s = (Ok ps', s') \<longrightarrow>
      part_paths ps' \<subseteq> {?spill}"
    using read_paths[of "serde rt" op ?in s] op(2) by simp
  from pipeline_chain[OF assms(2) shape(4) op(4) vacant op(3) first(1,3) assms(5) first(2) paths,
      where U = U and job = "task_job_id t"]
  obtain p stages s1 where run:
    "pipeline rt orders U (task_job_id t) ?pid ?limit ?spill ?ids (chain_edges ?ids) (ReadOp op # ops) s =
      (Ok ([p], \<lparr>et_job_id = uuid_to_string U (task_job_id t), et_stages = stages\<rparr>), s1)"
    "parts_hold (serde rt) s1 [p] [rs]" "partition_id p = ?pid" "part_path p = ?spill" "changes_only {?spill} s s1"
    by auto
  from write_single[OF run(2), of U store "task_job_id t" "length (task_operators t) - 1"] run(3)
  obtain s2 where wr: "write_parts rt U store (task_job_id t) (length (task_operators t) - 1) ?pid 0 [] [p] s1 =
      (Ok (length (encode (serde rt) rs),
        [\<lparr>pi_partition_id = ?pid, pi_record_count = length rs, pi_spill_path = None\<rparr>]), s2)"
    "files s2 (partition_path U store (task_job_id t) (length (task_operators t) - 1) ?pid) =
      Some (encode (serde rt) rs)"
    "changes_only {?spill, partition_path U store (task_job_id t) (length (task_operators t) - 1) ?pid} s1 s2"
    by (auto simp: run(4))
  have "changes_only {?spill, partition_path U store (task_job_id t) (length (task_operators t) - 1) ?pid} s s2"
    by (rule changes_only_same[OF changes_only_mono[OF run(5)] wr(3)]) simp
  moreover have "record_count (cache p) = length rs"
    using run(2) by (simp add: partition_holds_def cache_holds_def)
  ultimately show ?thesis
    using run(1) wr(1,2) assms(3) shape op(2)
    by (simp add: execute_sync_def finish_task_def Let_def completed_result_def)
qed

lemma execute_task_first:
  assumes "run_attempt rt env U ex t 0 s = (r, s')" "res_status r = TS_Completed"
  shows "\<exists>ex'. execute_task rt env U t ex s = Some (Ok r, 1, ex', s') \<and>
    ex_store ex' = ex_store ex \<and> ex_config ex' = ex_config ex \<and>
    (0 < ex_available ex \<longrightarrow> ex_available ex' = ex_available ex)"
  using assms by (simp add: execute_task_def retry_loop.simps Let_def count_result_def)

text \<open>
  Claim C3. A task that reads its share of the input and applies a chain of map, filter,
  flat map and reduce operators completes, and its result file holds, one JSON text per line,
  exactly the records the meanings of the operators prescribe for that share; the reported
  size and record count are those of the file, and no other file but the spill file of the task
  is touched.
\<close>

theorem linear_task_correct:
  assumes "linear_task t" "\<And>i. iterates (orders i)"
    and "build_operators t cfg (store_spill_path U store (task_job_id t) (length (task_operators t) - 1)
           (task_partition t)) = Ok (ReadOp op # ops)"
    and "read_ready op (src (read_path op)) [] s"
    and "chain_outputs rt orders src 0 (ReadOp op # ops) [[]] [rs]"
  shows "\<exists>r s'. execute_sync rt orders d U t store cfg s = (Ok r, s') \<and> res_status r = TS_Completed \<and>
    files s' (rl_path (res_location r)) = Some (encode (serde rt) rs) \<and>
    rl_path (res_location r) =
      partition_path U store (task_job_id t) (length (task_operators t) - 1) (task_partition t) \<and>
    rl_size_bytes (res_location r) = length (encode (serde rt) rs) \<and>
    tm_processed_records (res_metrics r) = length rs \<and>
    changes_only {read_spill_path op, rl_path (res_location r)} s s'"
  using assms by (rule execute_linear)

text \<open>An example: reading two records and keeping both.\<close>

definition example_task :: task where
  "example_task = \<lparr>task_id = 9, task_job_id = 7, task_stage_id = 1, task_attempt = 0,
     task_operator = OT_Filter ''always_true'',
     task_operators = [OT_Read ''/in'' ''jsonl'', OT_Filter ''always_true''],
     task_operator_ids = [''r'', ''f''], task_incoming_edges = [[], [''r->f'']],
     task_partition = 0, task_input_uri = ''/in'', task_input_format = ''jsonl'',
     task_total_partitions = 1\<rparr>"

definition example_store :: partition_store where
  "example_store = \<lparr>root = ''/d'', store_config = default_config\<rparr>"

definition example_input :: fs where
  "example_input = example_fs\<lparr>files := [''/in'' \<mapsto> text_a @ newline # text_b @ [newline]]\<rparr>"

definition example_read :: Op_Read.read_op where
  "example_read = \<lparr>read_path = ''/in'', read_format = ''jsonl'', read_partition_id = 0,
     read_total_partitions = 1, read_cache_limit_bytes = 134217728,
     read_spill_path = store_spill_path example_uuid_api example_store 7 1 0\<rparr>"

lemma example_linear: "linear_task example_task"
  by (simp add: linear_task_def example_task_def chain_edges_def)

lemma example_build:
  "build_operators example_task default_config
     (store_spill_path example_uuid_api example_store (task_job_id example_task)
        (length (task_operators example_task) - 1) (task_partition example_task)) =
   Ok (ReadOp example_read # [FilterOp \<lparr>filter_predicate = ''always_true''\<rparr>])"
  by (simp add: build_operators_def operator_defs_def example_task_def example_read_def default_config_def)

lemma example_read_ready: "read_ready example_read (text_a @ newline # text_b @ [newline]) [] example_input"
proof -
  have "read_spill_path example_read \<noteq> ''/in''"
    by (simp add: example_read_def store_spill_path_def example_store_def path_join_def slash_def)
  then show ?thesis
    by (simp add: read_ready_def example_input_def path_vacant_def text_at_def healthy_def example_fs_def)
      (simp add: example_read_def)
qed

lemma example_read_text:
  "read_text example_serde ''jsonl'' 1 0 (text_a @ newline # text_b @ [newline]) = Ok [rec_a, rec_b]"
proof -
  have vs: "list_all (reads_back example_serde) [rec_a, rec_b]" by simp
  have "lines (encode example_serde [rec_a, rec_b]) = [text_a, text_b]"
    by (simp only: lines_encode[OF vs]) simp
  then have ls: "lines (text_a @ newline # text_b @ [newline]) = [text_a, text_b]" by simp
  have "json_line example_serde k text_a = Ok [rec_a]" "json_line example_serde k text_b = Ok [rec_b]" for k
    using reads_backD[of example_serde rec_a] reads_backD[of example_serde rec_b]
    by (simp_all add: json_line_def) (simp_all add: rec_a_def rec_b_def)
  then show ?thesis by (simp add: read_text_def read_jsonl_def ls)
qed

lemma example_chain:
  "chain_outputs example_runtime (\<lambda>_. key_order) (\<lambda>_. text_a @ newline # text_b @ [newline]) 0
     (ReadOp example_read # [FilterOp \<lparr>filter_predicate = ''always_true''\<rparr>]) [[]] [[rec_a, rec_b]]"
  using example_read_text by (simp add: example_runtime_def example_read_def rewrite_all_def parse_def)

theorem linear_task_correct_witness:
  "\<exists>r s'. execute_sync example_runtime (\<lambda>_. key_order) 5 example_uuid_api example_task example_store
      default_config example_input = (Ok r, s') \<and> res_status r = TS_Completed \<and>
    files s' (rl_path (res_location r)) = Some (encode (serde example_runtime) [rec_a, rec_b])"
  using linear_task_correct[OF example_linear iterates_key_order example_build example_read_ready
      example_chain]
  by blast

text \<open>
  Claim C26. Whatever happens to a task, in whatever state the file system is, its result
  names the task, job and partition it belongs to, and it is either completed with a trace or
  failed with neither trace nor partitions nor size.
\<close>

theorem task_result_identity: "result_for t (fst (execute_once rt orders d U t store cfg s))"
  by (rule execute_once_result)

text \<open>
  Claim C19. A task is tried at most once more than the retry limit says, and this returns: with
  the first attempt that completes, or with the last failure. Every failed attempt is counted as
  failed, a completed one as completed and its records as processed; the permit is given back and no
  task is left marked as active. (A permit must be free, and the limit must not be the largest 32-bit
  number.)
\<close>

theorem retry_terminates:
  assumes "task_retry_limit (ex_config ex) \<noteq> - 1" "0 < ex_available ex"
  shows "\<exists>r k ex' s'. execute_task rt env U t ex s = Some (Ok r, k, ex', s') \<and>
    1 \<le> k \<and> k \<le> unat (task_retry_limit (ex_config ex)) + 1 \<and> result_for t r \<and>
    (is_failed (res_status r) \<longrightarrow> k = unat (task_retry_limit (ex_config ex)) + 1) \<and>
    ex_active_task ex' = None \<and> ex_available ex' = ex_available ex \<and>
    ex_tasks_failed ex' = ex_tasks_failed ex + of_nat (if is_failed (res_status r) then k else k - 1) \<and>
    ex_tasks_completed ex' = ex_tasks_completed ex + (if is_failed (res_status r) then 0 else 1) \<and>
    ex_records_processed ex' = ex_records_processed ex +
      (if is_failed (res_status r) then 0 else of_nat (tm_processed_records (res_metrics r)))"
  using assms by (rule execute_task_returns)

definition example_executor :: "u32 \<Rightarrow> executor" where
  "example_executor limit = \<lparr>ex_config = default_config\<lparr>task_retry_limit := limit\<rparr>, ex_worker_id = 3,
     ex_master_addr = ''127.0.0.1:8080'', ex_store = example_store, ex_available = 4,
     ex_tasks_completed = 0, ex_tasks_failed = 0, ex_records_processed = 0, ex_active_task = None\<rparr>"

theorem retry_terminates_witness:
  "\<exists>r k ex' s'. execute_task example_runtime (\<lambda>_. (\<lambda>_. key_order, 5)) example_uuid_api example_task
      (example_executor 1) example_fs = Some (Ok r, k, ex', s') \<and> k \<le> 2"
  using retry_terminates[of "example_executor 1" example_runtime "\<lambda>_. (\<lambda>_. key_order, 5)"
      example_uuid_api example_task example_fs]
  by (auto simp: example_executor_def)

text \<open>
  With the largest 32-bit number as retry limit and without overflow checks, a task
  that always fails is retried without end: the attempt counter wraps around before it exceeds
  the limit, and the executor never answers.
\<close>

theorem retry_forever:
  assumes "task_retry_limit (ex_config ex) = - 1" "\<not> overflow_checks rt"
    and "\<And>n s. is_failed (res_status (fst (run_attempt rt env U ex t n s)))"
  shows "execute_task rt env U t ex s = None"
proof -
  have "retry_loop (run_attempt rt env U ex t) False (task_id t) 0 0
      (ex\<lparr>ex_available := ex_available ex - 1\<rparr>) s = None"
    using assms(1,3) by (intro retry_loop_forever) simp_all
  with assms(2) show ?thesis by (simp add: execute_task_def)
qed

text \<open>A task with an operator but no operator list always fails: its output has no name.\<close>

lemma empty_operators_fail:
  assumes "task_operators t = []" "task_operator_ids t = []" "task_operator t = OT_Identity"
  shows "is_failed (res_status (fst (execute_once rt orders d U t store cfg s)))"
proof -
  have defs: "operator_defs t = [OT_Identity]" "task_operator_ids' t = []"
    using assms by (simp_all add: operator_defs_def task_operator_ids'_def)
  have run: "pipeline rt orders U job pid limit spill [] edges [op] s =
      (case run_ops rt orders pid limit spill [] edges 0 Map.empty [] [op] s of
         (Ok _, s') \<Rightarrow> (Err (Message ''missing final operator output''), s')
       | (Err e, s') \<Rightarrow> (Err e, s') | (Panic, s') \<Rightarrow> (Panic, s'))"
    for job pid limit spill edges op
  proof -
    have "results ''final'' = None"
      if "run_ops rt orders pid limit spill [] edges 0 Map.empty [] [op] s = (Ok (results, st), s')"
      for results st s'
    proof -
      have inp: "snd (op_inputs pid limit spill e Map.empty) = Map.empty" for e
      proof -
        have "take_parents ps Map.empty = ([], Map.empty)" for ps by (induction ps) simp_all
        then show ?thesis by (simp add: op_inputs_def Let_def)
      qed
      from that obtain parts where "results = [''op-'' @ show_nat 0 \<mapsto> parts]"
        using inp[of "get_or [] edges 0"]
        by (auto simp: op_id_at_def get_or_def case_prod_unfold
            elim!: io_bind_OkE split: if_splits)
      then show ?thesis by simp
    qed
    then show ?thesis
      by (auto simp: pipeline_def io_bind_def io_lift_def simp del: run_ops.simps
          split: res.splits prod.splits option.splits)
  qed
  show ?thesis
    unfolding execute_once_def execute_sync_def finish_task_def build_operators_def defs Let_def
    by (auto simp: run failed_result_def split: res.splits prod.splits)
qed

theorem retry_forever_witness:
  "execute_task example_runtime (\<lambda>_. (\<lambda>_. key_order, 5)) example_uuid_api
     (example_task\<lparr>task_operators := [], task_operator_ids := [], task_operator := OT_Identity\<rparr>)
     (example_executor (- 1)) example_fs = None"
  by (rule retry_forever)
    (simp_all add: example_executor_def example_runtime_def run_attempt_def empty_operators_fail)

text \<open>
  An output is consumed by the first operator that lists its producer: a second
  operator with the same parent finds the table empty and is run on no partition at all.
\<close>

theorem second_consumer_gets_nothing:
  assumes "before_arrow e = p" "before_arrow e' = p" "results p = Some parts"
  shows "fst (op_inputs pid limit spill [e] results) = parts \<and>
    fst (op_inputs pid limit spill [e'] (snd (op_inputs pid limit spill [e] results))) = []"
  using assms by (simp add: op_inputs_def)

theorem second_consumer_gets_nothing_witness:
  "fst (op_inputs 0 9 ''/s'' [''a->c''] (snd (op_inputs 0 9 ''/s'' [''a->b''] [''a'' \<mapsto> [example_part]]))) = []"
  using second_consumer_gets_nothing[of "''a->b''" "''a''" "''a->c''" "[''a'' \<mapsto> [example_part]]"
      "[example_part]" 0 9 "''/s''"]
  by simp

end
