(* ===== verification/Master_System.thy ===== *)
theory Master_System
  imports Master_Recovery Executor
begin

text \<open>
  The master at work: requests of clients and workers, the watchdog and the scheduling passes in
  the background, interleaved in any order. A state of the system is the master, the task lists
  that running passes (and submissions) still have to hand out, and the requests sent by earlier
  incarnations of the master. A step is one handler of \<open>src/src/master/mod.rs\<close>; handing out one
  task (\<open>schedule_task\<close>) is a step of its own, so passes interleave task by task. The results
  that come back are results for tasks that were sent, which is what the executor guarantees
  (\<open>Executor.execute_once_result\<close>); they may come late, repeatedly or never.

  The store works (it has no fault), identifiers of new jobs are new, and their task identifiers
  are in no other job.

  Two components of a state only observe the run, no step reads them: the jobs the present master
  found in the store when it started, and the log of what happened since: which assignments it
  made and which results it took.

  A step is atomic. In the code \<open>complete_task\<close> holds the lock on the jobs throughout, but
  \<open>schedule_task\<close> takes it twice (to assign, then to mark the job as running) and \<open>admit_job\<close>
  writes to the store before it takes it; each write to the store is a transaction of its own.
  Interleavings inside one handler, and a crash between two writes of one handler, are not
  among the steps.
\<close>

section \<open>Steps\<close>

datatype entry = Given job_id | Came task_result

record system =
  sys_master :: master
  sys_pending :: "task list list"
  sys_earlier :: "(string \<times> task) list"
  sys_found :: job_map
  sys_log :: "entry list"

text \<open>An assignment is made when a worker is available.\<close>

definition given :: "master_env \<Rightarrow> task \<Rightarrow> master \<Rightarrow> entry list" where
  "given E t m = (case chosen E m of None \<Rightarrow> [] | Some w \<Rightarrow> [Given (task_job_id t)])"

definition requests :: "system \<Rightarrow> (string \<times> task) list" where
  "requests s = sys_earlier s @ m_outbox (sys_master s)"

definition env_ok :: "uuid_api \<Rightarrow> codec \<Rightarrow> master_env \<Rightarrow> bool" where
  "env_ok U C E \<longleftrightarrow> uuids E = U \<and> codecs E = C \<and> codec_ok U C \<and> iterates (worker_iter E) \<and>
     iterates (job_iter E) \<and> iterates (job_rows E) \<and> iterates (task_rows E)"

definition fresh_job :: "master_env \<Rightarrow> job_id \<Rightarrow> dag_specification \<Rightarrow> job_map \<Rightarrow> bool" where
  "fresh_job E job d jobs \<longleftrightarrow> jobs job = None \<and>
     (\<forall>t \<in> set (tasks_of E d job). \<forall>j js. jobs j = Some js \<longrightarrow> task_id t \<notin> dom (job_tasks js))"

text \<open>Everything but results and restarts.\<close>

inductive quiet_step :: "uuid_api \<Rightarrow> codec \<Rightarrow> system \<Rightarrow> system \<Rightarrow> bool" for U C where
  submit: "env_ok U C E \<Longrightarrow> fresh_job E job d (m_jobs (sys_master s)) \<Longrightarrow>
    admit_job E job d (sys_master s) = (Ok ts, m') \<Longrightarrow>
    quiet_step U C s (s\<lparr>sys_master := m', sys_pending := ts # sys_pending s\<rparr>)"
| reject: "env_ok U C E \<Longrightarrow> admit_job E job d (sys_master s) = (Err e, m') \<Longrightarrow>
    quiet_step U C s (s\<lparr>sys_master := m'\<rparr>)"
| schedule: "env_ok U C E \<Longrightarrow> sys_pending s = ps @ (t # ts) # qs \<Longrightarrow>
    quiet_step U C s (s\<lparr>sys_master := schedule_task E t (sys_master s), sys_pending := ps @ ts # qs,
      sys_log := sys_log s @ given E t (sys_master s)\<rparr>)"
| pass: "env_ok U C E \<Longrightarrow> m_passes (sys_master s) = Suc n \<Longrightarrow>
    quiet_step U C s (s\<lparr>sys_master := (sys_master s)\<lparr>m_passes := n\<rparr>,
      sys_pending := queued_tasks_snapshot E (sys_master s) # sys_pending s\<rparr>)"
| heartbeat: "env_ok U C E \<Longrightarrow>
    quiet_step U C s (s\<lparr>sys_master := handle_heartbeat E now hb (sys_master s)\<rparr>)"
| register: "quiet_step U C s (s\<lparr>sys_master := snd (register_worker info (sys_master s))\<rparr>)"
| collect: "quiet_step U C s (s\<lparr>sys_master := garbage_collect_workers now (sys_master s)\<rparr>)"

inductive sys_step :: "uuid_api \<Rightarrow> codec \<Rightarrow> system \<Rightarrow> system \<Rightarrow> bool" for U C where
  quiet: "quiet_step U C s s' \<Longrightarrow> sys_step U C s s'"
| complete: "env_ok U C E \<Longrightarrow> t \<in> snd ` set (requests s) \<Longrightarrow> result_for t r \<Longrightarrow>
    sys_step U C s (s\<lparr>sys_master := snd (complete_task E r (sys_master s)),
      sys_log := sys_log s @ [Came r]\<rparr>)"
| restart: "env_ok U C E \<Longrightarrow> m = master_new E cfg (m_store (sys_master s)) \<Longrightarrow>
    sys_step U C s \<lparr>sys_master = m, sys_pending = [], sys_earlier = requests s,
      sys_found = m_jobs m, sys_log = []\<rparr>"

definition sys_initial :: "uuid_api \<Rightarrow> codec \<Rightarrow> system \<Rightarrow> bool" where
  "sys_initial U C s \<longleftrightarrow> (\<exists>E cfg m. env_ok U C E \<and> m = master_new E cfg empty_store \<and>
     s = \<lparr>sys_master = m, sys_pending = [], sys_earlier = [], sys_found = m_jobs m, sys_log = []\<rparr>)"

section \<open>The invariant\<close>

definition holds :: "uuid_api \<Rightarrow> codec \<Rightarrow> master \<Rightarrow> store_view \<Rightarrow> bool" where
  "holds U C m v \<longleftrightarrow> codec_ok U C \<and> jobs_rep U C (m_store m) (view_jobs v) \<and>
     tasks_rep U C (m_store m) (view_tasks v) \<and> foreign_keys (m_store m) = view_foreign v"

lemma holds_stored: "env_ok U C E \<Longrightarrow> stored E m v \<longleftrightarrow> holds U C m v"
  by (auto simp: env_ok_def stored_def holds_def db_view_def)

text \<open>The results in the store are filed under their own identifiers.\<close>

definition results_filed :: "store_view \<Rightarrow> bool" where
  "results_filed v \<longleftrightarrow> (\<forall>tid job st r. view_tasks v tid = Some (job, st, Some r) \<longrightarrow>
     res_task_id r = tid \<and> res_job_id r = job)"

text \<open>
  The last result of a task in a list, and what the store keeps of the results: the completed
  result stored for a task is the last one in memory for it, and a task stored as completed has one.
\<close>

definition last_for :: "task_id \<Rightarrow> task_result list \<Rightarrow> task_result option" where
  "last_for tid rs = find (\<lambda>r. res_task_id r = tid) (rev rs)"

definition kept :: "job_map \<Rightarrow> store_view \<Rightarrow> bool" where
  "kept jobs v \<longleftrightarrow>
     (\<forall>tid job st r js. view_tasks v tid = Some (job, st, Some r) \<and> res_status r = TS_Completed \<and>
        jobs job = Some js \<longrightarrow> last_for tid (job_results js) = Some r) \<and>
     (\<forall>tid job res. view_tasks v tid = Some (job, TS_Completed, res) \<longrightarrow>
        (\<exists>r. res = Some r \<and> res_status r = TS_Completed))"

definition job_ok :: "job_id \<Rightarrow> job_state \<Rightarrow> bool" where
  "job_ok job js \<longleftrightarrow>
     (\<forall>r \<in> set (job_results js). res_status r = TS_Completed \<and> res_job_id r = job \<and>
        res_task_id r \<in> dom (job_tasks js)) \<and>
     jm_pending_tasks (job_state_metrics js) = jm_total_tasks (job_state_metrics js) -
       (jm_completed_tasks (job_state_metrics js) + jm_failed_tasks (job_state_metrics js)) \<and>
     jm_workers (job_state_metrics js) = []"

definition known :: "job_map \<Rightarrow> task \<Rightarrow> bool" where
  "known jobs t \<longleftrightarrow> (\<exists>js. jobs (task_job_id t) = Some js \<and> task_id t \<in> dom (job_tasks js))"

definition master_inv :: "uuid_api \<Rightarrow> codec \<Rightarrow> master \<Rightarrow> bool" where
  "master_inv U C m \<longleftrightarrow>
     (\<exists>v. holds U C m v \<and> mirrors (m_jobs m) v \<and> results_filed v \<and> kept (m_jobs m) v) \<and>
     finite (dom (m_jobs m)) \<and> registry_ok (m_registry m) \<and>
     (\<forall>job js. m_jobs m job = Some js \<longrightarrow> job_ok job js)"

text \<open>What the log says about a job: its results, its last failure, its status.\<close>

fun came :: "job_id \<Rightarrow> entry list \<Rightarrow> task_result list" where
  "came job [] = []"
| "came job (Came r # L) = (if res_job_id r = job then r # came job L else came job L)"
| "came job (Given j # L) = came job L"

abbreviation completed_of :: "task_result list \<Rightarrow> task_result list" where
  "completed_of \<equiv> filter (\<lambda>r. res_status r = TS_Completed)"

abbreviation failed_of :: "task_result list \<Rightarrow> task_result list" where
  "failed_of \<equiv> filter (\<lambda>r. is_failed (res_status r))"

definition last_failure :: "task_result list \<Rightarrow> string option" where
  "last_failure rs = (case find (\<lambda>r. is_failed (res_status r)) (rev rs) of
     None \<Rightarrow> None | Some r \<Rightarrow> (case res_status r of TS_Failed msg \<Rightarrow> Some msg | _ \<Rightarrow> None))"

fun last_word :: "job_id \<Rightarrow> job_status \<Rightarrow> entry list \<Rightarrow> job_status" where
  "last_word job st [] = st"
| "last_word job st (Given j # L) = last_word job (if j = job then JS_Running else st) L"
| "last_word job st (Came r # L) =
     last_word job (if res_job_id r = job \<and> is_failed (res_status r) then JS_Failed else st) L"

text \<open>
  The state of a job agrees with what its master found (\<open>old\<close>) and took since. The status is
  \<open>Succeeded\<close> exactly when all tasks are completed; otherwise the last assignment or failure
  decides it.
\<close>

definition planned :: "uuid_api \<Rightarrow> codec \<Rightarrow> job_id \<Rightarrow> job_state \<Rightarrow> bool" where
  "planned U C job js \<longleftrightarrow> (\<exists>E. env_ok U C E \<and>
     jm_total_tasks (job_state_metrics js) = length (tasks_of E (job_dag js) job) \<and>
     dom (job_tasks js) = task_id ` set (tasks_of E (job_dag js) job))"

definition booked :: "uuid_api \<Rightarrow> codec \<Rightarrow> job_state option \<Rightarrow> entry list \<Rightarrow> job_id \<Rightarrow> job_state \<Rightarrow> bool" where
  "booked U C old L job js \<longleftrightarrow>
     job_results js = (case old of None \<Rightarrow> [] | Some o' \<Rightarrow> job_results o') @ completed_of (came job L) \<and>
     jm_completed_tasks (job_state_metrics js) = length (completed_of (came job L)) \<and>
     jm_failed_tasks (job_state_metrics js) = length (failed_of (came job L)) \<and>
     job_error js = last_failure (came job L) \<and>
     job_state_status js =
       (if job_tasks js \<noteq> Map.empty \<and> all_completed js then JS_Succeeded
        else last_word job (case old of None \<Rightarrow> JS_Accepted | Some o' \<Rightarrow> job_state_status o') L) \<and>
     (case old of None \<Rightarrow> planned U C job js
      | Some o' \<Rightarrow> jm_total_tasks (job_state_metrics js) = 0 \<and> dom (job_tasks o') = dom (job_tasks js))"

fun entry_job :: "entry \<Rightarrow> job_id" where
  "entry_job (Given job) = job"
| "entry_job (Came r) = res_job_id r"

definition books :: "uuid_api \<Rightarrow> codec \<Rightarrow> job_map \<Rightarrow> entry list \<Rightarrow> job_map \<Rightarrow> bool" where
  "books U C found L jobs \<longleftrightarrow>
     (\<forall>job. case jobs job of
        None \<Rightarrow> found job = None \<and> job \<notin> entry_job ` set L
      | Some js \<Rightarrow> booked U C (found job) L job js)"

definition sys_inv :: "uuid_api \<Rightarrow> codec \<Rightarrow> system \<Rightarrow> bool" where
  "sys_inv U C s \<longleftrightarrow> master_inv U C (sys_master s) \<and>
     books U C (sys_found s) (sys_log s) (m_jobs (sys_master s)) \<and>
     (\<forall>ts \<in> set (sys_pending s). \<forall>t \<in> set ts. known (m_jobs (sys_master s)) t) \<and>
     (\<forall>q \<in> set (requests s). known (m_jobs (sys_master s)) (snd q))"

text \<open>A master may change its jobs as long as no task disappears.\<close>

definition extends :: "job_map \<Rightarrow> job_map \<Rightarrow> bool" where
  "extends jobs jobs' \<longleftrightarrow> (\<forall>t. known jobs t \<longrightarrow> known jobs' t)"

lemma extendsI:
  assumes "\<And>job js. jobs job = Some js \<Longrightarrow> \<exists>js'. jobs' job = Some js' \<and> dom (job_tasks js) \<subseteq> dom (job_tasks js')"
  shows "extends jobs jobs'"
  unfolding extends_def known_def using assms by blast

lemma extends_upd:
  "jobs job = None \<or> (\<exists>js. jobs job = Some js \<and> dom (job_tasks js) \<subseteq> dom (job_tasks js')) \<Longrightarrow>
   extends jobs (jobs(job \<mapsto> js'))"
  by (rule extendsI) fastforce

lemma extends_refl [simp]: "extends jobs jobs"
  by (simp add: extends_def)

section \<open>Lemmas: the store and the log\<close>

lemma last_for_append: "last_for tid (rs @ [r]) = (if res_task_id r = tid then Some r else last_for tid rs)"
  by (simp add: last_for_def)

lemma last_for_Nil [simp]: "last_for tid [] = None"
  by (simp add: last_for_def)

lemma last_for_SomeD: "last_for tid rs = Some r \<Longrightarrow> r \<in> set rs \<and> res_task_id r = tid"
  by (induction rs rule: rev_induct) (auto simp: last_for_append split: if_splits)

lemma last_for_distinct: "distinct (map res_task_id rs) \<Longrightarrow> r \<in> set rs \<Longrightarrow> last_for (res_task_id r) rs = Some r"
  by (induction rs rule: rev_induct) (auto simp: last_for_append image_iff)

lemma kept_write:
  "kept jobs v \<Longrightarrow> kept jobs (view_write (WriteJob job d st) v)"
  "kept jobs v \<Longrightarrow> tst \<noteq> TS_Completed \<Longrightarrow> kept jobs (view_write (WriteStatus tid job tst) v)"
  by (auto simp: kept_def split: option.splits)

fun keeps_results :: "store_write \<Rightarrow> bool" where
  "keeps_results (WriteJob _ _ _) = True"
| "keeps_results (WriteStatus _ _ st) = (st \<noteq> TS_Completed)"
| "keeps_results (WriteResult _) = False"

lemma kept_fold: "kept jobs v \<Longrightarrow> list_all keeps_results ws \<Longrightarrow> kept jobs (fold view_write ws v)"
proof (induction ws arbitrary: v)
  case (Cons w ws)
  then have "kept jobs (view_write w v)" by (cases w) (auto intro: kept_write simp del: view_write.simps)
  with Cons show ?case by simp
qed simp

lemma kept_jobs:
  assumes "kept jobs v"
    and "\<And>job js'. jobs' job = Some js' \<Longrightarrow> \<exists>js. jobs job = Some js \<and> job_results js' = job_results js"
  shows "kept jobs' v"
  using assms unfolding kept_def by metis

lemma kept_result:
  assumes kept: "kept jobs v" "jobs (res_job_id r) = Some js" and own: "owns jobs (res_job_id r) (res_task_id r)"
    and m: "mirrors jobs v"
    and js': "job_results js' = job_results js @ completed_of [r]"
  shows "kept (jobs(res_job_id r \<mapsto> js')) (view_write (WriteResult r) v)"
proof -
  have eq: "view_write (WriteResult r) v =
      v\<lparr>view_tasks := (view_tasks v)(res_task_id r \<mapsto> (res_job_id r, res_status r, Some r))\<rparr>"
    by (rule write_result_view(2)[OF m _ own]) (simp add: kept(2))
  show ?thesis
    unfolding eq using kept js' by (auto simp: kept_def last_for_append)
qed

text \<open>What a restart loads as the results of a job.\<close>

lemma restarted_results:
  assumes ts: "enumerates ts (view_tasks v)" and filed: "results_filed v"
  shows "r \<in> set (job_results (restarted_job ts job js)) \<longleftrightarrow>
      (\<exists>st. view_tasks v (res_task_id r) = Some (job, st, Some r)) \<and> res_status r = TS_Completed"
    "distinct (map res_task_id (job_results (restarted_job ts job js)))"
proof -
  have "r \<in> set (job_results (restarted_job ts job js)) \<longleftrightarrow>
      (\<exists>tid st. view_tasks v tid = Some (job, st, Some r)) \<and> res_status r = TS_Completed"
    by (fastforce simp: restarted_job_def tasks_for_def row_results_def completed_only_def is_completed_def
        enumerates_set[OF ts, symmetric] split: option.splits if_splits)
  then show "r \<in> set (job_results (restarted_job ts job js)) \<longleftrightarrow>
      (\<exists>st. view_tasks v (res_task_id r) = Some (job, st, Some r)) \<and> res_status r = TS_Completed"
    using filed unfolding results_filed_def by blast
  have rows: "\<forall>x \<in> set ts. \<forall>r \<in> set (row_results x). res_task_id r = fst x"
    using filed by (auto simp: results_filed_def row_results_def completed_only_def
        enumerates_set[OF ts, symmetric] split: option.splits if_splits)
  have "distinct (map fst ts)" using ts by (simp add: enumerates_def)
  from this rows have "distinct (map res_task_id (concat (map row_results (tasks_for job ts))))"
  proof (induction ts)
    case (Cons x ts)
    have "row_results x = [] \<or> (\<exists>q. row_results x = [q] \<and> res_task_id q = fst x)"
      using Cons.prems(2) by (auto simp: row_results_def completed_only_def split: option.splits)
    moreover have "fst x \<notin> res_task_id ` set (concat (map row_results (tasks_for job ts)))"
      using Cons.prems by (force simp: tasks_for_def)
    ultimately show ?case using Cons by (auto simp: tasks_for_def)
  qed (simp add: tasks_for_def)
  then show "distinct (map res_task_id (job_results (restarted_job ts job js)))" by (simp add: restarted_job_def)
qed

lemma came_append [simp]: "came job (L @ L') = came job L @ came job L'"
  by (induction L rule: came.induct) auto

lemma last_word_append [simp]: "last_word job st (L @ L') = last_word job (last_word job st L) L'"
  by (induction job st L rule: last_word.induct) auto

lemma unlogged:
  "job \<notin> entry_job ` set L \<Longrightarrow> came job L = [] \<and> last_word job st L = st"
  by (induction job st L rule: last_word.induct) auto

lemma booked_other: "entry_job e \<noteq> job \<Longrightarrow> booked U C old (L @ [e]) job js \<longleftrightarrow> booked U C old L job js"
  by (cases e) (simp_all add: booked_def)

lemma last_failure_simps [simp]:
  "last_failure [] = None"
  "\<not> is_failed (res_status r) \<Longrightarrow> last_failure (rs @ [r]) = last_failure rs"
  "res_status r = TS_Failed msg \<Longrightarrow> last_failure (rs @ [r]) = Some msg"
  by (simp_all add: last_failure_def)

lemma booked_assigned:
  assumes "booked U C old L job js" "tid \<in> dom (job_tasks js)"
  shows "booked U C old (L @ [Given job]) job (assigned_job tid w js)"
proof -
  have "\<not> all_completed (assigned_job tid w js)" by (auto simp: all_completed_def assigned_job_def ran_def)
  moreover have "dom (job_tasks (assigned_job tid w js)) = dom (job_tasks js)"
    using assms(2) by (auto simp: assigned_job_def)
  ultimately show ?thesis
    using assms(1) by (auto simp: booked_def planned_def assigned_job_def split: option.splits)
qed

lemma booked_result:
  assumes book: "booked U C old L (res_job_id r) js" and tid: "res_task_id r \<in> dom (job_tasks js)"
    and st: "res_status r = TS_Completed \<or> is_failed (res_status r)"
  shows "booked U C old (L @ [Came r]) (res_job_id r) (job_after r (with_status r js))"
proof -
  let ?js = "job_after r (with_status r js)"
  have dom: "dom (job_tasks ?js) = dom (job_tasks js)" using tid by (auto simp: with_status_def)
  have some: "job_tasks ?js \<noteq> Map.empty" using tid dom by auto
  have frame: "job_dag ?js = job_dag js"
    "jm_total_tasks (job_state_metrics ?js) = jm_total_tasks (job_state_metrics js)"
    by (simp_all add: job_after_def with_status_def Let_def split: task_status.splits)
  have keep: "case old of None \<Rightarrow> planned U C (res_job_id r) ?js
      | Some o' \<Rightarrow> jm_total_tasks (job_state_metrics ?js) = 0 \<and> dom (job_tasks o') = dom (job_tasks ?js)"
    using book dom frame by (simp add: booked_def planned_def split: option.splits)
  define start where "start = (case old of None \<Rightarrow> JS_Accepted | Some o' \<Rightarrow> job_state_status o')"
  from st consider (done') "res_status r = TS_Completed" | (failed) msg where "res_status r = TS_Failed msg"
    by (cases "res_status r") auto
  then show ?thesis
  proof cases
    case done'
    have "job_state_status ?js = (if all_completed ?js then JS_Succeeded else job_state_status js)"
      "job_results ?js = job_results js @ [r]" "job_error ?js = job_error js"
      "jm_completed_tasks (job_state_metrics ?js) = jm_completed_tasks (job_state_metrics js) + 1"
      "jm_failed_tasks (job_state_metrics ?js) = jm_failed_tasks (job_state_metrics js)"
      using done' by (simp_all add: job_after_def with_status_def Let_def all_completed_def)
    moreover have "all_completed js \<Longrightarrow> all_completed ?js"
      using done' by (auto simp: all_completed_def with_status_def ran_def)
    moreover have "job_state_status js = last_word (res_job_id r) start L" if "\<not> all_completed js"
      using book that by (simp add: booked_def start_def)
    moreover have "came (res_job_id r) (L @ [Came r]) = came (res_job_id r) L @ [r]"
      "last_word (res_job_id r) start (L @ [Came r]) = last_word (res_job_id r) start L"
      using done' by simp_all
    ultimately show ?thesis
      using book done' some keep unfolding booked_def start_def[symmetric] by simp
  next
    case failed
    have "\<not> all_completed ?js" using failed by (auto simp: all_completed_def with_status_def ran_def)
    moreover have "job_state_status ?js = JS_Failed" "job_results ?js = job_results js" "job_error ?js = Some msg"
      "jm_completed_tasks (job_state_metrics ?js) = jm_completed_tasks (job_state_metrics js)"
      "jm_failed_tasks (job_state_metrics ?js) = jm_failed_tasks (job_state_metrics js) + 1"
      using failed by (simp_all add: job_after_def with_status_def Let_def)
    moreover have "came (res_job_id r) (L @ [Came r]) = came (res_job_id r) L @ [r]"
      "last_word (res_job_id r) start (L @ [Came r]) = JS_Failed"
      using failed by simp_all
    ultimately show ?thesis
      using book failed keep unfolding booked_def start_def[symmetric] by simp
  qed
qed

lemma booksD:
  assumes "books U C found L jobs"
  shows "jobs job = None \<Longrightarrow> found job = None" "jobs job = None \<Longrightarrow> job \<notin> entry_job ` set L"
    "jobs job = Some js \<Longrightarrow> booked U C (found job) L job js"
  using assms[unfolded books_def, THEN spec, of job] by simp_all

lemma booksI:
  assumes "\<And>job. jobs job = None \<Longrightarrow> found job = None \<and> job \<notin> entry_job ` set L"
    and "\<And>job js. jobs job = Some js \<Longrightarrow> booked U C (found job) L job js"
  shows "books U C found L jobs"
  unfolding books_def using assms by (simp split: option.splits)

lemma books_upd:
  assumes "books U C found L jobs" "jobs (entry_job e) \<noteq> None"
    and "booked U C (found (entry_job e)) (L @ [e]) (entry_job e) js'"
  shows "books U C found (L @ [e]) (jobs(entry_job e \<mapsto> js'))"
proof (rule booksI)
  fix job assume "(jobs(entry_job e \<mapsto> js')) job = None"
  then have "jobs job = None" "job \<noteq> entry_job e" by (auto split: if_splits)
  with booksD(1,2)[OF assms(1)] show "found job = None \<and> job \<notin> entry_job ` set (L @ [e])" by simp
next
  fix job js assume js: "(jobs(entry_job e \<mapsto> js')) job = Some js"
  show "booked U C (found job) (L @ [e]) job js"
    using js assms(3) booksD(3)[OF assms(1), of job js] booked_other[of e job]
    by (cases "job = entry_job e") auto
qed

text \<open>One lemma per handler that changes the jobs.\<close>

lemma books_schedule:
  assumes "books U C found L (m_jobs m)" "known (m_jobs m) t"
  shows "books U C found (L @ given E t m) (m_jobs (schedule_task E t m))"
proof (cases "chosen E m")
  case None
  with assms(1) show ?thesis by (simp add: given_def schedule_task_jobs)
next
  case (Some w)
  from assms(2) obtain js where js: "m_jobs m (task_job_id t) = Some js" "task_id t \<in> dom (job_tasks js)"
    by (auto simp: known_def)
  have "booked U C (found (task_job_id t)) L (task_job_id t) js" using booksD(3)[OF assms(1) js(1)] .
  with js(2) have "booked U C (found (task_job_id t)) (L @ [Given (task_job_id t)]) (task_job_id t)
      (assigned_job (task_id t) w js)" by (intro booked_assigned)
  with books_upd[OF assms(1), of "Given (task_job_id t)"] js(1) Some show ?thesis
    by (simp add: given_def schedule_task_jobs)
qed

lemma books_result:
  assumes "books U C found L jobs" "jobs (res_job_id r) = Some js" "res_task_id r \<in> dom (job_tasks js)"
    and "res_status r = TS_Completed \<or> is_failed (res_status r)"
  shows "books U C found (L @ [Came r]) (jobs(res_job_id r \<mapsto> job_after r (with_status r js)))"
proof -
  have "booked U C (found (res_job_id r)) L (res_job_id r) js"
    using booksD(3)[OF assms(1,2)] .
  from booked_result[OF this assms(3,4)] books_upd[OF assms(1), of "Came r"] assms(2) show ?thesis
    by simp
qed

lemma books_admit:
  assumes "books U C found L jobs" "jobs job = None" "env_ok U C E"
  shows "books U C found L (jobs(job \<mapsto> admitted_job E job d))"
proof -
  have new: "found job = None" "job \<notin> entry_job ` set L" using booksD(1,2)[OF assms(1,2)] .
  have "dom (job_tasks (admitted_job E job d)) = task_id ` set (tasks_of E d job)"
    by (auto simp: admitted_tasks dom_def)
  then have planned: "planned U C job (admitted_job E job d)"
    using assms(3) unfolding planned_def
    by (intro exI[of _ E]) (simp add: admitted_job_def initial_metrics_def)
  have "all_completed (admitted_job E job d) \<Longrightarrow> job_tasks (admitted_job E job d) = Map.empty"
    unfolding all_completed_def ran_def using admitted_tasks[of E job d] by (fastforce split: if_splits)
  with planned unlogged[OF new(2)] new(1)
  have "booked U C (found job) L job (admitted_job E job d)"
    by (auto simp: booked_def) (simp_all add: admitted_job_def initial_metrics_def default_job_metrics_def)
  then show ?thesis using booksD[OF assms(1)] by (intro booksI) (auto split: if_splits)
qed

lemma booked_restarted:
  assumes "booked U C old L job js"
  shows "booked U C (Some (restarted_job ts job js)) [] job (restarted_job ts job js)"
proof -
  have "all_completed js" if "all_completed (restarted_job ts job js)"
  proof -
    have "st = TS_Completed" if "job_tasks js tid = Some st" for tid st
      using \<open>all_completed (restarted_job ts job js)\<close> that
      by (cases st) (force simp: all_completed_def restarted_job_def ran_def)+
    then show ?thesis by (auto simp: all_completed_def ran_def)
  qed
  moreover have "job_tasks (restarted_job ts job js) = Map.empty \<longleftrightarrow> job_tasks js = Map.empty"
    by (auto simp: restarted_job_def fun_eq_iff)
  ultimately have "job_state_status js = JS_Succeeded"
    if "job_tasks (restarted_job ts job js) \<noteq> Map.empty" "all_completed (restarted_job ts job js)"
    using assms that by (simp add: booked_def)
  then show ?thesis
    by (auto simp: booked_def) (simp_all add: restarted_job_def default_job_metrics_def)
qed

lemma books_restart:
  assumes "books U C found L jobs" "jobs' = (\<lambda>job. map_option (restarted_job ts job) (jobs job))"
  shows "books U C jobs' [] jobs'"
  using booksD(3)[OF assms(1)] unfolding assms(2) by (intro booksI) (auto intro!: booked_restarted)

section \<open>Handing out a task\<close>

lemma master_inv_cong:
  assumes "master_inv U C m" "m_jobs m' = m_jobs m" "m_store m' = m_store m" "registry_ok (m_registry m')"
  shows "master_inv U C m'"
  using assms by (simp add: master_inv_def holds_def)

lemma filed_write:
  "results_filed v \<Longrightarrow> results_filed (view_write (WriteJob job d st) v)"
  "results_filed v \<Longrightarrow> results_filed (view_write (WriteStatus tid job tst) v)"
  by (auto simp: results_filed_def split: option.splits)

lemma filed_fold:
  "results_filed v \<Longrightarrow> \<forall>w \<in> set ws. \<forall>r. w \<noteq> WriteResult r \<Longrightarrow> results_filed (fold view_write ws v)"
proof (induction ws arbitrary: v)
  case (Cons w ws)
  then have "results_filed (view_write w v)" by (cases w) (auto intro: filed_write simp del: view_write.simps)
  with Cons show ?case by simp
qed simp

lemma schedule_filed: "results_filed v \<Longrightarrow> results_filed (fold view_write (schedule_writes E t m) v)"
  by (rule filed_fold) (auto simp: schedule_writes_def running_writes_def split: option.splits)

lemma assigned_job_ok: "job_ok job js \<Longrightarrow> job_ok job (assigned_job tid w js)"
  by (auto simp: job_ok_def assigned_job_def)

lemma schedule_task_inv:
  assumes inv: "master_inv U C m" and E: "env_ok U C E" and t: "known (m_jobs m) t"
  shows "master_inv U C (schedule_task E t m)" "extends (m_jobs m) (m_jobs (schedule_task E t m))"
proof -
  from t obtain js where js: "m_jobs m (task_job_id t) = Some js" "task_id t \<in> dom (job_tasks js)"
    by (auto simp: known_def)
  from inv obtain v where v: "holds U C m v" "mirrors (m_jobs m) v" "results_filed v" "kept (m_jobs m) v"
    by (auto simp: master_inv_def)
  let ?m = "schedule_task E t m" and ?v = "fold view_write (schedule_writes E t m) v"
  have "holds U C ?m ?v"
    using schedule_task_stored[of E m v t] v(1) holds_stored[OF E] by simp
  moreover have "mirrors (m_jobs ?m) ?v"
    using schedule_task_mirrors[OF v(2) js(1) mirrors_owns[OF v(2) js]] .
  moreover have "results_filed ?v" using v(3) by (rule schedule_filed)
  moreover have "kept (m_jobs ?m) ?v"
  proof (rule kept_fold)
    show "kept (m_jobs ?m) v"
      using js(1) by (auto simp: schedule_task_jobs assigned_job_def intro!: kept_jobs[OF v(4)]
          split: option.splits if_splits)
    show "list_all keeps_results (schedule_writes E t m)"
      by (simp add: schedule_writes_def running_writes_def split: option.splits)
  qed
  moreover have "finite (dom (m_jobs ?m))" "\<forall>job js. m_jobs ?m job = Some js \<longrightarrow> job_ok job js"
    using inv js(1) assigned_job_ok
    by (auto simp: master_inv_def schedule_task_jobs split: option.splits if_splits)
  moreover have "registry_ok (m_registry ?m)"
    using inv by (simp add: master_inv_def schedule_task_frame)
  ultimately show "master_inv U C ?m" unfolding master_inv_def by blast
  show "extends (m_jobs m) (m_jobs ?m)"
    using js by (auto simp: schedule_task_jobs assigned_job_def split: option.splits intro!: extends_upd)
qed

section \<open>The other handlers\<close>

lemma completed_job_ok:
  assumes "job_ok (res_job_id r) js"
  shows "job_ok (res_job_id r) (job_after r (with_status r js))"
proof -
  have "jm_workers (job_state_metrics (job_after r (with_status r js))) = jm_workers (job_state_metrics js)"
    by (simp add: job_after_def with_status_def Let_def count_completed_def count_failed_def
        split: task_status.splits)
  moreover have "\<forall>q \<in> set (job_results (job_after r (with_status r js))).
      res_status q = TS_Completed \<and> res_job_id q = res_job_id r \<and> res_task_id q \<in> dom (job_tasks (with_status r js))"
    using assms by (auto simp: job_ok_def job_after_def with_status_def Let_def split: task_status.splits)
  moreover have "jm_pending_tasks (job_state_metrics (job_after r (with_status r js))) =
      jm_total_tasks (job_state_metrics (job_after r (with_status r js))) -
      (jm_completed_tasks (job_state_metrics (job_after r (with_status r js))) +
       jm_failed_tasks (job_state_metrics (job_after r (with_status r js))))"
    using assms by (simp add: job_ok_def job_after_def with_status_def Let_def split: task_status.splits)
  ultimately show ?thesis using assms by (simp add: job_ok_def)
qed

lemma complete_task_inv:
  assumes inv: "master_inv U C m" and E: "env_ok U C E"
    and t: "known (m_jobs m) t" "result_for t r"
  shows "master_inv U C (snd (complete_task E r m))"
    "extends (m_jobs m) (m_jobs (snd (complete_task E r m)))"
    "m_outbox (snd (complete_task E r m)) = m_outbox m"
    "books U C found L (m_jobs m) \<Longrightarrow> books U C found (L @ [Came r]) (m_jobs (snd (complete_task E r m)))"
    "m_jobs m (res_job_id r) = Some js' \<Longrightarrow>
       m_jobs (snd (complete_task E r m)) = (m_jobs m)(res_job_id r \<mapsto> job_after r (with_status r js'))"
proof -
  from t obtain js where js: "m_jobs m (res_job_id r) = Some js" "res_task_id r \<in> dom (job_tasks js)"
    by (auto simp: known_def result_for_def)
  from inv obtain v where v: "holds U C m v" "mirrors (m_jobs m) v" "results_filed v" "kept (m_jobs m) v"
    by (auto simp: master_inv_def)
  have own: "owns (m_jobs m) (res_job_id r) (res_task_id r)" using mirrors_owns[OF v(2) js] .
  have st: "stored E m v" using v(1) holds_stored[OF E] by simp
  note wr = write_result_view[OF v(2) _ own]
  note run = complete_task_known[OF js(1) st wr(1)]
  let ?m = "snd (complete_task E r m)" and ?js = "job_after r (with_status r js)"
  let ?v = "fold view_write (WriteResult r # result_writes r ?js) v"
  have jobs: "m_jobs ?m = (m_jobs m)(res_job_id r \<mapsto> ?js)" using run(2) js(1) by simp
  have "holds U C ?m ?v" using run(3) js(1) holds_stored[OF E] by simp
  moreover have "mirrors (m_jobs ?m) ?v" unfolding jobs by (rule complete_task_mirrors[OF v(2) js(1) own])
  moreover have "results_filed ?v"
  proof -
    have eq: "view_write (WriteResult r) v =
        v\<lparr>view_tasks := (view_tasks v)(res_task_id r \<mapsto> (res_job_id r, res_status r, Some r))\<rparr>"
      by (rule wr(2)) (simp add: js(1))
    have "results_filed (view_write (WriteResult r) v)"
      unfolding eq using v(3) by (auto simp: results_filed_def)
    then show ?thesis
      by (simp del: view_write.simps)
        (rule filed_fold, auto simp: result_writes_def split: task_status.splits if_splits)
  qed
  moreover have "kept (m_jobs ?m) ?v"
  proof -
    have "job_results ?js = job_results js @ completed_of [r]"
      by (simp add: job_after_def with_status_def Let_def split: task_status.splits)
    from kept_result[OF v(4) js(1) own v(2) this]
    have "kept (m_jobs ?m) (view_write (WriteResult r) v)" unfolding jobs .
    then show ?thesis
      by (simp del: view_write.simps)
        (rule kept_fold, auto simp: result_writes_def split: task_status.splits)
  qed
  moreover have "finite (dom (m_jobs ?m))" "\<forall>job js. m_jobs ?m job = Some js \<longrightarrow> job_ok job js"
    using inv js(1) completed_job_ok[of r js] by (auto simp: master_inv_def jobs)
  moreover have "registry_ok (m_registry ?m)"
    using inv js(1) run(5) by (simp add: master_inv_def)
  ultimately show "master_inv U C ?m" unfolding master_inv_def by blast
  show "extends (m_jobs m) (m_jobs ?m)"
    unfolding jobs using js by (intro extends_upd) (auto simp: with_status_def)
  show "m_outbox ?m = m_outbox m" using run(4) js(1) by simp
  show "books U C found L (m_jobs m) \<Longrightarrow> books U C found (L @ [Came r]) (m_jobs ?m)"
    unfolding jobs using books_result[where r = r and jobs = "m_jobs m", OF _ js] t(2) by (auto simp: result_for_def)
  show "m_jobs m (res_job_id r) = Some js' \<Longrightarrow>
      m_jobs ?m = (m_jobs m)(res_job_id r \<mapsto> job_after r (with_status r js'))"
    using jobs js(1) by simp
qed

lemma admit_job_inv:
  assumes inv: "master_inv U C m" and E: "env_ok U C E"
  shows "admit_job E job d m = (Err e, m') \<Longrightarrow> m' = m"
    "fresh_job E job d (m_jobs m) \<Longrightarrow> admit_job E job d m = (Ok ts, m') \<Longrightarrow>
       master_inv U C m' \<and> extends (m_jobs m) (m_jobs m') \<and> (\<forall>t \<in> set ts. known (m_jobs m') t) \<and>
       m_outbox m' = m_outbox m \<and> m_jobs m' = (m_jobs m)(job \<mapsto> admitted_job E job d)"
proof -
  from inv obtain v where v: "holds U C m v" "mirrors (m_jobs m) v" "results_filed v" "kept (m_jobs m) v"
    by (auto simp: master_inv_def)
  have st: "stored E m v" using v(1) holds_stored[OF E] by simp
  show "m' = m" if "admit_job E job d m = (Err e, m')"
    using that validate_cases[of d] admit_job_ok[OF st, of d job] by (auto simp: admit_job_invalid)
  assume fresh: "fresh_job E job d (m_jobs m)" and run: "admit_job E job d m = (Ok ts, m')"
  have "validate d = Ok ()" using validate_cases[of d] run by (auto simp: admit_job_invalid)
  from admit_job_ok[OF st this, of job] run obtain db where
    ts: "ts = tasks_of E d job" and m': "m' = set_job job (admitted_job E job d) (m\<lparr>m_store := db\<rparr>)"
    and st': "stored E (m\<lparr>m_store := db\<rparr>) (fold view_write (admit_writes E job d) v)" by auto
  let ?v = "fold view_write (admit_writes E job d) v"
  have jobs: "m_jobs m' = (m_jobs m)(job \<mapsto> admitted_job E job d)" by (simp add: m' master_frame)
  have new: "m_jobs m job = None" using fresh by (simp add: fresh_job_def)
  have "view_tasks v (task_id t) = None" if "t \<in> set (tasks_of E d job)" for t
  proof (rule ccontr)
    assume "view_tasks v (task_id t) \<noteq> None"
    then obtain j st r where "view_tasks v (task_id t) = Some (j, st, r)" by (cases "view_tasks v (task_id t)") auto
    with v(2) obtain js where "m_jobs m j = Some js" "job_tasks js (task_id t) = Some st"
      unfolding mirrors_def by blast
    with fresh that show False by (auto simp: fresh_job_def)
  qed
  then have "mirrors (m_jobs m') ?v"
    unfolding jobs by (intro admit_job_mirrors[OF v(2) new]) auto
  moreover have "holds U C m' ?v"
    using st' holds_stored[OF E] by (simp add: m' holds_def master_frame)
  moreover have "results_filed ?v"
    by (rule filed_fold[OF v(3)]) (auto simp: admit_writes_def)
  moreover have "kept (m_jobs m') ?v"
  proof (rule kept_fold)
    have "view_tasks v tid \<noteq> Some (job, st, r)" for tid st r
      using v(2) new unfolding mirrors_def by (metis option.distinct(1))
    with v(4) show "kept (m_jobs m') v" unfolding jobs kept_def by auto
    show "list_all keeps_results (admit_writes E job d)" by (simp add: admit_writes_def list_all_iff)
  qed
  moreover have "job_ok job (admitted_job E job d)"
    by (simp add: job_ok_def admitted_job_def initial_metrics_def default_job_metrics_def)
  moreover have "finite (dom (m_jobs m'))" using inv by (simp add: jobs master_inv_def)
  moreover have "registry_ok (m_registry m')" using inv by (simp add: m' master_inv_def master_frame)
  ultimately have "master_inv U C m'"
    using inv unfolding master_inv_def jobs by (auto split: if_splits)
  moreover have "extends (m_jobs m) (m_jobs m')" unfolding jobs using new by (intro extends_upd) simp
  moreover have "known (m_jobs m') t" if "t \<in> set ts" for t
    using that tasks_of_job[where t = t and E = E and d = d and job = job] by (auto simp: known_def jobs ts admitted_tasks)
  ultimately show "master_inv U C m' \<and> extends (m_jobs m) (m_jobs m') \<and> (\<forall>t \<in> set ts. known (m_jobs m') t) \<and>
      m_outbox m' = m_outbox m \<and> m_jobs m' = (m_jobs m)(job \<mapsto> admitted_job E job d)"
    using jobs by (simp add: m' master_frame)
qed

lemma heartbeat_inv:
  assumes "master_inv U C m" "env_ok U C E"
  shows "master_inv U C (handle_heartbeat E now hb m)" "m_jobs (handle_heartbeat E now hb m) = m_jobs m"
    "m_outbox (handle_heartbeat E now hb m) = m_outbox m"
proof -
  from assms(1) obtain v where v: "holds U C m v" "mirrors (m_jobs m) v" "results_filed v" "kept (m_jobs m) v"
    by (auto simp: master_inv_def)
  show jobs: "m_jobs (handle_heartbeat E now hb m) = m_jobs m"
    "m_outbox (handle_heartbeat E now hb m) = m_outbox m"
    by (simp_all add: handle_heartbeat_def Let_def master_frame)
  have "stored E (handle_heartbeat E now hb m) v"
    using v(1) holds_stored[OF assms(2)] stored_worker
    by (simp add: handle_heartbeat_def Let_def stored_def master_frame)
  then have "holds U C (handle_heartbeat E now hb m) v" using holds_stored[OF assms(2)] by simp
  moreover have "registry_ok (m_registry (handle_heartbeat E now hb m))"
    using assms(1) by (simp add: handle_heartbeat_def Let_def master_frame master_inv_def)
  ultimately show "master_inv U C (handle_heartbeat E now hb m)"
    using assms(1) v(2-4) unfolding master_inv_def jobs by blast
qed

lemma restart_inv:
  assumes inv: "master_inv U C m" and E: "env_ok U C E"
  shows "master_inv U C (master_new E cfg (m_store m))"
    "extends (m_jobs m) (m_jobs (master_new E cfg (m_store m)))"
    "books U C found L (m_jobs m) \<Longrightarrow> books U C (m_jobs (master_new E cfg (m_store m))) []
       (m_jobs (master_new E cfg (m_store m)))"
proof -
  from inv obtain v where v: "holds U C m v" "mirrors (m_jobs m) v" "results_filed v" "kept (m_jobs m) v"
    by (auto simp: master_inv_def)
  have "db_view (uuids E) (codecs E) (job_rows E) (task_rows E) (m_store m) v"
    using v(1) holds_stored[OF E] by (simp add: stored_def)
  from restart_jobs[OF this v(2), of cfg] obtain ts where
    ts: "enumerates ts (view_tasks v)" and st: "stored E (master_new E cfg (m_store m)) (requeued v)"
    and jobs: "m_jobs (master_new E cfg (m_store m)) = (\<lambda>job. map_option (restarted_job ts job) (m_jobs m job))"
    by blast
  let ?m = "master_new E cfg (m_store m)"
  have ok: "job_ok job (restarted_job ts job js)" if js: "m_jobs m job = Some js" for job js
  proof -
    have "res_status r = TS_Completed \<and> res_job_id r = job \<and> res_task_id r \<in> dom (job_tasks js)"
      if "r \<in> set (job_results (restarted_job ts job js))" for r
    proof -
      from that obtain st where row: "view_tasks v (res_task_id r) = Some (job, st, Some r)" "res_status r = TS_Completed"
        using restarted_results(1)[OF ts v(3)] by auto
      with v(3) have "res_job_id r = job" by (auto simp: results_filed_def)
      moreover obtain js' where "m_jobs m job = Some js'" "job_tasks js' (res_task_id r) = Some st"
        using v(2) row(1) unfolding mirrors_def by blast
      ultimately show ?thesis using row(2) js by auto
    qed
    moreover have "dom (map_option normalized_status \<circ> job_tasks js) = dom (job_tasks js)" by (auto simp: dom_def)
    ultimately show ?thesis
      unfolding job_ok_def by (simp add: restarted_job_def default_job_metrics_def)
  qed
  have "holds U C ?m (requeued v)" using st holds_stored[OF E] by simp
  moreover have "mirrors (m_jobs ?m) (requeued v)" unfolding jobs by (rule restart_mirrors[OF v(2)])
  moreover have "results_filed (requeued v)" using v(3) by (auto simp: results_filed_def requeued_def)
  moreover have "kept (m_jobs ?m) (requeued v)"
    unfolding kept_def
  proof (intro conjI allI impI)
    fix tid job st r js
    assume "view_tasks (requeued v) tid = Some (job, st, Some r) \<and> res_status r = TS_Completed \<and>
      m_jobs ?m job = Some js"
    then obtain st' old where row: "view_tasks v tid = Some (job, st', Some r)" "res_status r = TS_Completed"
      and js: "js = restarted_job ts job old" by (auto simp: requeued_def jobs)
    then have "res_task_id r = tid" using v(3) by (auto simp: results_filed_def)
    with row have "r \<in> set (job_results js)" unfolding js restarted_results(1)[OF ts v(3)] by auto
    with restarted_results(2)[OF ts v(3)] show "last_for tid (job_results js) = Some r"
      unfolding js using last_for_distinct[of _ r] \<open>res_task_id r = tid\<close> by blast
  next
    fix tid job res
    assume "view_tasks (requeued v) tid = Some (job, TS_Completed, res)"
    then obtain st where "view_tasks v tid = Some (job, st, res)" "normalized_status st = TS_Completed"
      by (auto simp: requeued_def)
    moreover from this(2) have "st = TS_Completed" by (cases st) simp_all
    ultimately show "\<exists>r. res = Some r \<and> res_status r = TS_Completed" using v(4) by (auto simp: kept_def)
  qed
  moreover have "finite (dom (m_jobs ?m))"
    using inv by (auto simp: jobs master_inv_def dom_def elim!: rev_finite_subset)
  moreover have "\<forall>job js. m_jobs ?m job = Some js \<longrightarrow> job_ok job js"
    using ok by (auto simp: jobs)
  ultimately show "master_inv U C ?m" by (auto simp: master_inv_def)
  show "extends (m_jobs m) (m_jobs ?m)"
    by (rule extendsI) (auto simp: jobs restarted_job_def)
  show "books U C found L (m_jobs m) \<Longrightarrow> books U C (m_jobs ?m) [] (m_jobs ?m)"
    using books_restart[OF _ jobs] .
qed

section \<open>The system\<close>

lemma sys_inv_advance:
  assumes "sys_inv U C s" "master_inv U C (sys_master s')"
    and "books U C (sys_found s') (sys_log s') (m_jobs (sys_master s'))"
    and "extends (m_jobs (sys_master s)) (m_jobs (sys_master s'))"
    and "\<And>ts t. ts \<in> set (sys_pending s') \<Longrightarrow> t \<in> set ts \<Longrightarrow>
      (\<exists>ts' \<in> set (sys_pending s). t \<in> set ts') \<or> known (m_jobs (sys_master s')) t"
    and "snd ` set (requests s') \<subseteq> snd ` set (requests s) \<union> {t. known (m_jobs (sys_master s')) t}"
  shows "sys_inv U C s'"
proof -
  have old: "known (m_jobs (sys_master s)) t \<Longrightarrow> known (m_jobs (sys_master s')) t" for t
    using assms(4) by (simp add: extends_def)
  have "known (m_jobs (sys_master s')) (snd q)" if "q \<in> set (requests s')" for q
  proof -
    from that assms(6) have "snd q \<in> snd ` set (requests s) \<or> known (m_jobs (sys_master s')) (snd q)" by auto
    with assms(1) old show ?thesis by (auto simp: sys_inv_def)
  qed
  moreover have "known (m_jobs (sys_master s')) t" if "ts \<in> set (sys_pending s')" "t \<in> set ts" for ts t
    using assms(5)[OF that] assms(1) old by (auto simp: sys_inv_def)
  ultimately show ?thesis using assms(2,3) by (auto simp: sys_inv_def)
qed

lemma snapshot_known:
  assumes "master_inv U C m" "env_ok U C E" "t \<in> set (queued_tasks_snapshot E m)"
  shows "known (m_jobs m) t"
  using assms snapshot_iff[of E m t] by (auto simp: master_inv_def env_ok_def known_def)

lemma quiet_step_inv: "quiet_step U C s s' \<Longrightarrow> sys_inv U C s \<Longrightarrow> sys_inv U C s'"
proof (induction rule: quiet_step.induct)
  case (submit E job d s ts m')
  from submit.prems have inv: "master_inv U C (sys_master s)"
    and books: "books U C (sys_found s) (sys_log s) (m_jobs (sys_master s))" by (simp_all add: sys_inv_def)
  have "m_jobs (sys_master s) job = None" using submit.hyps(2) by (simp add: fresh_job_def)
  from admit_job_inv(2)[OF inv submit.hyps] books_admit[OF books this submit.hyps(1)] show ?case
    by (intro sys_inv_advance[OF submit.prems]) (auto simp: requests_def)
next
  case (reject E job d s e m')
  from reject.prems have "master_inv U C (sys_master s)" by (simp add: sys_inv_def)
  from admit_job_inv(1)[OF this reject.hyps] reject.prems show ?case by simp
next
  case (schedule E s ps t ts qs)
  have inv: "master_inv U C (sys_master s)" and t: "known (m_jobs (sys_master s)) t"
    using schedule by (auto simp: sys_inv_def)
  have "books U C (sys_found s) (sys_log s) (m_jobs (sys_master s))"
    using schedule.prems by (simp add: sys_inv_def)
  note step = schedule_task_inv[OF inv schedule.hyps(1) t] books_schedule[OF this t, of E]
  have "known (m_jobs (schedule_task E t (sys_master s))) t"
    using step(2) t by (simp add: extends_def)
  with step schedule.hyps(2) show ?case
    by (intro sys_inv_advance[OF schedule.prems])
      (auto simp: requests_def schedule_task_outbox split: option.splits)
next
  case (pass E s n)
  have inv: "master_inv U C (sys_master s)"
    and books: "books U C (sys_found s) (sys_log s) (m_jobs (sys_master s))" using pass by (simp_all add: sys_inv_def)
  have "master_inv U C ((sys_master s)\<lparr>m_passes := n\<rparr>)"
    by (rule master_inv_cong[OF inv]) (use inv in \<open>simp_all add: master_inv_def\<close>)
  with books snapshot_known[OF inv pass.hyps(1)] show ?case
    by (intro sys_inv_advance[OF pass.prems]) (auto simp: requests_def)
next
  case (heartbeat E s now hb)
  have inv: "master_inv U C (sys_master s)"
    and books: "books U C (sys_found s) (sys_log s) (m_jobs (sys_master s))" using heartbeat by (simp_all add: sys_inv_def)
  from books heartbeat_inv[OF inv heartbeat.hyps] show ?case
    by (intro sys_inv_advance[OF heartbeat.prems]) (auto simp: requests_def)
next
  case (register s info)
  then have inv: "master_inv U C (sys_master s)"
    and books: "books U C (sys_found s) (sys_log s) (m_jobs (sys_master s))" by (simp_all add: sys_inv_def)
  have "master_inv U C (snd (register_worker info (sys_master s)))"
    by (rule master_inv_cong[OF inv]) (use inv in \<open>simp_all add: register_worker_def master_inv_def\<close>)
  with books show ?case
    by (intro sys_inv_advance[OF register.prems]) (auto simp: requests_def register_worker_def)
next
  case (collect s now)
  then have inv: "master_inv U C (sys_master s)"
    and books: "books U C (sys_found s) (sys_log s) (m_jobs (sys_master s))" by (simp_all add: sys_inv_def)
  have "master_inv U C (garbage_collect_workers now (sys_master s))"
    by (rule master_inv_cong[OF inv]) (use inv in \<open>simp_all add: garbage_collect_workers_def master_inv_def\<close>)
  with books show ?case
    by (intro sys_inv_advance[OF collect.prems]) (auto simp: requests_def garbage_collect_workers_def)
qed

lemma sys_step_inv: "sys_step U C s s' \<Longrightarrow> sys_inv U C s \<Longrightarrow> sys_inv U C s'"
proof (induction rule: sys_step.induct)
  case (quiet s s')
  then show ?case by (rule quiet_step_inv)
next
  case (complete E t s r)
  have inv: "master_inv U C (sys_master s)" and t: "known (m_jobs (sys_master s)) t"
    using complete by (auto simp: sys_inv_def)
  have "books U C (sys_found s) (sys_log s) (m_jobs (sys_master s))"
    using complete.prems by (simp add: sys_inv_def)
  with complete_task_inv[OF inv complete.hyps(1) t complete.hyps(3)] show ?case
    by (intro sys_inv_advance[OF complete.prems]) (auto simp: requests_def)
next
  case (restart E m cfg s)
  have inv: "master_inv U C (sys_master s)"
    and books: "books U C (sys_found s) (sys_log s) (m_jobs (sys_master s))"
    using restart.prems by (simp_all add: sys_inv_def)
  from restart_inv(1,2)[OF inv restart.hyps(1)] restart_inv(3)[OF inv restart.hyps(1) books] restart.hyps(2)
  show ?case
    by (intro sys_inv_advance[OF restart.prems]) (auto simp: requests_def)
qed

lemma empty_master_inv: "env_ok U C E \<Longrightarrow> master_inv U C (master_new E cfg empty_store) \<and>
    books U C (m_jobs (master_new E cfg empty_store)) [] (m_jobs (master_new E cfg empty_store))"
proof -
  assume E: "env_ok U C E"
  let ?m = "\<lparr>m_config = cfg, m_registry = default_registry, m_scheduler = default_scheduler,
      m_jobs = Map.empty, m_store = empty_store, m_outbox = [], m_passes = 0\<rparr>"
  have "holds U C ?m empty_view"
    using E empty_store_view[of U C "job_rows E" "task_rows E"] by (simp add: env_ok_def holds_def db_view_def)
  moreover have "results_filed empty_view" "kept Map.empty empty_view"
    by (simp_all add: results_filed_def kept_def empty_view_def)
  ultimately have "master_inv U C ?m"
    using mirrors_empty by (auto simp: master_inv_def)
  from restart_inv(1)[OF this E, of cfg] restart_inv(3)[OF this E, where cfg = cfg and found = Map.empty and L = "[]"]
  show ?thesis by (simp add: books_def)
qed

interpretation engine: transition_system "sys_initial U C" "sys_step U C" "sys_inv U C" for U C
proof
  show "sys_inv U C s" if "sys_initial U C s" for s
    using that empty_master_inv by (auto simp: sys_initial_def sys_inv_def requests_def)
  show "sys_inv U C t" if "sys_step U C s t" "sys_inv U C s" for s t
    using that by (rule sys_step_inv)
qed

text \<open>What the invariant says of a job.\<close>

lemma sys_inv_job:
  assumes inv: "sys_inv U C s" and js: "m_jobs (sys_master s) job = Some js"
  shows "booked U C (sys_found s job) (sys_log s) job js" "job_ok job js"
    "\<forall>tid. job_tasks js tid = Some TS_Completed \<longrightarrow> (\<exists>r \<in> set (job_results js). res_task_id r = tid)"
proof -
  have "books U C (sys_found s) (sys_log s) (m_jobs (sys_master s))" using inv by (simp add: sys_inv_def)
  from booksD(3)[OF this js] show "booked U C (sys_found s job) (sys_log s) job js" .
  from inv js show "job_ok job js" by (simp add: sys_inv_def master_inv_def)
  from inv obtain v where v: "mirrors (m_jobs (sys_master s)) v" "kept (m_jobs (sys_master s)) v"
    by (auto simp: sys_inv_def master_inv_def)
  show "\<forall>tid. job_tasks js tid = Some TS_Completed \<longrightarrow> (\<exists>r \<in> set (job_results js). res_task_id r = tid)"
  proof (intro allI impI)
    fix tid assume "job_tasks js tid = Some TS_Completed"
    with v(1) js obtain res where "view_tasks v tid = Some (job, TS_Completed, res)"
      unfolding mirrors_def by blast
    with v(2) js obtain r where "last_for tid (job_results js) = Some r" unfolding kept_def by blast
    from last_for_SomeD[OF this] show "\<exists>r \<in> set (job_results js). res_task_id r = tid" by blast
  qed
qed

lemma last_word_cases: "last_word job st L \<in> {st, JS_Running, JS_Failed}"
  by (induction job st L rule: last_word.induct) auto

text \<open>A new job with no task completed twice has counted at most its tasks, and all of them when it has succeeded.\<close>

lemma completed_once:
  assumes inv: "sys_inv U C s" and js: "m_jobs (sys_master s) job = Some js" and new: "sys_found s job = None"
    and once: "distinct (map res_task_id (completed_of (came job (sys_log s))))"
  shows "jm_completed_tasks (job_state_metrics js) \<le> jm_total_tasks (job_state_metrics js)"
    "job_state_status js = JS_Succeeded \<Longrightarrow> jm_completed_tasks (job_state_metrics js) = card (dom (job_tasks js))"
proof -
  note facts = sys_inv_job[OF inv js]
  from facts(1) new obtain E where
    plan: "jm_total_tasks (job_state_metrics js) = length (tasks_of E (job_dag js) job)"
      "dom (job_tasks js) = task_id ` set (tasks_of E (job_dag js) job)" by (auto simp: booked_def planned_def)
  have results: "job_results js = completed_of (came job (sys_log s))"
    "jm_completed_tasks (job_state_metrics js) = length (job_results js)"
    using facts(1) new by (simp_all add: booked_def)
  then have count: "jm_completed_tasks (job_state_metrics js) = card (res_task_id ` set (job_results js))"
    using distinct_card[OF once] by simp
  have sub: "res_task_id ` set (job_results js) \<subseteq> dom (job_tasks js)"
    using facts(2) by (auto simp: job_ok_def)
  have "card (res_task_id ` set (job_results js)) \<le> card (dom (job_tasks js))"
    using sub by (intro card_mono) (simp_all add: plan(2))
  also have "\<dots> \<le> length (tasks_of E (job_dag js) job)"
    unfolding plan(2) by (rule order_trans[OF card_image_le card_length]) simp
  finally show "jm_completed_tasks (job_state_metrics js) \<le> jm_total_tasks (job_state_metrics js)"
    by (simp add: count plan(1))
  assume "job_state_status js = JS_Succeeded"
  then have "all_completed js"
    using facts(1) new last_word_cases[of job JS_Accepted "sys_log s"] by (auto simp: booked_def split: if_splits)
  then have "dom (job_tasks js) \<subseteq> res_task_id ` set (job_results js)"
    using facts(3) by (force simp: all_completed_def ran_def)
  with sub count show "jm_completed_tasks (job_state_metrics js) = card (dom (job_tasks js))" by auto
qed

section \<open>Tasks of a lost worker\<close>

text \<open>The task is assigned, and no running pass will hand it out.\<close>

definition settled_task :: "job_id \<Rightarrow> task_id \<Rightarrow> worker_id \<Rightarrow> system \<Rightarrow> bool" where
  "settled_task job tid w s \<longleftrightarrow>
     (\<exists>js. m_jobs (sys_master s) job = Some js \<and> job_tasks js tid = Some (TS_Assigned w)) \<and>
     (\<forall>ts \<in> set (sys_pending s). \<forall>t \<in> set ts. (task_job_id t, task_id t) \<noteq> (job, tid))"

definition requests_for :: "job_id \<Rightarrow> task_id \<Rightarrow> system \<Rightarrow> (string \<times> task) list" where
  "requests_for job tid s = filter (\<lambda>q. task_job_id (snd q) = job \<and> task_id (snd q) = tid) (requests s)"

lemma quiet_step_settled:
  assumes "quiet_step U C s s'" "sys_inv U C s" "settled_task job tid w s"
  shows "settled_task job tid w s' \<and> requests_for job tid s' = requests_for job tid s"
  using assms
proof (induction rule: quiet_step.induct)
  case (submit E j d s ts m')
  have inv: "master_inv U C (sys_master s)" using submit.prems by (simp add: sys_inv_def)
  then obtain v where "stored E (sys_master s) v"
    using holds_stored[OF submit.hyps(1)] by (auto simp: master_inv_def)
  moreover have "validate d = Ok ()" using validate_cases[of d] submit.hyps(3) by (auto simp: admit_job_invalid)
  ultimately obtain db where m': "m' = set_job j (admitted_job E j d) ((sys_master s)\<lparr>m_store := db\<rparr>)"
    and ts: "ts = tasks_of E d j"
    using admit_job_ok[of E "sys_master s" v d j] submit.hyps(3) by auto
  have "j \<noteq> job" using submit.hyps(2) submit.prems(2) by (auto simp: fresh_job_def settled_task_def)
  with m' ts submit.prems(2) tasks_of_job[where E = E and d = d and job = j] show ?case
    by (auto simp: settled_task_def requests_for_def requests_def master_frame)
next
  case (reject E j d s e m')
  then have "m' = sys_master s" using admit_job_inv(1)[of U C "sys_master s" E j d e m'] by (simp add: sys_inv_def)
  with reject.prems show ?case by simp
next
  case (schedule E s ps t ts qs)
  then have "(task_job_id t, task_id t) \<noteq> (job, tid)" by (auto simp: settled_task_def)
  with schedule show ?case
    by (auto simp: settled_task_def requests_for_def requests_def schedule_task_jobs schedule_task_outbox
        assigned_job_def split: option.splits)
next
  case (pass E s n)
  have "(task_job_id t, task_id t) \<noteq> (job, tid)"
    if "t \<in> set (queued_tasks_snapshot E (sys_master s))" for t
    using that pass snapshot_iff[of E "sys_master s" t]
    by (auto simp: settled_task_def sys_inv_def master_inv_def env_ok_def)
  with pass.prems show ?case
    by (auto simp: settled_task_def requests_for_def requests_def)
next
  case (heartbeat E s now hb)
  then show ?case
    using heartbeat_inv(2,3)[of U C "sys_master s" E]
    by (simp add: settled_task_def requests_for_def requests_def sys_inv_def)
next
  case (register s info)
  then show ?case by (simp add: settled_task_def requests_for_def requests_def register_worker_def)
next
  case (collect s now)
  then show ?case by (simp add: settled_task_def requests_for_def requests_def garbage_collect_workers_def)
qed

text \<open>Everything but a restart and a result of the task itself.\<close>

inductive other_step :: "uuid_api \<Rightarrow> codec \<Rightarrow> job_id \<Rightarrow> task_id \<Rightarrow> system \<Rightarrow> system \<Rightarrow> bool"
  for U C job tid where
  quiet: "quiet_step U C s s' \<Longrightarrow> other_step U C job tid s s'"
| result: "env_ok U C E \<Longrightarrow> t \<in> snd ` set (requests s) \<Longrightarrow> result_for t r \<Longrightarrow>
    (res_job_id r, res_task_id r) \<noteq> (job, tid) \<Longrightarrow>
    other_step U C job tid s (s\<lparr>sys_master := snd (complete_task E r (sys_master s)),
      sys_log := sys_log s @ [Came r]\<rparr>)"

lemma other_step_sys: "other_step U C job tid s s' \<Longrightarrow> sys_step U C s s'"
  by (induction rule: other_step.induct) (auto intro: sys_step.quiet sys_step.complete)

lemma other_step_settled:
  assumes "other_step U C job tid s s'" "sys_inv U C s" "settled_task job tid w s"
  shows "settled_task job tid w s' \<and> requests_for job tid s' = requests_for job tid s"
  using assms
proof (induction rule: other_step.induct)
  case (quiet s s')
  then show ?case by (rule quiet_step_settled)
next
  case (result E t s r)
  have inv: "master_inv U C (sys_master s)" and t: "known (m_jobs (sys_master s)) t"
    using result by (auto simp: sys_inv_def)
  then obtain js where js: "m_jobs (sys_master s) (res_job_id r) = Some js"
    using result.hyps(3) by (auto simp: known_def result_for_def)
  note step = complete_task_inv[OF inv result.hyps(1) t result.hyps(3)]
  from result.prems(2) result.hyps(4) show ?case
    by (auto simp: settled_task_def requests_for_def requests_def step(3) step(5)[OF js] js with_status_def)
qed

lemma other_run_settled:
  "(other_step U C job tid)\<^sup>*\<^sup>* s s' \<Longrightarrow> sys_inv U C s \<Longrightarrow> settled_task job tid w s \<Longrightarrow>
   sys_inv U C s' \<and> settled_task job tid w s' \<and> requests_for job tid s' = requests_for job tid s"
  by (induction rule: rtranclp_induct) (auto dest: other_step_settled intro: sys_step_inv other_step_sys)

section \<open>Two passes at once\<close>

fun givens :: "master_env \<Rightarrow> task list \<Rightarrow> master \<Rightarrow> entry list" where
  "givens E [] m = []"
| "givens E (t # ts) m = given E t m @ givens E ts (schedule_task E t m)"

text \<open>A list of tasks handed out without interruption.\<close>

definition ran_list :: "master_env \<Rightarrow> task list \<Rightarrow> task list list \<Rightarrow> system \<Rightarrow> system" where
  "ran_list E ts pending s = s\<lparr>sys_master := fold (schedule_task E) ts (sys_master s), sys_pending := pending,
     sys_log := sys_log s @ givens E ts (sys_master s)\<rparr>"

lemma ran_list_sel [simp]:
  "sys_master (ran_list E ts ps s) = fold (schedule_task E) ts (sys_master s)"
  "sys_pending (ran_list E ts ps s) = ps" "sys_earlier (ran_list E ts ps s) = sys_earlier s"
  by (simp_all add: ran_list_def)

lemma run_list:
  assumes "env_ok U C E" "sys_pending s = ps @ ts # qs"
  shows "(quiet_step U C)\<^sup>*\<^sup>* s (ran_list E ts (ps @ [] # qs) s)"
  using assms(2)
proof (induction ts arbitrary: s)
  case Nil
  then have "ran_list E [] (ps @ [] # qs) s = s"
    by (cases s) (simp add: ran_list_def)
  then show ?case by simp
next
  case (Cons t ts)
  let ?s = "s\<lparr>sys_master := schedule_task E t (sys_master s), sys_pending := ps @ ts # qs,
    sys_log := sys_log s @ given E t (sys_master s)\<rparr>"
  have "quiet_step U C s ?s" using assms(1) Cons.prems by (rule quiet_step.schedule)
  moreover have "ran_list E ts (ps @ [] # qs) ?s = ran_list E (t # ts) (ps @ [] # qs) s"
    by (simp add: ran_list_def)
  ultimately show ?case using Cons.IH[of ?s] by (simp add: converse_rtranclp_into_rtranclp)
qed

lemma quiet_run: "(quiet_step U C)\<^sup>*\<^sup>* s s' \<Longrightarrow> (sys_step U C)\<^sup>*\<^sup>* s s'"
  by (induction rule: rtranclp_induct) (auto intro: sys_step.quiet rtranclp.rtrancl_into_rtrancl)

text \<open>Two passes that have both taken their list before either hands out a task.\<close>

lemma two_passes:
  assumes E: "env_ok U C E" and n: "m_passes (sys_master s) = Suc (Suc n)"
  shows "\<exists>s'. (quiet_step U C)\<^sup>*\<^sup>* s s' \<and> sys_earlier s' = sys_earlier s \<and>
    sys_master s' = fold (schedule_task E)
      (queued_tasks_snapshot E (sys_master s) @ queued_tasks_snapshot E (sys_master s))
      ((sys_master s)\<lparr>m_passes := n\<rparr>)"
proof -
  let ?ts = "queued_tasks_snapshot E (sys_master s)"
  have snap: "queued_tasks_snapshot E ((sys_master s)\<lparr>m_passes := k\<rparr>) = ?ts" for k
    by (simp add: queued_tasks_snapshot_def)
  let ?s1 = "s\<lparr>sys_master := (sys_master s)\<lparr>m_passes := Suc n\<rparr>, sys_pending := ?ts # sys_pending s\<rparr>"
  let ?s2 = "s\<lparr>sys_master := (sys_master s)\<lparr>m_passes := n\<rparr>, sys_pending := ?ts # ?ts # sys_pending s\<rparr>"
  let ?s3 = "ran_list E ?ts ([] # ?ts # sys_pending s) ?s2"
  let ?s4 = "ran_list E ?ts ([] # [] # sys_pending s) ?s3"
  have one: "quiet_step U C s ?s1" using E n by (rule quiet_step.pass)
  have two: "quiet_step U C ?s1 ?s2"
    using quiet_step.pass[OF E, of ?s1 n] snap by simp
  have three: "(quiet_step U C)\<^sup>*\<^sup>* ?s2 ?s3"
    using run_list[OF E, of ?s2 "[]" ?ts "?ts # sys_pending s"] by simp
  have four: "(quiet_step U C)\<^sup>*\<^sup>* ?s3 ?s4"
    using run_list[OF E, of ?s3 "[[]]" ?ts "sys_pending s"] by simp
  have "(quiet_step U C)\<^sup>*\<^sup>* s ?s4"
    using one two three four by (meson converse_rtranclp_into_rtranclp rtranclp_trans)
  then show ?thesis by (intro exI[of _ ?s4]) simp
qed

section \<open>Examples\<close>

lemma example_env_ok: "env_ok example_uuid_api example_codec example_env"
  by (simp add: env_ok_def example_env_def example_codec_ok iterates_key_order)

lemma empty_master_jobs: "env_ok U C E \<Longrightarrow> m_jobs (master_new E cfg empty_store) = Map.empty"
proof -
  assume E: "env_ok U C E"
  then have "db_view (uuids E) (codecs E) (job_rows E) (task_rows E) empty_store empty_view"
    using empty_store_view by (simp add: env_ok_def)
  from restart_jobs[OF this mirrors_empty, of cfg] show ?thesis by auto
qed

abbreviation example_step :: "system \<Rightarrow> system \<Rightarrow> bool" where
  "example_step \<equiv> sys_step example_uuid_api example_codec"

definition example_start :: system where
  "example_start = \<lparr>sys_master = master_new example_env default_config empty_store, sys_pending = [],
     sys_earlier = [], sys_found = m_jobs (master_new example_env default_config empty_store), sys_log = []\<rparr>"

lemma example_initial: "sys_initial example_uuid_api example_codec example_start"
  using example_env_ok by (auto simp: sys_initial_def example_start_def)

definition example_admitted :: master where
  "example_admitted = snd (admit_job example_env 1 simple_dag (sys_master example_start))"

text \<open>A job has been submitted, then a worker has registered twice: two passes are about to run.\<close>

definition example_busy :: system where
  "example_busy = \<lparr>sys_master = snd (register_worker example_worker (snd (register_worker example_worker example_admitted))),
     sys_pending = [[simple_task]], sys_earlier = [],
     sys_found = sys_found example_start, sys_log = []\<rparr>"

lemma example_admit:
  "fst (admit_job example_env 1 simple_dag (sys_master example_start)) = Ok [simple_task]"
  "m_jobs example_admitted = [1 \<mapsto> admitted_job example_env 1 simple_dag]"
  "m_outbox example_admitted = []" "m_registry example_admitted = default_registry"
  "m_scheduler example_admitted = default_scheduler" "m_passes example_admitted = 0"
proof -
  let ?m = "sys_master example_start"
  have "master_inv example_uuid_api example_codec ?m"
    using empty_master_inv[OF example_env_ok, of default_config] by (simp add: example_start_def)
  then obtain v where v: "stored example_env ?m v"
    using holds_stored[OF example_env_ok] by (auto simp: master_inv_def)
  have "validate simple_dag = Ok ()" by (simp add: validate_def simple_dag_def node_def)
  from admit_job_ok[OF v this, of 1] obtain db where
    run: "admit_job example_env 1 simple_dag ?m =
      (Ok [simple_task], set_job 1 (admitted_job example_env 1 simple_dag) (?m\<lparr>m_store := db\<rparr>))"
    by (auto simp: example_tasks)
  have "m_jobs ?m = Map.empty" using empty_master_jobs[OF example_env_ok] by (simp add: example_start_def)
  with run show "fst (admit_job example_env 1 simple_dag (sys_master example_start)) = Ok [simple_task]"
    "m_jobs example_admitted = [1 \<mapsto> admitted_job example_env 1 simple_dag]"
    "m_outbox example_admitted = []" "m_registry example_admitted = default_registry"
    "m_scheduler example_admitted = default_scheduler" "m_passes example_admitted = 0"
    by (simp_all add: example_admitted_def master_frame) (simp_all add: example_start_def)
qed

lemma example_busy_run: "example_step\<^sup>*\<^sup>* example_start example_busy"
proof -
  let ?m = "sys_master example_start"
  let ?s1 = "example_start\<lparr>sys_master := example_admitted, sys_pending := [[simple_task]]\<rparr>"
  let ?s2 = "?s1\<lparr>sys_master := snd (register_worker example_worker example_admitted)\<rparr>"
  have fresh: "fresh_job example_env 1 simple_dag (m_jobs ?m)"
    using empty_master_jobs[OF example_env_ok] by (simp add: fresh_job_def example_start_def)
  have "admit_job example_env 1 simple_dag ?m = (Ok [simple_task], example_admitted)"
    using example_admit(1) by (cases "admit_job example_env 1 simple_dag ?m") (simp add: example_admitted_def)
  from quiet_step.submit[OF example_env_ok fresh this]
  have "example_step example_start ?s1" by (intro sys_step.quiet) (simp add: example_start_def)
  moreover have "example_step ?s1 ?s2"
    using quiet_step.register[of example_uuid_api example_codec ?s1 example_worker] by (intro sys_step.quiet) simp
  moreover have "example_step ?s2 example_busy"
    using quiet_step.register[of example_uuid_api example_codec ?s2 example_worker]
    by (intro sys_step.quiet) (simp add: example_busy_def example_start_def)
  ultimately show ?thesis by (meson rtranclp.rtrancl_into_rtrancl rtranclp.rtrancl_refl)
qed

lemma example_busy_facts:
  "m_jobs (sys_master example_busy) = [1 \<mapsto> admitted_job example_env 1 simple_dag]"
  "m_passes (sys_master example_busy) = Suc (Suc 0)" "requests example_busy = []"
  "can_schedule example_env (sys_master example_busy)" "active (m_registry (sys_master example_busy)) = {5}"
  "queued_tasks_snapshot example_env (sys_master example_busy) = [simple_task]"
proof -
  have reg: "m_registry (sys_master example_busy) = m_registry example_master"
    by (simp add: example_busy_def register_worker_def example_admit example_master_def add_worker_def)
  have sch: "m_scheduler (sys_master example_busy) = m_scheduler example_master"
    by (simp add: example_busy_def register_worker_def example_admit example_master_def)
  show jobs: "m_jobs (sys_master example_busy) = [1 \<mapsto> admitted_job example_env 1 simple_dag]"
    by (simp add: example_busy_def register_worker_def example_admit)
  show "m_passes (sys_master example_busy) = Suc (Suc 0)" "requests example_busy = []"
    by (simp_all add: example_busy_def register_worker_def example_admit requests_def)
  show "can_schedule example_env (sys_master example_busy)"
    using example_can_schedule by (simp add: can_schedule_def reg sch)
  show "active (m_registry (sys_master example_busy)) = {5}" using example_master_active by (simp add: reg)
  have "job_tasks (admitted_job example_env 1 simple_dag) (task_id simple_task) = Some TS_Queued"
    by (simp add: admitted_tasks example_tasks)
  moreover have "job_dag (admitted_job example_env 1 simple_dag) = simple_dag" by (simp add: admitted_job_def)
  moreover have "job_iter example_env = key_order" by (simp add: example_env_def)
  ultimately show "queued_tasks_snapshot example_env (sys_master example_busy) = [simple_task]"
    using example_tasks(1) by (simp add: queued_tasks_snapshot_def jobs key_order_def is_queued_def)
qed

text \<open>A run in which the task is handed out and its result comes back.\<close>

definition traced_result :: task_result where
  "traced_result = example_result\<lparr>res_partition := task_partition simple_task, res_trace := Some \<lparr>et_job_id = [], et_stages = []\<rparr>\<rparr>"

lemma traced_result_facts:
  "result_for simple_task traced_result" "res_job_id traced_result = 1" "res_status traced_result = TS_Completed"
  "res_task_id traced_result = task_id simple_task"
  by (simp_all add: result_for_def traced_result_def example_result_def example_tasks)

definition example_sent :: system where
  "example_sent = ran_list example_env [simple_task] [[]] example_busy"

definition example_done :: system where
  "example_done = example_sent\<lparr>sys_master := snd (complete_task example_env traced_result (sys_master example_sent)),
     sys_log := sys_log example_sent @ [Came traced_result]\<rparr>"

lemma example_sent_run: "example_step\<^sup>*\<^sup>* example_start example_sent"
proof -
  have "sys_pending example_busy = [] @ [simple_task] # []" by (simp add: example_busy_def)
  from quiet_run[OF run_list[OF example_env_ok this]] example_busy_run
  show ?thesis by (simp add: example_sent_def)
qed

lemma example_sent_facts:
  "map snd (requests example_sent) = [simple_task]"
  "m_jobs (sys_master example_sent) =
     [1 \<mapsto> assigned_job (task_id simple_task) 5 (admitted_job example_env 1 simple_dag)]"
  "sys_found example_sent = Map.empty" "sys_log example_sent = [Given 1]"
proof -
  note fold = fold_schedule_active[OF example_busy_facts(4), where ts = "[simple_task]"]
  have ch: "chosen example_env (sys_master example_busy) = Some 5"
    using can_schedule_choices[OF example_busy_facts(4), of 1] example_busy_facts(5)
    by (auto simp: chosen_def split: prod.splits)
  show "map snd (requests example_sent) = [simple_task]"
    using fold(1) example_busy_facts(3) by (auto simp: requests_def example_sent_def)
  show "m_jobs (sys_master example_sent) =
     [1 \<mapsto> assigned_job (task_id simple_task) 5 (admitted_job example_env 1 simple_dag)]"
    using ch by (simp add: example_sent_def schedule_task_jobs example_tasks example_busy_facts(1))
  show "sys_found example_sent = Map.empty" "sys_log example_sent = [Given 1]"
    using empty_master_jobs[OF example_env_ok] ch
    by (simp_all add: example_sent_def ran_list_def example_busy_def example_start_def given_def example_tasks)
qed

lemma example_done_facts:
  "example_step\<^sup>*\<^sup>* example_start example_done"
  "m_jobs (sys_master example_done) 1 = Some (job_after traced_result (with_status traced_result
     (assigned_job (task_id simple_task) 5 (admitted_job example_env 1 simple_dag))))"
  "sys_found example_done = Map.empty" "sys_log example_done = [Given 1, Came traced_result]"
proof -
  have "simple_task \<in> set (map snd (requests example_sent))" by (simp add: example_sent_facts(1))
  then have "simple_task \<in> snd ` set (requests example_sent)" by simp
  from sys_step.complete[OF example_env_ok this traced_result_facts(1)]
  have "example_step example_sent example_done" by (simp add: example_done_def)
  with example_sent_run show "example_step\<^sup>*\<^sup>* example_start example_done" by (rule rtranclp.rtrancl_into_rtrancl)
  have "sys_inv example_uuid_api example_codec example_sent"
    by (rule engine.reachable_invariant[OF example_initial example_sent_run])
  then have inv: "master_inv example_uuid_api example_codec (sys_master example_sent)" by (simp add: sys_inv_def)
  have "known (m_jobs (sys_master example_sent)) simple_task"
    by (simp add: known_def example_sent_facts(2) example_tasks assigned_job_def)
  from complete_task_inv(5)[OF inv example_env_ok this traced_result_facts(1)] show
    "m_jobs (sys_master example_done) 1 = Some (job_after traced_result (with_status traced_result
       (assigned_job (task_id simple_task) 5 (admitted_job example_env 1 simple_dag))))"
    by (simp add: example_done_def example_sent_facts(2) traced_result_facts(2))
  show "sys_found example_done = Map.empty" "sys_log example_done = [Given 1, Came traced_result]"
    by (simp_all add: example_done_def example_sent_facts(3,4))
qed

lemma example_done_tasks:
  "job_tasks (job_after traced_result (with_status traced_result
     (assigned_job (task_id simple_task) 5 (admitted_job example_env 1 simple_dag)))) =
   [task_id simple_task \<mapsto> TS_Completed]"
  using admitted_tasks[of example_env 1 simple_dag] traced_result_facts
  by (auto simp: with_status_def assigned_job_def example_tasks fun_eq_iff)

section \<open>Properties\<close>

text \<open>
  Claim C5. In every state the running system can reach, the store knows the jobs: a master
  started on it has exactly the jobs of the old one, with the same graphs and statuses, and with
  the same tasks, of which those that were assigned or running are queued again. It has a result
  for every completed task; it has at most one result per task, and each is the last
  completed result that the old master listed for that task. Its counters are zero and the error
  message is gone.
\<close>

theorem restart_resumes:
  assumes "sys_initial U C s0" "(sys_step U C)\<^sup>*\<^sup>* s0 s" "env_ok U C E"
  shows "\<forall>job. (case m_jobs (sys_master s) job of
      None \<Rightarrow> m_jobs (master_new E cfg (m_store (sys_master s))) job = None
    | Some js \<Rightarrow> (\<exists>js'. m_jobs (master_new E cfg (m_store (sys_master s))) job = Some js' \<and>
        job_dag js' = job_dag js \<and> job_state_status js' = job_state_status js \<and>
        job_tasks js' = map_option normalized_status \<circ> job_tasks js \<and>
        (\<forall>tid. job_tasks js tid = Some TS_Completed \<longrightarrow> (\<exists>r \<in> set (job_results js'). res_task_id r = tid)) \<and>
        distinct (map res_task_id (job_results js')) \<and>
        (\<forall>r \<in> set (job_results js'). last_for (res_task_id r) (job_results js) = Some r \<and>
           res_status r = TS_Completed \<and> res_job_id r = job \<and> res_task_id r \<in> dom (job_tasks js)) \<and>
        job_state_metrics js' = default_job_metrics \<and> job_error js' = None))"
proof -
  let ?m = "sys_master s" and ?new = "master_new E cfg (m_store (sys_master s))"
  have inv: "master_inv U C ?m"
    using engine.reachable_invariant[OF assms(1,2)] by (simp add: sys_inv_def)
  then obtain v where v: "stored E ?m v" "mirrors (m_jobs ?m) v" "results_filed v" "kept (m_jobs ?m) v"
    using holds_stored[OF assms(3)] by (auto simp: master_inv_def)
  from restart_jobs[OF v(1)[unfolded stored_def] v(2), of cfg] obtain ts where
    ts: "enumerates ts (view_tasks v)" and
    jobs: "m_jobs ?new = (\<lambda>job. map_option (restarted_job ts job) (m_jobs ?m job))" by blast
  note loaded = restarted_results[OF ts v(3)] and kept = v(4)[unfolded kept_def]
  have "\<exists>js'. m_jobs ?new job = Some js' \<and> job_dag js' = job_dag js \<and>
      job_state_status js' = job_state_status js \<and>
      job_tasks js' = map_option normalized_status \<circ> job_tasks js \<and>
      (\<forall>tid. job_tasks js tid = Some TS_Completed \<longrightarrow> (\<exists>r \<in> set (job_results js'). res_task_id r = tid)) \<and>
      distinct (map res_task_id (job_results js')) \<and>
      (\<forall>r \<in> set (job_results js'). last_for (res_task_id r) (job_results js) = Some r \<and>
         res_status r = TS_Completed \<and> res_job_id r = job \<and> res_task_id r \<in> dom (job_tasks js)) \<and>
      job_state_metrics js' = default_job_metrics \<and> job_error js' = None" if js: "m_jobs ?m job = Some js" for job js
  proof -
    have new: "m_jobs ?new job = Some (restarted_job ts job js)" using js by (simp add: jobs)
    have "dom (job_tasks (restarted_job ts job js)) = dom (job_tasks js)"
      by (auto simp: restarted_job_def dom_def)
    moreover have "job_ok job (restarted_job ts job js)"
      using restart_inv(1)[OF inv assms(3), of cfg] new unfolding master_inv_def by blast
    ultimately have ok: "\<forall>r \<in> set (job_results (restarted_job ts job js)). res_status r = TS_Completed \<and>
        res_job_id r = job \<and> res_task_id r \<in> dom (job_tasks js)"
      unfolding job_ok_def by simp
    have last: "\<forall>r \<in> set (job_results (restarted_job ts job js)). last_for (res_task_id r) (job_results js) = Some r"
    proof
      fix r assume "r \<in> set (job_results (restarted_job ts job js))"
      then obtain st where "view_tasks v (res_task_id r) = Some (job, st, Some r)" "res_status r = TS_Completed"
        unfolding loaded(1) by blast
      with kept js show "last_for (res_task_id r) (job_results js) = Some r" by blast
    qed
    have "\<exists>r \<in> set (job_results (restarted_job ts job js)). res_task_id r = tid"
      if "job_tasks js tid = Some TS_Completed" for tid
    proof -
      from that v(2) js obtain res where "view_tasks v tid = Some (job, TS_Completed, res)"
        unfolding mirrors_def by blast
      with kept obtain r where r: "view_tasks v tid = Some (job, TS_Completed, Some r)" "res_status r = TS_Completed"
        by blast
      with v(3) have "res_task_id r = tid" by (auto simp: results_filed_def)
      with r show ?thesis unfolding Bex_def loaded(1) by blast
    qed
    with ok last loaded(2)[of job js] new show ?thesis by (simp add: restarted_job_def)
  qed
  then show ?thesis by (simp add: jobs split: option.splits)
qed

theorem restart_resumes_witness:
  "\<exists>s js' r. example_step\<^sup>*\<^sup>* example_start s \<and>
     m_jobs (master_new example_env default_config (m_store (sys_master s))) 1 = Some js' \<and>
     job_state_status js' = JS_Succeeded \<and> job_tasks js' (task_id simple_task) = Some TS_Completed \<and>
     r \<in> set (job_results js') \<and> res_task_id r = task_id simple_task"
proof -
  let ?js = "assigned_job (task_id simple_task) 5 (admitted_job example_env 1 simple_dag)"
  let ?old = "job_after traced_result (with_status traced_result ?js)"
  have tasks: "job_tasks ?old = [task_id simple_task \<mapsto> TS_Completed]" by (rule example_done_tasks)
  then have "job_tasks (with_status traced_result ?js) = [task_id simple_task \<mapsto> TS_Completed]" by simp
  then have status: "job_state_status ?old = JS_Succeeded"
    using traced_result_facts(3) by (simp add: job_after_def all_completed_def Let_def)
  from restart_resumes[OF example_initial example_done_facts(1) example_env_ok, of default_config, THEN spec, of 1,
      unfolded example_done_facts(2) option.case]
  obtain js' where new: "m_jobs (master_new example_env default_config (m_store (sys_master example_done))) 1 = Some js'"
    "job_state_status js' = job_state_status ?old" "job_tasks js' = map_option normalized_status \<circ> job_tasks ?old"
    and res: "\<forall>tid. job_tasks ?old tid = Some TS_Completed \<longrightarrow> (\<exists>r \<in> set (job_results js'). res_task_id r = tid)"
    by blast
  from res[THEN spec, of "task_id simple_task"] tasks
  obtain r where "r \<in> set (job_results js')" "res_task_id r = task_id simple_task" by auto
  moreover have "job_tasks js' (task_id simple_task) = Some TS_Completed" using new(3) tasks by simp
  ultimately show ?thesis using new status example_done_facts(1) by metis
qed

text \<open>
  Claim C6. In every state the running system can reach, the state of a job agrees with its tasks
  and with what its master found and took. Its results are those found in the store followed by
  the completed results taken since, in order, all of them of its own tasks, and every completed
  task has one. The counters of completed and failed tasks are the numbers of completed and failed
  results taken since the master started, the pending tasks are the total minus both, and the
  total is the size of the plan, or 0 after a restart. The error is the message of the last
  failure. The status is \<open>Succeeded\<close> exactly when all the tasks of the job are completed; otherwise
  it is \<open>Running\<close> or \<open>Failed\<close> after the last assignment or failure, whichever came later, and
  with neither it is the status found, which is \<open>Accepted\<close> for a new job. What has been sent to
  workers are tasks of known jobs.
\<close>

theorem job_bookkeeping:
  assumes "sys_initial U C s0" "(sys_step U C)\<^sup>*\<^sup>* s0 s"
  shows "(\<forall>job js. m_jobs (sys_master s) job = Some js \<longrightarrow>
      (let old = sys_found s job; rs = came job (sys_log s); jm = job_state_metrics js in
        job_results js = (case old of None \<Rightarrow> [] | Some o' \<Rightarrow> job_results o') @ completed_of rs \<and>
        (\<forall>r \<in> set (job_results js). res_status r = TS_Completed \<and> res_job_id r = job \<and>
           res_task_id r \<in> dom (job_tasks js)) \<and>
        (\<forall>tid. job_tasks js tid = Some TS_Completed \<longrightarrow> (\<exists>r \<in> set (job_results js). res_task_id r = tid)) \<and>
        jm_completed_tasks jm = length (completed_of rs) \<and> jm_failed_tasks jm = length (failed_of rs) \<and>
        jm_pending_tasks jm = jm_total_tasks jm - (jm_completed_tasks jm + jm_failed_tasks jm) \<and>
        (case old of
           None \<Rightarrow> (\<exists>E. env_ok U C E \<and> jm_total_tasks jm = length (tasks_of E (job_dag js) job) \<and>
             dom (job_tasks js) = task_id ` set (tasks_of E (job_dag js) job))
         | Some o' \<Rightarrow> jm_total_tasks jm = 0 \<and> dom (job_tasks o') = dom (job_tasks js)) \<and>
        job_error js = last_failure rs \<and>
        job_state_status js =
          (if job_tasks js \<noteq> Map.empty \<and> (\<forall>st \<in> ran (job_tasks js). st = TS_Completed) then JS_Succeeded
           else last_word job (case old of None \<Rightarrow> JS_Accepted | Some o' \<Rightarrow> job_state_status o') (sys_log s)))) \<and>
    (\<forall>q \<in> set (requests s). \<exists>js. m_jobs (sys_master s) (task_job_id (snd q)) = Some js \<and>
      task_id (snd q) \<in> dom (job_tasks js))"
proof -
  have inv: "sys_inv U C s" by (rule engine.reachable_invariant[OF assms])
  have job: "booked U C (sys_found s job) (sys_log s) job js \<and> job_ok job js \<and>
      (\<forall>tid. job_tasks js tid = Some TS_Completed \<longrightarrow> (\<exists>r \<in> set (job_results js). res_task_id r = tid))"
    if "m_jobs (sys_master s) job = Some js" for job js
    using sys_inv_job[OF inv that] by blast
  have "\<forall>q \<in> set (requests s). \<exists>js. m_jobs (sys_master s) (task_job_id (snd q)) = Some js \<and>
      task_id (snd q) \<in> dom (job_tasks js)" using inv by (simp add: sys_inv_def known_def)
  with job show ?thesis
    unfolding Let_def booked_def planned_def all_completed_def job_ok_def by blast
qed

theorem job_bookkeeping_witness:
  "\<exists>s js. example_step\<^sup>*\<^sup>* example_start s \<and> m_jobs (sys_master s) 1 = Some js \<and>
     job_state_status js = JS_Succeeded \<and> job_results js = [traced_result] \<and>
     jm_completed_tasks (job_state_metrics js) = 1 \<and> jm_failed_tasks (job_state_metrics js) = 0 \<and>
     jm_pending_tasks (job_state_metrics js) = 0"
proof -
  let ?js = "assigned_job (task_id simple_task) 5 (admitted_job example_env 1 simple_dag)"
  let ?done = "job_after traced_result (with_status traced_result ?js)"
  have tasks: "job_tasks ?done = [task_id simple_task \<mapsto> TS_Completed]" by (rule example_done_tasks)
  have total: "jm_total_tasks (job_state_metrics ?done) = 1"
    by (simp add: job_after_def with_status_def assigned_job_def admitted_job_def initial_metrics_def
        traced_result_facts(3) example_tasks Let_def)
  have came: "came 1 (sys_log example_done) = [traced_result]"
    by (simp add: example_done_facts(4) traced_result_facts(2))
  from job_bookkeeping[OF example_initial example_done_facts(1), THEN conjunct1, THEN spec, THEN spec, THEN mp,
      OF example_done_facts(2), unfolded Let_def came total tasks example_done_facts(3)]
  show ?thesis
    using example_done_facts(1,2)
    by (intro exI[of _ example_done] exI[of _ ?done]) (simp add: traced_result_facts(3))
qed

text \<open>
  Claim C33. The progress that the running system reports for a job submitted since the master
  started (a found job has lost its counters), with fewer than \<open>2 ^ 24\<close> tasks: as long as no task
  has been reported as completed twice, it is a finite number between 0 and 100. It is exactly
  100 when as many tasks are counted as the job has, which is so once the job has succeeded, if the
  identifiers of its tasks differ.
\<close>

theorem progress_bounds:
  assumes "sys_initial U C s0" "(sys_step U C)\<^sup>*\<^sup>* s0 s"
    and "m_jobs (sys_master s) job = Some js" "sys_found s job = None"
    and "distinct (map res_task_id (completed_of (came job (sys_log s))))"
    and "jm_total_tasks (job_state_metrics js) < 2 ^ 24"
  shows "\<exists>resp. get_job_status E job (sys_master s) = Ok resp \<and> is_finite (jsr_progress resp) \<and>
    0 \<le> flt_val (jsr_progress resp) \<and> flt_val (jsr_progress resp) \<le> 100 \<and>
    (0 < jm_total_tasks (job_state_metrics js) \<and>
     (jm_completed_tasks (job_state_metrics js) = jm_total_tasks (job_state_metrics js) \<or>
      job_state_status js = JS_Succeeded \<and> jm_total_tasks (job_state_metrics js) = card (dom (job_tasks js)))
     \<longrightarrow> jsr_progress resp = flt_of_int f32 100)"
proof -
  have inv: "sys_inv U C s" by (rule engine.reachable_invariant[OF assms(1,2)])
  note counts = completed_once[OF inv assms(3-5)]
  from status_progress[OF assms(3) counts(1) assms(6), of E] counts(2) show ?thesis by auto
qed

theorem progress_bounds_witness:
  "\<exists>s resp. example_step\<^sup>*\<^sup>* example_start s \<and> get_job_status example_env 1 (sys_master s) = Ok resp \<and>
     jsr_progress resp = flt_of_int f32 100"
proof -
  let ?done = "job_after traced_result (with_status traced_result
    (assigned_job (task_id simple_task) 5 (admitted_job example_env 1 simple_dag)))"
  have "jm_total_tasks (job_state_metrics ?done) = 1" "jm_completed_tasks (job_state_metrics ?done) = 1"
    by (simp_all add: job_after_def with_status_def assigned_job_def admitted_job_def initial_metrics_def
        default_job_metrics_def traced_result_facts(3) example_tasks Let_def)
  with progress_bounds[OF example_initial example_done_facts(1,2), where E = example_env]
  have "\<exists>resp. get_job_status example_env 1 (sys_master example_done) = Ok resp \<and>
      jsr_progress resp = flt_of_int f32 100"
    by (auto simp: example_done_facts(3,4) traced_result_facts)
  with example_done_facts(1) show ?thesis by blast
qed

text \<open>
  Claim C37. A task that is assigned to a worker, and is in no list that a running pass or submission
  still has to hand out, is not given to another worker as long as no result for it arrives and the
  master is not restarted: after any sequence of other steps (heartbeats that fail to come, the
  watchdog, new workers, new jobs, results of other tasks, further passes) it is still assigned to
  that worker, and no further request for it has been sent.
\<close>

theorem lost_task_not_resent:
  assumes "sys_initial U C s0" "(sys_step U C)\<^sup>*\<^sup>* s0 s" "settled_task job tid w s"
    and "(other_step U C job tid)\<^sup>*\<^sup>* s s'"
  shows "(\<exists>js. m_jobs (sys_master s') job = Some js \<and> job_tasks js tid = Some (TS_Assigned w)) \<and>
    requests_for job tid s' = requests_for job tid s"
  using other_run_settled[OF assms(4) engine.reachable_invariant[OF assms(1,2)] assms(3)]
  by (simp add: settled_task_def)

theorem lost_task_not_resent_witness:
  "\<exists>s. example_step\<^sup>*\<^sup>* example_start s \<and> active (m_registry (sys_master s)) = {} \<and>
     (\<exists>js. m_jobs (sys_master s) 1 = Some js \<and> job_tasks js (task_id simple_task) = Some (TS_Assigned 5)) \<and>
     length (requests_for 1 (task_id simple_task) s) = 1"
proof -
  let ?m = "fold (schedule_task example_env) [simple_task] (sys_master example_busy)"
  let ?s = example_sent
  let ?t = "?s\<lparr>sys_master := garbage_collect_workers (10 ^ 30) ?m\<rparr>"
  note s = example_sent_run
  have m: "sys_master ?s = ?m" "sys_pending ?s = [[]]" by (simp_all add: example_sent_def)
  have step: "quiet_step example_uuid_api example_codec ?s ?t"
    using quiet_step.collect[of example_uuid_api example_codec ?s "10 ^ 30"] by (simp add: m)
  note fold = fold_schedule_active[OF example_busy_facts(4), where ts = "[simple_task]"]
  obtain js where js: "m_jobs ?m 1 = Some js" "job_tasks js (task_id simple_task) = Some (TS_Assigned 5)"
    using fold(3)[of simple_task] by (auto simp: example_tasks example_busy_facts(1,5))
  then have "settled_task 1 (task_id simple_task) 5 ?s" by (simp add: settled_task_def m)
  from lost_task_not_resent[OF example_initial s this, of ?t] other_step.quiet[OF step]
  have stay: "(\<exists>js. m_jobs (sys_master ?t) 1 = Some js \<and> job_tasks js (task_id simple_task) = Some (TS_Assigned 5))"
    and same: "requests_for 1 (task_id simple_task) ?t = requests_for 1 (task_id simple_task) ?s" by auto
  have "map snd (requests ?s) = [simple_task]" by (rule example_sent_facts(1))
  then obtain u where "requests ?s = [(u, simple_task)]" by (auto simp: map_eq_Cons_conv)
  with same have "length (requests_for 1 (task_id simple_task) ?t) = 1"
    by (simp add: requests_for_def example_tasks)
  moreover have "active (m_registry (sys_master ?t)) = {}"
  proof -
    have "m_registry ?m = m_registry (sys_master example_busy)" "m_config ?m = m_config (sys_master example_busy)"
      by (simp_all add: schedule_task_frame)
    moreover have "workers (m_registry (sys_master example_busy)) = [5 \<mapsto> example_worker]"
      by (simp add: example_busy_def register_worker_def example_admit add_worker_def default_registry_def
          example_worker_def)
    ultimately show ?thesis
      using example_busy_facts(5)
      by (auto simp: garbage_collect_workers_def active_stale example_worker_def deadline_def)
  qed
  moreover have "example_step\<^sup>*\<^sup>* example_start ?t"
    using s step by (meson rtranclp.rtrancl_into_rtrancl sys_step.quiet)
  ultimately show ?thesis using stay by blast
qed

text \<open>
  Two passes can hand out the same tasks: from any state with two passes waiting, a
  worker available and the scheduler in step, the system can reach one in which every task that
  was queued has been sent twice.
\<close>

theorem passes_race:
  assumes "env_ok U C E" "m_passes (sys_master s) = Suc (Suc n)" "can_schedule E (sys_master s)"
  shows "\<exists>s'. (sys_step U C)\<^sup>*\<^sup>* s s' \<and> map snd (requests s') = map snd (requests s) @
    queued_tasks_snapshot E (sys_master s) @ queued_tasks_snapshot E (sys_master s)"
proof -
  let ?ts = "queued_tasks_snapshot E (sys_master s)"
  let ?m = "(sys_master s)\<lparr>m_passes := n\<rparr>"
  have "can_schedule E ?m" using assms(3) by (simp add: can_schedule_def)
  from fold_schedule_active(1)[OF this, of "?ts @ ?ts"]
  have "map snd (m_outbox (fold (schedule_task E) (?ts @ ?ts) ?m)) = map snd (m_outbox (sys_master s)) @ ?ts @ ?ts"
    by simp
  moreover obtain s' where "(quiet_step U C)\<^sup>*\<^sup>* s s'" "sys_earlier s' = sys_earlier s"
    "sys_master s' = fold (schedule_task E) (?ts @ ?ts) ?m"
    using two_passes[OF assms(1,2)] by blast
  ultimately show ?thesis using quiet_run[of U C s s'] by (auto simp: requests_def)
qed

theorem passes_race_witness:
  "\<exists>s. example_step\<^sup>*\<^sup>* example_start s \<and> map snd (requests s) = [simple_task, simple_task]"
proof -
  from passes_race[OF example_env_ok example_busy_facts(2,4)] obtain s where
    "example_step\<^sup>*\<^sup>* example_busy s" "map snd (requests s) = [simple_task, simple_task]"
    by (auto simp: example_busy_facts)
  with example_busy_run show ?thesis by (meson rtranclp_trans)
qed

end
