(* ===== verification/Http.thy ===== *)
theory Http
  imports Master
begin

text \<open>
  The HTTP interface of the master: \<open>src/src/http/request.rs\<close> (parsing a request by hand),
  \<open>src/src/http/router.rs\<close> (the table of routes and the health check) and
  \<open>src/src/http/handlers.rs\<close> (the handlers, and how an error becomes a response). Decoding and
  encoding of JSON bodies and the matching of paths against the table belong to the web
  framework and are not modelled: a handler takes the decoded body and gives its answer or an
  \<open>api_error\<close>.
\<close>

section \<open>Requests\<close>

record http_request =
  req_method :: string
  req_path :: string
  req_version :: string
  req_headers :: "string \<rightharpoonup> string"
  req_body :: "string option"

definition split_whitespace :: "string \<Rightarrow> string list" where
  "split_whitespace s = filter (\<lambda>w. w \<noteq> []) (split_by is_whitespace s)"

fun parse_headers :: "string list \<Rightarrow> (string \<rightharpoonup> string) \<Rightarrow> (string \<rightharpoonup> string) \<times> string list" where
  "parse_headers [] h = (h, [])"
| "parse_headers (l # ls) h =
     (if l = [] then (h, ls)
      else parse_headers ls
        (case splitn2 (CHR '':'') l of (k, Some v) \<Rightarrow> h(trim k \<mapsto> trim v) | (_, None) \<Rightarrow> h))"

fun join_lines :: "string list \<Rightarrow> string" where
  "join_lines [] = []"
| "join_lines [l] = l"
| "join_lines (l # ls) = l @ newline # join_lines ls"

definition parse_request :: "string \<Rightarrow> http_request option" where
  "parse_request raw =
     (case lines raw of
        [] \<Rightarrow> None
      | l # ls \<Rightarrow>
          (let start_line = split_whitespace l
           in if length start_line < 3 then None
              else
                (let (headers, rest) = parse_headers ls Map.empty; body = join_lines rest
                 in Some \<lparr>req_method = start_line ! 0, req_path = start_line ! 1,
                          req_version = start_line ! 2, req_headers = headers,
                          req_body = (if body = [] then None else Some body)\<rparr>)))"

section \<open>Routes\<close>

datatype endpoint =
  Submit_Job | Job_Status | Job_Results | Job_Result_File | Heartbeat | Register_Worker | Complete_Task

definition base_of :: "string \<Rightarrow> string" where
  "base_of base_path = trim_end_matches (\<lambda>c. c = CHR ''/'') base_path"

definition register_routes :: "string \<Rightarrow> (string \<times> string \<times> endpoint) list" where
  "register_routes base_path =
     (let base = base_of base_path
      in [(''POST'', base @ ''/jobs'', Submit_Job),
          (''GET'', base @ ''/jobs/:id'', Job_Status),
          (''GET'', base @ ''/jobs/:id/results'', Job_Results),
          (''GET'', base @ ''/jobs/:id/result'', Job_Result_File),
          (''POST'', base @ ''/heartbeat'', Heartbeat),
          (''POST'', base @ ''/register'', Register_Worker),
          (''POST'', base @ ''/tasks/complete'', Complete_Task)])"

definition handle_request :: "http_request \<Rightarrow> string \<Rightarrow> string" where
  "handle_request req base_path =
     (if req_method req = ''GET'' \<and> req_path req = base_of base_path @ ''/health'' then ''ok''
      else ''not found'')"

section \<open>Errors\<close>

datatype api_error = Engine engine_error | Bad_Request string | Internal error

fun into_response :: "api_error \<Rightarrow> nat \<times> string" where
  "into_response (Engine (NotFound msg)) = (404, msg)"
| "into_response (Engine (Validation msg)) = (400, msg)"
| "into_response (Engine e) = (500, show_engine_error e)"
| "into_response (Bad_Request msg) = (400, msg)"
| "into_response (Internal e) = (500, ''internal error'')"

fun map_err :: "('e \<Rightarrow> 'f) \<Rightarrow> ('e, 'a) res \<Rightarrow> ('f, 'a) res" where
  "map_err f (Ok x) = Ok x"
| "map_err f (Err e) = Err (f e)"
| "map_err f Panic = Panic"

definition parse_job_id :: "uuid_api \<Rightarrow> string \<Rightarrow> (api_error, job_id) res" where
  "parse_job_id U raw =
     (case parse_uuid U raw of None \<Rightarrow> Err (Bad_Request ''invalid job id'') | Some u \<Rightarrow> Ok u)"

section \<open>Handlers\<close>

definition api_submit_job :: "master_env \<Rightarrow> job_id \<Rightarrow> dag_specification \<Rightarrow> (master, api_error, job_id) io" where
  "api_submit_job E job d m = (case submit_job E job d m of (r, m') \<Rightarrow> (map_err Internal r, m'))"

definition api_job_status :: "master_env \<Rightarrow> string \<Rightarrow> master \<Rightarrow> (api_error, job_status_response) res" where
  "api_job_status E raw m =
     res_bind (parse_job_id (uuids E) raw) (\<lambda>job. map_err Engine (get_job_status E job m))"

definition api_job_results :: "master_env \<Rightarrow> string \<Rightarrow> master \<Rightarrow> (api_error, task_result list) res" where
  "api_job_results E raw m =
     res_bind (parse_job_id (uuids E) raw) (\<lambda>job. map_err Engine (get_job_results E job m))"

record file_response =
  fr_headers :: "(string \<times> string) list"
  fr_body :: string

text \<open>\<open>Path::file_name\<close>: the last component, unless it goes up.\<close>

definition path_components :: "path \<Rightarrow> string list" where
  "path_components p = filter (\<lambda>c. c \<noteq> [] \<and> c \<noteq> ''.'') (split_by (\<lambda>c. c = slash) p)"

definition path_file_name :: "path \<Rightarrow> string option" where
  "path_file_name p =
     (let cs = path_components p
      in if cs = [] \<or> last cs = ''..'' then None else Some (last cs))"

text \<open>A header value the HTTP library accepts: visible characters, spaces and tabs.\<close>

definition header_value_ok :: "string \<Rightarrow> bool" where
  "header_value_ok s = list_all (\<lambda>c. let n = (of_char c :: nat) in n = 9 \<or> (32 \<le> n \<and> n \<noteq> 127)) s"

definition first_completed :: "task_result list \<Rightarrow> path option" where
  "first_completed rs =
     map_option (\<lambda>r. rl_path (res_location r)) (find (\<lambda>r. is_completed (res_status r)) rs)"

definition file_answer :: "path \<Rightarrow> string \<Rightarrow> (api_error, file_response) res" where
  "file_answer p data =
     (let filename = (case path_file_name p of Some n \<Rightarrow> n | None \<Rightarrow> ''result.bin'');
          disposition = ''attachment; filename='' @ quote2 filename
      in if header_value_ok disposition
         then Ok \<lparr>fr_headers = [(''content-type'', ''application/octet-stream''),
                               (''content-disposition'', disposition)], fr_body = data\<rparr>
         else Err (Internal (Message ''failed to parse header value'')))"

definition api_job_result_file ::
    "master_env \<Rightarrow> string \<Rightarrow> master \<Rightarrow> (fs, api_error, file_response) io" where
  "api_job_result_file E raw m =
     io_bind (io_lift (api_job_results E raw m)) (\<lambda>results.
       case first_completed results of
         None \<Rightarrow> io_lift (Err (Engine (NotFound ''no completed results'')))
       | Some p \<Rightarrow> (\<lambda>s.
           case read_file p s of
             (Ok data, s') \<Rightarrow> (file_answer p data, s')
           | (Err e, s') \<Rightarrow>
               (Err (Engine (EngineIo (''failed to read result file '' @ p @ '': '' @ show_error e))), s')
           | (Panic, s') \<Rightarrow> (Panic, s')))"

definition api_heartbeat :: "master_env \<Rightarrow> system_time \<Rightarrow> heartbeat_message \<Rightarrow> (master, api_error, nat) io" where
  "api_heartbeat E now hb m = (Ok 200, handle_heartbeat E now hb m)"

definition api_register_worker :: "worker_info \<Rightarrow> (master, api_error, worker_id) io" where
  "api_register_worker info m = (case register_worker info m of (r, m') \<Rightarrow> (map_err Internal r, m'))"

definition api_complete_task :: "master_env \<Rightarrow> task_result \<Rightarrow> (master, api_error, nat) io" where
  "api_complete_task E r m =
     (case complete_task E r m of (x, m') \<Rightarrow> (res_bind (map_err Internal x) (\<lambda>_. Ok 200), m'))"

text \<open>The status code of an answer, and which codes a client takes as success.\<close>

fun status_of :: "(api_error, 'a) res \<Rightarrow> nat option" where
  "status_of (Ok _) = Some 200"
| "status_of (Err e) = Some (fst (into_response e))"
| "status_of Panic = None"

definition is_success :: "nat \<Rightarrow> bool" where
  "is_success code \<longleftrightarrow> 200 \<le> code \<and> code < 300"

section \<open>Lemmas: lines\<close>

lemma split_by_sep: "\<forall>c \<in> set a. \<not> p c \<Longrightarrow> p x \<Longrightarrow> split_by p (a @ x # b) = a # split_by p b"
  by (induction a) (auto split: list.splits)

lemma split_by_none: "\<forall>c \<in> set a. \<not> p c \<Longrightarrow> split_by p a = [a]"
  by (induction a) auto

lemma lines_newline: "newline \<notin> set a \<Longrightarrow> lines (a @ newline # b) = strip_cr a # lines b"
proof -
  assume "newline \<notin> set a"
  then have s: "split_by (\<lambda>c. c = newline) (a @ newline # b) = a # split_by (\<lambda>c. c = newline) b"
    by (intro split_by_sep) auto
  obtain w ws where "split_by (\<lambda>c. c = newline) b = w # ws"
    by (cases "split_by (\<lambda>c. c = newline) b") auto
  with s show ?thesis by (simp add: lines_def)
qed

lemma lines_crlf:
  "newline \<notin> set a \<Longrightarrow> lines (a @ carriage_return # newline # b) = a # lines b"
  using lines_newline[of "a @ [carriage_return]" b]
  by (simp add: strip_cr_def newline_def carriage_return_def)

definition plain_line :: "string \<Rightarrow> bool" where
  "plain_line l \<longleftrightarrow> newline \<notin> set l \<and> carriage_return \<notin> set l"

lemma lines_join:
  "list_all plain_line ls \<Longrightarrow> ls = [] \<or> last ls \<noteq> [] \<Longrightarrow> lines (join_lines ls) = ls"
proof (induction ls rule: join_lines.induct)
  case 1
  then show ?case by (simp add: lines_def)
next
  case (2 l)
  then have "split_by (\<lambda>c. c = newline) l = [l]" by (intro split_by_none) (auto simp: plain_line_def)
  with 2 show ?case by (simp add: lines_def)
next
  case (3 l k ls)
  then have l: "newline \<notin> set l" "carriage_return \<notin> set l" by (simp_all add: plain_line_def)
  then have "strip_cr l = l" by (cases l rule: rev_cases) (auto simp: strip_cr_def)
  with 3 lines_newline[OF l(1), of "join_lines (k # ls)"] show ?case by simp
qed

section \<open>Printing a request\<close>

definition crlf :: string where
  "crlf = [carriage_return, newline]"

definition print_request :: "string \<Rightarrow> string \<Rightarrow> string \<Rightarrow> (string \<times> string) list \<Rightarrow> string list \<Rightarrow> string" where
  "print_request meth target version hs body =
     meth @ '' '' @ target @ '' '' @ version @ crlf @
     concat (map (\<lambda>(k, v). k @ '': '' @ v @ crlf) hs) @ crlf @ join_lines body"

definition token :: "string \<Rightarrow> bool" where
  "token w \<longleftrightarrow> w \<noteq> [] \<and> list_all (\<lambda>c. \<not> is_whitespace c) w"

definition header_ok :: "string \<times> string \<Rightarrow> bool" where
  "header_ok h \<longleftrightarrow> (case h of (k, v) \<Rightarrow>
     CHR '':'' \<notin> set k \<and> trim k = k \<and> trim v = v \<and> plain_line k \<and> plain_line v)"

lemma token_plain: "token w \<Longrightarrow> plain_line w"
  by (auto simp: token_def plain_line_def list_all_iff is_whitespace_def newline_def carriage_return_def)

lemma split_whitespace_three:
  assumes "token a" "token b" "token c"
  shows "split_whitespace (a @ '' '' @ b @ '' '' @ c) = [a, b, c]"
proof -
  have sp: "is_whitespace (CHR '' '')" by (simp add: is_whitespace_def)
  have "split_by is_whitespace (a @ CHR '' '' # (b @ CHR '' '' # c)) = [a, b, c]"
    using assms sp split_by_none[of c is_whitespace]
    by (simp add: token_def list_all_iff split_by_sep)
  with assms show ?thesis by (simp add: split_whitespace_def token_def)
qed

lemma trim_space: "trim (CHR '' '' # v) = trim v"
  by (simp add: trim_def is_whitespace_def)

lemma parse_headers_print:
  "list_all header_ok hs \<Longrightarrow>
   parse_headers (map (\<lambda>(k, v). k @ '': '' @ v) hs @ [] # rest) h = (h ++ map_of (rev hs), rest)"
proof (induction hs arbitrary: h)
  case Nil
  then show ?case by simp
next
  case (Cons x hs)
  obtain k v where x: "x = (k, v)" by (cases x)
  with Cons.prems have "splitn2 (CHR '':'') (k @ CHR '':'' # CHR '' '' # v) = (k, Some (CHR '' '' # v))"
    by (intro splitn2_sep) (simp add: header_ok_def)
  with Cons x show ?case by (simp add: header_ok_def trim_space)
qed

lemma lines_headers:
  "list_all header_ok hs \<Longrightarrow>
   lines (concat (map (\<lambda>(k, v). k @ '': '' @ v @ crlf) hs) @ crlf @ b) =
     map (\<lambda>(k, v). k @ '': '' @ v) hs @ [] # lines b"
proof (induction hs)
  case Nil
  then show ?case using lines_crlf[of "[]" b] by (simp add: crlf_def)
next
  case (Cons x hs)
  obtain k v where x: "x = (k, v)" by (cases x)
  with Cons.prems have "newline \<notin> set (k @ '': '' @ v)"
    by (simp add: header_ok_def plain_line_def newline_def)
  from lines_crlf[OF this] Cons x show ?case by (simp add: crlf_def)
qed

section \<open>Properties\<close>

text \<open>
  Claim C29. Parsing what a client prints gives the request back: the three words of the start line, the
  headers (a header sent twice keeps its last value, names and values without the blanks around
  them), and the body lines joined again, where an empty body is no body.
\<close>

theorem request_roundtrip:
  assumes "token meth" "token target" "token version" "list_all header_ok hs"
    and "list_all plain_line body" "body = [] \<or> last body \<noteq> []"
  shows "parse_request (print_request meth target version hs body) =
    Some \<lparr>req_method = meth, req_path = target, req_version = version,
          req_headers = map_of (rev hs),
          req_body = (if join_lines body = [] then None else Some (join_lines body))\<rparr>"
proof -
  let ?start = "meth @ '' '' @ target @ '' '' @ version"
  have "newline \<notin> set ?start"
    using assms(1-3)[THEN token_plain] by (simp add: plain_line_def newline_def)
  from lines_crlf[OF this]
  have "lines (print_request meth target version hs body) =
      ?start # map (\<lambda>(k, v). k @ '': '' @ v) hs @ [] # body"
    using lines_headers[OF assms(4), of "join_lines body"] lines_join[OF assms(5,6)]
    by (simp add: print_request_def crlf_def)
  then show ?thesis
    using split_whitespace_three[OF assms(1-3)] parse_headers_print[OF assms(4), of body Map.empty]
    by (simp add: parse_request_def)
qed

theorem request_roundtrip_witness:
  "parse_request (print_request ''POST'' ''/api/v1/jobs'' ''HTTP/1.1''
      [(''Host'', ''a:80''), (''Accept'', ''x''), (''Accept'', ''y'')] [''{'', ''}'']) =
    Some \<lparr>req_method = ''POST'', req_path = ''/api/v1/jobs'', req_version = ''HTTP/1.1'',
          req_headers = map_of (rev [(''Host'', ''a:80''), (''Accept'', ''x''), (''Accept'', ''y'')]),
          req_body = Some (''{'' @ newline # ''}'')\<rparr>"
proof -
  have "list_all header_ok [(''Host'', ''a:80''), (''Accept'', ''x''), (''Accept'', ''y'')]"
    by code_simp
  moreover have "token ''POST''" "token ''/api/v1/jobs''" "token ''HTTP/1.1''" by code_simp+
  moreover have "list_all plain_line [''{'', ''}'']" by code_simp
  ultimately show ?thesis
    using request_roundtrip[of "''POST''" "''/api/v1/jobs''" "''HTTP/1.1''"
      "[(''Host'', ''a:80''), (''Accept'', ''x''), (''Accept'', ''y'')]" "[''{'', ''}'']"]
    by simp
qed

lemma header_value_ok_disposition:
  "header_value_ok name \<Longrightarrow> header_value_ok (''attachment; filename='' @ quote2 name)"
  by (simp add: header_value_ok_def quote2_def)

lemma trim_end_snoc: "p c \<Longrightarrow> trim_end_matches p (s @ [c]) = trim_end_matches p s"
  by (simp add: trim_end_matches_def)

text \<open>
  The answers to queries: an id that is not a UUID is a bad request, a job the master does not
  know is not found, and any other query about a job is answered.
\<close>

theorem query_answers:
  "status_of (api_job_status E raw m) =
      Some (case parse_uuid (uuids E) raw of None \<Rightarrow> 400
        | Some job \<Rightarrow> if job \<in> dom (m_jobs m) then 200 else 404) \<and>
   status_of (api_job_results E raw m) = status_of (api_job_status E raw m)"
  by (auto simp: api_job_results_def api_job_status_def parse_job_id_def get_job_results_def
      get_job_status_def split: option.splits)

text \<open>
  Downloading the result of a known job. While no result is completed the answer is not found;
  afterwards it is the file of the first completed result, byte for byte, under its own name, or
  a server error if that file is gone. The file system is only read.
\<close>

theorem download_answer:
  assumes "healthy s" "parse_uuid (uuids E) raw = Some job" "m_jobs m job = Some js"
  shows "snd (api_job_result_file E raw m s) = s \<and>
    (case first_completed (job_results js) of
       None \<Rightarrow> status_of (fst (api_job_result_file E raw m s)) = Some 404
     | Some p \<Rightarrow>
         (case files s p of
            None \<Rightarrow> status_of (fst (api_job_result_file E raw m s)) = Some 500
          | Some data \<Rightarrow> \<forall>name. path_file_name p = Some name \<and> header_value_ok name \<longrightarrow>
              fst (api_job_result_file E raw m s) =
                Ok \<lparr>fr_headers = [(''content-type'', ''application/octet-stream''),
                     (''content-disposition'', ''attachment; filename='' @ quote2 name)],
                    fr_body = data\<rparr>))"
proof -
  let ?rs = "job_results js"
  have rs: "api_job_results E raw m = Ok ?rs"
    using assms(2,3) by (simp add: api_job_results_def parse_job_id_def get_job_results_def)
  show ?thesis
  proof (cases "first_completed ?rs")
    case None
    with rs show ?thesis by (simp add: api_job_result_file_def io_lift_def)
  next
    case (Some p)
    with rs assms(1) show ?thesis
      by (auto simp: api_job_result_file_def file_answer_def read_file_def Let_def
          dest: header_value_ok_disposition split: option.splits)
  qed
qed

definition finished_master :: master where
  "finished_master = example_master\<lparr>m_jobs := [1 \<mapsto> simple_job\<lparr>job_results := [example_result]\<rparr>]\<rparr>"

definition example_disk :: fs where
  "example_disk = \<lparr>files = [''out'' \<mapsto> ''rows''], faults = (\<lambda>_. None)\<rparr>"

theorem download_answer_witness:
  "fst (api_job_result_file example_env (uuid_to_string example_uuid_api 1) finished_master example_disk) =
     Ok \<lparr>fr_headers = [(''content-type'', ''application/octet-stream''),
           (''content-disposition'', ''attachment; filename='' @ quote2 ''out'')], fr_body = ''rows''\<rparr>"
proof -
  have "parse_uuid (uuids example_env) (uuid_to_string example_uuid_api 1) = Some 1"
    using show_nat_digits by (auto simp: example_env_def example_uuid_api_def list_all_iff)
  moreover have "first_completed [example_result] = Some ''out''" "files example_disk ''out'' = Some ''rows''"
    by (simp_all add: first_completed_def example_result_def example_disk_def is_completed_def)
  moreover have "path_file_name ''out'' = Some ''out''" "header_value_ok ''out''" by code_simp+
  ultimately show ?thesis
    using download_answer[of example_disk example_env "uuid_to_string example_uuid_api 1" 1 finished_master
        "simple_job\<lparr>job_results := [example_result]\<rparr>"]
    by (simp add: finished_master_def example_disk_def healthy_def)
qed

text \<open>A graph that validation rejects is answered as an internal error, and nothing is stored.\<close>

theorem rejected_graph_answer:
  assumes "validate d = Err e"
  shows "api_submit_job E job d m = (Err (Internal e), m) \<and>
    into_response (Internal e) = (500, ''internal error'')"
  using assms by (simp add: api_submit_job_def submit_job_def admit_job_def io_lift_def io_bind_def)

definition lone_join :: dag_specification where
  "lone_join = \<lparr>dag_nodes = [node ''j'' (OT_Join ''k'' Inner)], dag_edges = [], dag_partitions = 1\<rparr>"

theorem rejected_graph_answer_witness:
  "\<exists>e. api_submit_job example_env 1 lone_join example_master = (Err (Internal e), example_master)"
proof -
  obtain e where "validate lone_join = Err e"
    by (simp add: lone_join_def validate_def node_def incoming_count_def)
  from rejected_graph_answer[OF this] show ?thesis by blast
qed

text \<open>
  The table of routes: whatever the base path, and with or without slashes after it, every method
  and path has one endpoint, each endpoint one route, and neither the list of workers, which the
  client asks for, nor the health check is among them.
\<close>

theorem routes_table:
  "distinct (map (\<lambda>(m, p, _). (m, p)) (register_routes base)) \<and>
   distinct (map (\<lambda>(_, _, e). e) (register_routes base)) \<and>
   register_routes (base @ ''/'') = register_routes base \<and>
   (\<forall>m e. (m, base_of base @ ''/workers'', e) \<notin> set (register_routes base) \<and>
          (m, base_of base @ ''/health'', e) \<notin> set (register_routes base))"
  by (simp add: register_routes_def base_of_def Let_def trim_end_snoc)

end
