(* ===== verification/Worker.thy ===== *)
theory Worker
  imports Executor Http
begin

text \<open>
  The worker process: \<open>src/src/worker/mod.rs\<close> (choosing a port, registering, the task
  endpoint), \<open>src/src/worker/monitor.rs\<close> (heartbeats) and the part of
  \<open>src/src/worker/executor.rs\<close> that reports to the master and shares the executor between
  requests. Whether a port can be bound is the parameter \<open>free\<close>, a fresh random identifier the
  parameter \<open>fresh\<close>; sending is modelled by the messages sent.

  \<open>execute_task\<close> of the theory \<open>Executor\<close> is one request run alone. Here the same code is a
  relation \<open>run_step\<close> on the shared executor and the requests under way, one step per section
  of the code between two points where another request can run.
\<close>

section \<open>The worker\<close>

record worker =
  w_id :: worker_id
  w_config :: config
  w_master_addr :: string
  w_listen_addr :: string
  w_advertise_addr :: string
  w_executor :: executor

definition saturating_add16 :: "16 word \<Rightarrow> 16 word \<Rightarrow> 16 word" where
  "saturating_add16 a b = (if unat a + unat b < 2 ^ 16 then a + b else - 1)"

definition choose_available_port :: "(16 word \<Rightarrow> bool) \<Rightarrow> 16 word \<Rightarrow> 16 word" where
  "choose_available_port free start_port =
     (case find free (map (\<lambda>offset. saturating_add16 start_port (of_nat offset)) [0..<50]) of
        Some port \<Rightarrow> port
      | None \<Rightarrow> start_port)"

definition worker_new :: "uuid_api \<Rightarrow> (16 word \<Rightarrow> bool) \<Rightarrow> uuid \<Rightarrow> config \<Rightarrow> string option \<Rightarrow>
    16 word option \<Rightarrow> fs \<Rightarrow> worker \<times> fs" where
  "worker_new U free fresh cfg raw port s =
     (let wid = (case Option.bind raw (parse_uuid U) of Some u \<Rightarrow> u | None \<Rightarrow> fresh);
          chosen = choose_available_port free (case port of Some p \<Rightarrow> p | None \<Rightarrow> worker_base_port cfg);
          (ex, s') = executor_new cfg wid (master_addr cfg) s
      in (\<lparr>w_id = wid, w_config = cfg, w_master_addr = master_addr cfg,
           w_listen_addr = worker_bind_host cfg @ '':'' @ show_port chosen,
           w_advertise_addr = worker_advertise_host cfg @ '':'' @ show_port chosen,
           w_executor = ex\<rparr>, s'))"

section \<open>Messages to the master\<close>

definition register_url :: "worker \<Rightarrow> string" where
  "register_url w = ''http://'' @ w_master_addr w @ ''/api/v1/register''"

definition register_payload :: "system_time \<Rightarrow> worker \<Rightarrow> worker_info" where
  "register_payload now w =
     \<lparr>wi_id = w_id w, wi_address = w_advertise_addr w, wi_status = WS_Active,
      wi_last_heartbeat = now, wi_metrics = default_worker_metrics\<rparr>"

text \<open>\<open>send\<close> posts a payload and gives the status code; \<open>show_code\<close> is how it is displayed.\<close>

definition register :: "(string \<Rightarrow> worker_info \<Rightarrow> (error, nat) res) \<Rightarrow> (nat \<Rightarrow> string) \<Rightarrow> system_time \<Rightarrow>
    worker \<Rightarrow> (error, unit) res" where
  "register send show_code now w =
     res_bind (send (register_url w) (register_payload now w)) (\<lambda>code.
       if is_success code then Ok ()
       else Err (Message (''failed to register worker: '' @ show_code code)))"

definition heartbeat_url :: "worker \<Rightarrow> string" where
  "heartbeat_url w = ''http://'' @ w_master_addr w @ ''/api/v1/heartbeat''"

text \<open>
  One turn of the loop of \<open>spawn_heartbeat\<close>, which \<open>start\<close> runs with the address it listens on.
\<close>

definition heartbeat_payload :: "system_time \<Rightarrow> executor \<Rightarrow> worker \<Rightarrow> heartbeat_message" where
  "heartbeat_payload now ex w =
     \<lparr>hb_worker_id = w_id w, hb_address = w_listen_addr w, hb_metrics = snapshot_metrics ex,
      hb_timestamp = now\<rparr>"

definition report_url :: "executor \<Rightarrow> string" where
  "report_url ex = ''http://'' @ ex_master_addr ex @ ''/api/v1/tasks/complete''"

text \<open>
  \<open>execute_and_report\<close>: the result is sent once, and a failure to send it is only logged. The
  second component is what has been sent.
\<close>

definition execute_and_report :: "runtime \<Rightarrow> attempt_env \<Rightarrow> uuid_api \<Rightarrow> task \<Rightarrow> executor \<Rightarrow> fs \<Rightarrow>
    ((error, task_result) res \<times> (string \<times> task_result) list \<times> executor \<times> fs) option" where
  "execute_and_report rt env U t ex s =
     map_option (\<lambda>(x, _, ex', s').
       (x, case x of Ok r \<Rightarrow> [(report_url ex', r)] | _ \<Rightarrow> [], ex', s'))
       (execute_task rt env U t ex s)"

text \<open>The endpoint \<open>/api/v1/tasks/execute\<close>: the status code, if the handler does not panic.\<close>

definition execute_task_endpoint :: "runtime \<Rightarrow> attempt_env \<Rightarrow> uuid_api \<Rightarrow> task \<Rightarrow> executor \<Rightarrow> fs \<Rightarrow>
    (nat option \<times> (string \<times> task_result) list \<times> executor \<times> fs) option" where
  "execute_task_endpoint rt env U t ex s =
     map_option (\<lambda>(x, sent, ex', s').
       (case x of Ok _ \<Rightarrow> Some 202 | Err _ \<Rightarrow> Some 500 | Panic \<Rightarrow> None, sent, ex', s'))
       (execute_and_report rt env U t ex s)"

section \<open>Requests that share the executor\<close>

text \<open>
  A request waits to begin an attempt, is in one, or has left the loop and still holds its
  permit. With it go the task and the attempts begun.
\<close>

datatype phase = Waiting | Busy | Done

type_synonym requests = "nat \<rightharpoonup> task_id \<times> u32 \<times> phase"

definition retries :: "executor \<Rightarrow> u32 \<Rightarrow> task_result \<Rightarrow> bool" where
  "retries ex attempt r \<longleftrightarrow> is_failed (res_status r) \<and> attempt \<le> task_retry_limit (ex_config ex)"

inductive run_step :: "executor \<times> requests \<Rightarrow> executor \<times> requests \<Rightarrow> bool" where
  acquire: "0 < ex_available ex \<Longrightarrow> k \<notin> dom rs \<Longrightarrow>
    run_step (ex, rs) (ex\<lparr>ex_available := ex_available ex - 1\<rparr>, rs(k \<mapsto> (tid, 0, Waiting)))"
| begin_attempt: "rs k = Some (tid, a, Waiting) \<Longrightarrow>
    run_step (ex, rs) (ex\<lparr>ex_active_task := Some tid\<rparr>, rs(k \<mapsto> (tid, a + 1, Busy)))"
| end_attempt: "rs k = Some (tid, a, Busy) \<Longrightarrow> retries ex a r \<Longrightarrow>
    run_step (ex, rs) (count_result r ex, rs(k \<mapsto> (tid, a, Waiting)))"
| leave_loop: "rs k = Some (tid, a, Busy) \<Longrightarrow> \<not> retries ex a r \<Longrightarrow>
    run_step (ex, rs) ((count_result r ex)\<lparr>ex_active_task := None\<rparr>, rs(k \<mapsto> (tid, a, Done)))"
| release: "rs k = Some (tid, a, Done) \<Longrightarrow>
    run_step (ex, rs) (ex\<lparr>ex_available := ex_available ex + 1\<rparr>, rs(k := None))"

inductive_simps run_step_pair: "run_step (ex, rs) (ex', rs')"

definition idle :: "executor \<times> requests \<Rightarrow> bool" where
  "idle c \<longleftrightarrow> snd c = Map.empty \<and> ex_available (fst c) = max (max_parallel_tasks (ex_config (fst c))) 1"

text \<open>Every permit is available or held by one request.\<close>

definition permits_inv :: "executor \<times> requests \<Rightarrow> bool" where
  "permits_inv c \<longleftrightarrow> finite (dom (snd c)) \<and>
     ex_available (fst c) + card (dom (snd c)) = max (max_parallel_tasks (ex_config (fst c))) 1"

lemma dom_some: "rs k = Some x \<Longrightarrow> insert k (dom rs) = dom rs"
  by auto

lemma permits_step: "run_step c c' \<Longrightarrow> permits_inv c \<Longrightarrow> permits_inv c'"
proof (induction rule: run_step.induct)
  case (release rs k tid a ex)
  then have "card (dom rs) = Suc (card (dom rs - {k}))"
    by (metis card_Suc_Diff1 domI permits_inv_def snd_conv)
  with release show ?case by (simp add: permits_inv_def)
qed (auto simp: permits_inv_def dom_some)

interpretation permits: transition_system idle run_step permits_inv
proof unfold_locales
  show "permits_inv c" if "idle c" for c using that by (simp add: idle_def permits_inv_def)
qed (rule permits_step)

section \<open>Lemmas\<close>

lemma saturating_add16_unat: "unat (saturating_add16 a b) = min (unat a + unat b) (2 ^ 16 - 1)"
proof (cases "unat a + unat b < 2 ^ 16")
  case True
  then have "unat (a + b) = unat a + unat b" using unat_add_lem[of a b] by simp
  with True show ?thesis by (simp add: saturating_add16_def)
qed (simp add: saturating_add16_def unsigned_minus_1_eq_mask mask_eq_exp_minus_1)

lemma find_map_upt_Some:
  "find p (map f [0..<n]) = Some x \<Longrightarrow> \<exists>i < n. x = f i \<and> p x \<and> (\<forall>j < i. \<not> p (f j))"
  by (auto simp: find_Some_iff)

lemma find_map_upt_None: "find p (map f [0..<n]) = None \<longleftrightarrow> (\<forall>i < n. \<not> p (f i))"
  by (auto simp: find_None_iff)

lemma port_offset:
  assumes "(start :: 16 word) \<le> q" "unat q < unat start + 50"
  shows "q = saturating_add16 start (of_nat (unat q - unat start))"
proof (rule word_unat_eq_iff[THEN iffD2])
  have "unat start \<le> unat q" using assms(1) by (simp add: word_le_nat_alt)
  moreover have "unat q < 2 ^ 16" using unsigned_less[of q] by simp
  ultimately show "unat q = unat (saturating_add16 start (of_nat (unat q - unat start)))"
    using assms unat_sub[OF assms(1)] by (simp add: saturating_add16_unat)
qed

text \<open>A request that runs alone takes the steps of \<open>run_step\<close>.\<close>

definition alone :: "requests \<Rightarrow> nat \<Rightarrow> task_id \<Rightarrow> u32 \<Rightarrow> executor \<Rightarrow>
    (error, task_result) res \<times> nat \<times> executor \<times> fs \<Rightarrow> bool" where
  "alone rs k tid a ex y \<longleftrightarrow> (\<forall>r n' ex' s'. y = (Ok r, n', ex', s') \<longrightarrow>
     (\<exists>a'. run_step\<^sup>*\<^sup>* (ex, rs(k \<mapsto> (tid, a, Waiting))) (ex', rs(k \<mapsto> (tid, a', Done)))))"

lemma alone_trans:
  "run_step\<^sup>*\<^sup>* (ex, rs(k \<mapsto> (tid, a, Waiting))) (ex1, rs(k \<mapsto> (tid, b, Waiting))) \<Longrightarrow>
   alone rs k tid b ex1 y \<Longrightarrow> alone rs k tid a ex y"
  unfolding alone_def by (blast intro: rtranclp_trans)

lemma loop_simulated: "retry_loop once checks tid n a ex s = Some y \<Longrightarrow> alone rs k tid a ex y"
proof (rule retry_loop.raw_induct[where P = "\<lambda>once checks tid n a ex s y. alone rs k tid a ex y", rotated])
  fix loop :: "(nat \<Rightarrow> fs \<Rightarrow> task_result \<times> fs) \<Rightarrow> bool \<Rightarrow> task_id \<Rightarrow> nat \<Rightarrow> u32 \<Rightarrow> executor \<Rightarrow> fs \<Rightarrow>
      ((error, task_result) res \<times> nat \<times> executor \<times> fs) option"
    and once :: "nat \<Rightarrow> fs \<Rightarrow> task_result \<times> fs" and checks tid n and a :: u32 and ex s y
  assume IH: "\<And>once checks tid n a ex s y. loop once checks tid n a ex s = Some y \<Longrightarrow> alone rs k tid a ex y"
    and body: "(if checks \<and> a = - 1 then Some (Panic, n, ex, s)
      else let attempt' = a + 1; (r, s') = once n s;
               ex' = count_result r (ex\<lparr>ex_active_task := Some tid\<rparr>)
           in if is_failed (res_status r) \<and> attempt' \<le> task_retry_limit (ex_config ex)
              then loop once checks tid (Suc n) attempt' ex' s'
              else Some (Ok r, Suc n, ex'\<lparr>ex_active_task := None\<rparr>, s')) = Some y"
  obtain r s' where once: "once n s = (r, s')" by (cases "once n s")
  let ?ex = "ex\<lparr>ex_active_task := Some tid\<rparr>" and ?rs = "\<lambda>a p. rs(k \<mapsto> (tid, a, p))"
  have start: "run_step (ex, ?rs a Waiting) (?ex, ?rs (a + 1) Busy)"
    using run_step.begin_attempt[of "?rs a Waiting" k tid a ex] by simp
  show "alone rs k tid a ex y"
  proof (cases "checks \<and> a = - 1")
    case True
    with body show ?thesis by (auto simp: alone_def)
  next
    case False
    show ?thesis
    proof (cases "retries ?ex (a + 1) r")
      case True
      then have "run_step (?ex, ?rs (a + 1) Busy) (count_result r ?ex, ?rs (a + 1) Waiting)"
        using run_step.end_attempt[of "?rs (a + 1) Busy" k tid "a + 1" ?ex r] by simp
      with start have again: "run_step\<^sup>*\<^sup>* (ex, ?rs a Waiting) (count_result r ?ex, ?rs (a + 1) Waiting)"
        by (meson rtranclp.rtrancl_into_rtrancl r_into_rtranclp)
      have "loop once checks tid (Suc n) (a + 1) (count_result r ?ex) s' = Some y"
        using body once False True by (simp add: retries_def Let_def)
      from IH[OF this] again show ?thesis by (blast intro: alone_trans)
    next
      case loop_left: False
      then have "run_step (?ex, ?rs (a + 1) Busy)
          ((count_result r ?ex)\<lparr>ex_active_task := None\<rparr>, ?rs (a + 1) Done)"
        using run_step.leave_loop[of "?rs (a + 1) Busy" k tid "a + 1" ?ex r] by simp
      with start have "run_step\<^sup>*\<^sup>* (ex, ?rs a Waiting)
          ((count_result r ?ex)\<lparr>ex_active_task := None\<rparr>, ?rs (a + 1) Done)"
        by (meson rtranclp.rtrancl_into_rtrancl r_into_rtranclp)
      moreover have "y = (Ok r, Suc n, (count_result r ?ex)\<lparr>ex_active_task := None\<rparr>, s')"
        using body once False loop_left by (auto simp: retries_def Let_def)
      ultimately show ?thesis by (auto simp: alone_def)
    qed
  qed
qed

lemma execute_task_report:
  "execute_task rt env U t ex s = Some (Ok r, k, ex', s') \<Longrightarrow>
   execute_and_report rt env U t ex s = Some (Ok r, [(report_url ex', r)], ex', s')"
  by (simp add: execute_and_report_def)

section \<open>An example\<close>

definition example_node :: worker where
  "example_node = \<lparr>w_id = 5, w_config = default_config, w_master_addr = ''127.0.0.1:8080'',
     w_listen_addr = ''0.0.0.0:9100'', w_advertise_addr = ''worker-1:9100'',
     w_executor = example_executor 1\<rparr>"

section \<open>Properties\<close>

text \<open>
  The port a worker listens on. Of the ports from the first one on, up to 49 above it and never
  past the largest port, it is the lowest that can be bound; if there is none it is the first
  port, bound or not.
\<close>

theorem port_choice:
  "if \<exists>q \<ge> start. unat q < unat start + 50 \<and> free q
   then free (choose_available_port free start) \<and> start \<le> choose_available_port free start \<and>
     unat (choose_available_port free start) < unat start + 50 \<and>
     (\<forall>q. start \<le> q \<and> q < choose_available_port free start \<longrightarrow> \<not> free q)
   else choose_available_port free start = start"
proof -
  let ?port = "\<lambda>i. saturating_add16 start (of_nat i)"
  have unat: "unat (?port i) = min (unat start + i) (2 ^ 16 - 1)" if "i < 50" for i
    using that by (simp add: saturating_add16_unat unat_of_nat take_bit_eq_mod)
  have "unat start < 2 ^ 16" using unsigned_less[of start] by simp
  with unat have range: "start \<le> ?port i \<and> unat (?port i) < unat start + 50" if "i < 50" for i
    using that by (simp add: word_le_nat_alt)
  show ?thesis
  proof (cases "find free (map ?port [0..<50])")
    case None
    then have none: "\<forall>i < 50. \<not> free (?port i)" by (simp add: find_map_upt_None)
    have "\<not> free q" if "start \<le> q" "unat q < unat start + 50" for q
      using none port_offset[OF that] that by (metis less_diff_conv2 add.commute word_le_nat_alt)
    with None show ?thesis by (auto simp: choose_available_port_def)
  next
    case (Some p)
    from find_map_upt_Some[OF this] obtain i where
      i: "i < 50" "p = ?port i" "free p" "\<forall>j < i. \<not> free (?port j)" by blast
    have "\<not> free q" if "start \<le> q" "q < p" for q
    proof -
      have "unat start \<le> unat q" "unat q < unat p" using that by (simp_all add: word_le_nat_alt word_less_nat_alt)
      moreover from this have "unat q - unat start < i" using i(2) unat[OF i(1)]
        by (simp add: less_diff_conv2)
      moreover from calculation i(1) have "q = ?port (unat q - unat start)"
        using that(1) by (intro port_offset) simp_all
      ultimately show ?thesis using i(4) by metis
    qed
    with Some i range[OF i(1)] show ?thesis by (auto simp: choose_available_port_def)
  qed
qed

theorem port_choice_witness:
  "choose_available_port (\<lambda>p. p = 9103) 9100 = 9103"
proof -
  have "\<exists>q \<ge> 9100 :: 16 word. unat q < unat (9100 :: 16 word) + 50 \<and> q = 9103"
    by (rule exI[of _ 9103]) simp
  with port_choice[of 9100 "\<lambda>p. p = 9103"] show ?thesis by auto
qed

text \<open>
  Claim C27. However requests interleave, no more of them hold a permit than the configuration allows (at
  least one is allowed), and the number of tasks in flight that a heartbeat reports is exact.
\<close>

theorem permits_bound:
  assumes "ex_available ex = max (max_parallel_tasks (ex_config ex)) 1"
    and "run_step\<^sup>*\<^sup>* (ex, Map.empty) (ex', rs)"
  shows "card (dom rs) \<le> max (max_parallel_tasks (ex_config ex')) 1 \<and>
    wm_tasks_in_flight (hb_metrics (heartbeat_payload now ex' w)) = card (dom rs)"
proof -
  have "permits_inv (ex', rs)"
    using assms by (intro permits.reachable_invariant[of "(ex, Map.empty)"]) (simp_all add: idle_def)
  then show ?thesis by (auto simp: permits_inv_def heartbeat_payload_def snapshot_metrics_def)
qed

theorem permits_bound_witness:
  "wm_tasks_in_flight (hb_metrics (heartbeat_payload 0 ((example_executor 1)\<lparr>ex_available := 3\<rparr>)
     example_node)) = 1"
proof -
  have "run_step (example_executor 1, Map.empty)
      ((example_executor 1)\<lparr>ex_available := 3\<rparr>, [0 \<mapsto> (7, 0, Waiting)])"
    using run_step.acquire[of "example_executor 1" 0 Map.empty 7] by (simp add: example_executor_def)
  then have "run_step\<^sup>*\<^sup>* (example_executor 1, Map.empty)
      ((example_executor 1)\<lparr>ex_available := 3\<rparr>, [0 \<mapsto> (7, 0, Waiting)])" by blast
  from permits_bound[OF _ this] show ?thesis by (simp add: example_executor_def default_config_def)
qed

text \<open>
  A request that runs alone, from taking its permit to giving it back, is one run of the steps
  above: what the sequential loop leaves behind is what the shared executor holds.
\<close>

theorem request_alone:
  assumes "execute_task rt env U t ex s = Some (Ok r, n, ex', s')" "0 < ex_available ex" "k \<notin> dom rs"
  shows "run_step\<^sup>*\<^sup>* (ex, rs) (ex', rs)"
proof -
  let ?ex = "ex\<lparr>ex_available := ex_available ex - 1\<rparr>" and ?rs = "\<lambda>a p. rs(k \<mapsto> (task_id t, a, p))"
  from assms(1) obtain ex1 where
    loop: "retry_loop (run_attempt rt env U ex t) (overflow_checks rt) (task_id t) 0 0 ?ex s =
      Some (Ok r, n, ex1, s')" and ex': "ex' = ex1\<lparr>ex_available := ex_available ex1 + 1\<rparr>"
    by (auto simp: execute_task_def)
  have "run_step (ex, rs) (?ex, ?rs 0 Waiting)" using assms(2,3) by (rule run_step.acquire)
  moreover obtain a where "run_step\<^sup>*\<^sup>* (?ex, ?rs 0 Waiting) (ex1, ?rs a Done)"
    using loop_simulated[OF loop, of rs k] by (auto simp: alone_def)
  moreover have "run_step (ex1, ?rs a Done) (ex', rs)"
    using run_step.release[of "?rs a Done" k "task_id t" a ex1] assms(3) ex'
    by (simp add: fun_upd_idem domIff)
  ultimately show ?thesis by (meson converse_rtranclp_into_rtranclp rtranclp.rtrancl_into_rtrancl)
qed

theorem request_alone_witness:
  "\<exists>ex'. run_step\<^sup>*\<^sup>* (example_executor 1, Map.empty) (ex', Map.empty)"
proof -
  obtain r k ex' s' where "execute_task example_runtime (\<lambda>_. (\<lambda>_. key_order, 5)) example_uuid_api
      example_task (example_executor 1) example_fs = Some (Ok r, k, ex', s')"
    using execute_task_returns[of "example_executor 1" example_runtime "\<lambda>_. (\<lambda>_. key_order, 5)"
      example_uuid_api example_task example_fs] by (auto simp: example_executor_def)
  from request_alone[OF this] show ?thesis by (auto simp: example_executor_def)
qed

text \<open>
  The current task of a heartbeat is not reliable when tasks run in parallel: whichever task
  leaves its loop first clears it, while another one is still in an attempt.
\<close>

theorem current_task_lost:
  assumes "ex_available ex = max (max_parallel_tasks (ex_config ex)) 1" "2 \<le> max_parallel_tasks (ex_config ex)"
  shows "\<exists>ex' rs k a. run_step\<^sup>*\<^sup>* (ex, Map.empty) (ex', rs) \<and> rs k = Some (tid, a, Busy) \<and>
    wm_current_task (hb_metrics (heartbeat_payload now ex' w)) = None"
proof -
  let ?e1 = "ex\<lparr>ex_available := ex_available ex - 1\<rparr>"
  let ?e2 = "ex\<lparr>ex_available := ex_available ex - 2\<rparr>"
  let ?r1 = "[0 \<mapsto> (other, 0, Waiting)] :: requests" and ?r2 = "[0 \<mapsto> (other, 0, Waiting), 1 \<mapsto> (tid, 0, Waiting)] :: requests"
  let ?r3 = "[0 \<mapsto> (other, 1, Busy), 1 \<mapsto> (tid, 0, Waiting)] :: requests"
  let ?r4 = "[0 \<mapsto> (other, 1, Busy), 1 \<mapsto> (tid, 1, Busy)] :: requests"
  let ?r5 = "[0 \<mapsto> (other, 1, Done), 1 \<mapsto> (tid, 1, Busy)] :: requests"
  let ?e5 = "(count_result example_result (?e2\<lparr>ex_active_task := Some tid\<rparr>))\<lparr>ex_active_task := None\<rparr>"
  have "run_step (ex, Map.empty) (?e1, ?r1)"
    using assms run_step.acquire[of ex 0 Map.empty other] by simp
  moreover have "run_step (?e1, ?r1) (?e2, ?r2)"
    using assms run_step.acquire[of ?e1 1 ?r1 tid] by (simp add: numeral_2_eq_2)
  moreover have "run_step (?e2, ?r2) (?e2\<lparr>ex_active_task := Some other\<rparr>, ?r3)"
    using run_step.begin_attempt[of ?r2 0 other 0 ?e2] by (simp add: fun_upd_twist)
  moreover have "run_step (?e2\<lparr>ex_active_task := Some other\<rparr>, ?r3) (?e2\<lparr>ex_active_task := Some tid\<rparr>, ?r4)"
    using run_step.begin_attempt[of ?r3 1 tid 0 "?e2\<lparr>ex_active_task := Some other\<rparr>"] by simp
  moreover have "run_step (?e2\<lparr>ex_active_task := Some tid\<rparr>, ?r4) (?e5, ?r5)"
    using run_step.leave_loop[of ?r4 0 other 1 "?e2\<lparr>ex_active_task := Some tid\<rparr>" example_result]
    by (simp add: fun_upd_twist retries_def example_result_def)
  ultimately have "run_step\<^sup>*\<^sup>* (ex, Map.empty) (?e5, ?r5)"
    by (meson rtranclp.rtrancl_into_rtrancl r_into_rtranclp)
  moreover have "?r5 1 = Some (tid, 1, Busy)" by simp
  moreover have "wm_current_task (hb_metrics (heartbeat_payload now ?e5 w)) = None"
    by (simp add: heartbeat_payload_def snapshot_metrics_def)
  ultimately show ?thesis by blast
qed

theorem current_task_lost_witness:
  "\<exists>ex' rs k a. run_step\<^sup>*\<^sup>* (example_executor 1, Map.empty) (ex', rs) \<and> rs k = Some (7, a, Busy) \<and>
    wm_current_task (hb_metrics (heartbeat_payload 0 ex' example_node)) = None"
  by (rule current_task_lost) (simp_all add: example_executor_def default_config_def)

text \<open>
  Claim C28. A task sent to a worker is answered as accepted after it has run, and its result, which is the
  result of that task and final, has been sent to the master exactly once. (The retry limit must
  not be the largest 32-bit number, and a permit must be available.)
\<close>

theorem worker_answers:
  assumes "task_retry_limit (ex_config ex) \<noteq> - 1" "0 < ex_available ex"
  shows "\<exists>r ex' s'. execute_task_endpoint rt env U t ex s = Some (Some 202, [(report_url ex', r)], ex', s') \<and>
    res_task_id r = task_id t \<and> res_job_id r = task_job_id t \<and> settled r \<and>
    ex_available ex' = ex_available ex"
proof -
  obtain r k ex' s' where r: "execute_task rt env U t ex s = Some (Ok r, k, ex', s')" "result_for t r"
    "ex_available ex' = ex_available ex"
    using execute_task_returns[OF assms] by blast
  then show ?thesis
    by (auto simp: execute_task_endpoint_def execute_task_report result_for_def settled_def)
qed

theorem worker_answers_witness:
  "\<exists>r ex' s'. execute_task_endpoint example_runtime (\<lambda>_. (\<lambda>_. key_order, 5)) example_uuid_api example_task
      (example_executor 1) example_fs = Some (Some 202, [(report_url ex', r)], ex', s') \<and> settled r"
  using worker_answers[of "example_executor 1" example_runtime "\<lambda>_. (\<lambda>_. key_order, 5)"
      example_uuid_api example_task example_fs]
  by (auto simp: example_executor_def)

text \<open>
  Where the master sends tasks for a worker. A worker that has registered stays known under the
  address it advertises, whatever heartbeats follow. But a master that does not know it, as
  after a restart, learns it from the next heartbeat under the address it binds, which is the
  wildcard address by default and of no use to another machine.
\<close>

theorem heartbeat_address:
  "(\<forall>m. map_option wi_address (get_worker (w_id w) (m_registry
      (handle_heartbeat E now (heartbeat_payload t ex w) (snd (register_worker (register_payload t0 w) m))))) =
      Some (w_advertise_addr w)) \<and>
   (\<forall>m. get_worker (w_id w) (m_registry m) = None \<longrightarrow>
      map_option wi_address (get_worker (w_id w) (m_registry
        (handle_heartbeat E now (heartbeat_payload t ex w) m))) = Some (w_listen_addr w))"
  by (simp add: handle_heartbeat_def register_worker_def heartbeat_payload_def register_payload_def
      get_worker_def record_heartbeat_def add_worker_def on_store_frame)

theorem heartbeat_address_witness:
  "map_option wi_address (get_worker 5 (m_registry (handle_heartbeat example_env 0
      (heartbeat_payload 0 (example_executor 1) example_node)
      (example_master\<lparr>m_registry := default_registry\<rparr>)))) = Some ''0.0.0.0:9100''"
  using heartbeat_address[of example_node example_env 0 0 "example_executor 1" 0]
  by (simp add: example_node_def get_worker_def default_registry_def)

end
