(* ===== verification/Job_Life.thy ===== *)
theory Job_Life
  imports Master_System Worker
begin

text \<open>
  A job from its submission to its end: the master of the theory \<open>Master\<close> and the workers of the
  theory \<open>Worker\<close> together. A job is tracked while the master knows it and the store has it; the
  lemmas show that handing out tasks and reporting results keep it tracked.
\<close>

text \<open>
  The master knows the job with these tasks, this many of them in all, and has filed the
  given results, all of them completed; the store knows the job.
\<close>

definition tracked :: "master_env \<Rightarrow> job_id \<Rightarrow> task_id set \<Rightarrow> nat \<Rightarrow> task_result list \<Rightarrow> master \<Rightarrow> bool" where
  "tracked E job ids n rs m \<longleftrightarrow> (\<exists>v js. stored E m v \<and> view_jobs v job \<noteq> None \<and> m_jobs m job = Some js \<and>
     dom (job_tasks js) = ids \<and> (\<forall>r \<in> set rs. job_tasks js (res_task_id r) = Some TS_Completed) \<and>
     job_results js = rs \<and> jm_total_tasks (job_state_metrics js) = n \<and>
     jm_completed_tasks (job_state_metrics js) = length rs)"

lemma view_jobs_grow: "view_jobs v job \<noteq> None \<Longrightarrow> view_jobs (view_write w v) job \<noteq> None"
  by (cases w) auto

lemma view_jobs_fold: "view_jobs v job \<noteq> None \<Longrightarrow> view_jobs (fold view_write ws v) job \<noteq> None"
proof (induction ws arbitrary: v)
  case (Cons w ws)
  from Cons.IH[OF view_jobs_grow[OF Cons.prems]] show ?case by (simp del: view_write.simps)
qed simp

lemma schedule_tracked:
  assumes "tracked E job ids n [] m" "task_job_id t = job" "task_id t \<in> ids"
  shows "tracked E job ids n [] (schedule_task E t m)"
proof -
  from assms(1) obtain v js where a: "stored E m v" "view_jobs v job \<noteq> None" "m_jobs m job = Some js"
    "dom (job_tasks js) = ids" "job_results js = []" "jm_total_tasks (job_state_metrics js) = n"
    "jm_completed_tasks (job_state_metrics js) = 0"
    by (auto simp: tracked_def)
  obtain js' where js': "m_jobs (schedule_task E t m) job = Some js'" "dom (job_tasks js') = ids"
    "job_results js' = []" "job_state_metrics js' = job_state_metrics js"
    using a assms(2,3) by (cases "chosen E m") (auto simp: schedule_task_jobs assigned_job_def)
  from schedule_task_stored[OF a(1), of t] view_jobs_fold[OF a(2)] js' a(6,7) show ?thesis
    unfolding tracked_def by (intro exI conjI) (assumption | simp)+
qed

lemma fold_schedule_tracked:
  "tracked E job ids n [] m \<Longrightarrow> \<forall>t \<in> set ts. task_job_id t = job \<and> task_id t \<in> ids \<Longrightarrow>
   tracked E job ids n [] (fold (schedule_task E) ts m)"
  by (induction ts arbitrary: m) (auto intro: schedule_tracked)

lemma submit_tracked:
  assumes "stored E m v" "validate d = Ok ()"
  shows "fst (submit_job E job d m) = Ok job \<and>
    tracked E job (task_id ` set (tasks_of E d job)) (length (tasks_of E d job)) [] (snd (submit_job E job d m))"
proof -
  let ?ts = "tasks_of E d job"
  from admit_job_ok[OF assms] obtain db where
    admit: "admit_job E job d m = (Ok ?ts, set_job job (admitted_job E job d) (m\<lparr>m_store := db\<rparr>))"
    and st: "stored E (m\<lparr>m_store := db\<rparr>) (fold view_write (admit_writes E job d) v)" by blast
  let ?m = "set_job job (admitted_job E job d) (m\<lparr>m_store := db\<rparr>)"
  have "stored E ?m (fold view_write (admit_writes E job d) v)"
    using st by (simp add: stored_def master_frame)
  moreover have "view_jobs (fold view_write (admit_writes E job d) v) job \<noteq> None"
    unfolding admit_writes_def fold.simps comp_apply by (rule view_jobs_fold) simp
  moreover have "dom (job_tasks (admitted_job E job d)) = task_id ` set ?ts"
    by (auto simp: admitted_tasks split: if_splits)
  moreover have "job_results (admitted_job E job d) = []"
    "jm_total_tasks (job_state_metrics (admitted_job E job d)) = length ?ts"
    "jm_completed_tasks (job_state_metrics (admitted_job E job d)) = 0"
    by (simp_all add: admitted_job_def initial_metrics_def default_job_metrics_def)
  ultimately have "tracked E job (task_id ` set ?ts) (length ?ts) [] ?m"
    unfolding tracked_def by (intro exI[of _ "fold view_write (admit_writes E job d) v"]
        exI[of _ "admitted_job E job d"]) (simp add: master_frame)
  from fold_schedule_tracked[OF this, of ?ts] admit show ?thesis
    by (simp add: submit_job_def io_bind_def tasks_of_job)
qed

lemma complete_tracked:
  assumes "tracked E job ids n rs m" "res_job_id r = job" "res_task_id r \<in> ids" "res_status r = TS_Completed"
  shows "tracked E job ids n (rs @ [r]) (snd (complete_task E r m)) \<and>
    (ids \<subseteq> res_task_id ` set (rs @ [r]) \<longrightarrow>
      map_option job_state_status (m_jobs (snd (complete_task E r m)) job) = Some JS_Succeeded)"
proof -
  from assms(1) obtain v js where a: "stored E m v" "view_jobs v job \<noteq> None" "m_jobs m job = Some js"
    "dom (job_tasks js) = ids" "\<forall>r \<in> set rs. job_tasks js (res_task_id r) = Some TS_Completed"
    "job_results js = rs" "jm_total_tasks (job_state_metrics js) = n"
    "jm_completed_tasks (job_state_metrics js) = length rs"
    by (auto simp: tracked_def)
  have acc: "accepted (WriteResult r) v" using a(2) assms(2) by (simp add: accepted_def)
  let ?js = "job_after r (with_status r js)"
  have js: "m_jobs m (res_job_id r) = Some js" using a(3) assms(2) by simp
  note filing = complete_task_known[OF js a(1) acc]
  have js': "m_jobs (snd (complete_task E r m)) job = Some ?js" using filing(2) assms(2) by simp
  have tasks: "job_tasks ?js = (job_tasks js)(res_task_id r \<mapsto> TS_Completed)"
    by (simp add: with_status_def assms(4))
  have after: "job_results ?js = rs @ [r]" "jm_total_tasks (job_state_metrics ?js) = n"
    "jm_completed_tasks (job_state_metrics ?js) = length (rs @ [r])"
    using a(6-8) assms(4) by (simp_all add: job_after_def with_status_def Let_def)
  have dom: "dom (job_tasks ?js) = ids" unfolding tasks using a(4) assms(3) by auto
  have filed: "\<forall>r' \<in> set (rs @ [r]). job_tasks ?js (res_task_id r') = Some TS_Completed"
    unfolding tasks using a(5) by auto
  have "job_state_status ?js = JS_Succeeded" if "ids \<subseteq> res_task_id ` set (rs @ [r])"
  proof -
    have "job_tasks ?js i = Some TS_Completed" if "i \<in> ids" for i
      using that \<open>ids \<subseteq> _\<close> filed by (metis (no_types, lifting) image_iff subsetD)
    then have "st = TS_Completed" if "job_tasks ?js i = Some st" for i st
      using that dom domI[of "job_tasks ?js" i, OF that] by (metis option.inject)
    then have "\<forall>st \<in> ran (job_tasks ?js). st = TS_Completed" unfolding ran_def by blast
    then show ?thesis
      using assms(4) by (simp add: job_after_def with_status_def all_completed_def Let_def)
  qed
  moreover have "tracked E job ids n (rs @ [r]) (snd (complete_task E r m))"
    unfolding tracked_def using filing(3) view_jobs_fold[OF a(2)] js' dom filed after
    by (intro exI conjI) (assumption | simp del: fold.simps)+
  ultimately show ?thesis using js' by simp
qed

text \<open>Reports that reach the master one after the other.\<close>

definition complete_all :: "master_env \<Rightarrow> task_result list \<Rightarrow> master \<Rightarrow> master" where
  "complete_all E rs = fold (\<lambda>r m. snd (complete_task E r m)) rs"

lemma complete_all_snoc: "complete_all E (rs @ [r]) m = snd (complete_task E r (complete_all E rs m))"
  by (simp add: complete_all_def)

lemma complete_all_tracked:
  assumes "tracked E job ids n [] m"
    and "\<forall>r \<in> set rs. res_job_id r = job \<and> res_task_id r \<in> ids \<and> res_status r = TS_Completed"
  shows "tracked E job ids n rs (complete_all E rs m) \<and>
    (rs \<noteq> [] \<and> ids \<subseteq> res_task_id ` set rs \<longrightarrow>
      map_option job_state_status (m_jobs (complete_all E rs m) job) = Some JS_Succeeded)"
  using assms(2)
proof (induction rs rule: rev_induct)
  case Nil
  with assms(1) show ?case by (simp add: complete_all_def)
next
  case (snoc r rs)
  then have "tracked E job ids n rs (complete_all E rs m)" by simp
  from complete_tracked[OF this, of r] snoc.prems show ?case by (simp add: complete_all_snoc)
qed

text \<open>What a worker sent to the master after it was given a task.\<close>

definition ran :: "uuid_api \<Rightarrow> task \<Rightarrow> task_result \<Rightarrow> bool" where
  "ran U t r \<longleftrightarrow> (\<exists>rt env ex s url ex' s'. task_retry_limit (ex_config ex) \<noteq> - 1 \<and> 0 < ex_available ex \<and>
     execute_task_endpoint rt env U t ex s = Some (Some 202, [(url, r)], ex', s'))"

lemma ranI:
  assumes "execute_task rt env U t ex s = Some (Ok r, k, ex', s')"
    and "task_retry_limit (ex_config ex) \<noteq> - 1" "0 < ex_available ex"
  shows "ran U t r"
proof -
  have "execute_task_endpoint rt env U t ex s = Some (Some 202, [(report_url ex', r)], ex', s')"
    by (simp add: execute_task_endpoint_def execute_task_report[OF assms(1)])
  with assms(2,3) show ?thesis unfolding ran_def by blast
qed

lemma ran_result:
  assumes "ran U t r"
  shows "res_task_id r = task_id t \<and> res_job_id r = task_job_id t"
proof -
  from assms obtain rt env ex s url ex' s' where
    ex: "task_retry_limit (ex_config ex) \<noteq> - 1" "0 < ex_available ex"
    and run: "execute_task_endpoint rt env U t ex s = Some (Some 202, [(url, r)], ex', s')"
    by (auto simp: ran_def)
  from execute_task_returns[OF ex, of rt env U t s] obtain r' k ex1 s1 where
    "execute_task rt env U t ex s = Some (Ok r', k, ex1, s1)" "result_for t r'" by blast
  with run show ?thesis
    by (simp add: execute_task_endpoint_def execute_task_report result_for_def)
qed

lemma ran_all:
  "list_all2 (ran U) ts rs \<Longrightarrow> \<forall>t \<in> set ts. task_job_id t = job \<Longrightarrow>
   map res_task_id rs = map task_id ts \<and> (\<forall>r \<in> set rs. res_job_id r = job)"
  by (induction rule: list_all2_induct) (auto dest: ran_result)

lemma job_succeeds:
  assumes "stored E m v" "validate d = Ok ()" "tasks_of E d job \<noteq> []"
    and "mset ts = mset (tasks_of E d job)" "list_all2 (ran (uuids E)) ts rs"
    and "\<forall>r \<in> set rs. res_status r = TS_Completed"
  shows "fst (submit_job E job d m) = Ok job \<and>
    (\<exists>resp. get_job_status E job (complete_all E rs (snd (submit_job E job d m))) = Ok resp \<and>
      jsr_status resp = JS_Succeeded \<and> jsr_outputs resp = map (\<lambda>r. rl_path (res_location r)) rs \<and>
      (length ts < 2 ^ 24 \<longrightarrow> jsr_progress resp = flt_of_int f32 100)) \<and>
    get_job_results E job (complete_all E rs (snd (submit_job E job d m))) = Ok rs"
proof -
  let ?ids = "task_id ` set (tasks_of E d job)" and ?m = "snd (submit_job E job d m)"
  have ts: "set ts = set (tasks_of E d job)" "length ts = length (tasks_of E d job)"
    using assms(4) by (metis set_mset_mset, metis size_mset)
  have rs: "map res_task_id rs = map task_id ts" "\<forall>r \<in> set rs. res_job_id r = job"
    using ran_all[OF assms(5), of job] ts(1) tasks_of_job by auto
  have ids: "res_task_id ` set rs = ?ids" using arg_cong[OF rs(1), of set] ts(1) by simp
  have "length rs = length ts" using rs(1) by (rule map_eq_imp_length_eq)
  moreover have "tracked E job ?ids (length ts) [] ?m"
    using submit_tracked[OF assms(1,2), of job] ts(2) by simp
  from complete_all_tracked[OF this, of rs] obtain js where
    "m_jobs (complete_all E rs ?m) job = Some js" "job_state_status js = JS_Succeeded" "job_results js = rs"
    "jm_total_tasks (job_state_metrics js) = length ts" "jm_completed_tasks (job_state_metrics js) = length rs"
    using rs(2) assms(3,6) ids ts \<open>length rs = length ts\<close> by (fastforce simp: tracked_def)
  ultimately show ?thesis
    using submit_tracked[OF assms(1,2), of job] progress_complete[of "job_state_metrics js"] assms(3) ts
    by (auto simp: get_job_status_def get_job_results_def output_paths_def)
qed

section \<open>An example\<close>

definition life_dag :: dag_specification where
  "life_dag = \<lparr>dag_nodes = [node ''r'' (OT_Read ''/in'' ''jsonl'')], dag_edges = [], dag_partitions = 1\<rparr>"

definition life_read :: Op_Read.read_op where
  "life_read = \<lparr>read_path = ''/in'', read_format = ''jsonl'', read_partition_id = 0,
     read_total_partitions = 1, read_cache_limit_bytes = 134217728,
     read_spill_path = store_spill_path example_uuid_api example_store 7 0 0\<rparr>"

lemma life_tasks:
  "\<exists>t. tasks_of example_env life_dag 7 = [t] \<and> task_job_id t = 7 \<and>
     task_operators t = [OT_Read ''/in'' ''jsonl''] \<and> task_operator_ids t = [''r''] \<and>
     task_incoming_edges t = [[]] \<and> task_partition t = 0 \<and> task_total_partitions t = 1"
  by (simp add: life_dag_def node_def materialize_tasks_def read_source_def Let_def
      ordered_nodes_def inject_local_shuffle_def inject_node_def incoming_edges_of_def)

lemma life_run:
  assumes t: "task_job_id t = 7" "task_operators t = [OT_Read ''/in'' ''jsonl'']" "task_operator_ids t = [''r'']"
    "task_incoming_edges t = [[]]" "task_partition t = 0" "task_total_partitions t = 1"
  shows "\<exists>r. ran example_uuid_api t r \<and> res_status r = TS_Completed \<and> tm_duration_ms (res_metrics r) = 5"
proof -
  let ?cfg = "default_config\<lparr>task_retry_limit := 1\<rparr>"
  let ?src = "\<lambda>_ :: path. text_a @ newline # text_b @ [newline]"
  let ?spill = "store_spill_path example_uuid_api example_store (task_job_id t) (length (task_operators t) - 1)
        (task_partition t)"
  have "linear_task t" using t by (simp add: linear_task_def chain_edges_def)
  moreover have "build_operators t ?cfg ?spill = Ok [ReadOp life_read]"
    using t by (simp add: build_operators_def operator_defs_def life_read_def default_config_def)
  moreover have "read_spill_path life_read \<noteq> ''/in''"
    by (simp add: life_read_def store_spill_path_def example_store_def path_join_def slash_def)
  then have "read_ready life_read (?src (read_path life_read)) [] example_input"
    by (simp add: read_ready_def example_input_def path_vacant_def text_at_def healthy_def example_fs_def)
      (simp add: life_read_def)
  moreover have "chain_outputs example_runtime (\<lambda>_. key_order) ?src 0 [ReadOp life_read] [[]] [[rec_a, rec_b]]"
    using example_read_text by (simp add: example_runtime_def life_read_def)
  ultimately obtain r s' where r: "execute_sync example_runtime (\<lambda>_. key_order) 5 example_uuid_api t
      example_store ?cfg example_input = (Ok r, s')" "res_status r = TS_Completed"
    using execute_linear[of t "\<lambda>_. key_order" ?cfg example_uuid_api example_store life_read "[]" ?src
        example_input example_runtime "[rec_a, rec_b]" 5] iterates_key_order by blast
  then have "run_attempt example_runtime (\<lambda>_. (\<lambda>_. key_order, 5)) example_uuid_api (example_executor 1) t 0
      example_input = (r, s')"
    by (simp add: run_attempt_def execute_once_def example_executor_def)
  from execute_task_first[OF this r(2)] obtain ex' where
    "execute_task example_runtime (\<lambda>_. (\<lambda>_. key_order, 5)) example_uuid_api t (example_executor 1) example_input =
      Some (Ok r, 1, ex', s')" by blast
  from ranI[OF this] r(2) execute_sync_duration[OF r] show ?thesis by (auto simp: example_executor_def)
qed

section \<open>Properties\<close>

text \<open>
  The life of a job. A valid graph is submitted with a store that works, every task of its
  plan is run by some worker, on whatever machine and in whatever order, and every one of them
  completes. Then, as soon as the last report has reached the master, the job has succeeded;
  its results are the reports, and its progress is exactly 100 percent. (The last for fewer than
  \<open>2 ^ 24\<close> tasks, which a 32-bit float counts exactly.)
\<close>

theorem submitted_job_succeeds:
  assumes "stored E m v" "validate d = Ok ()" "tasks_of E d job \<noteq> []"
    and "mset ts = mset (tasks_of E d job)" "list_all2 (ran (uuids E)) ts rs"
    and "\<forall>r \<in> set rs. res_status r = TS_Completed"
  shows "fst (submit_job E job d m) = Ok job \<and>
    (\<exists>resp. get_job_status E job (complete_all E rs (snd (submit_job E job d m))) = Ok resp \<and>
      jsr_status resp = JS_Succeeded \<and> jsr_outputs resp = map (\<lambda>r. rl_path (res_location r)) rs \<and>
      (length ts < 2 ^ 24 \<longrightarrow> jsr_progress resp = flt_of_int f32 100)) \<and>
    get_job_results E job (complete_all E rs (snd (submit_job E job d m))) = Ok rs"
  using assms by (rule job_succeeds)

theorem submitted_job_succeeds_witness:
  "\<exists>rs resp. get_job_status example_env 7
      (complete_all example_env rs (snd (submit_job example_env 7 life_dag example_master))) = Ok resp \<and>
    jsr_status resp = JS_Succeeded \<and> jsr_progress resp = flt_of_int f32 100 \<and> length rs = 1"
proof -
  obtain t where t: "tasks_of example_env life_dag 7 = [t]" "task_job_id t = 7"
    "task_operators t = [OT_Read ''/in'' ''jsonl'']" "task_operator_ids t = [''r'']"
    "task_incoming_edges t = [[]]" "task_partition t = 0" "task_total_partitions t = 1"
    using life_tasks by blast
  from life_run[OF t(2-7)] obtain r where r: "ran example_uuid_api t r" "res_status r = TS_Completed" by blast
  have "validate life_dag = Ok ()" by (simp add: life_dag_def validate_def node_def)
  from submitted_job_succeeds[OF example_stored this, of 7 "[t]" "[r]"] t(1) r show ?thesis
    by (intro exI[of _ "[r]"]) (auto simp: example_env_def)
qed

end
