(* ===== verification/Job_Output.thy ===== *)
theory Job_Output
  imports Job_Life
begin

text \<open>
  What a whole job delivers. The reference is \<open>sequential\<close>: the operators of a job applied, one
  after the other, to the records of the whole input. A job that is a chain of record-wise
  operators (map, filter, flat map) behind a reading is planned as one task per partition, each of
  which works on its share of the input; \<open>run_tasks\<close> runs the tasks on the machines of a cluster in
  any order and \<open>collect\<close> reads the result files the reports name. Together the files have exactly
  the records of the reference. Reductions are local to a task: the last part shows what that means
  for their results, and for result files that several tasks write.
\<close>

section \<open>The reference\<close>

fun recordwise :: "operator_type \<Rightarrow> bool" where
  "recordwise (OT_Map _) = True"
| "recordwise (OT_Filter _) = True"
| "recordwise (OT_FlatMap _) = True"
| "recordwise OT_Identity = True"
| "recordwise _ = False"

text \<open>An operator applied to all records at once; \<open>checks\<close> is whether the build checks overflow.\<close>

definition apply_type :: "bool \<Rightarrow> operator_type \<Rightarrow> json list \<Rightarrow> (error, json list) res" where
  "apply_type checks d rs =
     (case d of
        OT_Map script \<Rightarrow> res_mapM (apply_fn checks script) rs
      | OT_Filter pr \<Rightarrow>
          res_bind (filter_result (parse pr)) (\<lambda>p. Ok (filter (\<lambda>r. eval_predicate r p) rs))
      | OT_FlatMap func \<Rightarrow> res_bind (res_mapM (flat_apply func) rs) (\<lambda>e. Ok (concat e))
      | OT_Identity \<Rightarrow> res_mapM (apply_fn checks ''identity'') rs
      | _ \<Rightarrow> Err (Message ''not a record-wise operator''))"

text \<open>The records before the first, between any two and after the last of the operators.\<close>

fun sequential :: "bool \<Rightarrow> operator_type list \<Rightarrow> json list \<Rightarrow> (error, json list list) res" where
  "sequential checks [] rs = Ok [rs]"
| "sequential checks (d # ds) rs =
     res_bind (apply_type checks d rs) (\<lambda>mid.
     res_bind (sequential checks ds mid) (\<lambda>tr. Ok (rs # tr)))"

section \<open>Lemmas: shares\<close>

lemma res_mapM_pointwise:
  "res_mapM f xs = Ok ys \<Longrightarrow> \<exists>g. ys = map g xs \<and> (\<forall>x \<in> set xs. f x = Ok (g x))"
proof -
  assume a: "res_mapM f xs = Ok ys"
  have "\<forall>x \<in> set xs. \<exists>y. f x = Ok y"
    using list_all2_conv_all_nth[THEN iffD1, OF res_mapM_Ok[OF a]] by (metis in_set_conv_nth)
  then obtain g where g: "\<forall>x \<in> set xs. f x = Ok (g x)" by metis
  with res_mapM_total[of xs f g] a have "ys = map g xs" by simp
  with g show ?thesis by blast
qed

text \<open>A record-wise operator treats every record on its own.\<close>

lemma apply_type_pointwise:
  assumes "recordwise d" "apply_type checks d rs = Ok out"
  shows "\<exists>f. \<forall>xs. set xs \<subseteq> set rs \<longrightarrow> apply_type checks d xs = Ok (concat (map f xs))"
proof -
  have point: "\<exists>f. \<forall>xs. set xs \<subseteq> set rs \<longrightarrow> res_mapM h xs = Ok (concat (map f xs))"
    if "res_mapM h rs = Ok out" for h :: "json \<Rightarrow> (error, json) res"
  proof -
    from res_mapM_pointwise[OF that] obtain g where "\<forall>x \<in> set rs. h x = Ok (g x)" by blast
    then have "res_mapM h xs = Ok (map g xs)" if "set xs \<subseteq> set rs" for xs
      using that by (intro res_mapM_total) auto
    then show ?thesis by (intro exI[of _ "\<lambda>x. [g x]"]) simp
  qed
  show ?thesis
  proof (cases d)
    case (OT_Map script)
    with assms(2) point show ?thesis by (simp add: apply_type_def)
  next
    case OT_Identity
    with assms(2) point show ?thesis by (simp add: apply_type_def)
  next
    case (OT_Filter pr)
    have keep: "filter P xs = concat (map (\<lambda>r. if P r then [r] else []) xs)" for P and xs :: "json list"
      by (induction xs) auto
    from OT_Filter assms(2) obtain p where "filter_result (parse pr) = Ok p"
      by (auto simp: apply_type_def elim!: res_bind_OkE)
    with OT_Filter show ?thesis
      by (intro exI[of _ "\<lambda>r. if eval_predicate r p then [r] else []"]) (simp add: apply_type_def keep[symmetric])
  next
    case (OT_FlatMap func)
    with assms(2) obtain e where "res_mapM (flat_apply func) rs = Ok e"
      by (auto simp: apply_type_def elim!: res_bind_OkE)
    from res_mapM_pointwise[OF this] obtain g where "\<forall>x \<in> set rs. flat_apply func x = Ok (g x)" by blast
    then have "res_mapM (flat_apply func) xs = Ok (map g xs)" if "set xs \<subseteq> set rs" for xs
      using that by (intro res_mapM_total) auto
    with OT_FlatMap show ?thesis by (intro exI[of _ g]) (simp add: apply_type_def)
  qed (use assms(1) in simp_all)
qed

lemma sequential_pointwise:
  assumes "list_all recordwise ds" "sequential checks ds rs = Ok tr"
  shows "\<exists>f. \<forall>xs. set xs \<subseteq> set rs \<longrightarrow> (\<exists>tr'. sequential checks ds xs = Ok tr' \<and> tr' \<noteq> [] \<and>
    last tr' = concat (map f xs) \<and> set (concat tr') \<subseteq> set (concat tr))"
  using assms
proof (induction ds arbitrary: rs tr)
  case Nil
  then show ?case by (intro exI[of _ "\<lambda>x. [x]"]) auto
next
  case (Cons d ds)
  from Cons.prems(2) obtain mid tr1 where run: "apply_type checks d rs = Ok mid"
    "sequential checks ds mid = Ok tr1" "tr = rs # tr1"
    by (auto elim!: res_bind_OkE)
  from apply_type_pointwise[OF _ run(1)] Cons.prems(1) obtain f where
    f: "\<And>xs. set xs \<subseteq> set rs \<Longrightarrow> apply_type checks d xs = Ok (concat (map f xs))" by auto
  with run(1) have mid: "mid = concat (map f rs)" by simp
  from Cons.IH[OF _ run(2)] Cons.prems(1) obtain g where
    g: "\<And>xs. set xs \<subseteq> set mid \<Longrightarrow> \<exists>tr'. sequential checks ds xs = Ok tr' \<and> tr' \<noteq> [] \<and>
      last tr' = concat (map g xs) \<and> set (concat tr') \<subseteq> set (concat tr1)" by auto
  have "\<exists>tr'. sequential checks (d # ds) xs = Ok tr' \<and> tr' \<noteq> [] \<and>
      last tr' = concat (map (\<lambda>x. concat (map g (f x))) xs) \<and> set (concat tr') \<subseteq> set (concat tr)"
    if xs: "set xs \<subseteq> set rs" for xs
  proof -
    have "set (concat (map f xs)) \<subseteq> set mid" using xs by (auto simp: mid)
    from g[OF this] obtain tr' where "sequential checks ds (concat (map f xs)) = Ok tr'" "tr' \<noteq> []"
      "last tr' = concat (map g (concat (map f xs)))" "set (concat tr') \<subseteq> set (concat tr1)"
      by blast
    moreover have "concat (map g (concat (map f xs))) = concat (map (\<lambda>x. concat (map g (f x))) xs)"
      by (induction xs) simp_all
    ultimately show ?thesis using xs run(3) by (auto simp: f)
  qed
  then show ?case by blast
qed

lemma mset_concat_map: "mset (concat (map f xs)) = sum_mset (image_mset (\<lambda>x. mset (f x)) (mset xs))"
  by (induction xs) simp_all

text \<open>The shares of an input, taken one by one, give what the whole gives.\<close>

lemma sequential_shares:
  fixes share :: "nat \<Rightarrow> json list"
  assumes "list_all recordwise ds" "sequential checks ds rs = Ok tr" "readable S tr"
    and "mset rs = (\<Sum>p < n. mset (share p))"
  shows "\<exists>trs. (\<forall>p < n. sequential checks ds (share p) = Ok (trs p) \<and> trs p \<noteq> [] \<and> readable S (trs p)) \<and>
    mset (last tr) = (\<Sum>p < n. mset (last (trs p)))"
proof -
  from sequential_pointwise[OF assms(1,2)] obtain f where
    f: "\<And>xs. set xs \<subseteq> set rs \<Longrightarrow> \<exists>tr'. sequential checks ds xs = Ok tr' \<and> tr' \<noteq> [] \<and>
      last tr' = concat (map f xs) \<and> set (concat tr') \<subseteq> set (concat tr)" by blast
  have "set_mset (mset rs) = (\<Union>p < n. set (share p))"
    unfolding assms(4) by (induction n) (auto simp: lessThan_Suc)
  then have "\<forall>p. p < n \<longrightarrow> (\<exists>tr'. sequential checks ds (share p) = Ok tr' \<and> tr' \<noteq> [] \<and>
      last tr' = concat (map f (share p)) \<and> set (concat tr') \<subseteq> set (concat tr))"
    by (intro allI impI f) auto
  then obtain trs where trs: "\<And>p. p < n \<Longrightarrow> sequential checks ds (share p) = Ok (trs p) \<and> trs p \<noteq> [] \<and>
      last (trs p) = concat (map f (share p)) \<and> set (concat (trs p)) \<subseteq> set (concat tr)" by metis
  have "readable S (trs p)" if "p < n" for p
    using trs[OF that] assms(3) by (fastforce simp: list_all_iff)
  moreover have "mset (last tr) = (\<Sum>p < n. mset (last (trs p)))"
  proof -
    have "mset (last tr) = sum_mset (image_mset (\<lambda>x. mset (f x)) (mset rs))"
      using f[of rs] assms(2) by (auto simp: mset_concat_map)
    also have "\<dots> = (\<Sum>p < n. sum_mset (image_mset (\<lambda>x. mset (f x)) (mset (share p))))"
      unfolding assms(4) by (induction n) simp_all
    also have "\<dots> = (\<Sum>p < n. mset (last (trs p)))"
      using trs by (intro sum.cong) (simp_all add: mset_concat_map)
    finally show ?thesis .
  qed
  ultimately show ?thesis using trs by blast
qed

text \<open>The operators a task builds compute it.\<close>

lemma recordwise_meaning:
  assumes "recordwise d" "apply_type (overflow_checks rt) d rs = Ok out" "from_type d pid n limit spill = Ok op"
  shows "operator_meaning rt it src op [rs] = Ok [out] \<and> local_op op"
  using assms by (cases d) (auto simp: apply_type_def rewrite_all_def elim!: res_bind_OkE)

lemma sequential_chain:
  "list_all recordwise ds \<Longrightarrow> sequential (overflow_checks rt) ds rs = Ok tr \<Longrightarrow> readable (serde rt) tr \<Longrightarrow>
   res_mapM (\<lambda>d. from_type d pid n limit spill) ds = Ok ops \<Longrightarrow>
   chain_outputs rt orders src idx ops [rs] [last tr] \<and> list_all local_op ops"
proof (induction ds arbitrary: rs tr ops idx)
  case Nil
  then show ?case by auto
next
  case (Cons d ds)
  from Cons.prems(2) obtain mid tr1 where run: "apply_type (overflow_checks rt) d rs = Ok mid"
    "sequential (overflow_checks rt) ds mid = Ok tr1" "tr = rs # tr1"
    by (auto elim!: res_bind_OkE)
  from Cons.prems(4) obtain op ops' where ops: "from_type d pid n limit spill = Ok op"
    "res_mapM (\<lambda>d. from_type d pid n limit spill) ds = Ok ops'" "ops = op # ops'"
    by (auto elim!: res_bind_OkE)
  have tr1: "tr1 \<noteq> []" "hd tr1 = mid"
    using run(2) by (cases ds; auto elim!: res_bind_OkE)+
  then have "list_all (reads_back (serde rt)) mid" using Cons.prems(3) run(3) by (cases tr1) auto
  moreover have "operator_meaning rt (orders idx) src op [rs] = Ok [mid] \<and> local_op op"
    using recordwise_meaning[OF _ run(1) ops(1)] Cons.prems(1) by simp
  ultimately show ?case
    using Cons.IH[OF _ run(2) _ ops(2), of "Suc idx"] Cons.prems(1,3) run(3) ops(3) tr1(1) by simp
qed

section \<open>Chains\<close>

text \<open>
  The nodes of a job are a chain: nodes and edges may be listed in any order. In a chain job the
  operators behind the reading are record-wise, and no id contains an arrow.
\<close>

definition chain_edge_list :: "dag_node list \<Rightarrow> dag_edge list" where
  "chain_edge_list ns = map2 (\<lambda>a b. \<lparr>edge_from = node_id a, edge_to = node_id b\<rparr>) ns (tl ns)"

definition chain_graph :: "dag_specification \<Rightarrow> dag_node list \<Rightarrow> bool" where
  "chain_graph d ns \<longleftrightarrow>
     mset (dag_nodes d) = mset ns \<and> mset (dag_edges d) = mset (chain_edge_list ns) \<and>
     distinct (map node_id ns)"

definition chain_job :: "dag_specification \<Rightarrow> string \<Rightarrow> string \<Rightarrow> dag_node list \<Rightarrow> bool" where
  "chain_job d uri fmt ns \<longleftrightarrow>
     chain_graph d ns \<and> list_all (\<lambda>n. before_arrow (node_id n) = node_id n) ns \<and>
     ns \<noteq> [] \<and> node_operator (hd ns) = OT_Read uri fmt \<and>
     list_all (\<lambda>n. recordwise (node_operator n)) (tl ns)"

lemma chain_job_graph: "chain_job d uri fmt ns \<Longrightarrow> chain_graph d ns"
  by (simp add: chain_job_def)

lemma chain_edge_nth [simp]:
  "length (chain_edge_list ns) = length ns - 1"
  "Suc i < length ns \<Longrightarrow>
   chain_edge_list ns ! i = \<lparr>edge_from = node_id (ns ! i), edge_to = node_id (ns ! Suc i)\<rparr>"
  by (simp_all add: chain_edge_list_def nth_tl)

lemma mset_eq_single: "mset xs = mset ys \<Longrightarrow> length ys \<le> 1 \<Longrightarrow> xs = ys"
  by (cases ys) (auto simp: mset_single_iff)

lemma chain_edge_set:
  "(\<lambda>e. (edge_from e, edge_to e)) ` set (chain_edge_list ns) =
     {(node_id (ns ! i), node_id (ns ! Suc i)) | i. Suc i < length ns}"
proof -
  have "(\<lambda>e. (edge_from e, edge_to e)) ` set (chain_edge_list ns) = (\<lambda>i. (node_id (ns ! i), node_id (ns ! Suc i))) ` {0..<length ns - 1}"
    by (force simp: set_conv_nth image_iff)
  also have "\<dots> = {(node_id (ns ! i), node_id (ns ! Suc i)) | i. Suc i < length ns}" by force
  finally show ?thesis .
qed

lemma chain_edge_pairs:
  assumes "chain_graph d ns"
  shows "set (edge_pairs d) = {(node_id (ns ! i), node_id (ns ! Suc i)) | i. Suc i < length ns}"
proof -
  have "set (dag_edges d) = set (chain_edge_list ns)"
    using assms by (auto simp: chain_graph_def dest: mset_eq_setD)
  then show ?thesis by (simp add: edge_pairs_def chain_edge_set)
qed

lemma chain_well_formed:
  assumes "chain_graph d ns"
  shows "well_formed d"
proof -
  let ?ids = "map node_id ns"
  from assms have ns: "mset (dag_nodes d) = mset ns" "distinct ?ids" by (auto simp: chain_graph_def)
  define rank where "rank v = the (map_of (zip ?ids [0..<length ns]) v)" for v
  have rank: "rank (node_id (ns ! i)) = i" if "i < length ns" for i
    using that ns(2) map_of_zip_nth[of ?ids "[0..<length ns]" i] by (simp add: rank_def)
  have "set (edge_pairs d) \<subseteq> measure rank"
    by (auto simp: chain_edge_pairs[OF assms] rank)
  then have "acyclic (set (edge_pairs d))"
    by (meson acyclic_subset wf_acyclic wf_measure)
  moreover have "distinct (map node_id (dag_nodes d))"
    using ns by (metis mset_eq_imp_distinct_iff mset_map)
  moreover have "set (dag_nodes d) = set ns" using ns(1) by (rule mset_eq_setD)
  ultimately show ?thesis by (auto simp: well_formed_def chain_edge_pairs[OF assms])
qed

text \<open>A chain has one topological order only.\<close>

lemma chain_order_unique:
  assumes "distinct ids" "mset ds = mset ids" "topological es ds"
    and "\<And>i. Suc i < length ids \<Longrightarrow> (ids ! i, ids ! Suc i) \<in> set es"
  shows "ds = ids"
proof -
  have len: "length ds = length ids" using assms(2) by (metis size_mset)
  have ds: "distinct ds" "set ds = set ids"
    using assms(1,2) by (auto dest: mset_eq_imp_distinct_iff mset_eq_setD)
  have "take k ds = take k ids" if "k \<le> length ids" for k
    using that
  proof (induction k)
    case (Suc k)
    then have IH: "take k ds = take k ids" and k: "k < length ids" by auto
    have "ds ! k \<in> set ids" using k len ds(2) by (metis nth_mem)
    then obtain j where j: "j < length ids" "ds ! k = ids ! j" by (metis in_set_conv_nth)
    have fresh: "ds ! k \<notin> set (take k ds)"
      using ds(1) k len by (auto simp: in_set_conv_nth distinct_conv_nth)
    have "k \<le> j"
    proof (rule ccontr)
      assume "\<not> k \<le> j"
      then have "take k ds ! j = ids ! j" "j < length (take k ds)" using IH j(1) k len by simp_all
      with fresh j(2) show False by (metis nth_mem)
    qed
    moreover have "j \<le> k"
    proof (cases j)
      case (Suc i)
      then have "(ids ! i, ds ! k) \<in> set es" using assms(4)[of i] j by simp
      then have "ids ! i \<in> set (take k ds)" using assms(3) k len by (auto simp: topological_def)
      then obtain i' where "i' < k" "ids ! i = ids ! i'" unfolding IH by (auto simp: in_set_conv_nth)
      then have "i < k" using assms(1) j(1) k Suc by (simp add: nth_eq_iff_index_eq)
      with Suc show ?thesis by simp
    qed simp
    ultimately have "ds ! k = ids ! k" using j(2) by simp
    with IH k len show ?case by (simp add: take_Suc_conv_app_nth)
  qed simp
  from this[of "length ids"] len show ?thesis by simp
qed

lemma chain_ordered:
  assumes "chain_graph d ns" "iterates it"
  shows "ordered_nodes it d = ns"
proof -
  from assms(1) have ns: "mset (dag_nodes d) = mset ns" "distinct (map node_id ns)"
    by (auto simp: chain_graph_def)
  have dist: "distinct (map node_id (dag_nodes d))"
    using ns by (metis mset_eq_imp_distinct_iff mset_map)
  have perm: "mset (ordered_nodes it d) = mset ns"
    using ordered_nodes_mset[OF assms(2) dist] ns(1) by simp
  have ids: "map node_id (ordered_nodes it d) = map node_id ns"
  proof (rule chain_order_unique[OF ns(2)])
    show "mset (map node_id (ordered_nodes it d)) = mset (map node_id ns)" using perm by simp
    show "topological (edge_pairs d) (map node_id (ordered_nodes it d))"
      by (rule ordered_nodes_topological_ids[OF assms(2) chain_well_formed[OF assms(1)]])
  qed (auto simp: chain_edge_pairs[OF assms(1)])
  moreover have "set (ordered_nodes it d) = set ns" using perm by (rule mset_eq_setD)
  ultimately show ?thesis
    using ns(2) by (metis (no_types, lifting) distinct_map map_inj_on sup.idem)
qed

lemma chain_no_shuffle:
  assumes "chain_job d uri fmt ns"
  shows "inject_local_shuffle k ns = ns"
proof -
  have keyless: "reduce_key (node_operator n) = None" if "n \<in> set ns" for n
  proof -
    from assms obtain m ms where "ns = m # ms" "node_operator m = OT_Read uri fmt"
      "list_all (\<lambda>n. recordwise (node_operator n)) ms"
      by (cases ns) (auto simp: chain_job_def)
    with that show ?thesis by (cases "node_operator n") (auto simp: list_all_iff)
  qed
  have "fold (inject_node k) xs out = out @ xs" if "set xs \<subseteq> set ns" for xs out
    using that
  proof (induction xs arbitrary: out)
    case (Cons x xs)
    then have "inject_node k x out = out @ [x]"
      using inject_node_cases[of k x out] keyless[of x] by auto
    with Cons show ?case by simp
  qed simp
  then show ?thesis by (simp add: inject_local_shuffle_def)
qed

lemma chain_incoming:
  assumes "chain_graph d ns"
  shows "map (incoming_edges_of d) (map node_id ns) = chain_edges (map node_id ns)"
proof (rule nth_equalityI)
  fix j assume "j < length (map (incoming_edges_of d) (map node_id ns))"
  then have j: "j < length ns" by simp
  let ?P = "\<lambda>e. edge_to e = node_id (ns ! j)"
  have dist: "node_id (ns ! i) = node_id (ns ! j) \<longleftrightarrow> i = j" if "i < length ns" for i
    using assms that j by (auto simp: chain_graph_def distinct_conv_nth)
  have "filter ?P (chain_edge_list ns) =
      (if j = 0 then [] else [\<lparr>edge_from = node_id (ns ! (j - 1)), edge_to = node_id (ns ! j)\<rparr>])"
  proof (cases j)
    case 0
    have "\<not> ?P e" if "e \<in> set (chain_edge_list ns)" for e
      using that dist[of "Suc _"] 0 by (auto simp: in_set_conv_nth)
    with 0 show ?thesis by (simp add: filter_empty_conv)
  next
    case (Suc i)
    let ?xs = "chain_edge_list ns"
    have i: "i < length ?xs" using Suc j by simp
    have "?xs = take i ?xs @ ?xs ! i # drop (Suc i) ?xs" using i by (rule id_take_nth_drop)
    moreover have "filter ?P (take i ?xs) = []" "filter ?P (drop (Suc i) ?xs) = []"
      using i Suc dist by (auto simp: filter_empty_conv in_set_conv_nth)
    ultimately have "filter ?P ?xs = filter ?P [?xs ! i]"
      by (metis append_Nil append_Nil2 filter_append append_Cons)
    with Suc j show ?thesis by simp
  qed
  moreover have "mset (filter ?P (dag_edges d)) = mset (filter ?P (chain_edge_list ns))"
    using assms by (simp add: chain_graph_def)
  ultimately have "filter ?P (dag_edges d) =
      (if j = 0 then [] else [\<lparr>edge_from = node_id (ns ! (j - 1)), edge_to = node_id (ns ! j)\<rparr>])"
    by (intro mset_eq_single) (simp_all del: mset_filter)
  then show "map (incoming_edges_of d) (map node_id ns) ! j = chain_edges (map node_id ns) ! j"
    using j by (simp add: incoming_edges_of_def chain_edges_def show_edge_def)
qed (simp add: chain_edges_def)

text \<open>Every task of the plan of a chain is a linear task on its share.\<close>

lemma chain_tasks:
  assumes "chain_job d uri fmt ns" "iterates it" "t \<in> set (materialize_tasks U it d job)"
  shows "linear_task t" and "task_job_id t = job" and "task_total_partitions t = dag_partitions d"
    and "task_operators t = OT_Read uri fmt # map node_operator (tl ns)" and "task_partition t < dag_partitions d"
proof -
  from assms(1) obtain n ms where ns: "ns = n # ms" "node_operator n = OT_Read uri fmt"
    and rec: "list_all (\<lambda>n. recordwise (node_operator n)) ms"
    by (cases ns) (auto simp: chain_job_def chain_graph_def)
  have plan: "inject_local_shuffle (dag_partitions d) (ordered_nodes it d) = ns"
    using chain_ordered[OF chain_job_graph[OF assms(1)] assms(2)] chain_no_shuffle[OF assms(1)] by simp
  have t: "task_operators t = map node_operator ns" "task_operator_ids t = map node_id ns"
    "task_incoming_edges t = map (incoming_edges_of d) (map node_id ns)" "task_job_id t = job"
    "task_total_partitions t = dag_partitions d" "task_partition t < dag_partitions d"
    using assms(3) plan by (auto simp: materialize_tasks_def Let_def split: option.splits if_splits)
  have "local_type (node_operator m)" if "m \<in> set ms" for m
    using rec that by (cases "node_operator m") (auto simp: list_all_iff)
  then show "linear_task t"
    using t(1-3) ns assms(1) chain_incoming[OF chain_job_graph[OF assms(1)]]
    by (auto simp: linear_task_def list_all_iff chain_job_def chain_graph_def)
  show "task_job_id t = job" "task_total_partitions t = dag_partitions d" "task_partition t < dag_partitions d"
    "task_operators t = OT_Read uri fmt # map node_operator (tl ns)"
    using t ns by simp_all
qed

section \<open>Running the tasks of a job\<close>

text \<open>
  A cluster: the executor and the files of every machine. The tasks run one after the other, each
  on the machine it was given to; a task that does not return a result has no successor.
\<close>

type_synonym cluster = "nat \<Rightarrow> executor \<times> fs"

fun run_tasks :: "runtime \<Rightarrow> attempt_env \<Rightarrow> uuid_api \<Rightarrow> (task \<times> nat) list \<Rightarrow> cluster \<Rightarrow>
    (task_result list \<times> cluster) option" where
  "run_tasks rt env U [] c = Some ([], c)"
| "run_tasks rt env U ((t, w) # tws) c =
     (case execute_task rt env U t (fst (c w)) (snd (c w)) of
        Some (Ok r, _, ex, s) \<Rightarrow>
          map_option (\<lambda>(rs, c'). (r # rs, c')) (run_tasks rt env U tws (c(w := (ex, s))))
      | _ \<Rightarrow> None)"

text \<open>Reading back the files the results name, on the machines that wrote them.\<close>

definition collect :: "serde_api \<Rightarrow> (task_result \<times> nat) list \<Rightarrow> cluster \<Rightarrow> (error, json list) res" where
  "collect S rws c =
     res_bind (res_mapM (\<lambda>(r, w).
       case files (snd (c w)) (rl_path (res_location r)) of
         None \<Rightarrow> Err (IoError no_such_file)
       | Some content \<Rightarrow> parse_lines S (lines content)) rws) (\<lambda>rss. Ok (concat rss))"

definition task_spill :: "uuid_api \<Rightarrow> task \<Rightarrow> executor \<Rightarrow> path" where
  "task_spill U t ex =
     store_spill_path U (ex_store ex) (task_job_id t) (length (task_operators t) - 1) (task_partition t)"

definition task_file :: "uuid_api \<Rightarrow> task \<Rightarrow> executor \<Rightarrow> path" where
  "task_file U t ex =
     partition_path U (ex_store ex) (task_job_id t) (length (task_operators t) - 1) (task_partition t)"

text \<open>
  The machine has the input, room for the spill file of the task and a permit, keeps its own files
  apart from the input, and its retry limit is not the largest 32-bit number.
\<close>

definition can_run :: "uuid_api \<Rightarrow> path \<Rightarrow> string \<Rightarrow> task \<Rightarrow> executor \<times> fs \<Rightarrow> bool" where
  "can_run U uri content t es \<longleftrightarrow>
     files (snd es) uri = Some content \<and> path_vacant (task_spill U t (fst es)) (snd es) \<and>
     uri \<notin> {task_spill U t (fst es), task_file U t (fst es)} \<and>
     0 < ex_available (fst es) \<and> task_retry_limit (ex_config (fst es)) \<noteq> - 1"

lemma chain_task_runs:
  assumes "linear_task t" "task_operators t = OT_Read uri fmt # ds" "list_all recordwise ds"
    and "can_run U uri content t (ex, s)" "\<And>n i. iterates (fst (env n) i)"
    and "read_text (serde rt) fmt (max (task_total_partitions t) 1) (task_partition t) content = Ok share"
    and "sequential (overflow_checks rt) ds share = Ok tr" "readable (serde rt) tr"
  shows "\<exists>r ex' s'. execute_task rt env U t ex s = Some (Ok r, 1, ex', s') \<and> res_status r = TS_Completed \<and>
    rl_path (res_location r) = task_file U t ex \<and>
    files s' (task_file U t ex) = Some (encode (serde rt) (last tr)) \<and>
    changes_only {task_spill U t ex, task_file U t ex} s s' \<and>
    ex_store ex' = ex_store ex \<and> ex_config ex' = ex_config ex \<and> ex_available ex' = ex_available ex"
proof -
  let ?spill = "task_spill U t ex" and ?pid = "task_partition t" and ?n = "max (task_total_partitions t) 1"
  let ?limit = "partition_cache_limit_bytes (ex_config ex)"
  let ?op = "\<lparr>read_path = uri, read_format = fmt, read_partition_id = ?pid, read_total_partitions = max ?n 1,
    read_cache_limit_bytes = ?limit, read_spill_path = ?spill\<rparr>"
  obtain op ops where "build_operators t (ex_config ex) ?spill = Ok (ReadOp op # ops)"
    using build_linear[OF assms(1)] by blast
  then have ops: "res_mapM (\<lambda>d. from_type d ?pid ?n ?limit ?spill) ds = Ok ops"
    and build: "build_operators t (ex_config ex) ?spill = Ok (ReadOp ?op # ops)"
    using assms(2) by (auto simp: build_operators_def operator_defs_def elim!: res_bind_OkE)
  have "list_all (reads_back (serde rt)) share"
    using assms(7,8) by (cases ds) (auto elim!: res_bind_OkE)
  moreover have "chain_outputs rt (fst (env 0)) (\<lambda>_. content) (Suc 0) ops [share] [last tr]"
    using sequential_chain[OF assms(3,7,8) ops] by blast
  ultimately have chain: "chain_outputs rt (fst (env 0)) (\<lambda>_. content) 0 (ReadOp ?op # ops) [[]] [last tr]"
    using assms(6) by simp
  have ready: "read_ready ?op ((\<lambda>_. content) (read_path ?op)) [] s"
    using assms(4) by (simp add: read_ready_def can_run_def)
  from execute_linear[OF assms(1) assms(5) build[unfolded task_spill_def] ready[unfolded task_spill_def]
      chain[unfolded task_spill_def], of "snd (env 0)"]
  obtain r s' where run: "execute_sync rt (fst (env 0)) (snd (env 0)) U t (ex_store ex) (ex_config ex) s = (Ok r, s')"
    "res_status r = TS_Completed" "files s' (rl_path (res_location r)) = Some (encode (serde rt) (last tr))"
    "rl_path (res_location r) = task_file U t ex"
    "changes_only {task_spill U t ex, rl_path (res_location r)} s s'"
    by (auto simp: task_file_def task_spill_def)
  then have "run_attempt rt env U ex t 0 s = (r, s')"
    by (simp add: run_attempt_def execute_once_def)
  from execute_task_first[OF this run(2)] assms(4) obtain ex' where
    "execute_task rt env U t ex s = Some (Ok r, 1, ex', s')" "ex_store ex' = ex_store ex"
    "ex_config ex' = ex_config ex" "ex_available ex' = ex_available ex"
    by (auto simp: can_run_def)
  with run show ?thesis by auto
qed

lemma task_paths_apart:
  assumes "uuid_names_ok U" "task_partition t \<noteq> task_partition t'"
  shows "{task_spill U t ex, task_file U t ex} \<inter> {task_spill U t' ex, task_file U t' ex} = {}"
proof -
  have "path_join (root (ex_store ex)) (file_name U k job stage (task_partition t)) \<noteq>
      path_join (root (ex_store ex)) (file_name U k' job' stage' (task_partition t'))"
    if "k \<in> {''part'', ''spill''}" "k' \<in> {''part'', ''spill''}" for k k' job job' stage stage'
    using store_path_inject[OF assms(1), of k k' _ job stage _ job' stage'] assms(2) that by auto
  then show ?thesis by (simp add: task_spill_def task_file_def paths_file_name)
qed

text \<open>A task of the job whose share has the given course.\<close>

definition planned :: "runtime \<Rightarrow> path \<Rightarrow> string \<Rightarrow> string \<Rightarrow> operator_type list \<Rightarrow>
    (nat \<Rightarrow> json list list) \<Rightarrow> task \<Rightarrow> bool" where
  "planned rt uri fmt content ds trs t \<longleftrightarrow>
     linear_task t \<and> task_operators t = OT_Read uri fmt # ds \<and>
     (\<exists>share. read_text (serde rt) fmt (max (task_total_partitions t) 1) (task_partition t) content = Ok share \<and>
        sequential (overflow_checks rt) ds share = Ok (trs (task_partition t)) \<and>
        readable (serde rt) (trs (task_partition t)))"

lemma can_run_frame:
  assumes "can_run U uri content t' (ex, s)" "uuid_names_ok U" "task_partition t \<noteq> task_partition t'"
    and "changes_only {task_spill U t ex, task_file U t ex} s s'" "uri \<notin> {task_spill U t ex, task_file U t ex}"
    and "ex_store ex' = ex_store ex" "ex_config ex' = ex_config ex" "ex_available ex' = ex_available ex"
  shows "can_run U uri content t' (ex', s')"
proof -
  have same: "task_spill U t' ex' = task_spill U t' ex" "task_file U t' ex' = task_file U t' ex"
    using assms(6) by (simp_all add: task_spill_def task_file_def)
  have "task_spill U t' ex \<notin> {task_spill U t ex, task_file U t ex}"
    using task_paths_apart[OF assms(2,3), of ex] by auto
  with assms(1,4) have "path_vacant (task_spill U t' ex) s'"
    by (auto simp: can_run_def intro: path_vacant_frame)
  moreover have "files s' uri = files s uri" using assms(4,5) by (rule changes_only_file)
  ultimately show ?thesis using assms(1,7,8) same by (simp add: can_run_def)
qed

definition delivered :: "runtime \<Rightarrow> uuid_api \<Rightarrow> (nat \<Rightarrow> json list list) \<Rightarrow> cluster \<Rightarrow> task \<times> nat \<Rightarrow> task_result \<Rightarrow> bool" where
  "delivered rt U trs c tw r \<longleftrightarrow>
     ran U (fst tw) r \<and> res_status r = TS_Completed \<and>
     files (snd (c (snd tw))) (rl_path (res_location r)) =
       Some (encode (serde rt) (last (trs (task_partition (fst tw)))))"

lemma run_tasks_correct:
  assumes "uuid_names_ok U" "\<And>n i. iterates (fst (env n) i)" "list_all recordwise ds"
  shows "\<forall>tw \<in> set tws. planned rt uri fmt content ds trs (fst tw) \<and> can_run U uri content (fst tw) (c (snd tw)) \<Longrightarrow>
    distinct (map (\<lambda>tw. task_partition (fst tw)) tws) \<Longrightarrow>
    \<exists>rs c'. run_tasks rt env U tws c = Some (rs, c') \<and> list_all2 (delivered rt U trs c') tws rs \<and>
      (\<forall>w q. (\<forall>tw \<in> set tws. q \<notin> {task_spill U (fst tw) (fst (c w)), task_file U (fst tw) (fst (c w))}) \<longrightarrow>
         files (snd (c' w)) q = files (snd (c w)) q)"
proof (induction tws arbitrary: c)
  case Nil
  then show ?case by simp
next
  case (Cons tw tws)
  obtain t w where tw: "tw = (t, w)" by (cases tw)
  obtain ex s where es: "c w = (ex, s)" by (cases "c w")
  from Cons.prems(1) tw have plan: "planned rt uri fmt content ds trs t" and can: "can_run U uri content t (ex, s)"
    by (auto simp: es)
  from plan obtain share where t: "linear_task t" "task_operators t = OT_Read uri fmt # ds"
    "read_text (serde rt) fmt (max (task_total_partitions t) 1) (task_partition t) content = Ok share"
    "sequential (overflow_checks rt) ds share = Ok (trs (task_partition t))"
    "readable (serde rt) (trs (task_partition t))"
    by (auto simp: planned_def)
  let ?P = "{task_spill U t ex, task_file U t ex}"
  from chain_task_runs[where env = env, OF t(1,2) assms(3) can assms(2) t(3-5)] obtain r ex' s' where
    run: "execute_task rt env U t ex s = Some (Ok r, 1, ex', s')" "res_status r = TS_Completed"
      "rl_path (res_location r) = task_file U t ex"
      "files s' (task_file U t ex) = Some (encode (serde rt) (last (trs (task_partition t))))"
      "changes_only ?P s s'" "ex_store ex' = ex_store ex" "ex_config ex' = ex_config ex"
      "ex_available ex' = ex_available ex"
    by blast
  let ?c = "c(w := (ex', s'))"
  have other: "task_partition t \<noteq> task_partition (fst x)" if "x \<in> set tws" for x
    using Cons.prems(2) that tw by (auto simp: image_iff)
  have "\<forall>x \<in> set tws. planned rt uri fmt content ds trs (fst x) \<and> can_run U uri content (fst x) (?c (snd x))"
  proof
    fix x assume x: "x \<in> set tws"
    then show "planned rt uri fmt content ds trs (fst x) \<and> can_run U uri content (fst x) (?c (snd x))"
      using Cons.prems(1) can_run_frame[OF _ assms(1) other[OF x] run(5) _ run(6-8), of uri content] can es
      by (cases "snd x = w") (auto simp: can_run_def[of U uri content t])
  qed
  moreover have "distinct (map (\<lambda>tw. task_partition (fst tw)) tws)" using Cons.prems(2) by simp
  ultimately have "\<exists>rs c'. run_tasks rt env U tws ?c = Some (rs, c') \<and> list_all2 (delivered rt U trs c') tws rs \<and>
      (\<forall>w q. (\<forall>tw \<in> set tws. q \<notin> {task_spill U (fst tw) (fst (?c w)), task_file U (fst tw) (fst (?c w))}) \<longrightarrow>
         files (snd (c' w)) q = files (snd (?c w)) q)"
    by (rule Cons.IH)
  then obtain rs c' where
    rest: "run_tasks rt env U tws ?c = Some (rs, c')" "list_all2 (delivered rt U trs c') tws rs"
      "\<And>w q. \<forall>tw \<in> set tws. q \<notin> {task_spill U (fst tw) (fst (?c w)), task_file U (fst tw) (fst (?c w))} \<Longrightarrow>
         files (snd (c' w)) q = files (snd (?c w)) q"
    by blast
  have paths: "task_spill U t' (fst (?c w')) = task_spill U t' (fst (c w'))"
    "task_file U t' (fst (?c w')) = task_file U t' (fst (c w'))" for t' w'
    using run(6) es by (simp_all add: task_spill_def task_file_def)
  have "files (snd (c' w)) (task_file U t ex) = files (snd (?c w)) (task_file U t ex)"
    using task_paths_apart[OF assms(1) other, of _ ex] es by (intro rest(3)) (auto simp only: paths fst_conv)
  then have "files (snd (c' w)) (task_file U t ex) = files s' (task_file U t ex)" by simp
  moreover have "ran U t r"
    using ranI[OF run(1)] can by (simp add: can_run_def)
  ultimately have "delivered rt U trs c' tw r" using run(2-4) tw by (simp add: delivered_def)
  moreover have "files (snd (c' w')) q = files (snd (c w')) q"
    if "\<forall>x \<in> set (tw # tws). q \<notin> {task_spill U (fst x) (fst (c w')), task_file U (fst x) (fst (c w'))}" for w' q
  proof -
    have "files (snd (c' w')) q = files (snd (?c w')) q"
      using that by (intro rest(3), unfold paths) simp
    moreover have "files (snd (?c w')) q = files (snd (c w')) q"
      using that tw es changes_only_file[OF run(5), of q] by (cases "w' = w") auto
    ultimately show ?thesis by simp
  qed
  ultimately show ?case
    using run(1) rest(1,2) tw es by (intro exI[of _ "r # rs"] exI[of _ c']) simp
qed

lemma collect_delivered:
  assumes "list_all2 (delivered rt U trs c) tws rs"
    and "\<forall>tw \<in> set tws. list_all (reads_back (serde rt)) (last (trs (task_partition (fst tw))))"
  shows "collect (serde rt) (zip rs (map snd tws)) c =
    Ok (concat (map (\<lambda>tw. last (trs (task_partition (fst tw)))) tws))"
proof -
  let ?f = "\<lambda>(r, w). case files (snd (c w)) (rl_path (res_location r)) of
       None \<Rightarrow> Err (IoError no_such_file) | Some content \<Rightarrow> parse_lines (serde rt) (lines content)"
  have "res_mapM ?f (zip rs (map snd tws)) = Ok (map (\<lambda>tw. last (trs (task_partition (fst tw)))) tws)"
    using assms
  proof (induction rule: list_all2_induct)
    case (Cons tw tws r rs)
    then have "?f (r, snd tw) = Ok (last (trs (task_partition (fst tw))))"
      by (simp add: delivered_def parse_lines_encode)
    with Cons show ?case by simp
  qed simp
  then show ?thesis by (simp add: collect_def)
qed

lemma chain_plan:
  assumes "chain_job d uri fmt ns" "iterates it"
  shows "validate d = Ok ()"
    and "map task_partition (materialize_tasks U it d job) = [0..<dag_partitions d]"
proof -
  from assms(1) obtain n ms where ns: "ns = n # ms" "node_operator n = OT_Read uri fmt"
    "list_all (\<lambda>n. recordwise (node_operator n)) ms" "mset (dag_nodes d) = mset (n # ms)"
    by (cases ns) (auto simp: chain_job_def chain_graph_def)
  have nodes: "set (dag_nodes d) = set (n # ms)" using ns(4) by (rule mset_eq_setD)
  have "\<not> is_join (node_operator k)" if "k \<in> set (dag_nodes d)" for k
    using that ns(2,3) nodes by (cases "node_operator k") (auto simp: list_all_iff)
  then have "validate_nodes d xs = Ok ()" if "set xs \<subseteq> set (dag_nodes d)" for xs
    using that by (induction xs) auto
  then show "validate d = Ok ()" by (simp add: validate_def)
  have "find_map (\<lambda>n. read_of (node_operator n)) xs \<noteq> None" if "n \<in> set xs" for xs
    using that ns(2) by (induction xs) (auto split: option.splits)
  then have "read_source d \<noteq> None" using nodes by (simp add: read_source_def)
  then show "map task_partition (materialize_tasks U it d job) = [0..<dag_partitions d]"
    using chain_ordered[OF chain_job_graph[OF assms(1)] assms(2)] ns(1) by (auto simp: materialize_tasks_def Let_def comp_def)
qed

lemma chain_job_output:
  assumes "chain_job d uri fmt ns" "iterates it" "uuid_names_ok U" "\<And>n i. iterates (fst (env n) i)"
    and "mset (map fst tws) = mset (materialize_tasks U it d job)" "0 < dag_partitions d"
    and "\<forall>tw \<in> set tws. can_run U uri content (fst tw) (c (snd tw))"
    and "read_text (serde rt) fmt 1 0 content = Ok rs"
    and "sequential (overflow_checks rt) (map node_operator (tl ns)) rs = Ok tr" "readable (serde rt) tr"
  shows "\<exists>results c' out. run_tasks rt env U tws c = Some (results, c') \<and>
    list_all2 (ran U) (map fst tws) results \<and> (\<forall>r \<in> set results. res_status r = TS_Completed) \<and>
    collect (serde rt) (zip results (map snd tws)) c' = Ok out \<and> mset out = mset (last tr)"
proof -
  let ?ds = "map node_operator (tl ns)" and ?n = "dag_partitions d"
  have ds: "list_all recordwise ?ds" using assms(1) by (simp add: chain_job_def list.pred_map comp_def)
  from read_text_divide[OF assms(6,8)] obtain share where
    share: "\<And>p. p < ?n \<Longrightarrow> read_text (serde rt) fmt ?n p content = Ok (share p)"
      "mset rs = (\<Sum>p < ?n. mset (share p))"
    by blast
  from sequential_shares[OF ds assms(9,10) share(2)] obtain trs where
    trs: "\<And>p. p < ?n \<Longrightarrow> sequential (overflow_checks rt) ?ds (share p) = Ok (trs p) \<and> trs p \<noteq> [] \<and>
        readable (serde rt) (trs p)"
      "mset (last tr) = (\<Sum>p < ?n. mset (last (trs p)))"
    by blast
  have tasks: "set (map fst tws) = set (materialize_tasks U it d job)"
    using assms(5) by (rule mset_eq_setD)
  have parts: "mset (map (\<lambda>tw. task_partition (fst tw)) tws) = mset [0..<?n]"
    using arg_cong[OF assms(5), of "image_mset task_partition"] chain_plan(2)[OF assms(1,2), of U job]
    by (metis (no_types, lifting) list.map_comp map_eq_conv mset_map o_apply)
  have plan: "planned rt uri fmt content ?ds trs (fst tw) \<and> task_partition (fst tw) < ?n"
    if "tw \<in> set tws" for tw
  proof -
    have "fst tw \<in> set (materialize_tasks U it d job)" using that tasks by force
    note t = chain_tasks[OF assms(1,2) this]
    have "max (task_total_partitions (fst tw)) 1 = ?n" using t(3) assms(6) by simp
    with t share(1)[OF t(5)] trs(1)[OF t(5)] show ?thesis by (auto simp: planned_def)
  qed
  have "distinct (map (\<lambda>tw. task_partition (fst tw)) tws)"
    using parts by (metis distinct_upt mset_eq_imp_distinct_iff)
  with run_tasks_correct[where env = env and tws = tws and rt = rt and trs = trs and c = c and content = content
      and uri = uri and fmt = fmt, OF assms(3,4) ds] plan assms(7)
  obtain results c' where run: "run_tasks rt env U tws c = Some (results, c')"
    "list_all2 (delivered rt U trs c') tws results"
    by blast
  have "list_all (reads_back (serde rt)) (last (trs (task_partition (fst tw))))" if "tw \<in> set tws" for tw
    using trs(1)[of "task_partition (fst tw)"] plan[OF that] last_in_set[of "trs (task_partition (fst tw))"]
    by (auto simp: list_all_iff)
  then have out: "collect (serde rt) (zip results (map snd tws)) c' =
      Ok (concat (map (\<lambda>tw. last (trs (task_partition (fst tw)))) tws))"
    by (intro collect_delivered[OF run(2)]) blast
  have "mset (concat (map (\<lambda>tw. last (trs (task_partition (fst tw)))) tws)) =
      sum_mset (image_mset (\<lambda>p. mset (last (trs p))) (mset (map (\<lambda>tw. task_partition (fst tw)) tws)))"
    by (simp add: mset_concat_map multiset.map_comp comp_def)
  also have "\<dots> = mset (last tr)"
    unfolding parts trs(2) by (simp add: sum_unfold_sum_mset atLeast0LessThan[symmetric] mset_upt)
  finally have "mset (concat (map (\<lambda>tw. last (trs (task_partition (fst tw)))) tws)) = mset (last tr)" .
  moreover have "list_all2 (ran U) (map fst tws) results \<and> (\<forall>r \<in> set results. res_status r = TS_Completed)"
    using run(2) by (induction rule: list_all2_induct) (auto simp: delivered_def)
  ultimately show ?thesis using run(1) out by blast
qed

section \<open>Properties\<close>

text \<open>
  Claim C1. Distributed is sequential. A job that reads an input and applies a chain of maps, filters
  and flat maps is submitted; its nodes and edges are listed in any order. Its tasks run in any order,
  each on any machine that has the input and a working disk. Then every task returns a result and
  completes, the job has succeeded as soon as the last report has reached the master, the status of
  the job lists the result files, and these files together have exactly the records that the operators
  give on the whole input, each as often as there. (The records, intermediate ones included, have to be
  printable as JSON, and the printed job identifiers usable as file names.)
\<close>

theorem distributed_is_sequential:
  assumes "chain_job d uri fmt ns" "iterates (node_order E job)" "uuid_names_ok (uuids E)"
    and "\<And>n i. iterates (fst (env n) i)" "stored E m v"
    and "mset (map fst tws) = mset (tasks_of E d job)" "0 < dag_partitions d"
    and "\<forall>tw \<in> set tws. can_run (uuids E) uri content (fst tw) (c (snd tw))"
    and "read_text (serde rt) fmt 1 0 content = Ok rs"
    and "sequential (overflow_checks rt) (map node_operator (tl ns)) rs = Ok tr" "readable (serde rt) tr"
  shows "\<exists>results c' out resp. run_tasks rt env (uuids E) tws c = Some (results, c') \<and>
    collect (serde rt) (zip results (map snd tws)) c' = Ok out \<and> mset out = mset (last tr) \<and>
    get_job_status E job (complete_all E results (snd (submit_job E job d m))) = Ok resp \<and>
    jsr_status resp = JS_Succeeded \<and> jsr_outputs resp = map (\<lambda>r. rl_path (res_location r)) results"
proof -
  from chain_job_output[where env = env and rt = rt and tws = tws and c = c, OF assms(1-4,6-11)]
  obtain results c' out where
    run: "run_tasks rt env (uuids E) tws c = Some (results, c')"
      "list_all2 (ran (uuids E)) (map fst tws) results" "\<forall>r \<in> set results. res_status r = TS_Completed"
      "collect (serde rt) (zip results (map snd tws)) c' = Ok out" "mset out = mset (last tr)"
    by blast
  have "tasks_of E d job \<noteq> []"
    using arg_cong[OF chain_plan(2)[OF assms(1,2), of "uuids E" job], of length] assms(7) by auto
  from job_succeeds[OF assms(5) chain_plan(1)[OF assms(1,2)] this assms(6) run(2,3)] run(1,4,5)
  show ?thesis by blast
qed

text \<open>An example: two shares of an input, both worked on by the same machine.\<close>

definition share_dag :: dag_specification where
  "share_dag = \<lparr>dag_nodes = [node ''f'' (OT_Filter ''always_true''), node ''r'' (OT_Read ''/in'' ''jsonl'')],
     dag_edges = [\<lparr>edge_from = ''r'', edge_to = ''f''\<rparr>], dag_partitions = 2\<rparr>"

lemma share_chain:
  "chain_job share_dag ''/in'' ''jsonl'' [node ''r'' (OT_Read ''/in'' ''jsonl''), node ''f'' (OT_Filter ''always_true'')]"
  by (simp add: chain_job_def chain_graph_def share_dag_def node_def chain_edge_list_def)

lemma example_machine:
  assumes "root (ex_store ex) = ''/d''" "task_retry_limit (ex_config ex) \<noteq> - 1" "0 < ex_available ex"
  shows "can_run example_uuid_api ''/in'' content t (ex, example_fs\<lparr>files := [''/in'' \<mapsto> content]\<rparr>)"
proof -
  have apart: "path_join ''/d'' (file_name example_uuid_api k job stage p) \<noteq> ''/in''" for k job stage p
    using file_name_start[OF example_uuid_names, of k job stage p] by (simp add: path_join_def slash_def)
  with assms show ?thesis
    by (simp add: can_run_def task_spill_def task_file_def paths_file_name path_vacant_def
        text_at_def healthy_def example_fs_def apart[symmetric])
qed

theorem distributed_is_sequential_witness:
  "\<exists>tws results c' out resp. length tws = 2 \<and>
    run_tasks example_runtime (\<lambda>_. (\<lambda>_. key_order, 5)) (uuids example_env) tws
      (\<lambda>_. (example_executor 1, example_input)) = Some (results, c') \<and>
    collect example_serde (zip results (map snd tws)) c' = Ok out \<and> mset out = {#rec_a, rec_b#} \<and>
    get_job_status example_env 7
      (complete_all example_env results (snd (submit_job example_env 7 share_dag example_master))) = Ok resp \<and>
    jsr_status resp = JS_Succeeded"
proof -
  let ?ts = "tasks_of example_env share_dag 7"
  let ?tws = "map (\<lambda>t. (t, 0)) ?ts"
  have E: "iterates (node_order example_env 7)" "uuid_names_ok (uuids example_env)" "uuids example_env = example_uuid_api"
    by (simp_all add: example_env_def iterates_key_order example_uuid_names)
  have tws: "mset (map fst ?tws) = mset ?ts" by (simp add: comp_def)
  have "length ?ts = 2"
    using arg_cong[OF chain_plan(2)[OF share_chain E(1), of "uuids example_env" 7], of length]
    by (simp add: share_dag_def)
  then have len: "length ?tws = 2" by simp
  have can: "\<forall>tw \<in> set ?tws. can_run (uuids example_env) ''/in'' (text_a @ newline # text_b @ [newline]) (fst tw)
      ((\<lambda>_. (example_executor 1, example_input)) (snd tw))"
    using example_machine[of "example_executor 1"] E(3)
    by (simp add: example_executor_def example_store_def default_config_def example_input_def)
  have read: "read_text (serde example_runtime) ''jsonl'' 1 0 (text_a @ newline # text_b @ [newline]) = Ok [rec_a, rec_b]"
    using example_read_text by (simp add: example_runtime_def)
  have seq: "sequential (overflow_checks example_runtime) (map node_operator (tl [node ''r'' (OT_Read ''/in'' ''jsonl''),
      node ''f'' (OT_Filter ''always_true'')])) [rec_a, rec_b] = Ok [[rec_a, rec_b], [rec_a, rec_b]]"
    by (simp add: node_def apply_type_def parse_def)
  have "readable (serde example_runtime) [[rec_a, rec_b], [rec_a, rec_b]]"
    by (simp add: example_runtime_def)
  from distributed_is_sequential[where env = "\<lambda>_. (\<lambda>_. key_order, 5)" and rt = example_runtime and tws = ?tws
      and c = "\<lambda>_. (example_executor 1, example_input)",
      OF share_chain E(1,2) _ example_stored tws _ can read seq this]
  obtain results c' out resp where
    "run_tasks example_runtime (\<lambda>_. (\<lambda>_. key_order, 5)) (uuids example_env) ?tws
      (\<lambda>_. (example_executor 1, example_input)) = Some (results, c')"
    "collect (serde example_runtime) (zip results (map snd ?tws)) c' = Ok out" "mset out = {#rec_a, rec_b#}"
    "get_job_status example_env 7
      (complete_all example_env results (snd (submit_job example_env 7 share_dag example_master))) = Ok resp"
    "jsr_status resp = JS_Succeeded"
    by (auto simp: iterates_key_order share_dag_def)
  with len show ?thesis by (intro exI[of _ ?tws]) (auto simp: example_runtime_def)
qed

end
