(* ===== verification/Job_Reduction.thy ===== *)
theory Job_Reduction
  imports Job_Output
begin

text \<open>
  Reductions and shuffles across the tasks of a job. The planner puts a shuffle in front of every
  reduction by key, but it gives the shuffle no edges (\<open>src/src/common/dag.rs\<close>, \<open>inject_local_shuffle\<close>
  and \<open>materialize_tasks\<close>): the executor runs it on an empty partition, and the reduction keeps its own
  parents. So a reduction by key works on the share of its task alone. A task that ends in several
  partitions writes each of them to the result file of its number, whichever task it is
  (\<open>src/src/worker/executor.rs\<close>, the loop that writes the output).
\<close>

section \<open>A reduction by key\<close>

definition keyed_graph :: "dag_specification \<Rightarrow> dag_node \<Rightarrow> dag_node \<Rightarrow> string \<Rightarrow> string \<Rightarrow> string \<Rightarrow> string \<Rightarrow> bool" where
  "keyed_graph d r k uri fmt key reducer \<longleftrightarrow>
     chain_graph d [r, k] \<and> node_operator r = OT_Read uri fmt \<and> node_operator k = OT_ReduceByKey key reducer \<and>
     before_arrow (node_id r) = node_id r \<and> node_id r \<noteq> shuffle_node_id (node_id k) \<and>
     edge_to ` set (dag_edges d) \<subseteq> {node_id k}"

lemma shuffle_node_id_neq [simp]: "shuffle_node_id i \<noteq> i" "i \<noteq> shuffle_node_id i"
proof -
  have "length (shuffle_node_id i) \<noteq> length i" by (simp add: shuffle_node_id_def)
  then show "shuffle_node_id i \<noteq> i" "i \<noteq> shuffle_node_id i" by metis+
qed

lemma keyed_tasks:
  assumes "keyed_graph d r k uri fmt key reducer" "iterates it" "t \<in> set (materialize_tasks U it d job)"
  shows "task_operators t = [OT_Read uri fmt, OT_ShuffleByKey key (dag_partitions d), OT_ReduceByKey key reducer]"
    and "task_operator_ids t = [node_id r, shuffle_node_id (node_id k), node_id k]"
    and "task_incoming_edges t = [[], [], [node_id r @ ''->'' @ node_id k]]"
    and "task_total_partitions t = dag_partitions d"
proof -
  have graph: "chain_graph d [r, k]" using assms(1) by (simp add: keyed_graph_def)
  have plan: "inject_local_shuffle (dag_partitions d) (ordered_nodes it d) =
      [r, \<lparr>node_id = shuffle_node_id (node_id k), node_operator = OT_ShuffleByKey key (dag_partitions d)\<rparr>, k]"
    using chain_ordered[OF graph assms(2)] assms(1)
    by (simp add: keyed_graph_def inject_local_shuffle_def inject_node_def)
  have "map (incoming_edges_of d) [node_id r, node_id k] = chain_edges [node_id r, node_id k]"
    using chain_incoming[OF graph] by simp
  then have "incoming_edges_of d (node_id r) = []"
    "incoming_edges_of d (node_id k) = [node_id r @ ''->'' @ node_id k]"
    by (simp_all add: chain_edges_def)
  moreover have "filter (\<lambda>e. edge_to e = shuffle_node_id (node_id k)) (dag_edges d) = []"
    using assms(1) by (auto simp: keyed_graph_def filter_empty_conv)
  then have "incoming_edges_of d (shuffle_node_id (node_id k)) = []"
    unfolding incoming_edges_of_def by (simp only: list.map(1))
  ultimately show "task_operators t = [OT_Read uri fmt, OT_ShuffleByKey key (dag_partitions d), OT_ReduceByKey key reducer]"
    "task_operator_ids t = [node_id r, shuffle_node_id (node_id k), node_id k]"
    "task_incoming_edges t = [[], [], [node_id r @ ''->'' @ node_id k]]"
    "task_total_partitions t = dag_partitions d"
    using assms(1,3) plan
    by (auto simp: materialize_tasks_def Let_def keyed_graph_def split: option.splits if_splits)
qed

text \<open>A shuffle of the empty partition leaves the disk as it is.\<close>

lemma shuffle_nothing:
  assumes "0 < sh_total_partitions op"
  shows "\<exists>ps. shuffle_execute hash tmp S op [partition_empty pid limit spill] s = (Ok ps, s)"
proof -
  have gather: "gather S [partition_empty pid limit spill] s = (Ok [], s)"
    by (simp add: gather_def into_parts_def drain_all_def drain_spilled_def partition_empty_def cache_new_def
        io_bind_def io_return_def Let_def)
  have "\<exists>ps. io_mapM (\<lambda>(idx, rs). from_records S idx l (f idx) rs) (enumerate n (replicate k [])) s = (Ok ps, s)"
    for l f n and k :: nat
  proof (induction k arbitrary: n)
    case (Suc k)
    from Suc.IH[of "Suc n"] show ?case by (auto simp: from_records_def io_bind_def io_return_def)
  qed (simp add: io_return_def)
  with gather assms show ?thesis by (simp add: shuffle_execute_def io_bind_def Let_def)
qed

lemma keyed_task_runs:
  assumes "keyed_graph d r k uri fmt key reducer" "iterates it" "t \<in> set (materialize_tasks U it d job)"
    and "0 < dag_partitions d" "can_run U uri content t (ex, s)" "\<And>i. iterates (orders i)"
    and "read_text (serde rt) fmt (dag_partitions d) (task_partition t) content = Ok share"
    and "reduce_by_key_meaning (orders 2) \<lparr>rbk_key = key, rbk_reducer = reducer\<rparr> [share] = Ok [rows]"
    and "readable (serde rt) [share, rows]"
  shows "\<exists>res s'. execute_sync rt orders du U t (ex_store ex) (ex_config ex) s = (Ok res, s') \<and>
    res_status res = TS_Completed \<and> rl_path (res_location res) = task_file U t ex \<and>
    files s' (task_file U t ex) = Some (encode (serde rt) rows)"
proof -
  let ?n = "dag_partitions d" and ?pid = "task_partition t" and ?spill = "task_spill U t ex"
  let ?limit = "partition_cache_limit_bytes (ex_config ex)"
  let ?ids = "[node_id r, shuffle_node_id (node_id k), node_id k]"
  let ?edges = "[[], [], [node_id r @ ''->'' @ node_id k]]"
  note t = keyed_tasks[OF assms(1-3)]
  have ids: "node_id r \<noteq> shuffle_node_id (node_id k)" "node_id r \<noteq> node_id k"
    "before_arrow (node_id r @ ''->'' @ node_id k) = node_id r"
    using assms(1) before_arrow_edge[of "node_id r" "node_id k"] by (auto simp: keyed_graph_def chain_graph_def)
  let ?read = "\<lparr>read_path = uri, read_format = fmt, read_partition_id = ?pid, read_total_partitions = ?n,
    read_cache_limit_bytes = ?limit, read_spill_path = ?spill\<rparr>"
  let ?sh = "\<lparr>sh_key = key, sh_total_partitions = ?n\<rparr>"
  let ?red = "\<lparr>rbk_key = key, rbk_reducer = reducer\<rparr>"
  have n: "max ?n 1 = ?n" "max ?n (Suc 0) = ?n" using assms(4) by simp_all
  have build: "build_operators t (ex_config ex) ?spill = Ok [ReadOp ?read, ShuffleOp ?sh, ReduceByKeyOp ?red]"
    using t by (simp add: build_operators_def operator_defs_def n)
  have shape: "operator_defs t = task_operators t" "task_operator_ids' t = ?ids" "task_edges t = ?edges"
    using t by (simp_all add: operator_defs_def task_operator_ids'_def task_edges_def)
  let ?in = "[partition_empty ?pid ?limit ?spill]"
  have "read_ready ?read content ?in s"
    using assms(5) by (simp add: read_ready_def can_run_def)
  from read_run[OF this, of "serde rt" share] assms(7,9) obtain p s1 where
    read: "read_execute (serde rt) ?read ?in s = (Ok [p], s1)" "parts_hold (serde rt) s1 [p] [share]"
      "partition_id p = ?pid"
    by auto
  obtain qs where sh: "shuffle_execute (hasher rt) (temp_dir rt) (serde rt) ?sh ?in s1 = (Ok qs, s1)"
    using shuffle_nothing[of ?sh] assms(4) by fastforce
  from reduce_by_key_op.execute_law[OF read(2) assms(6)[of 2] assms(8)] assms(9) obtain ps2 s2 where
    red: "reduce_by_key_execute (orders 2) (serde rt) ?red [p] s1 = (Ok ps2, s2)"
      "parts_hold (serde rt) s2 ps2 [rows]" "map partition_id ps2 = [?pid]"
    by (auto simp: read(3))
  then obtain q where q: "ps2 = [q]" "partition_id q = ?pid" by auto
  have "\<exists>stages. pipeline rt orders U (task_job_id t) ?pid ?limit ?spill ?ids ?edges
      [ReadOp ?read, ShuffleOp ?sh, ReduceByKeyOp ?red] s =
      (Ok ([q], \<lparr>et_job_id = uuid_to_string U (task_job_id t), et_stages = stages\<rparr>), s2)"
    using read(1) sh red(1) q ids
    by (simp add: pipeline_def op_inputs_def get_or_def op_id_at_def io_bind_def io_return_def numeral_2_eq_2)
  moreover from write_single[of rt s2 q rows U "ex_store ex" "task_job_id t" 2] red(2) q obtain s3 where
    "write_parts rt U (ex_store ex) (task_job_id t) 2 ?pid 0 [] [q] s2 =
      (Ok (length (encode (serde rt) rows),
        [\<lparr>pi_partition_id = ?pid, pi_record_count = length rows, pi_spill_path = None\<rparr>]), s3)"
    "files s3 (partition_path U (ex_store ex) (task_job_id t) 2 ?pid) = Some (encode (serde rt) rows)"
    by auto
  ultimately show ?thesis
    using build shape t(1)
    by (auto simp: execute_sync_def finish_task_def Let_def completed_result_def task_spill_def task_file_def
        numeral_2_eq_2)
qed

section \<open>Several output partitions\<close>

text \<open>Every partition goes to the file of its number; \<open>part\<close>, the number of the task, plays no role.\<close>

lemma write_parts_files:
  assumes "uuid_names_ok U"
  shows "parts_hold (serde rt) s ps rss \<Longrightarrow> distinct (map partition_id ps) \<Longrightarrow>
    \<forall>i. partition_path U store job stage i \<notin> part_paths ps \<Longrightarrow>
    \<exists>out s'. write_parts rt U store job stage part bytes infos ps s = (Ok out, s') \<and>
      (\<forall>i < length ps. files s' (partition_path U store job stage (partition_id (ps ! i))) =
         Some (encode (serde rt) (rss ! i))) \<and>
      changes_only (part_paths ps \<union> partition_path U store job stage ` partition_id ` set ps) s s'"
proof (induction ps arbitrary: s rss bytes infos)
  case Nil
  then show ?case by (auto simp: io_return_def)
next
  case (Cons p ps)
  let ?file = "partition_path U store job stage"
  from Cons.prems(1) obtain rs rss' where rss: "rss = rs # rss'" and p: "partition_holds (serde rt) s p rs"
    and fresh: "part_path p \<notin> part_paths ps" and ps: "parts_hold (serde rt) s ps rss'"
    by (auto simp: parts_hold_Cons)
  obtain s1 where s1: "into_parts (serde rt) p s = (Ok (part_limit p, part_path p, rs), s1)"
    "path_vacant (part_path p) s1" "changes_only {part_path p} s s1"
    by (rule into_parts_holds[OF p])
  let ?s2 = "s1\<lparr>files := (files s1)(?file (partition_id p) \<mapsto> encode (serde rt) rs)\<rparr>"
  have "healthy s1" using s1(2) by (simp add: path_vacant_def)
  then have wr: "write_records (serde rt) (?file (partition_id p)) rs s1 =
      (Ok (length (encode (serde rt) rs)), ?s2)"
    using partition_holds_readable[OF p] by (rule write_records_encode)
  have first: "changes_only {part_path p, ?file (partition_id p)} s ?s2"
    using s1(3) by (auto simp: changes_only_def)
  have hold: "parts_hold (serde rt) ?s2 ps rss'"
    using fresh Cons.prems(3) by (intro parts_hold_frame[OF ps first]) auto
  have "distinct (map partition_id ps)" "\<forall>i. ?file i \<notin> part_paths ps" using Cons.prems(2,3) by auto
  from Cons.IH[OF hold this] obtain out s' where
    rest: "write_parts rt U store job stage part
        (if partition_id p = part then length (encode (serde rt) rs) else bytes)
        (infos @ [\<lparr>pi_partition_id = partition_id p, pi_record_count = length rs, pi_spill_path = None\<rparr>]) ps ?s2 =
        (Ok out, s')"
      "\<forall>i < length ps. files s' (?file (partition_id (ps ! i))) = Some (encode (serde rt) (rss' ! i))"
      "changes_only (part_paths ps \<union> ?file ` partition_id ` set ps) ?s2 s'"
    by blast
  have "?file (partition_id p) \<notin> part_paths ps \<union> ?file ` partition_id ` set ps"
    using Cons.prems(2,3) partition_paths_distinct[OF assms, of store job stage] by auto
  from changes_only_file[OF rest(3) this] have
    "files s' (?file (partition_id p)) = Some (encode (serde rt) rs)" by simp
  then have "\<forall>i < length (p # ps). files s' (?file (partition_id ((p # ps) ! i))) = Some (encode (serde rt) (rss ! i))"
    using rest(2) rss by (auto simp: nth_Cons split: nat.splits)
  moreover have "changes_only (part_paths (p # ps) \<union> ?file ` partition_id ` set (p # ps)) s s'"
    using changes_only_trans[OF first rest(3)] by (rule changes_only_mono) auto
  ultimately show ?case using s1(1) wr rest(1) by (simp add: io_bind_def)
qed

lemma write_parts_bytes:
  "part \<notin> partition_id ` set ps \<Longrightarrow>
   write_parts rt U store job stage part bytes infos ps s = (Ok (n, infos'), s') \<Longrightarrow> n = bytes"
  by (induction ps arbitrary: bytes infos s) (auto elim!: io_bind_OkE)

section \<open>Properties\<close>

text \<open>
  Claim C35. A reduction by key is local to a task. In a job that reads an input and reduces it by
  key, whatever the number of partitions, every task completes and the rows in its result file are
  the reduction of the records of its own share: the shuffle of the plan has no part in it, and a key
  that occurs in the shares of two tasks has a row in the result file of each.
\<close>

theorem keyed_reduction_is_local:
  assumes "keyed_graph d r k uri fmt key reducer" "iterates it" "t \<in> set (materialize_tasks U it d job)"
    and "0 < dag_partitions d" "can_run U uri content t (ex, s)" "\<And>i. iterates (orders i)"
    and "read_text (serde rt) fmt (dag_partitions d) (task_partition t) content = Ok share"
    and "reduce_by_key_meaning (orders 2) \<lparr>rbk_key = key, rbk_reducer = reducer\<rparr> [share] = Ok [rows]"
    and "readable (serde rt) [share, rows]"
  shows "\<exists>res s'. execute_sync rt orders du U t (ex_store ex) (ex_config ex) s = (Ok res, s') \<and>
    res_status res = TS_Completed \<and> rl_path (res_location res) = task_file U t ex \<and>
    files s' (task_file U t ex) = Some (encode (serde rt) rows)"
  using assms by (rule keyed_task_runs)

text \<open>
  An example: the same record in both shares. Each of the two tasks counts it once, although the
  input has it twice.
\<close>

definition keyed_dag :: dag_specification where
  "keyed_dag = \<lparr>dag_nodes = [node ''r'' (OT_Read ''/in'' ''jsonl''), node ''c'' (OT_ReduceByKey ''k'' ''count'')],
     dag_edges = [\<lparr>edge_from = ''r'', edge_to = ''c''\<rparr>], dag_partitions = 2\<rparr>"

lemma keyed_dag_graph:
  "keyed_graph keyed_dag (node ''r'' (OT_Read ''/in'' ''jsonl'')) (node ''c'' (OT_ReduceByKey ''k'' ''count''))
     ''/in'' ''jsonl'' ''k'' ''count''"
  by (simp add: keyed_graph_def chain_graph_def keyed_dag_def node_def chain_edge_list_def shuffle_node_id_def)

definition twice_input :: fs where
  "twice_input = example_fs\<lparr>files := [''/in'' \<mapsto> text_a @ newline # text_a @ [newline]]\<rparr>"

lemma twice_share:
  assumes "p < 2"
  shows "read_text example_serde ''jsonl'' 2 p (text_a @ newline # text_a @ [newline]) = Ok [rec_a]"
proof -
  have vs: "list_all (reads_back example_serde) [rec_a, rec_a]" by simp
  have "lines (encode example_serde [rec_a, rec_a]) = [text_a, text_a]"
    by (simp only: lines_encode[OF vs]) simp
  then have ls: "lines (text_a @ newline # text_a @ [newline]) = [text_a, text_a]" by simp
  have "json_line example_serde k text_a = Ok [rec_a]" for k
    using reads_backD[of example_serde rec_a] by (simp add: json_line_def) (simp add: rec_a_def)
  with assms show ?thesis by (auto simp: read_text_def read_jsonl_def ls less_2_cases_iff)
qed

lemma count_one:
  "reduce_by_key_meaning key_order \<lparr>rbk_key = ''k'', rbk_reducer = ''count''\<rparr> [[rec_a]] = Ok [[count_row ''a'']]"
proof -
  have "key_order [''a'' \<mapsto> [rec_a]] = [(''a'', [rec_a])]" by (simp add: key_order_def)
  then show ?thesis
    using example_keys(1)
    by (simp add: reduce_by_key_meaning_def reducer_parse_def reduced_row_def count_row_def single_kv_def
        obj_insert_all_def)
qed

lemma keyed_dag_tasks:
  "i < 2 \<Longrightarrow> \<exists>t \<in> set (materialize_tasks example_uuid_api key_order keyed_dag 7). task_partition t = i"
proof -
  have "distinct (map node_id (dag_nodes keyed_dag))" by (simp add: keyed_dag_def node_def)
  from ordered_nodes_mset[OF iterates_key_order this]
  have "ordered_nodes key_order keyed_dag \<noteq> []" by (auto simp: keyed_dag_def)
  then show "i < 2 \<Longrightarrow> \<exists>t \<in> set (materialize_tasks example_uuid_api key_order keyed_dag 7). task_partition t = i"
    by (auto simp: materialize_tasks_def keyed_dag_def read_source_def node_def Let_def)
qed

theorem keyed_reduction_is_local_witness:
  "\<exists>t1 t2 r1 r2 s1 s2. {t1, t2} \<subseteq> set (materialize_tasks example_uuid_api key_order keyed_dag 7) \<and> t1 \<noteq> t2 \<and>
     execute_sync example_runtime (\<lambda>_. key_order) 5 example_uuid_api t1
       (ex_store (example_executor 1)) (ex_config (example_executor 1)) twice_input = (Ok r1, s1) \<and>
     files s1 (rl_path (res_location r1)) = Some (encode example_serde [count_row ''a'']) \<and>
     execute_sync example_runtime (\<lambda>_. key_order) 5 example_uuid_api t2
       (ex_store (example_executor 1)) (ex_config (example_executor 1)) twice_input = (Ok r2, s2) \<and>
     files s2 (rl_path (res_location r2)) = Some (encode example_serde [count_row ''a''])"
proof -
  have run: "\<exists>res s'. execute_sync example_runtime (\<lambda>_. key_order) 5 example_uuid_api t
       (ex_store (example_executor 1)) (ex_config (example_executor 1)) twice_input = (Ok res, s') \<and>
     files s' (rl_path (res_location res)) = Some (encode example_serde [count_row ''a''])"
    if t: "t \<in> set (materialize_tasks example_uuid_api key_order keyed_dag 7)" for t
  proof -
    have can: "can_run example_uuid_api ''/in'' (text_a @ newline # text_a @ [newline]) t (example_executor 1, twice_input)"
      using example_machine[of "example_executor 1"]
      by (simp add: twice_input_def example_executor_def example_store_def default_config_def)
    have share: "read_text (serde example_runtime) ''jsonl'' (dag_partitions keyed_dag) (task_partition t)
        (text_a @ newline # text_a @ [newline]) = Ok [rec_a]"
      using t twice_share by (auto simp: example_runtime_def keyed_dag_def materialize_tasks_def Let_def
          split: option.splits if_splits)
    show ?thesis
      using keyed_reduction_is_local[where orders = "\<lambda>_. key_order" and rt = example_runtime and du = 5,
          OF keyed_dag_graph iterates_key_order t _ can iterates_key_order share count_one]
      by (auto simp: example_runtime_def keyed_dag_def)
  qed
  obtain t1 t2 where t: "t1 \<in> set (materialize_tasks example_uuid_api key_order keyed_dag 7)" "task_partition t1 = 0"
    "t2 \<in> set (materialize_tasks example_uuid_api key_order keyed_dag 7)" "task_partition t2 = 1"
    using keyed_dag_tasks[of 0] keyed_dag_tasks[of 1] by auto
  then have "t1 \<noteq> t2" by auto
  with t run[OF t(1)] run[OF t(3)] show ?thesis by blast
qed

text \<open>
  Claim C36. Tasks of a job overwrite each other's results. The partitions a task ends in (those of a
  shuffle are numbered from 0 in every task) are written to files named after job, stage and partition
  number only. Two tasks of a job that end in partitions with the same numbers both complete; of the
  files, only the records of the second are left, and a task whose own number is not among the numbers
  reports a file that it never wrote, of size 0.
\<close>

theorem later_task_overwrites:
  assumes "uuid_names_ok U" "task_job_id t2 = task_job_id t1"
    and "length (operator_defs t2) = length (operator_defs t1)"
    and "parts_hold (serde rt) s ps rss" "distinct (map partition_id ps)"
    and "\<forall>i. partition_path U store (task_job_id t1) (length (operator_defs t1) - 1) i \<notin> part_paths ps \<union> part_paths qs"
    and "finish_task rt U t1 store du name (Ok (ps, tr1), s) = (Ok r1, s1)"
    and "parts_hold (serde rt) s1 qs qss" "map partition_id qs = map partition_id ps"
  shows "\<exists>r2 s2. finish_task rt U t2 store du name (Ok (qs, tr2), s1) = (Ok r2, s2) \<and>
    res_status r1 = TS_Completed \<and> res_status r2 = TS_Completed \<and>
    (\<forall>i < length ps. files s2 (partition_path U store (task_job_id t1) (length (operator_defs t1) - 1)
       (partition_id (ps ! i))) = Some (encode (serde rt) (qss ! i))) \<and>
    (task_partition t2 \<notin> partition_id ` set ps \<longrightarrow>
       rl_size_bytes (res_location r2) = 0 \<and>
       files s2 (rl_path (res_location r2)) = files s1 (rl_path (res_location r2)))"
proof -
  let ?job = "task_job_id t1" and ?stage = "length (operator_defs t1) - 1"
  let ?file = "partition_path U store ?job ?stage"
  have apart: "\<forall>i. ?file i \<notin> part_paths ps" "\<forall>i. ?file i \<notin> part_paths qs" using assms(6) by auto
  have ids: "distinct (map partition_id qs)" "length qs = length ps" "partition_id ` set qs = partition_id ` set ps"
    using assms(5,9) by (simp, metis length_map, metis list.set_map)
  from write_parts_files[OF assms(1,4,5) apart(1), of "task_partition t1" 0 "[]"] assms(7)
  have r1: "res_status r1 = TS_Completed"
    by (auto simp: finish_task_def Let_def completed_result_def split: prod.splits)
  from write_parts_files[OF assms(1,8) ids(1) apart(2), of "task_partition t2" 0 "[]"] obtain bytes infos s2 where
    wr: "write_parts rt U store ?job ?stage (task_partition t2) 0 [] qs s1 = (Ok (bytes, infos), s2)"
      "\<forall>i < length qs. files s2 (?file (partition_id (qs ! i))) = Some (encode (serde rt) (qss ! i))"
      "changes_only (part_paths qs \<union> ?file ` partition_id ` set qs) s1 s2"
    by auto
  have nth: "partition_id (qs ! i) = partition_id (ps ! i)" if "i < length ps" for i
    using that assms(9) ids(2) by (metis nth_map)
  have zero: "bytes = 0" if "task_partition t2 \<notin> partition_id ` set qs"
    using wr(1) write_parts_bytes[of "task_partition t2" qs rt U store ?job ?stage 0 "[]" s1] that by auto
  have same: "files s2 (?file (task_partition t2)) = files s1 (?file (task_partition t2))"
    if "task_partition t2 \<notin> partition_id ` set qs"
    using that apart(2) partition_paths_distinct[OF assms(1), of store ?job ?stage]
    by (intro changes_only_file[OF wr(3)]) auto
  show ?thesis
    using wr r1 zero same nth ids assms(2,3)
    by (auto simp: finish_task_def Let_def completed_result_def)
qed

theorem later_task_overwrites_witness:
  "\<exists>r1 s1 r2 s2.
     finish_task example_runtime example_uuid_api example_task example_store 5 ''shuffle''
       (Ok ([example_part], \<lparr>et_job_id = ''7'', et_stages = []\<rparr>), example_fs) = (Ok r1, s1) \<and>
     finish_task example_runtime example_uuid_api example_task example_store 5 ''shuffle''
       (Ok ([partition_empty 3 100 ''/d/t''], \<lparr>et_job_id = ''7'', et_stages = []\<rparr>), s1) = (Ok r2, s2) \<and>
     files s1 (partition_path example_uuid_api example_store 7 1 3) = Some (encode example_serde [rec_a, rec_b]) \<and>
     files s2 (partition_path example_uuid_api example_store 7 1 3) = Some [] \<and> rl_size_bytes (res_location r2) = 0"
proof -
  let ?tr = "\<lparr>et_job_id = ''7'', et_stages = []\<rparr>"
  let ?file = "partition_path example_uuid_api example_store 7 1"
  have t: "task_job_id example_task = 7" "length (operator_defs example_task) = 2" "task_partition example_task = 0"
    by (simp_all add: example_task_def operator_defs_def)
  have hold: "parts_hold (serde example_runtime) example_fs [example_part] [[rec_a, rec_b]]"
    using example_part_holds by (simp add: example_runtime_def)
  have slash: "CHR ''/'' \<in> set (file_name example_uuid_api kind job stage p)" for kind job stage p
    by (simp add: file_name_def slash_def)
  have apart: "?file i \<noteq> ''/d/s'' \<and> ?file i \<noteq> ''/d/t''" for i
    using file_name_start[OF example_uuid_names, of "''part''" 7 1 i] slash[of "''part''" 7 1 i]
    by (auto simp: paths_file_name path_join_def example_store_def slash_def)
  have "\<exists>out s1. write_parts example_runtime example_uuid_api example_store 7 1 0 0 [] [example_part] example_fs =
      (Ok out, s1) \<and> (\<forall>i < length [example_part]. files s1 (?file (partition_id ([example_part] ! i))) =
        Some (encode (serde example_runtime) ([[rec_a, rec_b]] ! i))) \<and>
      changes_only (part_paths [example_part] \<union> ?file ` partition_id ` set [example_part]) example_fs s1"
    using apart by (intro write_parts_files[OF example_uuid_names hold]) auto
  then obtain bytes infos s1 where wr:
    "write_parts example_runtime example_uuid_api example_store 7 1 0 0 [] [example_part] example_fs = (Ok (bytes, infos), s1)"
    "files s1 (?file 3) = Some (encode (serde example_runtime) [rec_a, rec_b])"
    "changes_only {?file 3, ''/d/s''} example_fs s1"
    by auto
  then obtain r1 where r1: "finish_task example_runtime example_uuid_api example_task example_store 5 ''shuffle''
      (Ok ([example_part], ?tr), example_fs) = (Ok r1, s1)"
    using t by (simp add: finish_task_def Let_def)
  have "path_vacant ''/d/t'' s1"
    using apart[of 3] by (intro path_vacant_frame[OF _ wr(3)]) auto
  then have hold2: "parts_hold (serde example_runtime) s1 [partition_empty 3 100 ''/d/t''] [[]]"
    by (simp add: partition_empty_holds)
  have paths: "\<forall>i. partition_path example_uuid_api example_store (task_job_id example_task)
      (length (operator_defs example_task) - 1) i \<notin> part_paths [example_part] \<union> part_paths [partition_empty 3 100 ''/d/t'']"
    using apart t by (simp add: partition_empty_def cache_new_def)
  from later_task_overwrites[OF example_uuid_names refl refl hold _ paths r1 hold2, of ?tr] r1 wr(2) t show ?thesis
    by (auto simp: partition_empty_def example_runtime_def)
qed

end
