(* ===== verification/Client.thy ===== *)
theory Client
  imports Dag Http
begin

text \<open>
  The command line client: \<open>src/src/client/mod.rs\<close> (addresses), \<open>src/src/client/types/job.rs\<close> (the
  answers it reads) and \<open>src/src/client/commands\<close> (asking, waiting for the end of a job, downloading
  outputs and ordering the graph for display). The network is the parameter \<open>net\<close>: what a request
  gets, depending on the requests sent before; decoding of answers and colours are parameters.
  What the commands print is in the theory \<open>Client_Display\<close>.
\<close>

section \<open>The answers a client reads\<close>

record stage_info =
  si_stage_id :: "nat option"
  si_id :: "string option"
  si_status :: "string option"
  si_tasks_total :: "nat option"
  si_tasks_running :: "nat option"
  si_tasks_completed :: "nat option"
  si_tasks_failed :: "nat option"
  si_errors :: "string list option"

record task_info =
  ti_task_id :: "string option"
  ti_status :: "string option"
  ti_stage_id :: "nat option"

record stage_metric =
  cs_stage_id :: nat
  cs_duration_ms :: nat
  cs_tasks_total :: nat
  cs_tasks_completed :: nat
  cs_tasks_failed :: nat

record client_aggregate =
  ca_worker_id :: string
  ca_tasks_completed :: nat
  ca_tasks_failed :: nat
  ca_records_processed :: nat
  ca_cpu_time_ms :: nat
  ca_wall_time_ms :: nat

record client_metrics =
  cm_execution_time_ms :: "nat option"
  cm_tasks_total :: "nat option"
  cm_tasks_completed :: "nat option"
  cm_tasks_failed :: "nat option"
  cm_records_processed :: "nat option"
  cm_stages :: "stage_metric list option"
  cm_workers :: "client_aggregate list option"

record client_node =
  cn_id :: string
  cn_operator :: json

record client_edge =
  ce_from :: string
  ce_to :: string

record dag_spec =
  ds_nodes :: "client_node list"
  ds_edges :: "client_edge list"

record job_response =
  jr_job_id :: string
  jr_status :: string
  jr_progress :: flt
  jr_stages :: "stage_info list"
  jr_tasks :: "task_info list"
  jr_metrics :: "client_metrics option"
  jr_output_files :: "string list"
  jr_outputs :: "string list"
  jr_errors :: "string list"
  jr_dag :: "dag_spec option"

section \<open>Addresses\<close>

definition app_master :: "string option \<Rightarrow> environment \<Rightarrow> string" where
  "app_master master env =
     trim_end_matches (\<lambda>c. c = slash)
       (case master of
          Some m \<Rightarrow> m
        | None \<Rightarrow> (case env ''MASTER_URL'' of Some m \<Rightarrow> m | None \<Rightarrow> ''http://127.0.0.1:8080''))"

definition app_url :: "string \<Rightarrow> string \<Rightarrow> string" where
  "app_url master p = master @ ''/'' @ dropWhile (\<lambda>c. c = slash) p"

section \<open>Requests\<close>

record answer =
  an_status :: nat
  an_body :: "(error, string) res"

type_synonym request = "string \<times> string \<times> string"
type_synonym network = "request list \<Rightarrow> request \<Rightarrow> (error, answer) res"

text \<open>A line on the standard output, one on the standard error, a table of rows.\<close>

datatype screen_item = Out string | ErrOut string | Rows "string list list"

text \<open>What a client acts on: the requests it has sent, the files, and what it has printed.\<close>

record world =
  sent :: "request list"
  disk :: fs
  shown :: "screen_item list"

type_synonym 'a net = "(world, error, 'a) io"

definition request :: "network \<Rightarrow> request \<Rightarrow> answer net" where
  "request net q w = (net (sent w) q, w\<lparr>sent := sent w @ [q]\<rparr>)"

definition on_disk :: "'a fsio \<Rightarrow> 'a net" where
  "on_disk f w = (case f (disk w) of (r, s) \<Rightarrow> (r, w\<lparr>disk := s\<rparr>))"

definition printed :: "screen_item list \<Rightarrow> world \<Rightarrow> world" where
  "printed items w = w\<lparr>shown := shown w @ items\<rparr>"

definition print_items :: "screen_item list \<Rightarrow> unit net" where
  "print_items items w = (Ok (), printed items w)"

definition body_or_empty :: "answer \<Rightarrow> string" where
  "body_or_empty a = (case an_body a of Ok b \<Rightarrow> b | _ \<Rightarrow> [])"

definition handle_error :: "(string \<Rightarrow> string) \<Rightarrow> answer \<Rightarrow> (error, answer) res" where
  "handle_error red a =
     (if is_success (an_status a) then Ok a
      else Err (Message (red ''[ERROR]'' @ '' '' @ show_nat (an_status a) @ '' '' @ body_or_empty a)))"

definition fetch_json :: "network \<Rightarrow> (string \<Rightarrow> string) \<Rightarrow> (string \<Rightarrow> (error, 'a) res) \<Rightarrow> string \<Rightarrow> 'a net" where
  "fetch_json net red decode url =
     io_bind (request net (''GET'', url, [])) (\<lambda>resp.
     io_bind (io_lift (handle_error red resp)) (\<lambda>resp.
       io_lift (res_bind (an_body resp) decode)))"

definition post_json :: "network \<Rightarrow> (string \<Rightarrow> string) \<Rightarrow> (string \<Rightarrow> (error, 'a) res) \<Rightarrow> string \<Rightarrow> string \<Rightarrow> 'a net" where
  "post_json net red decode url body =
     io_bind (request net (''POST'', url, body)) (\<lambda>resp.
     io_bind (io_lift (handle_error red resp)) (\<lambda>resp.
       io_lift (res_bind (an_body resp) decode)))"

definition job_url :: "string \<Rightarrow> string \<Rightarrow> string" where
  "job_url master job = app_url master (''/api/v1/jobs/'' @ job)"

section \<open>Waiting for the end of a job\<close>

partial_function (option) watch_until_terminal ::
  "bool net \<Rightarrow> world \<Rightarrow> ((error, unit) res \<times> world) option" where
  "watch_until_terminal check w =
     (case check w of
        (Ok b, w') \<Rightarrow> if b then Some (Ok (), w') else watch_until_terminal check w'
      | (Err e, w') \<Rightarrow> Some (Err e, w')
      | (Panic, w') \<Rightarrow> Some (Panic, w'))"

text \<open>Upper case of the ASCII letters, which are all that a status has.\<close>

definition is_terminal :: "string \<Rightarrow> bool" where
  "is_terminal status \<longleftrightarrow> map ascii_upper status \<in> {''FAILED'', ''SUCCEEDED'', ''COMPLETED''}"

text \<open>
  A poll of \<open>status --watch\<close>: \<open>view\<close> is what is printed of the job at the end. The progress bar, which
  the terminal redraws, is not part of what is printed.
\<close>

definition terminal_check :: "network \<Rightarrow> (string \<Rightarrow> string) \<Rightarrow> (string \<Rightarrow> (error, job_response) res) \<Rightarrow>
    (job_response \<Rightarrow> screen_item list) \<Rightarrow> string \<Rightarrow> bool net" where
  "terminal_check net red decode view url =
     io_bind (fetch_json net red decode url) (\<lambda>j.
       if is_terminal (jr_status j) then io_bind (print_items (view j)) (\<lambda>_. io_return True)
       else io_return False)"

definition watch_job :: "network \<Rightarrow> (string \<Rightarrow> string) \<Rightarrow> (string \<Rightarrow> (error, job_response) res) \<Rightarrow>
    (job_response \<Rightarrow> screen_item list) \<Rightarrow> string \<Rightarrow> string \<Rightarrow> world \<Rightarrow> ((error, unit) res \<times> world) option" where
  "watch_job net red decode view master job =
     watch_until_terminal (terminal_check net red decode view (job_url master job))"

text \<open>
  \<open>status\<close> without \<open>--watch\<close>: the list of workers is optional, a failure to get it is dropped. The
  type of the decoded workers is left open here.
\<close>

definition workers_url :: "string \<Rightarrow> string" where
  "workers_url master = app_url master ''/api/v1/workers''"

definition status_once :: "network \<Rightarrow> (string \<Rightarrow> string) \<Rightarrow> (string \<Rightarrow> (error, job_response) res) \<Rightarrow>
    (string \<Rightarrow> (error, 'w) res) \<Rightarrow> string \<Rightarrow> string \<Rightarrow> (job_response \<times> 'w option) net" where
  "status_once net red decode decode_workers master job w =
     (case fetch_json net red decode_workers (workers_url master) w of (r, w') \<Rightarrow>
        io_bind (fetch_json net red decode (job_url master job))
          (\<lambda>j. io_return (j, case r of Ok ws \<Rightarrow> Some ws | _ \<Rightarrow> None)) w')"

section \<open>Downloading\<close>

fun attempts :: "nat \<Rightarrow> network \<Rightarrow> (nat \<Rightarrow> string) \<Rightarrow> string \<Rightarrow> string \<Rightarrow> path \<Rightarrow> string \<Rightarrow> error option \<Rightarrow> unit net" where
  "attempts 0 net show_code remote url dest line last_err =
     io_lift (Err (case last_err of Some e \<Rightarrow> e | None \<Rightarrow> Message (''failed to download '' @ remote)))"
| "attempts (Suc n) net show_code remote url dest line last_err = (\<lambda>w.
     case request net (''GET'', url, []) w of
       (Ok resp, w') \<Rightarrow>
         if is_success (an_status resp)
         then io_bind (io_lift (an_body resp)) (\<lambda>bytes.
              io_bind (on_disk (write_file dest bytes)) (\<lambda>_. print_items [Out line])) w'
         else attempts n net show_code remote url dest line
           (Some (Message (''http '' @ show_code (an_status resp) @ '' '' @ body_or_empty resp))) w'
     | (Err e, w') \<Rightarrow> attempts n net show_code remote url dest line (Some e) w'
     | (Panic, w') \<Rightarrow> (Panic, w'))"

text \<open>The mark of a finished download is the UTF-8 encoding of U+2713.\<close>

definition check_mark :: string where
  "check_mark = [CHR 0xE2, CHR 0x9C, CHR 0x93]"

definition download_file :: "network \<Rightarrow> (string \<Rightarrow> string) \<Rightarrow> (nat \<Rightarrow> string) \<Rightarrow> string \<Rightarrow> path \<Rightarrow> path \<Rightarrow> unit net" where
  "download_file net green show_code master base_dir remote =
     (let rel = dropWhile (\<lambda>c. c = slash) remote; dest = path_join base_dir rel
      in io_bind (on_disk (ensure_parent dest)) (\<lambda>_.
           attempts 3 net show_code remote (master @ ''/'' @ rel) dest (green check_mark @ '' '' @ rel) None))"

fun download_all :: "network \<Rightarrow> (string \<Rightarrow> string) \<Rightarrow> (nat \<Rightarrow> string) \<Rightarrow> string \<Rightarrow> path \<Rightarrow> path list \<Rightarrow> unit net" where
  "download_all net green show_code master dir [] = io_return ()"
| "download_all net green show_code master dir (p # ps) =
     io_bind (download_file net green show_code master dir p) (\<lambda>_. download_all net green show_code master dir ps)"

definition results :: "network \<Rightarrow> (string \<Rightarrow> string) \<Rightarrow> (string \<Rightarrow> string) \<Rightarrow> (string \<Rightarrow> string) \<Rightarrow>
    (string \<Rightarrow> (error, job_response) res) \<Rightarrow> (nat \<Rightarrow> string) \<Rightarrow> string \<Rightarrow> string \<Rightarrow> path \<Rightarrow> unit net" where
  "results net red green yellow decode show_code master job dir =
     io_bind (fetch_json net red decode (job_url master job)) (\<lambda>j.
       let outputs = (if jr_output_files j \<noteq> [] then jr_output_files j else jr_outputs j)
       in if outputs = [] then print_items [Out (yellow ''No output files reported for this job.'')]
          else io_bind (on_disk (create_dir_all dir)) (\<lambda>_.
               io_bind (print_items [Out ''Downloading outputs...'']) (\<lambda>_.
               io_bind (download_all net green show_code master dir outputs) (\<lambda>_.
                 print_items [Out (green ''Saved to'' @ '' '' @ dir)]))))"

text \<open>\<open>submit\<close>: \<open>check_json\<close> parses the file and prints the value it holds.\<close>

definition submit :: "network \<Rightarrow> (string \<Rightarrow> string) \<Rightarrow> (string \<Rightarrow> (error, job_response) res) \<Rightarrow>
    (string \<Rightarrow> (error, string) res) \<Rightarrow> string \<Rightarrow> path \<Rightarrow> job_response net" where
  "submit net red decode check_json master file =
     io_bind (on_disk (read_file file)) (\<lambda>body.
     io_bind (io_lift (check_json body)) (\<lambda>dag.
       post_json net red decode (app_url master ''/api/v1/jobs'') dag))"

section \<open>The graph\<close>

definition client_edge_counts :: "client_edge \<Rightarrow> counts \<times> children \<Rightarrow> counts \<times> children" where
  "client_edge_counts e = (\<lambda>(inc, out).
     let out' = out(ce_from e \<mapsto> (case out (ce_from e) of None \<Rightarrow> [] | Some l \<Rightarrow> l) @ [ce_to e]);
         inc' = (case inc (ce_to e) of
                   Some c \<Rightarrow> inc(ce_to e \<mapsto> c + 1) | None \<Rightarrow> inc(ce_to e \<mapsto> 1))
     in (case inc' (ce_from e) of None \<Rightarrow> inc'(ce_from e \<mapsto> 0) | Some _ \<Rightarrow> inc', out'))"

fun client_kahn :: "nat \<Rightarrow> children \<Rightarrow> counts \<Rightarrow> string list \<Rightarrow> string set \<Rightarrow> string list \<Rightarrow> string list option" where
  "client_kahn 0 out inc q seen order = None"
| "client_kahn (Suc fuel) out inc [] seen order = Some order"
| "client_kahn (Suc fuel) out inc (n # q) seen order =
     (if n \<in> seen then client_kahn fuel out inc q seen order
      else
        (let (inc', q') = (case out n of None \<Rightarrow> (inc, q) | Some cs \<Rightarrow> fold relax_child cs (inc, q))
         in client_kahn fuel out inc' q' (insert n seen) (order @ [n])))"

definition client_fuel :: "client_node list \<Rightarrow> client_edge list \<Rightarrow> nat" where
  "client_fuel ns es = Suc (length ns + 2 * length es)"

definition client_run :: "(counts \<Rightarrow> (string \<times> nat) list) \<Rightarrow> client_node list \<Rightarrow> client_edge list \<Rightarrow>
    string list option" where
  "client_run it ns es =
     (let (inc, out) = fold client_edge_counts es (map_of (map (\<lambda>n. (cn_id n, 0)) ns), Map.empty);
          q = map fst (filter (\<lambda>(i, c). c = 0) (it inc))
      in client_kahn (client_fuel ns es) out inc q {} [])"

definition topo_sort :: "(counts \<Rightarrow> (string \<times> nat) list) \<Rightarrow> client_node list \<Rightarrow> client_edge list \<Rightarrow> string list" where
  "topo_sort it ns es =
     fold (\<lambda>n acc. if cn_id n \<in> set acc then acc else acc @ [cn_id n]) ns
       (case client_run it ns es of None \<Rightarrow> [] | Some order \<Rightarrow> order)"

text \<open>The arrows are the UTF-8 encodings of U+2192 and U+2193.\<close>

definition arrow_right :: string where
  "arrow_right = [CHR '' '', CHR 0xE2, CHR 0x86, CHR 0x92, CHR '' '']"

definition arrow_down :: string where
  "arrow_down = [CHR 0xE2, CHR 0x86, CHR 0x93]"

fun join_with :: "string \<Rightarrow> string list \<Rightarrow> string" where
  "join_with sep [] = []"
| "join_with sep [x] = x"
| "join_with sep (x # xs) = x @ sep @ join_with sep xs"

fun order_lines :: "string list \<Rightarrow> string list" where
  "order_lines [] = []"
| "order_lines [x] = [''[ '' @ x @ '' ]'']"
| "order_lines (x # xs) = (''[ '' @ x @ '' ]'') # arrow_down # order_lines xs"

definition render_dag :: "(counts \<Rightarrow> (string \<times> nat) list) \<Rightarrow> dag_spec \<Rightarrow> string list" where
  "render_dag it d =
     (if ds_edges d = []
      then [join_with arrow_right (map (\<lambda>n. ''['' @ cn_id n @ '']'') (ds_nodes d))]
      else order_lines (topo_sort it (ds_nodes d) (ds_edges d)))"

definition stage_node :: "stage_info \<Rightarrow> client_node" where
  "stage_node s =
     \<lparr>cn_id = (case si_stage_id s of Some v \<Rightarrow> show_nat v | None \<Rightarrow> ''stage''),
      cn_operator = JObject [(''Stage'', case si_status s of None \<Rightarrow> JNull | Some x \<Rightarrow> JString x)]\<rparr>"

definition show_dag :: "(counts \<Rightarrow> (string \<times> nat) list) \<Rightarrow> (string \<Rightarrow> string) \<Rightarrow> job_response \<Rightarrow> string list" where
  "show_dag it yellow j =
     (case jr_dag j of
        Some d \<Rightarrow> render_dag it d
      | None \<Rightarrow>
          if jr_stages j \<noteq> [] then render_dag it \<lparr>ds_nodes = map stage_node (jr_stages j), ds_edges = []\<rparr>
          else [yellow ''No DAG information available''])"

definition dag_command :: "(counts \<Rightarrow> (string \<times> nat) list) \<Rightarrow> network \<Rightarrow> (string \<Rightarrow> string) \<Rightarrow> (string \<Rightarrow> string) \<Rightarrow>
    (string \<Rightarrow> (error, job_response) res) \<Rightarrow> string \<Rightarrow> string \<Rightarrow> unit net" where
  "dag_command it net red yellow decode master job =
     io_bind (fetch_json net red decode (job_url master job)) (\<lambda>j. print_items (map Out (show_dag it yellow j)))"

section \<open>Lemmas: the order of the graph\<close>

text \<open>The graph as the master has it, with every source of an edge as a node.\<close>

definition master_edge :: "client_edge \<Rightarrow> dag_edge" where
  "master_edge e = \<lparr>edge_from = ce_from e, edge_to = ce_to e\<rparr>"

definition plain_node :: "string \<Rightarrow> dag_node" where
  "plain_node i = \<lparr>node_id = i, node_operator = OT_Identity\<rparr>"

definition extended :: "client_node list \<Rightarrow> client_edge list \<Rightarrow> dag_specification" where
  "extended ns es = \<lparr>dag_nodes = map plain_node (map cn_id ns @ map ce_from es),
     dag_edges = map master_edge es, dag_partitions = 0\<rparr>"

lemma graph_sel [simp]:
  "edge_from (master_edge e) = ce_from e" "edge_to (master_edge e) = ce_to e" "node_id (plain_node i) = i"
  by (simp_all add: master_edge_def plain_node_def)

definition with_sources :: "string set \<Rightarrow> counts \<times> children \<Rightarrow> counts \<times> children" where
  "with_sources S = (\<lambda>(inc, out). (\<lambda>v. if inc v = None \<and> v \<in> S then Some 0 else inc v, out))"

lemma client_edge_counts_step:
  "client_edge_counts e (with_sources S c) = with_sources (insert (ce_from e) S) (count_edge (master_edge e) c)"
  by (cases c) (auto simp: client_edge_counts_def count_edge_eq with_sources_def Let_def fun_eq_iff
      split: option.splits)

lemma client_counts_fold:
  "fold client_edge_counts es c = with_sources (ce_from ` set es) (fold count_edge (map master_edge es) c)"
proof (induction es rule: rev_induct)
  case Nil
  then show ?case by (simp add: with_sources_def split: prod.splits)
next
  case (snoc e es)
  then show ?case by (simp add: client_edge_counts_step)
qed

lemma initial_counts_eq:
  "initial_counts ns v = (if v \<in> node_id ` set ns then Some 0 else None)"
  by (induction ns) (auto simp: initial_counts_def)

lemma client_counts:
  "fold client_edge_counts es (map_of (map (\<lambda>n. (cn_id n, 0)) ns), Map.empty) =
     fold count_edge (dag_edges (extended ns es)) (initial_counts (dag_nodes (extended ns es)), Map.empty)"
proof -
  have "map_of (map (\<lambda>n. (cn_id n, 0)) ns) = initial_counts (map plain_node (map cn_id ns))"
    by (simp add: initial_counts_def comp_def)
  then show ?thesis
    by (auto simp: client_counts_fold with_sources_def fold_count_edge extended_def initial_counts_eq
        fun_eq_iff image_Un image_image)
qed

lemma client_kahn_eq:
  assumes "kahn_inv es ids ds q inc" "snd ` set es \<subseteq> ids"
    and "\<And>u. (case out u of None \<Rightarrow> [] | Some cs \<Rightarrow> cs) = successors es u"
  shows "client_kahn fuel out inc q (set ds) ds = kahn fuel out inc q ds"
  using assms(1)
proof (induction fuel arbitrary: inc q ds)
  case (Suc fuel)
  show ?case
  proof (cases q)
    case (Cons n q')
    from kahn_inv_step[OF Suc.prems[unfolded Cons] assms(2)] obtain new inc' where
      eq: "fold relax_child (successors es n) (inc, q') = (inc', q' @ new)"
      and inv: "kahn_inv es ids (ds @ [n]) (q' @ new) inc'" by blast
    have "n \<notin> set ds" using Suc.prems Cons by (auto simp: kahn_inv_def)
    with Suc.IH[OF inv] Cons eq assms(3)[of n] show ?thesis
      by (cases "out n") (auto simp: Let_def)
  qed simp
qed simp

lemma append_missing_Cons:
  "append_missing (n # ns) acc = append_missing ns (if node_id n \<in> set acc then acc else acc @ [node_id n])"
  by (simp add: append_missing_def)

lemma client_fold_missing:
  "map cn_id ns = map node_id ms \<Longrightarrow>
   fold (\<lambda>n acc. if cn_id n \<in> set acc then acc else acc @ [cn_id n]) ns acc = append_missing ms acc"
proof (induction ns arbitrary: ms acc)
  case (Cons n ns)
  then obtain k ks where "ms = k # ks" "cn_id n = node_id k" "map cn_id ns = map node_id ks" by auto
  with Cons.IH[of ks] show ?case by (simp add: append_missing_Cons)
qed (simp add: append_missing_def)

lemma extended_run:
  assumes "iterates it"
  shows "client_run it ns es = kahn_run it (extended ns es)"
proof -
  let ?d = "extended ns es"
  obtain inc out where io: "fold count_edge (dag_edges ?d) (initial_counts (dag_nodes ?d), Map.empty) = (inc, out)"
    by (meson surj_pair)
  have "dom inc \<subseteq> edge_to ` set (dag_edges ?d) \<union> node_id ` set (dag_nodes ?d)"
    using io by (auto simp: fold_count_edge initial_counts_eq split: if_splits)
  then have "finite (dom inc)" by (rule finite_subset) simp
  with assms have "enumerates (it inc) inc" by (simp add: iterates_def)
  note start = kahn_start[OF io this]
  have "client_fuel ns es = kahn_fuel ?d" by (simp add: client_fuel_def kahn_fuel_def extended_def)
  moreover have "snd ` set (edge_pairs ?d) \<subseteq> known_ids ?d" by (auto simp: known_ids_def)
  ultimately show ?thesis
    using client_kahn_eq[OF start(1) _ start(2)] io client_counts[of es ns]
    by (simp add: client_run_def kahn_run_def)
qed

lemma kahn_more: "kahn n out inc q acc = Some r \<Longrightarrow> n \<le> m \<Longrightarrow> kahn m out inc q acc = Some r"
proof (induction n arbitrary: m inc q acc)
  case (Suc n)
  then obtain k where m: "m = Suc k" "n \<le> k" by (cases m) auto
  show ?case
  proof (cases q)
    case Nil
    with Suc.prems m show ?thesis by simp
  next
    case (Cons i q')
    obtain inc1 q1 where "(case out i of None \<Rightarrow> (inc, q') | Some cs \<Rightarrow> fold relax_child cs (inc, q')) = (inc1, q1)"
      by (meson surj_pair)
    with Suc.prems Suc.IH[of inc1 q1 "acc @ [i]" k] m Cons show ?thesis by (auto split: option.splits)
  qed
qed simp

lemma same_graph_counts:
  assumes "map cn_id ns = map node_id (dag_nodes d)" "map master_edge es = dag_edges d"
    and "ce_from ` set es \<subseteq> known_ids d"
  shows "fold count_edge (dag_edges (extended ns es)) (initial_counts (dag_nodes (extended ns es)), Map.empty) =
    fold count_edge (dag_edges d) (initial_counts (dag_nodes d), Map.empty)"
proof -
  have "cn_id ` set ns = node_id ` set (dag_nodes d)"
    using assms(1) by (metis image_set)
  moreover have "known_ids d = node_id ` set (dag_nodes d) \<union> edge_to ` set (dag_edges d)"
    by (simp add: known_ids_def edge_pairs_def image_image)
  ultimately show ?thesis
    using assms(2,3) by (auto simp: extended_def fold_count_edge initial_counts_eq fun_eq_iff image_Un image_image)
qed

lemma same_run:
  assumes "iterates it" "map cn_id ns = map node_id (dag_nodes d)" "map master_edge es = dag_edges d"
    and "ce_from ` set es \<subseteq> known_ids d"
  shows "kahn_run it (extended ns es) = kahn_run it d"
proof -
  obtain r where r: "kahn_run it d = Some r" using kahn_run_correct[OF assms(1)] by blast
  have "length ns = length (dag_nodes d)" using assms(2) by (rule map_eq_imp_length_eq)
  then have "kahn_fuel d \<le> kahn_fuel (extended ns es)"
    using assms(3) by (auto simp: kahn_fuel_def extended_def)
  from kahn_more[OF _ this] r show ?thesis
    by (simp add: kahn_run_def same_graph_counts[OF assms(2-4)] Let_def split: prod.splits)
qed

section \<open>Lemmas: asking again\<close>

text \<open>The answer to a request for a job, after the given requests.\<close>

definition job_answer :: "network \<Rightarrow> (string \<Rightarrow> string) \<Rightarrow> (string \<Rightarrow> (error, job_response) res) \<Rightarrow> string \<Rightarrow>
    request list \<Rightarrow> (error, job_response) res" where
  "job_answer net red decode url earlier =
     res_bind (net earlier (''GET'', url, [])) (\<lambda>resp.
       res_bind (handle_error red resp) (\<lambda>resp. res_bind (an_body resp) decode))"

lemma terminal_check_eq:
  "terminal_check net red decode view url w =
     (let w' = w\<lparr>sent := sent w @ [(''GET'', url, [])]\<rparr>
      in case job_answer net red decode url (sent w) of
           Ok j \<Rightarrow> if is_terminal (jr_status j) then (Ok True, printed (view j) w') else (Ok False, w')
         | Err e \<Rightarrow> (Err e, w') | Panic \<Rightarrow> (Panic, w'))"
  by (auto simp: terminal_check_def fetch_json_def request_def job_answer_def io_bind_def io_lift_def
      io_return_def print_items_def Let_def split: res.splits)

definition polled :: "nat \<Rightarrow> string \<Rightarrow> world \<Rightarrow> world" where
  "polled n url w = w\<lparr>sent := sent w @ replicate n (''GET'', url, [])\<rparr>"

lemma watch_skip:
  assumes "\<forall>i < n. \<exists>j. job_answer net red decode url (sent (polled i url w)) = Ok j \<and> \<not> is_terminal (jr_status j)"
  shows "watch_until_terminal (terminal_check net red decode view url) w =
    watch_until_terminal (terminal_check net red decode view url) (polled n url w)"
  using assms
proof (induction n)
  case 0
  then show ?case by (simp add: polled_def)
next
  case (Suc n)
  then obtain j where "job_answer net red decode url (sent (polled n url w)) = Ok j" "\<not> is_terminal (jr_status j)"
    by blast
  then have "terminal_check net red decode view url (polled n url w) = (Ok False, polled (Suc n) url w)"
    by (simp add: terminal_check_eq polled_def replicate_append_same Let_def)
  then have "watch_until_terminal (terminal_check net red decode view url) (polled n url w) =
      watch_until_terminal (terminal_check net red decode view url) (polled (Suc n) url w)"
    by (subst watch_until_terminal.simps) simp
  with Suc show ?case by simp
qed

text \<open>A watch that ends has seen an answer that is terminal or an error.\<close>

lemma watch_ends:
  "watch_until_terminal check w = Some y \<Longrightarrow>
   \<forall>url net red decode view. check = terminal_check net red decode view url \<longrightarrow>
     (\<exists>i. \<not> (\<exists>j. job_answer net red decode url (sent (polled i url w)) = Ok j \<and> \<not> is_terminal (jr_status j)))"
proof (rule watch_until_terminal.raw_induct[where P = "\<lambda>check w y.
    \<forall>url net red decode view. check = terminal_check net red decode view url \<longrightarrow>
     (\<exists>i. \<not> (\<exists>j. job_answer net red decode url (sent (polled i url w)) = Ok j \<and>
        \<not> is_terminal (jr_status j)))", rotated])
  fix loop :: "bool net \<Rightarrow> world \<Rightarrow> ((error, unit) res \<times> world) option" and check :: "bool net" and w y
  assume IH: "\<And>check w y. loop check w = Some y \<Longrightarrow> \<forall>url net red decode view.
      check = terminal_check net red decode view url \<longrightarrow>
      (\<exists>i. \<not> (\<exists>j. job_answer net red decode url (sent (polled i url w)) = Ok j \<and> \<not> is_terminal (jr_status j)))"
    and body: "(case check w of
        (Ok b, w') \<Rightarrow> if b then Some (Ok (), w') else loop check w'
      | (Err e, w') \<Rightarrow> Some (Err e, w') | (Panic, w') \<Rightarrow> Some (Panic, w')) = Some y"
  show "\<forall>url net red decode view. check = terminal_check net red decode view url \<longrightarrow>
     (\<exists>i. \<not> (\<exists>j. job_answer net red decode url (sent (polled i url w)) = Ok j \<and> \<not> is_terminal (jr_status j)))"
  proof (intro allI impI)
    fix url net red decode view
    assume check: "check = terminal_check net red decode view url"
    show "\<exists>i. \<not> (\<exists>j. job_answer net red decode url (sent (polled i url w)) = Ok j \<and> \<not> is_terminal (jr_status j))"
    proof (cases "\<exists>j. job_answer net red decode url (sent w) = Ok j \<and> \<not> is_terminal (jr_status j)")
      case True
      then have "check w = (Ok False, polled 1 url w)"
        by (auto simp: check terminal_check_eq polled_def Let_def)
      with body have "loop check (polled 1 url w) = Some y" by simp
      from IH[OF this] check obtain i where
        "\<not> (\<exists>j. job_answer net red decode url (sent (polled i url (polled 1 url w))) = Ok j \<and>
          \<not> is_terminal (jr_status j))" by blast
      then show ?thesis by (intro exI[of _ "Suc i"]) (simp add: polled_def)
    next
      case False
      then show ?thesis by (intro exI[of _ 0]) (simp add: polled_def)
    qed
  qed
qed

section \<open>Lemmas: downloading\<close>

text \<open>An answer after which a download is tried again.\<close>

definition refused :: "network \<Rightarrow> request list \<Rightarrow> request \<Rightarrow> bool" where
  "refused net earlier q \<longleftrightarrow>
     (case net earlier q of Ok a \<Rightarrow> \<not> is_success (an_status a) | Err _ \<Rightarrow> True | Panic \<Rightarrow> False)"

lemma attempts_refused:
  "\<forall>i < n. refused net (sent w @ replicate i (''GET'', url, [])) (''GET'', url, []) \<Longrightarrow>
   \<exists>le'. attempts (n + m) net show_code remote url dest line le w =
     attempts m net show_code remote url dest line le' (w\<lparr>sent := sent w @ replicate n (''GET'', url, [])\<rparr>)"
proof (induction n arbitrary: le w)
  case 0
  then show ?case by (intro exI[of _ le]) simp
next
  case (Suc n)
  let ?q = "(''GET'', url, [])" and ?w = "w\<lparr>sent := sent w @ [(''GET'', url, [])]\<rparr>"
  from Suc.prems have "refused net (sent w) ?q" by force
  then obtain e where first: "attempts (Suc n + m) net show_code remote url dest line le w =
      attempts (n + m) net show_code remote url dest line (Some e) ?w"
    by (auto simp: refused_def request_def split: res.splits)
  have "\<forall>i < n. refused net (sent ?w @ replicate i ?q) ?q"
    using Suc.prems by (metis (no_types, lifting) Suc_less_eq append_Cons append_assoc append_Nil
        replicate_Suc world.select_convs(1) world.surjective world.update_convs(1))
  from Suc.IH[OF this, of "Some e"] first show ?case by simp
qed

section \<open>Properties\<close>

text \<open>
  The order in which the client shows the operators of a graph is the order in which the master
  runs them, on the same hash map order, as long as every edge starts at a node or at the end
  of an edge.
\<close>

theorem client_order_agrees:
  assumes "iterates it" "map cn_id ns = map node_id (dag_nodes d)" "map master_edge es = dag_edges d"
    and "ce_from ` set es \<subseteq> known_ids d"
  shows "topo_sort it ns es = ordered_ids it d"
  using same_run[OF assms] extended_run[OF assms(1), of ns es] client_fold_missing[OF assms(2)]
  by (simp add: topo_sort_def ordered_ids_def)

definition example_view_nodes :: "client_node list" where
  "example_view_nodes = map (\<lambda>n. \<lparr>cn_id = node_id n, cn_operator = JNull\<rparr>) (dag_nodes example_dag)"

definition example_view_edges :: "client_edge list" where
  "example_view_edges = map (\<lambda>e. \<lparr>ce_from = edge_from e, ce_to = edge_to e\<rparr>) (dag_edges example_dag)"

theorem client_order_agrees_witness:
  "topo_sort order_ab example_view_nodes example_view_edges = ordered_ids order_ab example_dag"
proof (rule client_order_agrees)
  show "iterates order_ab" by (rule example_iterates(1))
  show "map cn_id example_view_nodes = map node_id (dag_nodes example_dag)"
    by (simp add: example_view_nodes_def)
  show "map master_edge example_view_edges = dag_edges example_dag"
    by (simp add: example_view_edges_def master_edge_def example_defs)
  show "ce_from ` set example_view_edges \<subseteq> known_ids example_dag"
    by (simp add: example_view_edges_def known_ids_def edge_pairs_def example_defs)
qed

text \<open>
  On an acyclic graph the client shows every node once, and the source of an edge before its end.
\<close>

theorem client_order_topological:
  assumes "iterates it" "acyclic (set (map (\<lambda>e. (ce_from e, ce_to e)) es))"
  shows "distinct (topo_sort it ns es) \<and> cn_id ` set ns \<subseteq> set (topo_sort it ns es) \<and>
    topological (map (\<lambda>e. (ce_from e, ce_to e)) es) (topo_sort it ns es)"
proof -
  let ?d = "extended ns es"
  have es: "edge_pairs ?d = map (\<lambda>e. (ce_from e, ce_to e)) es" by (simp add: edge_pairs_def extended_def)
  obtain r inc where r: "kahn_run it ?d = Some r" "kahn_inv (edge_pairs ?d) (known_ids ?d) r [] inc"
    using kahn_run_correct[OF assms(1)] by blast
  have "node_id ` set (dag_nodes ?d) = cn_id ` set ns \<union> ce_from ` set es"
    by (simp add: extended_def image_Un image_image)
  then have ids: "cn_id ` set ns \<subseteq> known_ids ?d" "fst ` set (edge_pairs ?d) \<subseteq> known_ids ?d"
    by (auto simp: known_ids_def es)
  have "set r = known_ids ?d" using kahn_complete[OF r(2)] assms(2) ids(2) by (simp add: es)
  then have none: "cn_id ` set ns - set r = {}" using ids(1) by simp
  have "map cn_id ns = map node_id (map plain_node (map cn_id ns))" by simp
  from client_fold_missing[OF this] have "topo_sort it ns es = append_missing (map plain_node (map cn_id ns)) r"
    using r(1) extended_run[OF assms(1), of ns es] by (simp add: topo_sort_def)
  with append_missing_eq[of "map plain_node (map cn_id ns)" r] none have "topo_sort it ns es = r"
    by (auto simp: image_image)
  with r(2) ids(1) \<open>set r = known_ids ?d\<close> show ?thesis by (simp add: kahn_inv_def es)
qed

theorem client_order_topological_witness:
  "topological [(''u'', ''v'')] (topo_sort key_order [] [\<lparr>ce_from = ''u'', ce_to = ''v''\<rparr>])"
  using client_order_topological[OF iterates_key_order, of "[\<lparr>ce_from = ''u'', ce_to = ''v''\<rparr>]" "[]"]
  by (simp add: acyclic_def trancl_insert)

text \<open>
  Claim C31. Watching a job asks for its status until the first answer that is terminal or an error, and
  asks no more after it; what it prints is the view of the terminal answer, and nothing before it. Without such an answer it never ends, which is what happens to a job
  whose task is lost.
\<close>

theorem watch_correct:
  "(\<forall>n. (\<forall>i < n. \<exists>j. job_answer net red decode (job_url master job)
          (sent (polled i (job_url master job) w)) = Ok j \<and> \<not> is_terminal (jr_status j)) \<longrightarrow>
      (\<forall>j. job_answer net red decode (job_url master job) (sent (polled n (job_url master job) w)) = Ok j \<and>
         is_terminal (jr_status j) \<longrightarrow>
         watch_job net red decode view master job w = Some (Ok (), printed (view j) (polled (Suc n) (job_url master job) w))) \<and>
      (\<forall>e. job_answer net red decode (job_url master job) (sent (polled n (job_url master job) w)) = Err e \<longrightarrow>
         watch_job net red decode view master job w = Some (Err e, polled (Suc n) (job_url master job) w))) \<and>
   ((\<forall>i. \<exists>j. job_answer net red decode (job_url master job)
          (sent (polled i (job_url master job) w)) = Ok j \<and> \<not> is_terminal (jr_status j)) \<longrightarrow>
      watch_job net red decode view master job w = None)"
proof (intro conjI allI impI)
  let ?url = "job_url master job" and ?check = "terminal_check net red decode view (job_url master job)"
  fix n
  assume skip: "\<forall>i < n. \<exists>j. job_answer net red decode ?url (sent (polled i ?url w)) = Ok j \<and>
    \<not> is_terminal (jr_status j)"
  note step = watch_skip[OF skip, of view] watch_job_def[of net red decode view master job]
  have polls: "(polled n ?url w)\<lparr>sent := sent (polled n ?url w) @ [(''GET'', ?url, [])]\<rparr> = polled (Suc n) ?url w"
    by (simp add: polled_def replicate_append_same)
  note check = terminal_check_eq[of net red decode view ?url "polled n ?url w", unfolded polls Let_def]
  show "watch_job net red decode view master job w = Some (Ok (), printed (view j) (polled (Suc n) ?url w))"
    if "job_answer net red decode ?url (sent (polled n ?url w)) = Ok j \<and> is_terminal (jr_status j)" for j
    using that check step by (subst (asm) (2) watch_until_terminal.simps) simp
  show "watch_job net red decode view master job w = Some (Err e, polled (Suc n) ?url w)"
    if "job_answer net red decode ?url (sent (polled n ?url w)) = Err e" for e
    using that check step by (subst (asm) (2) watch_until_terminal.simps) simp
next
  assume "\<forall>i. \<exists>j. job_answer net red decode (job_url master job) (sent (polled i (job_url master job) w)) = Ok j \<and>
    \<not> is_terminal (jr_status j)"
  then show "watch_job net red decode view master job w = None"
    using watch_ends[of "terminal_check net red decode view (job_url master job)" w] watch_job_def[of net red decode view master job]
    by (metis option.exhaust)
qed

definition done_answer :: answer where
  "done_answer = \<lparr>an_status = 200, an_body = Ok ''Succeeded''\<rparr>"

definition plain_job :: "string \<Rightarrow> (error, job_response) res" where
  "plain_job body = Ok \<lparr>jr_job_id = ''1'', jr_status = body, jr_progress = fzero f32, jr_stages = [],
     jr_tasks = [], jr_metrics = None,
     jr_output_files = [], jr_outputs = [], jr_errors = [], jr_dag = None\<rparr>"

definition idle_world :: world where
  "idle_world = \<lparr>sent = [], disk = \<lparr>files = Map.empty, faults = (\<lambda>_. None)\<rparr>, shown = []\<rparr>"

theorem watch_correct_witness:
  "watch_job (\<lambda>_ _. Ok done_answer) id plain_job (\<lambda>j. [Out (jr_status j)]) ''http://m'' ''1'' idle_world =
     Some (Ok (), printed [Out ''Succeeded''] (polled 1 (job_url ''http://m'' ''1'') idle_world))"
proof -
  have "job_answer (\<lambda>_ _. Ok done_answer) id plain_job url qs =
      plain_job ''Succeeded''" for url qs
    by (simp add: job_answer_def handle_error_def is_success_def done_answer_def)
  moreover have "is_terminal ''Succeeded''" by code_simp
  ultimately show ?thesis
    using watch_correct[THEN conjunct1, rule_format, of 0 "\<lambda>_ _. Ok done_answer" id plain_job
      "''http://m''" "''1''" idle_world, where view = "\<lambda>j. [Out (jr_status j)]"] by (simp add: plain_job_def)
qed

text \<open>
  A download asks at most three times. The first answer that is a success ends it, and its bytes
  are then the file below the output directory, and nothing else has changed on disk; after
  three failures it fails, and nothing has been written.
\<close>

theorem download_correct:
  assumes "healthy (disk w)" "rel = dropWhile (\<lambda>c. c = slash) remote" "q = (''GET'', master @ ''/'' @ rel, [])"
  shows "(\<forall>n < 3. \<forall>resp bytes.
      (\<forall>i < n. refused net (sent w @ replicate i q) q) \<and>
      net (sent w @ replicate n q) q = Ok resp \<and> is_success (an_status resp) \<and> an_body resp = Ok bytes \<longrightarrow>
      download_file net green show_code master dir remote w =
        (Ok (), \<lparr>sent = sent w @ replicate (Suc n) q,
                 disk = (disk w)\<lparr>files := (files (disk w))(path_join dir rel \<mapsto> bytes)\<rparr>,
                 shown = shown w @ [Out (green check_mark @ '' '' @ rel)]\<rparr>)) \<and>
    ((\<forall>i < 3. refused net (sent w @ replicate i q) q) \<longrightarrow>
      (\<exists>e. download_file net green show_code master dir remote w = (Err e, w\<lparr>sent := sent w @ replicate 3 q\<rparr>)))"
proof (intro conjI allI impI)
  have start: "download_file net green show_code master dir remote w =
      attempts 3 net show_code remote (master @ ''/'' @ rel) (path_join dir rel)
        (green check_mark @ '' '' @ rel) None w"
    using assms(1,2)
    by (simp add: download_file_def Let_def io_bind_def on_disk_def ensure_parent_eq)
  note skip = attempts_refused[of _ net w "master @ ''/'' @ rel", folded assms(3)]
  {
    fix n resp bytes
    assume n: "n < (3 :: nat)" and a: "(\<forall>i < n. refused net (sent w @ replicate i q) q) \<and>
      net (sent w @ replicate n q) q = Ok resp \<and> is_success (an_status resp) \<and> an_body resp = Ok bytes"
    from n obtain k where k: "3 = n + Suc k" using less_iff_Suc_add by auto
    from a skip[of n "Suc k" show_code remote "path_join dir rel" "green check_mark @ '' '' @ rel" None] obtain le where
      "download_file net green show_code master dir remote w =
        attempts (Suc k) net show_code remote (master @ ''/'' @ rel) (path_join dir rel)
          (green check_mark @ '' '' @ rel) le
          (w\<lparr>sent := sent w @ replicate n q\<rparr>)" unfolding start k by blast
    with a assms show "download_file net green show_code master dir remote w =
        (Ok (), \<lparr>sent = sent w @ replicate (Suc n) q,
                 disk = (disk w)\<lparr>files := (files (disk w))(path_join dir rel \<mapsto> bytes)\<rparr>,
                 shown = shown w @ [Out (green check_mark @ '' '' @ rel)]\<rparr>)"
      by (simp add: request_def on_disk_def write_file_eq replicate_append_same io_bind_def print_items_def printed_def)
  next
    assume "\<forall>i < 3. refused net (sent w @ replicate i q) q"
    with skip[of 3 0 show_code remote "path_join dir rel" "green check_mark @ '' '' @ rel" None] obtain le where
      "download_file net green show_code master dir remote w =
        attempts 0 net show_code remote (master @ ''/'' @ rel) (path_join dir rel)
          (green check_mark @ '' '' @ rel) le
          (w\<lparr>sent := sent w @ replicate 3 q\<rparr>)" unfolding start by auto
    then show "\<exists>e. download_file net green show_code master dir remote w = (Err e, w\<lparr>sent := sent w @ replicate 3 q\<rparr>)"
      by (simp add: io_lift_def)
  }
qed

theorem download_correct_witness:
  "\<exists>e. download_file (\<lambda>_ _. Ok \<lparr>an_status = 404, an_body = Ok []\<rparr>) id show_nat ''http://m'' ''out'' ''/data/1/part-0.bin''
     idle_world = (Err e, idle_world\<lparr>sent := replicate 3 (''GET'', ''http://m/data/1/part-0.bin'', [])\<rparr>)"
  using download_correct[of idle_world "''data/1/part-0.bin''" "''/data/1/part-0.bin''"
      "(''GET'', ''http://m/data/1/part-0.bin'', [])" "''http://m''"
      "\<lambda>_ _. Ok \<lparr>an_status = 404, an_body = Ok []\<rparr>" id show_nat "''out''", THEN conjunct2]
  by (simp add: idle_world_def healthy_def slash_def refused_def is_success_def)

end
