(* ===== verification/Wire.thy ===== *)
theory Wire
  imports Dag "HOL-Library.Monad_Syntax"
begin

text \<open>
  The messages between master, workers and clients as JSON trees: what the derived \<open>Serialize\<close> and
  \<open>Deserialize\<close> of \<open>src/src/common/types.rs\<close> and \<open>src/src/common/dag.rs\<close> make of the types. A struct is an
  object with one entry per field; a variant without data is its name, any other an object with the
  name as only key. Reading a struct goes by the names of the fields: unknown ones are ignored, a
  missing one is an error unless the source gives a default or the field is optional, one given twice
  is an error. (A struct may also be read from an array of its fields; that form, which no component
  sends, is left out.) An identifier is its printed form, a 32-bit float is widened to 64 bits, and
  one that is not finite is \<open>null\<close>. \<open>None\<close> is a message that is refused.
\<close>

named_theorems wire_simps

section \<open>Basic types\<close>

definition uint_json :: "nat \<Rightarrow> json" where
  "uint_json n = JNumber (NInt (int n))"

fun uint_of :: "nat \<Rightarrow> json \<Rightarrow> nat option" where
  "uint_of w (JNumber (NInt i)) = (if 0 \<le> i \<and> i < 2 ^ w then Some (nat i) else None)"
| "uint_of w _ = None"

fun str_of :: "json \<Rightarrow> string option" where
  "str_of (JString s) = Some s"
| "str_of _ = None"

definition f32_json :: "flt \<Rightarrow> json" where
  "f32_json x = (if is_finite x then JNumber (NFloat (flt_convert f64 x)) else JNull)"

fun f32_of :: "json \<Rightarrow> flt option" where
  "f32_of (JNumber (NFloat x)) = Some (flt_convert f32 x)"
| "f32_of (JNumber (NInt i)) = Some (flt_of_int f32 i)"
| "f32_of _ = None"

definition uuid_json :: "uuid_api \<Rightarrow> uuid \<Rightarrow> json" where
  "uuid_json U u = JString (uuid_to_string U u)"

definition uuid_of :: "uuid_api \<Rightarrow> json \<Rightarrow> uuid option" where
  "uuid_of U v = Option.bind (str_of v) (parse_uuid U)"

definition list_json :: "('a \<Rightarrow> json) \<Rightarrow> 'a list \<Rightarrow> json" where
  "list_json f xs = JArray (map f xs)"

fun list_of :: "(json \<Rightarrow> 'a option) \<Rightarrow> json \<Rightarrow> 'a list option" where
  "list_of f (JArray vs) = those (map f vs)"
| "list_of f _ = None"

fun opt_json :: "('a \<Rightarrow> json) \<Rightarrow> 'a option \<Rightarrow> json" where
  "opt_json f None = JNull"
| "opt_json f (Some x) = f x"

definition opt_of :: "(json \<Rightarrow> 'a option) \<Rightarrow> json \<Rightarrow> 'a option option" where
  "opt_of f v = (if v = JNull then Some None else map_option Some (f v))"

section \<open>Structs and enums\<close>

text \<open>The value of a field that may be spelled in several ways.\<close>

definition spelled :: "string list \<Rightarrow> obj \<Rightarrow> json list" where
  "spelled ks m = map snd (filter (\<lambda>kv. fst kv \<in> set ks) m)"

definition field :: "string list \<Rightarrow> (json \<Rightarrow> 'a option) \<Rightarrow> obj \<Rightarrow> 'a option" where
  "field ks f m = (case spelled ks m of [v] \<Rightarrow> f v | _ \<Rightarrow> None)"

definition field_or :: "'a \<Rightarrow> string \<Rightarrow> (json \<Rightarrow> 'a option) \<Rightarrow> obj \<Rightarrow> 'a option" where
  "field_or d k f m = (case spelled [k] m of [] \<Rightarrow> Some d | [v] \<Rightarrow> f v | _ \<Rightarrow> None)"

fun fields_of :: "json \<Rightarrow> obj option" where
  "fields_of (JObject m) = Some m"
| "fields_of _ = None"

text \<open>The name of a variant and its data.\<close>

fun variant_of :: "json \<Rightarrow> (string \<times> json option) option" where
  "variant_of (JString s) = Some (s, None)"
| "variant_of (JObject [(k, v)]) = Some (k, Some v)"
| "variant_of _ = None"

definition variant_json :: "string \<Rightarrow> json \<Rightarrow> json" where
  "variant_json k v = JObject [(k, v)]"

definition unit_of :: "'a \<Rightarrow> json option \<Rightarrow> 'a option" where
  "unit_of x pl = (if pl = None \<or> pl = Some JNull then Some x else None)"

definition data_of :: "(json \<Rightarrow> 'a option) \<Rightarrow> json option \<Rightarrow> 'a option" where
  "data_of f pl = Option.bind pl f"

section \<open>Lemmas: reading back\<close>

text \<open>A printer and a reader that undo each other on the values a predicate selects.\<close>

locale wire =
  fixes good :: "'a \<Rightarrow> bool"
    and put :: "'a \<Rightarrow> json"
    and get :: "json \<Rightarrow> 'a option"
  assumes get_put: "good x \<Longrightarrow> get (put x) = Some x"
begin

lemma put_inject: "good x \<Longrightarrow> good y \<Longrightarrow> put x = put y \<longleftrightarrow> x = y"
  by (metis get_put option.inject)

lemma get_list: "list_all good xs \<Longrightarrow> list_of get (list_json put xs) = Some xs"
  by (induction xs) (simp_all add: list_json_def get_put)

lemma get_opt: "(\<And>x. put x \<noteq> JNull) \<Longrightarrow> pred_option good v \<Longrightarrow> opt_of get (opt_json put v) = Some v"
  by (cases v) (simp_all add: opt_of_def get_put)

lemma get_data: "good x \<Longrightarrow> data_of get (Some (put x)) = Some x"
  by (simp add: data_of_def get_put)

end

lemma spelled_simps [wire_simps]:
  "spelled ks [] = []"
  "spelled ks ((k, v) # m) = (if k \<in> set ks then v # spelled ks m else spelled ks m)"
  by (simp_all add: spelled_def)

lemma field_one [wire_simps]:
  "field ks f m = (case spelled ks m of [v] \<Rightarrow> f v | _ \<Rightarrow> None)"
  "field_or d k f m = (case spelled [k] m of [] \<Rightarrow> Some d | [v] \<Rightarrow> f v | _ \<Rightarrow> None)"
  by (simp_all add: field_def field_or_def)

interpretation uint_wire: wire "\<lambda>n. n < 2 ^ w" uint_json "uint_of w" for w
  by unfold_locales (simp add: uint_json_def)

interpretation str_wire: wire "\<lambda>_. True" JString str_of
  by unfold_locales simp

lemma str_wire_list [simp]: "list_of str_of (list_json JString xs) = Some xs"
  by (rule str_wire.get_list) (simp add: list_all_iff)

interpretation strs_wire: wire "\<lambda>_. True" "list_json JString" "list_of str_of"
  by unfold_locales simp

lemma str_wire_lists [simp]: "list_of (list_of str_of) (list_json (list_json JString) xs) = Some xs"
  by (rule strs_wire.get_list) (simp add: list_all_iff)

text \<open>What is relied on of the identifiers: a printed one is read back.\<close>

definition uuid_text_ok :: "uuid_api \<Rightarrow> bool" where
  "uuid_text_ok U \<longleftrightarrow> (\<forall>u. parse_uuid U (uuid_to_string U u) = Some u)"

interpretation uuid_wire: wire "\<lambda>_. uuid_text_ok U" "uuid_json U" "uuid_of U" for U
  by unfold_locales (simp add: uuid_json_def uuid_of_def uuid_text_ok_def)

interpretation f32_wire: wire "\<lambda>x. is_finite x \<and> flt_convert f32 (flt_convert f64 x) = x" f32_json f32_of
  by unfold_locales (simp add: f32_json_def)

section \<open>Operators and graphs\<close>

fun join_type_json :: "join_type \<Rightarrow> json" where
  "join_type_json Inner = JString ''Inner''"
| "join_type_json LeftJoin = JString ''Left''"
| "join_type_json RightJoin = JString ''Right''"
| "join_type_json Full = JString ''Full''"

definition join_type_of :: "json \<Rightarrow> join_type option" where
  "join_type_of v = do {
     (tag, pl) \<leftarrow> variant_of v;
     if tag = ''Inner'' then unit_of Inner pl
     else if tag = ''Left'' then unit_of LeftJoin pl
     else if tag = ''Right'' then unit_of RightJoin pl
     else if tag = ''Full'' then unit_of Full pl
     else None }"

fun operator_json :: "operator_type \<Rightarrow> json" where
  "operator_json (OT_Read uri fmt) =
     variant_json ''Read'' (JObject [(''uri'', JString uri), (''format'', JString fmt)])"
| "operator_json (OT_Map script) = variant_json ''Map'' (JObject [(''script'', JString script)])"
| "operator_json (OT_Filter pr) = variant_json ''Filter'' (JObject [(''predicate'', JString pr)])"
| "operator_json (OT_Reduce r) = variant_json ''Reduce'' (JObject [(''reducer'', JString r)])"
| "operator_json (OT_ReduceByKey key op) =
     variant_json ''ReduceByKey'' (JObject [(''key'', JString key), (''op'', JString op)])"
| "operator_json (OT_FlatMap func) = variant_json ''FlatMap'' (JObject [(''func'', JString func)])"
| "operator_json (OT_Join key jt) =
     variant_json ''Join'' (JObject [(''key'', JString key), (''join_type'', join_type_json jt)])"
| "operator_json (OT_ShuffleByKey key n) =
     variant_json ''ShuffleByKey'' (JObject [(''key'', JString key), (''total_partitions'', uint_json n)])"
| "operator_json (OT_Aggregate a) = variant_json ''Aggregate'' (JObject [(''aggregation'', JString a)])"
| "operator_json OT_Identity = JString ''Identity''"

definition one_field :: "string \<Rightarrow> (string \<Rightarrow> operator_type) \<Rightarrow> json \<Rightarrow> operator_type option" where
  "one_field k c v = do { m \<leftarrow> fields_of v; x \<leftarrow> field [k] str_of m; Some (c x) }"

definition operator_of :: "json \<Rightarrow> operator_type option" where
  "operator_of v = do {
     (tag, pl) \<leftarrow> variant_of v;
     if tag = ''Read'' then data_of (\<lambda>d. do {
         m \<leftarrow> fields_of d; uri \<leftarrow> field [''uri''] str_of m; fmt \<leftarrow> field [''format''] str_of m;
         Some (OT_Read uri fmt) }) pl
     else if tag = ''Map'' then data_of (one_field ''script'' OT_Map) pl
     else if tag = ''Filter'' then data_of (one_field ''predicate'' OT_Filter) pl
     else if tag = ''Reduce'' then data_of (one_field ''reducer'' OT_Reduce) pl
     else if tag = ''ReduceByKey'' then data_of (\<lambda>d. do {
         m \<leftarrow> fields_of d; key \<leftarrow> field [''key''] str_of m; op \<leftarrow> field [''op'', ''reducer''] str_of m;
         Some (OT_ReduceByKey key op) }) pl
     else if tag = ''FlatMap'' then data_of (one_field ''func'' OT_FlatMap) pl
     else if tag = ''Join'' then data_of (\<lambda>d. do {
         m \<leftarrow> fields_of d; key \<leftarrow> field [''key''] str_of m; jt \<leftarrow> field [''join_type''] join_type_of m;
         Some (OT_Join key jt) }) pl
     else if tag = ''ShuffleByKey'' then data_of (\<lambda>d. do {
         m \<leftarrow> fields_of d; key \<leftarrow> field [''key''] str_of m; n \<leftarrow> field [''total_partitions''] (uint_of 64) m;
         Some (OT_ShuffleByKey key n) }) pl
     else if tag = ''Aggregate'' then data_of (one_field ''aggregation'' OT_Aggregate) pl
     else if tag = ''Identity'' then unit_of OT_Identity pl
     else None }"

fun operator_sized :: "operator_type \<Rightarrow> bool" where
  "operator_sized (OT_ShuffleByKey _ n) = (n < 2 ^ 64)"
| "operator_sized _ = True"

lemma join_type_back: "join_type_of (join_type_json jt) = Some jt"
  by (cases jt) (simp_all add: join_type_of_def unit_of_def)

lemma operator_back: "operator_sized op \<Longrightarrow> operator_of (operator_json op) = Some op"
  by (cases op) (simp_all add: operator_of_def variant_json_def data_of_def unit_of_def one_field_def
      wire_simps join_type_back uint_wire.get_put)

interpretation operator_wire: wire operator_sized operator_json operator_of
  by unfold_locales (rule operator_back)

definition node_json :: "dag_node \<Rightarrow> json" where
  "node_json n = JObject [(''id'', JString (node_id n)), (''operator'', operator_json (node_operator n))]"

definition node_of :: "json \<Rightarrow> dag_node option" where
  "node_of v = do {
     m \<leftarrow> fields_of v; i \<leftarrow> field [''id''] str_of m; op \<leftarrow> field [''operator''] operator_of m;
     Some \<lparr>node_id = i, node_operator = op\<rparr> }"

definition edge_json :: "dag_edge \<Rightarrow> json" where
  "edge_json e = JObject [(''from'', JString (edge_from e)), (''to'', JString (edge_to e))]"

definition edge_of :: "json \<Rightarrow> dag_edge option" where
  "edge_of v = do {
     m \<leftarrow> fields_of v; a \<leftarrow> field [''from''] str_of m; b \<leftarrow> field [''to''] str_of m;
     Some \<lparr>edge_from = a, edge_to = b\<rparr> }"

definition dag_json :: "dag_specification \<Rightarrow> json" where
  "dag_json d = JObject [(''nodes'', list_json node_json (dag_nodes d)),
     (''edges'', list_json edge_json (dag_edges d)), (''partitions'', uint_json (dag_partitions d))]"

definition dag_of :: "json \<Rightarrow> dag_specification option" where
  "dag_of v = do {
     m \<leftarrow> fields_of v;
     ns \<leftarrow> field [''nodes''] (list_of node_of) m;
     es \<leftarrow> field [''edges''] (list_of edge_of) m;
     p \<leftarrow> field [''partitions''] (uint_of 64) m;
     Some \<lparr>dag_nodes = ns, dag_edges = es, dag_partitions = p\<rparr> }"

definition dag_sized :: "dag_specification \<Rightarrow> bool" where
  "dag_sized d \<longleftrightarrow> list_all (\<lambda>n. operator_sized (node_operator n)) (dag_nodes d) \<and> dag_partitions d < 2 ^ 64"

interpretation node_wire: wire "\<lambda>n. operator_sized (node_operator n)" node_json node_of
  by unfold_locales (simp add: node_json_def node_of_def wire_simps operator_back)

interpretation edge_wire: wire "\<lambda>_. True" edge_json edge_of
  by unfold_locales (simp add: edge_json_def edge_of_def wire_simps)

interpretation dag_wire: wire dag_sized dag_json dag_of
proof
  fix d assume "dag_sized d"
  then show "dag_of (dag_json d) = Some d"
    using node_wire.get_list[of "dag_nodes d"] edge_wire.get_list[of "dag_edges d"]
    by (simp add: dag_of_def dag_json_def dag_sized_def wire_simps uint_wire.get_put list_all_iff)
qed

section \<open>Statuses\<close>

fun job_status_name :: "job_status \<Rightarrow> string" where
  "job_status_name JS_Accepted = ''Accepted''"
| "job_status_name JS_Pending = ''Pending''"
| "job_status_name JS_Running = ''Running''"
| "job_status_name JS_Completed = ''Completed''"
| "job_status_name JS_Succeeded = ''Succeeded''"
| "job_status_name JS_Failed = ''Failed''"

definition job_status_json :: "job_status \<Rightarrow> json" where
  "job_status_json s = JString (job_status_name s)"

definition job_status_of :: "json \<Rightarrow> job_status option" where
  "job_status_of v = do {
     (tag, pl) \<leftarrow> variant_of v;
     if tag = ''Accepted'' then unit_of JS_Accepted pl
     else if tag = ''Pending'' then unit_of JS_Pending pl
     else if tag = ''Running'' then unit_of JS_Running pl
     else if tag = ''Completed'' then unit_of JS_Completed pl
     else if tag = ''Succeeded'' then unit_of JS_Succeeded pl
     else if tag = ''Failed'' then unit_of JS_Failed pl
     else None }"

definition default_job_status :: job_status where
  "default_job_status = JS_Pending"

fun worker_status_json :: "worker_status \<Rightarrow> json" where
  "worker_status_json WS_Active = JString ''Active''"
| "worker_status_json WS_Down = JString ''Down''"
| "worker_status_json WS_Idle = JString ''Idle''"
| "worker_status_json WS_Running = JString ''Running''"
| "worker_status_json WS_Failed = JString ''Failed''"
| "worker_status_json WS_Lost = JString ''Lost''"

fun task_status_json :: "uuid_api \<Rightarrow> task_status \<Rightarrow> json" where
  "task_status_json U TS_Queued = JString ''Queued''"
| "task_status_json U (TS_Assigned w) = variant_json ''Assigned'' (uuid_json U w)"
| "task_status_json U (TS_Running w) = variant_json ''Running'' (uuid_json U w)"
| "task_status_json U TS_Completed = JString ''Completed''"
| "task_status_json U (TS_Failed msg) = variant_json ''Failed'' (JString msg)"
| "task_status_json U (TS_Retrying n) = variant_json ''Retrying'' (uint_json (unat n))"

definition task_status_of :: "uuid_api \<Rightarrow> json \<Rightarrow> task_status option" where
  "task_status_of U v = do {
     (tag, pl) \<leftarrow> variant_of v;
     if tag = ''Queued'' then unit_of TS_Queued pl
     else if tag = ''Assigned'' then map_option TS_Assigned (data_of (uuid_of U) pl)
     else if tag = ''Running'' then map_option TS_Running (data_of (uuid_of U) pl)
     else if tag = ''Completed'' then unit_of TS_Completed pl
     else if tag = ''Failed'' then map_option TS_Failed (data_of str_of pl)
     else if tag = ''Retrying'' then map_option (\<lambda>n. TS_Retrying (of_nat n)) (data_of (uint_of 32) pl)
     else None }"

interpretation job_status_wire: wire "\<lambda>_. True" job_status_json job_status_of
proof
  show "job_status_of (job_status_json s) = Some s" for s
    by (cases s) (simp_all add: job_status_of_def job_status_json_def unit_of_def)
qed

interpretation task_status_wire: wire "\<lambda>_. uuid_text_ok U" "task_status_json U" "task_status_of U" for U
proof
  fix s assume U: "uuid_text_ok U"
  have "unat n < 2 ^ 32" for n :: "32 word" using unsigned_less[of n] by simp
  then show "task_status_of U (task_status_json U s) = Some s"
    using U by (cases s) (simp_all add: task_status_of_def variant_json_def unit_of_def data_of_def
        uuid_wire.get_put uint_wire.get_put)
qed

section \<open>Tasks\<close>

definition task_json :: "uuid_api \<Rightarrow> task \<Rightarrow> json" where
  "task_json U t = JObject [
     (''task_id'', uuid_json U (task_id t)), (''job_id'', uuid_json U (task_job_id t)),
     (''stage_id'', uint_json (task_stage_id t)), (''attempt'', uint_json (task_attempt t)),
     (''operator'', operator_json (task_operator t)),
     (''operators'', list_json operator_json (task_operators t)),
     (''operator_ids'', list_json JString (task_operator_ids t)),
     (''incoming_edges'', list_json (list_json JString) (task_incoming_edges t)),
     (''partition'', uint_json (task_partition t)), (''input_uri'', JString (task_input_uri t)),
     (''input_format'', JString (task_input_format t)),
     (''total_partitions'', uint_json (task_total_partitions t))]"

definition task_of :: "uuid_api \<Rightarrow> json \<Rightarrow> task option" where
  "task_of U v = do {
     m \<leftarrow> fields_of v;
     i \<leftarrow> field [''task_id''] (uuid_of U) m;
     j \<leftarrow> field [''job_id''] (uuid_of U) m;
     st \<leftarrow> field [''stage_id''] (uint_of 64) m;
     a \<leftarrow> field [''attempt''] (uint_of 32) m;
     op \<leftarrow> field [''operator''] operator_of m;
     ops \<leftarrow> field_or [] ''operators'' (list_of operator_of) m;
     ids \<leftarrow> field_or [] ''operator_ids'' (list_of str_of) m;
     es \<leftarrow> field_or [] ''incoming_edges'' (list_of (list_of str_of)) m;
     p \<leftarrow> field [''partition''] (uint_of 64) m;
     uri \<leftarrow> field [''input_uri''] str_of m;
     fmt \<leftarrow> field [''input_format''] str_of m;
     n \<leftarrow> field [''total_partitions''] (uint_of 64) m;
     Some \<lparr>task_id = i, task_job_id = j, task_stage_id = st, task_attempt = a, task_operator = op,
       task_operators = ops, task_operator_ids = ids, task_incoming_edges = es, task_partition = p,
       task_input_uri = uri, task_input_format = fmt, task_total_partitions = n\<rparr> }"

definition task_sized :: "task \<Rightarrow> bool" where
  "task_sized t \<longleftrightarrow> task_stage_id t < 2 ^ 64 \<and> task_attempt t < 2 ^ 32 \<and> operator_sized (task_operator t) \<and>
     list_all operator_sized (task_operators t) \<and> task_partition t < 2 ^ 64 \<and> task_total_partitions t < 2 ^ 64"

interpretation task_wire: wire "\<lambda>t. uuid_text_ok U \<and> task_sized t" "task_json U" "task_of U" for U
proof
  fix t assume "uuid_text_ok U \<and> task_sized t"
  then show "task_of U (task_json U t) = Some t"
    by (simp add: task_of_def task_json_def task_sized_def wire_simps uuid_wire.get_put uint_wire.get_put
        operator_back operator_wire.get_list)
qed

section \<open>Results\<close>

definition task_metrics_json :: "task_metrics \<Rightarrow> json" where
  "task_metrics_json x = JObject [
     (''processed_records'', uint_json (tm_processed_records x)), (''duration_ms'', uint_json (tm_duration_ms x)),
     (''cpu_time_ms'', uint_json (tm_cpu_time_ms x)), (''wall_time_ms'', uint_json (tm_wall_time_ms x))]"

definition task_metrics_of :: "json \<Rightarrow> task_metrics option" where
  "task_metrics_of v = do {
     m \<leftarrow> fields_of v;
     n \<leftarrow> field [''processed_records''] (uint_of 64) m;
     d \<leftarrow> field [''duration_ms''] (uint_of 128) m;
     c \<leftarrow> field_or 0 ''cpu_time_ms'' (uint_of 128) m;
     w \<leftarrow> field_or 0 ''wall_time_ms'' (uint_of 128) m;
     Some \<lparr>tm_processed_records = n, tm_duration_ms = d, tm_cpu_time_ms = c, tm_wall_time_ms = w\<rparr> }"

definition default_task_metrics :: task_metrics where
  "default_task_metrics =
     \<lparr>tm_processed_records = 0, tm_duration_ms = 0, tm_cpu_time_ms = 0, tm_wall_time_ms = 0\<rparr>"

definition location_json :: "result_location \<Rightarrow> json" where
  "location_json l = JObject [(''path'', JString (rl_path l)), (''size_bytes'', uint_json (rl_size_bytes l))]"

definition location_of :: "json \<Rightarrow> result_location option" where
  "location_of v = do {
     m \<leftarrow> fields_of v; p \<leftarrow> field [''path''] str_of m; n \<leftarrow> field [''size_bytes''] (uint_of 64) m;
     Some \<lparr>rl_path = p, rl_size_bytes = n\<rparr> }"

definition info_json :: "partition_info \<Rightarrow> json" where
  "info_json x = JObject [
     (''partition_id'', uint_json (pi_partition_id x)), (''record_count'', uint_json (pi_record_count x)),
     (''spill_path'', opt_json JString (pi_spill_path x))]"

definition info_of :: "json \<Rightarrow> partition_info option" where
  "info_of v = do {
     m \<leftarrow> fields_of v;
     i \<leftarrow> field [''partition_id''] (uint_of 64) m;
     n \<leftarrow> field [''record_count''] (uint_of 64) m;
     p \<leftarrow> field_or None ''spill_path'' (opt_of str_of) m;
     Some \<lparr>pi_partition_id = i, pi_record_count = n, pi_spill_path = p\<rparr> }"

definition stage_trace_json :: "stage_trace \<Rightarrow> json" where
  "stage_trace_json x = JObject [
     (''stage_id'', uint_json (st_stage_id x)), (''operator_id'', JString (st_operator_id x)),
     (''incoming_edges'', list_json JString (st_incoming_edges x)),
     (''output_partitions'', list_json info_json (st_output_partitions x))]"

definition stage_trace_of :: "json \<Rightarrow> stage_trace option" where
  "stage_trace_of v = do {
     m \<leftarrow> fields_of v;
     i \<leftarrow> field [''stage_id''] (uint_of 64) m;
     op \<leftarrow> field [''operator_id''] str_of m;
     es \<leftarrow> field [''incoming_edges''] (list_of str_of) m;
     ps \<leftarrow> field [''output_partitions''] (list_of info_of) m;
     Some \<lparr>st_stage_id = i, st_operator_id = op, st_incoming_edges = es, st_output_partitions = ps\<rparr> }"

definition trace_json :: "execution_trace \<Rightarrow> json" where
  "trace_json x = JObject [
     (''job_id'', JString (et_job_id x)), (''stages'', list_json stage_trace_json (et_stages x))]"

definition trace_of :: "json \<Rightarrow> execution_trace option" where
  "trace_of v = do {
     m \<leftarrow> fields_of v; j \<leftarrow> field [''job_id''] str_of m; ss \<leftarrow> field [''stages''] (list_of stage_trace_of) m;
     Some \<lparr>et_job_id = j, et_stages = ss\<rparr> }"

definition result_json :: "uuid_api \<Rightarrow> task_result \<Rightarrow> json" where
  "result_json U r = JObject [
     (''task_id'', uuid_json U (res_task_id r)), (''job_id'', uuid_json U (res_job_id r)),
     (''operator'', operator_json (res_operator r)), (''stage_id'', uint_json (res_stage_id r)),
     (''partition'', uint_json (res_partition r)), (''result_location'', location_json (res_location r)),
     (''metrics'', task_metrics_json (res_metrics r)), (''status'', task_status_json U (res_status r)),
     (''trace'', opt_json trace_json (res_trace r)),
     (''final_partitions'', opt_json (list_json info_json) (res_final_partitions r))]"

definition result_of :: "uuid_api \<Rightarrow> json \<Rightarrow> task_result option" where
  "result_of U v = do {
     m \<leftarrow> fields_of v;
     i \<leftarrow> field [''task_id''] (uuid_of U) m;
     j \<leftarrow> field [''job_id''] (uuid_of U) m;
     op \<leftarrow> field [''operator''] operator_of m;
     st \<leftarrow> field [''stage_id''] (uint_of 64) m;
     p \<leftarrow> field [''partition''] (uint_of 64) m;
     l \<leftarrow> field [''result_location''] location_of m;
     x \<leftarrow> field [''metrics''] task_metrics_of m;
     s \<leftarrow> field [''status''] (task_status_of U) m;
     tr \<leftarrow> field_or None ''trace'' (opt_of trace_of) m;
     fp \<leftarrow> field_or None ''final_partitions'' (opt_of (list_of info_of)) m;
     Some \<lparr>res_task_id = i, res_job_id = j, res_operator = op, res_stage_id = st, res_partition = p,
       res_location = l, res_metrics = x, res_status = s, res_trace = tr, res_final_partitions = fp\<rparr> }"

definition metrics_sized :: "task_metrics \<Rightarrow> bool" where
  "metrics_sized x \<longleftrightarrow> tm_processed_records x < 2 ^ 64 \<and> tm_duration_ms x < 2 ^ 128 \<and>
     tm_cpu_time_ms x < 2 ^ 128 \<and> tm_wall_time_ms x < 2 ^ 128"

definition info_sized :: "partition_info \<Rightarrow> bool" where
  "info_sized x \<longleftrightarrow> pi_partition_id x < 2 ^ 64 \<and> pi_record_count x < 2 ^ 64"

definition trace_sized :: "execution_trace \<Rightarrow> bool" where
  "trace_sized x \<longleftrightarrow>
     list_all (\<lambda>s. st_stage_id s < 2 ^ 64 \<and> list_all info_sized (st_output_partitions s)) (et_stages x)"

definition result_sized :: "task_result \<Rightarrow> bool" where
  "result_sized r \<longleftrightarrow> operator_sized (res_operator r) \<and> res_stage_id r < 2 ^ 64 \<and> res_partition r < 2 ^ 64 \<and>
     rl_size_bytes (res_location r) < 2 ^ 64 \<and> metrics_sized (res_metrics r) \<and>
     pred_option trace_sized (res_trace r) \<and> pred_option (list_all info_sized) (res_final_partitions r)"

interpretation task_metrics_wire: wire metrics_sized task_metrics_json task_metrics_of
  by unfold_locales (simp add: task_metrics_json_def task_metrics_of_def metrics_sized_def wire_simps uint_wire.get_put)

interpretation location_wire: wire "\<lambda>l. rl_size_bytes l < 2 ^ 64" location_json location_of
  by unfold_locales (simp add: location_json_def location_of_def wire_simps uint_wire.get_put)

interpretation info_wire: wire info_sized info_json info_of
proof
  fix x assume "info_sized x"
  then show "info_of (info_json x) = Some x"
    using str_wire.get_opt[of "pi_spill_path x"]
    by (simp add: info_json_def info_of_def info_sized_def wire_simps uint_wire.get_put option.pred_True)
qed

interpretation infos_wire: wire "list_all info_sized" "list_json info_json" "list_of info_of"
  by unfold_locales (rule info_wire.get_list)

interpretation stage_trace_wire: wire "\<lambda>s. st_stage_id s < 2 ^ 64 \<and> list_all info_sized (st_output_partitions s)"
  stage_trace_json stage_trace_of
  by unfold_locales (simp add: stage_trace_json_def stage_trace_of_def wire_simps uint_wire.get_put infos_wire.get_put)

interpretation trace_wire: wire trace_sized trace_json trace_of
proof
  fix x assume "trace_sized x"
  then show "trace_of (trace_json x) = Some x"
    using stage_trace_wire.get_list[of "et_stages x"]
    by (simp add: trace_json_def trace_of_def trace_sized_def wire_simps)
qed

interpretation result_wire: wire "\<lambda>r. uuid_text_ok U \<and> result_sized r" "result_json U" "result_of U" for U
proof
  fix r assume r: "uuid_text_ok U \<and> result_sized r"
  have "opt_of trace_of (opt_json trace_json (res_trace r)) = Some (res_trace r)"
    using r by (intro trace_wire.get_opt) (simp_all add: result_sized_def trace_json_def)
  moreover have "opt_of (list_of info_of) (opt_json (list_json info_json) (res_final_partitions r)) =
      Some (res_final_partitions r)"
    using r by (intro infos_wire.get_opt) (simp_all add: result_sized_def list_json_def)
  ultimately show "result_of U (result_json U r) = Some r"
    using r by (simp add: result_of_def result_json_def result_sized_def wire_simps uuid_wire.get_put
        uint_wire.get_put operator_back location_wire.get_put task_metrics_wire.get_put task_status_wire.get_put)
qed

section \<open>Workers\<close>

definition worker_status_of :: "json \<Rightarrow> worker_status option" where
  "worker_status_of v = do {
     (tag, pl) \<leftarrow> variant_of v;
     if tag = ''Active'' then unit_of WS_Active pl
     else if tag = ''Down'' then unit_of WS_Down pl
     else if tag = ''Idle'' then unit_of WS_Idle pl
     else if tag = ''Running'' then unit_of WS_Running pl
     else if tag = ''Failed'' then unit_of WS_Failed pl
     else if tag = ''Lost'' then unit_of WS_Lost pl
     else None }"

definition worker_metrics_json :: "uuid_api \<Rightarrow> worker_metrics \<Rightarrow> json" where
  "worker_metrics_json U x = JObject [
     (''tasks_in_flight'', uint_json (wm_tasks_in_flight x)), (''cpu_pct'', f32_json (wm_cpu_pct x)),
     (''memory_mb'', uint_json (wm_memory_mb x)), (''tasks_completed'', uint_json (wm_tasks_completed x)),
     (''tasks_failed'', uint_json (wm_tasks_failed x)), (''records_processed'', uint_json (wm_records_processed x)),
     (''current_task'', opt_json (uuid_json U) (wm_current_task x))]"

definition worker_metrics_of :: "uuid_api \<Rightarrow> json \<Rightarrow> worker_metrics option" where
  "worker_metrics_of U v = do {
     m \<leftarrow> fields_of v;
     a \<leftarrow> field [''tasks_in_flight''] (uint_of 64) m;
     b \<leftarrow> field [''cpu_pct''] f32_of m;
     c \<leftarrow> field [''memory_mb''] (uint_of 64) m;
     d \<leftarrow> field_or 0 ''tasks_completed'' (uint_of 64) m;
     e \<leftarrow> field_or 0 ''tasks_failed'' (uint_of 64) m;
     f \<leftarrow> field_or 0 ''records_processed'' (uint_of 64) m;
     g \<leftarrow> field_or None ''current_task'' (opt_of (uuid_of U)) m;
     Some \<lparr>wm_tasks_in_flight = a, wm_cpu_pct = b, wm_memory_mb = c, wm_tasks_completed = d,
       wm_tasks_failed = e, wm_records_processed = f, wm_current_task = g\<rparr> }"

text \<open>An instant: seconds and nanoseconds since the epoch.\<close>

definition time_json :: "system_time \<Rightarrow> json" where
  "time_json t = JObject [(''secs_since_epoch'', uint_json (t div 10 ^ 9)),
     (''nanos_since_epoch'', uint_json (t mod 10 ^ 9))]"

definition time_of :: "json \<Rightarrow> system_time option" where
  "time_of v = do {
     m \<leftarrow> fields_of v;
     a \<leftarrow> field [''secs_since_epoch''] (uint_of 64) m;
     b \<leftarrow> field [''nanos_since_epoch''] (uint_of 32) m;
     Some (a * 10 ^ 9 + b) }"

definition worker_json :: "uuid_api \<Rightarrow> worker_info \<Rightarrow> json" where
  "worker_json U w = JObject [
     (''id'', uuid_json U (wi_id w)), (''address'', JString (wi_address w)),
     (''status'', worker_status_json (wi_status w)), (''last_heartbeat'', time_json (wi_last_heartbeat w)),
     (''metrics'', worker_metrics_json U (wi_metrics w))]"

definition worker_of :: "uuid_api \<Rightarrow> json \<Rightarrow> worker_info option" where
  "worker_of U v = do {
     m \<leftarrow> fields_of v;
     i \<leftarrow> field [''id''] (uuid_of U) m;
     a \<leftarrow> field [''address''] str_of m;
     s \<leftarrow> field [''status''] worker_status_of m;
     t \<leftarrow> field [''last_heartbeat''] time_of m;
     x \<leftarrow> field [''metrics''] (worker_metrics_of U) m;
     Some \<lparr>wi_id = i, wi_address = a, wi_status = s, wi_last_heartbeat = t, wi_metrics = x\<rparr> }"

definition heartbeat_json :: "uuid_api \<Rightarrow> heartbeat_message \<Rightarrow> json" where
  "heartbeat_json U h = JObject [
     (''worker_id'', uuid_json U (hb_worker_id h)), (''address'', JString (hb_address h)),
     (''metrics'', worker_metrics_json U (hb_metrics h)), (''timestamp'', time_json (hb_timestamp h))]"

definition heartbeat_of :: "uuid_api \<Rightarrow> json \<Rightarrow> heartbeat_message option" where
  "heartbeat_of U v = do {
     m \<leftarrow> fields_of v;
     i \<leftarrow> field [''worker_id''] (uuid_of U) m;
     a \<leftarrow> field [''address''] str_of m;
     x \<leftarrow> field [''metrics''] (worker_metrics_of U) m;
     t \<leftarrow> field [''timestamp''] time_of m;
     Some \<lparr>hb_worker_id = i, hb_address = a, hb_metrics = x, hb_timestamp = t\<rparr> }"

definition load_sized :: "worker_metrics \<Rightarrow> bool" where
  "load_sized x \<longleftrightarrow> wm_tasks_in_flight x < 2 ^ 64 \<and> wm_memory_mb x < 2 ^ 64 \<and> wm_tasks_completed x < 2 ^ 64 \<and>
     wm_tasks_failed x < 2 ^ 64 \<and> wm_records_processed x < 2 ^ 64 \<and> is_finite (wm_cpu_pct x) \<and>
     flt_convert f32 (flt_convert f64 (wm_cpu_pct x)) = wm_cpu_pct x"

definition time_sized :: "system_time \<Rightarrow> bool" where
  "time_sized t \<longleftrightarrow> t div 10 ^ 9 < 2 ^ 64"

interpretation worker_status_wire: wire "\<lambda>_. True" worker_status_json worker_status_of
proof
  show "worker_status_of (worker_status_json s) = Some s" for s
    by (cases s) (simp_all add: worker_status_of_def unit_of_def)
qed

interpretation time_wire: wire time_sized time_json time_of
proof
  fix t assume t: "time_sized t"
  have "t mod 10 ^ 9 < 2 ^ 32" by (rule less_trans[of _ "10 ^ 9"]) simp_all
  moreover have "t div 10 ^ 9 * 10 ^ 9 + t mod 10 ^ 9 = t" by (rule div_mult_mod_eq)
  ultimately show "time_of (time_json t) = Some t"
    using t by (simp add: time_of_def time_json_def time_sized_def wire_simps uint_wire.get_put del: power_numeral)
qed

interpretation load_wire: wire "\<lambda>x. uuid_text_ok U \<and> load_sized x" "worker_metrics_json U" "worker_metrics_of U" for U
proof
  fix x assume x: "uuid_text_ok U \<and> load_sized x"
  have "opt_of (uuid_of U) (opt_json (uuid_json U) (wm_current_task x)) = Some (wm_current_task x)"
    using x by (intro uuid_wire.get_opt) (simp_all add: uuid_json_def pred_option_def)
  with x show "worker_metrics_of U (worker_metrics_json U x) = Some x"
    by (simp add: worker_metrics_of_def worker_metrics_json_def load_sized_def wire_simps uint_wire.get_put
        f32_wire.get_put)
qed

interpretation worker_wire: wire "\<lambda>w. uuid_text_ok U \<and> load_sized (wi_metrics w) \<and> time_sized (wi_last_heartbeat w)"
  "worker_json U" "worker_of U" for U
  by unfold_locales (simp add: worker_of_def worker_json_def wire_simps uuid_wire.get_put worker_status_wire.get_put
      time_wire.get_put load_wire.get_put)

interpretation heartbeat_wire: wire "\<lambda>h. uuid_text_ok U \<and> load_sized (hb_metrics h) \<and> time_sized (hb_timestamp h)"
  "heartbeat_json U" "heartbeat_of U" for U
  by unfold_locales (simp add: heartbeat_of_def heartbeat_json_def wire_simps uuid_wire.get_put
      time_wire.get_put load_wire.get_put)

section \<open>Properties\<close>

text \<open>
  Claim C14. What one component sends, the other reads: a task the master sends to a worker, the result the
  worker sends back, the graph a client submits, the worker that registers and its heartbeats are read
  as the values they were made from. (Numbers within the width of their type, times whose seconds fit 64
  bits, finite floats that widen and narrow to themselves, and identifiers that are read back from
  their printed form.)
\<close>

theorem messages_read_back:
  assumes "uuid_text_ok U"
  shows "(task_sized t \<longrightarrow> task_of U (task_json U t) = Some t) \<and>
    (result_sized r \<longrightarrow> result_of U (result_json U r) = Some r) \<and>
    (dag_sized d \<longrightarrow> dag_of (dag_json d) = Some d) \<and>
    (load_sized (wi_metrics w) \<and> time_sized (wi_last_heartbeat w) \<longrightarrow> worker_of U (worker_json U w) = Some w) \<and>
    (load_sized (hb_metrics h) \<and> time_sized (hb_timestamp h) \<longrightarrow> heartbeat_of U (heartbeat_json U h) = Some h)"
  using assms task_wire.get_put[of U t] result_wire.get_put[of U r] dag_wire.get_put[of d]
    worker_wire.get_put[of U w] heartbeat_wire.get_put[of U h] by blast

lemma example_uuid_text: "uuid_text_ok example_uuid_api"
  using show_nat_digits by (auto simp: uuid_text_ok_def example_uuid_api_def list_all_iff)

definition example_message :: task where
  "example_message = \<lparr>task_id = 9, task_job_id = 7, task_stage_id = 1, task_attempt = 0,
     task_operator = OT_Identity, task_operators = [OT_ShuffleByKey ''k'' 2, OT_Identity],
     task_operator_ids = [''s'', ''i''], task_incoming_edges = [[], [''s->i'']],
     task_partition = 0, task_input_uri = ''/in'', task_input_format = ''jsonl'', task_total_partitions = 1\<rparr>"

theorem messages_read_back_witness:
  "task_of example_uuid_api (task_json example_uuid_api example_message) = Some example_message \<and>
   dag_of (dag_json example_dag) = Some example_dag"
proof -
  have "task_sized example_message" by (simp add: task_sized_def example_message_def)
  moreover have "dag_sized example_dag" by (simp add: dag_sized_def example_defs)
  ultimately show ?thesis using messages_read_back[OF example_uuid_text] by blast
qed

text \<open>
  A graph may spell the reducer of a reduction by key \<open>op\<close> or \<open>reducer\<close>, but not both; a task sent without
  the lists of operators, ids and edges is read with empty ones.
\<close>

theorem reducer_spelling:
  "operator_of (JObject [(''ReduceByKey'', JObject [(''key'', JString k), (''reducer'', JString r)])]) =
     Some (OT_ReduceByKey k r) \<and>
   operator_of (JObject [(''ReduceByKey'', JObject [(''key'', JString k), (''op'', JString r)])]) =
     Some (OT_ReduceByKey k r) \<and>
   operator_of (JObject [(''ReduceByKey'', JObject [(''key'', JString k), (''op'', JString r), (''reducer'', JString r)])]) =
     None"
  by (simp add: operator_of_def data_of_def wire_simps)

end
