(* ===== verification/Client_Display.thy ===== *)
theory Client_Display
  imports Client Wire
begin

text \<open>
  What the client reads and what it shows: how an answer of the master becomes a \<open>job_response\<close> (the
  derived \<open>Deserialize\<close> of \<open>src/src/client/types\<close>, by the names of the fields), the tables and lines of
  the commands status, metrics, workers, progress, results and submit, and the dispatch of
  \<open>src/src/client/main.rs\<close>. A table is the list of its rows: the layout belongs to \<open>prettytable\<close>. How a
  style is put on a text is the parameter \<open>paint\<close>.
\<close>

section \<open>Reading the answers\<close>

record client_load =
  cl_tasks_in_flight :: nat
  cl_cpu_pct :: flt
  cl_memory_mb :: nat
  cl_tasks_completed :: nat
  cl_tasks_failed :: nat
  cl_records_processed :: nat
  cl_current_task :: "string option"

definition default_load :: client_load where
  "default_load = \<lparr>cl_tasks_in_flight = 0, cl_cpu_pct = fzero f32, cl_memory_mb = 0, cl_tasks_completed = 0,
     cl_tasks_failed = 0, cl_records_processed = 0, cl_current_task = None\<rparr>"

record client_worker =
  cw_id :: string
  cw_address :: "string option"
  cw_status :: "string option"
  cw_last_heartbeat :: "string option"
  cw_metrics :: "client_load option"

definition client_load_of :: "json \<Rightarrow> client_load option" where
  "client_load_of v = do {
     m \<leftarrow> fields_of v;
     a \<leftarrow> field_or 0 ''tasks_in_flight'' (uint_of 64) m;
     b \<leftarrow> field_or (fzero f32) ''cpu_pct'' f32_of m;
     c \<leftarrow> field_or 0 ''memory_mb'' (uint_of 64) m;
     d \<leftarrow> field_or 0 ''tasks_completed'' (uint_of 64) m;
     e \<leftarrow> field_or 0 ''tasks_failed'' (uint_of 64) m;
     f \<leftarrow> field_or 0 ''records_processed'' (uint_of 64) m;
     g \<leftarrow> field_or None ''current_task'' (opt_of str_of) m;
     Some \<lparr>cl_tasks_in_flight = a, cl_cpu_pct = b, cl_memory_mb = c, cl_tasks_completed = d,
       cl_tasks_failed = e, cl_records_processed = f, cl_current_task = g\<rparr> }"

definition client_worker_of :: "json \<Rightarrow> client_worker option" where
  "client_worker_of v = do {
     m \<leftarrow> fields_of v;
     i \<leftarrow> field [''id'', ''worker_id''] str_of m;
     a \<leftarrow> field_or None ''address'' (opt_of str_of) m;
     s \<leftarrow> field_or None ''status'' (opt_of str_of) m;
     h \<leftarrow> field_or None ''last_heartbeat'' (opt_of str_of) m;
     x \<leftarrow> field_or None ''metrics'' (opt_of client_load_of) m;
     Some \<lparr>cw_id = i, cw_address = a, cw_status = s, cw_last_heartbeat = h, cw_metrics = x\<rparr> }"

definition stage_info_of :: "json \<Rightarrow> stage_info option" where
  "stage_info_of v = do {
     m \<leftarrow> fields_of v;
     a \<leftarrow> field_or None ''stage_id'' (opt_of (uint_of 64)) m;
     b \<leftarrow> field_or None ''id'' (opt_of str_of) m;
     c \<leftarrow> field_or None ''status'' (opt_of str_of) m;
     d \<leftarrow> field_or None ''tasks_total'' (opt_of (uint_of 64)) m;
     e \<leftarrow> field_or None ''tasks_running'' (opt_of (uint_of 64)) m;
     f \<leftarrow> field_or None ''tasks_completed'' (opt_of (uint_of 64)) m;
     g \<leftarrow> field_or None ''tasks_failed'' (opt_of (uint_of 64)) m;
     h \<leftarrow> field_or None ''errors'' (opt_of (list_of str_of)) m;
     Some \<lparr>si_stage_id = a, si_id = b, si_status = c, si_tasks_total = d, si_tasks_running = e,
       si_tasks_completed = f, si_tasks_failed = g, si_errors = h\<rparr> }"

definition task_info_of :: "json \<Rightarrow> task_info option" where
  "task_info_of v = do {
     m \<leftarrow> fields_of v;
     a \<leftarrow> field_or None ''task_id'' (opt_of str_of) m;
     b \<leftarrow> field_or None ''status'' (opt_of str_of) m;
     c \<leftarrow> field_or None ''stage_id'' (opt_of (uint_of 64)) m;
     Some \<lparr>ti_task_id = a, ti_status = b, ti_stage_id = c\<rparr> }"

definition stage_metric_of :: "json \<Rightarrow> stage_metric option" where
  "stage_metric_of v = do {
     m \<leftarrow> fields_of v;
     a \<leftarrow> field [''stage_id''] (uint_of 64) m;
     b \<leftarrow> field_or 0 ''duration_ms'' (uint_of 128) m;
     c \<leftarrow> field_or 0 ''tasks_total'' (uint_of 64) m;
     d \<leftarrow> field_or 0 ''tasks_completed'' (uint_of 64) m;
     e \<leftarrow> field_or 0 ''tasks_failed'' (uint_of 64) m;
     Some \<lparr>cs_stage_id = a, cs_duration_ms = b, cs_tasks_total = c, cs_tasks_completed = d, cs_tasks_failed = e\<rparr> }"

definition aggregate_of :: "json \<Rightarrow> client_aggregate option" where
  "aggregate_of v = do {
     m \<leftarrow> fields_of v;
     a \<leftarrow> field [''worker_id''] str_of m;
     b \<leftarrow> field_or 0 ''tasks_completed'' (uint_of 64) m;
     c \<leftarrow> field_or 0 ''tasks_failed'' (uint_of 64) m;
     d \<leftarrow> field_or 0 ''records_processed'' (uint_of 64) m;
     e \<leftarrow> field_or 0 ''cpu_time_ms'' (uint_of 128) m;
     f \<leftarrow> field_or 0 ''wall_time_ms'' (uint_of 128) m;
     Some \<lparr>ca_worker_id = a, ca_tasks_completed = b, ca_tasks_failed = c, ca_records_processed = d,
       ca_cpu_time_ms = e, ca_wall_time_ms = f\<rparr> }"

definition client_metrics_of :: "json \<Rightarrow> client_metrics option" where
  "client_metrics_of v = do {
     m \<leftarrow> fields_of v;
     a \<leftarrow> field_or None ''execution_time_ms'' (opt_of (uint_of 128)) m;
     b \<leftarrow> field_or None ''tasks_total'' (opt_of (uint_of 64)) m;
     c \<leftarrow> field_or None ''tasks_completed'' (opt_of (uint_of 64)) m;
     d \<leftarrow> field_or None ''tasks_failed'' (opt_of (uint_of 64)) m;
     e \<leftarrow> field_or None ''records_processed'' (opt_of (uint_of 64)) m;
     f \<leftarrow> field_or None ''stages'' (opt_of (list_of stage_metric_of)) m;
     g \<leftarrow> field_or None ''workers'' (opt_of (list_of aggregate_of)) m;
     Some \<lparr>cm_execution_time_ms = a, cm_tasks_total = b, cm_tasks_completed = c, cm_tasks_failed = d,
       cm_records_processed = e, cm_stages = f, cm_workers = g\<rparr> }"

definition client_node_of :: "json \<Rightarrow> client_node option" where
  "client_node_of v = do {
     m \<leftarrow> fields_of v; i \<leftarrow> field [''id''] str_of m; op \<leftarrow> field [''operator''] Some m;
     Some \<lparr>cn_id = i, cn_operator = op\<rparr> }"

definition client_edge_of :: "json \<Rightarrow> client_edge option" where
  "client_edge_of v = do {
     m \<leftarrow> fields_of v; a \<leftarrow> field [''from''] str_of m; b \<leftarrow> field [''to''] str_of m;
     Some \<lparr>ce_from = a, ce_to = b\<rparr> }"

definition dag_spec_of :: "json \<Rightarrow> dag_spec option" where
  "dag_spec_of v = do {
     m \<leftarrow> fields_of v;
     ns \<leftarrow> field_or [] ''nodes'' (list_of client_node_of) m;
     es \<leftarrow> field_or [] ''edges'' (list_of client_edge_of) m;
     Some \<lparr>ds_nodes = ns, ds_edges = es\<rparr> }"

definition job_response_of :: "json \<Rightarrow> job_response option" where
  "job_response_of v = do {
     m \<leftarrow> fields_of v;
     i \<leftarrow> field [''job_id''] str_of m;
     s \<leftarrow> field_or [] ''status'' str_of m;
     p \<leftarrow> field_or (fzero f32) ''progress'' f32_of m;
     st \<leftarrow> field_or [] ''stages'' (list_of stage_info_of) m;
     ts \<leftarrow> field_or [] ''tasks'' (list_of task_info_of) m;
     x \<leftarrow> field_or None ''metrics'' (opt_of client_metrics_of) m;
     fs \<leftarrow> field_or [] ''output_files'' (list_of str_of) m;
     os \<leftarrow> field_or [] ''outputs'' (list_of str_of) m;
     es \<leftarrow> field_or [] ''errors'' (list_of str_of) m;
     d \<leftarrow> field_or None ''dag'' (opt_of dag_spec_of) m;
     Some \<lparr>jr_job_id = i, jr_status = s, jr_progress = p, jr_stages = st, jr_tasks = ts, jr_metrics = x,
       jr_output_files = fs, jr_outputs = os, jr_errors = es, jr_dag = d\<rparr> }"

section \<open>What the master sends\<close>

definition stage_metrics_json :: "stage_metrics \<Rightarrow> json" where
  "stage_metrics_json x = JObject [
     (''stage_id'', uint_json (sm_stage_id x)), (''tasks_total'', uint_json (sm_tasks_total x)),
     (''tasks_completed'', uint_json (sm_tasks_completed x)), (''tasks_failed'', uint_json (sm_tasks_failed x)),
     (''duration_ms'', uint_json (sm_duration_ms x))]"

definition worker_aggregate_json :: "uuid_api \<Rightarrow> worker_aggregate \<Rightarrow> json" where
  "worker_aggregate_json U x = JObject [
     (''worker_id'', uuid_json U (wa_worker_id x)), (''tasks_completed'', uint_json (wa_tasks_completed x)),
     (''tasks_failed'', uint_json (wa_tasks_failed x)), (''records_processed'', uint_json (wa_records_processed x)),
     (''cpu_time_ms'', uint_json (wa_cpu_time_ms x)), (''wall_time_ms'', uint_json (wa_wall_time_ms x))]"

definition job_metrics_json :: "uuid_api \<Rightarrow> job_metrics \<Rightarrow> json" where
  "job_metrics_json U x = JObject [
     (''total_tasks'', uint_json (jm_total_tasks x)), (''completed_tasks'', uint_json (jm_completed_tasks x)),
     (''failed_tasks'', uint_json (jm_failed_tasks x)), (''pending_tasks'', uint_json (jm_pending_tasks x)),
     (''stages'', list_json stage_metrics_json (jm_stages x)),
     (''workers'', list_json (worker_aggregate_json U) (jm_workers x))]"

definition status_response_json :: "uuid_api \<Rightarrow> job_status_response \<Rightarrow> json" where
  "status_response_json U r = JObject [
     (''job_id'', uuid_json U (jsr_job_id r)), (''status'', job_status_json (jsr_status r)),
     (''progress'', f32_json (jsr_progress r)), (''metrics'', job_metrics_json U (jsr_metrics r)),
     (''error'', opt_json JString (jsr_error r)), (''outputs'', list_json JString (jsr_outputs r))]"

definition submit_response_json :: "uuid_api \<Rightarrow> job_id \<Rightarrow> json" where
  "submit_response_json U job = JObject [(''job_id'', uuid_json U job)]"

section \<open>Lemmas: what arrives\<close>

definition stage_sized :: "stage_metrics \<Rightarrow> bool" where
  "stage_sized x \<longleftrightarrow> sm_stage_id x < 2 ^ 64 \<and> sm_tasks_total x < 2 ^ 64 \<and> sm_tasks_completed x < 2 ^ 64 \<and>
     sm_tasks_failed x < 2 ^ 64 \<and> sm_duration_ms x < 2 ^ 128"

definition aggregate_sized :: "worker_aggregate \<Rightarrow> bool" where
  "aggregate_sized x \<longleftrightarrow> wa_tasks_completed x < 2 ^ 64 \<and> wa_tasks_failed x < 2 ^ 64 \<and>
     wa_records_processed x < 2 ^ 64 \<and> wa_cpu_time_ms x < 2 ^ 128 \<and> wa_wall_time_ms x < 2 ^ 128"

definition answer_sized :: "job_status_response \<Rightarrow> bool" where
  "answer_sized r \<longleftrightarrow> is_finite (jsr_progress r) \<and> list_all stage_sized (jm_stages (jsr_metrics r)) \<and>
     list_all aggregate_sized (jm_workers (jsr_metrics r))"

definition stage_seen :: "stage_metrics \<Rightarrow> stage_metric" where
  "stage_seen x = \<lparr>cs_stage_id = sm_stage_id x, cs_duration_ms = sm_duration_ms x,
     cs_tasks_total = sm_tasks_total x, cs_tasks_completed = sm_tasks_completed x, cs_tasks_failed = sm_tasks_failed x\<rparr>"

definition aggregate_seen :: "uuid_api \<Rightarrow> worker_aggregate \<Rightarrow> client_aggregate" where
  "aggregate_seen U x = \<lparr>ca_worker_id = uuid_to_string U (wa_worker_id x), ca_tasks_completed = wa_tasks_completed x,
     ca_tasks_failed = wa_tasks_failed x, ca_records_processed = wa_records_processed x,
     ca_cpu_time_ms = wa_cpu_time_ms x, ca_wall_time_ms = wa_wall_time_ms x\<rparr>"

lemma those_map: "(\<And>x. x \<in> set xs \<Longrightarrow> f x = Some (g x)) \<Longrightarrow> those (map f xs) = Some (map g xs)"
  by (induction xs) simp_all

lemma list_seen:
  assumes "list_all P xs" "\<And>x. P x \<Longrightarrow> get (put x) = Some (g x)"
  shows "list_of get (list_json put xs) = Some (map g xs)"
  using assms those_map[of xs "\<lambda>x. get (put x)" g] by (simp add: list_json_def list_all_iff comp_def)

lemma stage_seen_back: "stage_sized x \<Longrightarrow> stage_metric_of (stage_metrics_json x) = Some (stage_seen x)"
  by (simp add: stage_metric_of_def stage_metrics_json_def stage_sized_def stage_seen_def wire_simps
      uint_wire.get_put)

lemma aggregate_seen_back:
  "aggregate_sized x \<Longrightarrow> aggregate_of (worker_aggregate_json U x) = Some (aggregate_seen U x)"
  by (simp add: aggregate_of_def worker_aggregate_json_def aggregate_sized_def aggregate_seen_def wire_simps
      uint_wire.get_put uuid_json_def)

text \<open>The answer as the client has it: of the counters of the job and of its error nothing arrives.\<close>

definition response_seen :: "uuid_api \<Rightarrow> job_status_response \<Rightarrow> job_response" where
  "response_seen U r =
     \<lparr>jr_job_id = uuid_to_string U (jsr_job_id r), jr_status = job_status_name (jsr_status r),
      jr_progress = flt_convert f32 (flt_convert f64 (jsr_progress r)), jr_stages = [], jr_tasks = [],
      jr_metrics = Some \<lparr>cm_execution_time_ms = None, cm_tasks_total = None, cm_tasks_completed = None,
        cm_tasks_failed = None, cm_records_processed = None,
        cm_stages = Some (map stage_seen (jm_stages (jsr_metrics r))),
        cm_workers = Some (map (aggregate_seen U) (jm_workers (jsr_metrics r)))\<rparr>,
      jr_output_files = [], jr_outputs = jsr_outputs r, jr_errors = [], jr_dag = None\<rparr>"

lemma list_json_not_null [simp]: "list_json f xs \<noteq> JNull"
  by (simp add: list_json_def)

lemma client_reads:
  assumes "answer_sized r"
  shows "job_response_of (status_response_json U r) = Some (response_seen U r)"
proof -
  have "list_of stage_metric_of (list_json stage_metrics_json (jm_stages (jsr_metrics r))) =
      Some (map stage_seen (jm_stages (jsr_metrics r)))"
    using assms by (intro list_seen[of stage_sized]) (simp_all add: answer_sized_def stage_seen_back)
  moreover have "list_of aggregate_of (list_json (worker_aggregate_json U) (jm_workers (jsr_metrics r))) =
      Some (map (aggregate_seen U) (jm_workers (jsr_metrics r)))"
    using assms by (intro list_seen[of aggregate_sized]) (simp_all add: answer_sized_def aggregate_seen_back)
  ultimately have "client_metrics_of (job_metrics_json U (jsr_metrics r)) =
      Some (the (jr_metrics (response_seen U r)))"
    by (simp add: client_metrics_of_def job_metrics_json_def wire_simps opt_of_def response_seen_def)
  moreover have "job_metrics_json U (jsr_metrics r) \<noteq> JNull" by (simp add: job_metrics_json_def)
  ultimately show ?thesis
    using assms
    by (simp add: job_response_of_def status_response_json_def wire_simps opt_of_def uuid_json_def
        job_status_json_def f32_json_def answer_sized_def) (simp add: response_seen_def)
qed

section \<open>Formatting\<close>

text \<open>\<open>{:.1}\<close>: one decimal, the nearest one, of two equally near ones the even one.\<close>

definition tenths :: "nat \<Rightarrow> int \<Rightarrow> nat" where
  "tenths m e = scale (10 * m) 1 (- e)"

fun fixed1 :: "flt \<Rightarrow> string" where
  "fixed1 FNaN = ''NaN''"
| "fixed1 (FInf s) = (if s then ''-inf'' else ''inf'')"
| "fixed1 (Finite s m e) =
     (if s then ''-'' else []) @ show_nat (tenths m e div 10) @ ''.'' @ show_nat (tenths m e mod 10)"

text \<open>The cast \<open>as u64\<close>: truncated towards zero, clipped to the range.\<close>

fun flt_to_u64 :: "flt \<Rightarrow> 64 word" where
  "flt_to_u64 FNaN = 0"
| "flt_to_u64 (FInf s) = (if s then 0 else - 1)"
| "flt_to_u64 (Finite s m e) =
     (if s then 0
      else let v = (if 0 \<le> e then m * 2 ^ nat e else m div 2 ^ nat (- e))
           in if v < 2 ^ 64 then of_nat v else - 1)"

datatype colour = Green | Yellow | Red | Normal

text \<open>A text with a colour, bold or not.\<close>

type_synonym painter = "colour \<Rightarrow> bool \<Rightarrow> string \<Rightarrow> string"

definition color_status :: "string \<Rightarrow> colour" where
  "color_status status =
     (let u = to_uppercase status
      in if u \<in> {''SUCCEEDED'', ''COMPLETED'', ''DONE''} then Green
         else if u \<in> {''RUNNING'', ''ACCEPTED'', ''PENDING''} then Yellow
         else if u \<in> {''FAILED'', ''ERROR''} then Red
         else Normal)"

definition or_zero :: "nat option \<Rightarrow> string" where
  "or_zero x = show_nat (case x of None \<Rightarrow> 0 | Some n \<Rightarrow> n)"

definition or_text :: "string \<Rightarrow> string option \<Rightarrow> string" where
  "or_text d x = (case x of None \<Rightarrow> d | Some t \<Rightarrow> t)"

section \<open>The commands\<close>

definition task_line :: "client_metrics option \<Rightarrow> screen_item list" where
  "task_line x =
     (case x of
        None \<Rightarrow> []
      | Some m \<Rightarrow>
          (case (cm_tasks_total m, cm_tasks_completed m) of
             (Some total_tasks, Some finished) \<Rightarrow>
               [Out (''Tasks: '' @ show_nat finished @ '' / '' @ show_nat total_tasks @ '' completed, failed: ''
                  @ or_zero (cm_tasks_failed m))]
           | _ \<Rightarrow> []))"

definition stage_row :: "painter \<Rightarrow> stage_info \<Rightarrow> string list" where
  "stage_row paint st =
     (let tasks = (case (si_tasks_completed st, si_tasks_running st, si_tasks_failed st, si_tasks_total st) of
             (Some c, Some r, Some f, Some t) \<Rightarrow>
               show_nat c @ ''/'' @ show_nat t @ '' running='' @ show_nat r @ '', failed='' @ show_nat f
           | _ \<Rightarrow> ''-'');
          state = or_text ''UNKNOWN'' (si_status st)
      in [case si_stage_id st of Some n \<Rightarrow> show_nat n | None \<Rightarrow> or_text [] (si_id st),
          paint (color_status state) False state, tasks,
          case si_errors st of Some es \<Rightarrow> show_nat (length es) | None \<Rightarrow> ''0''])"

definition worker_line :: "painter \<Rightarrow> client_worker \<Rightarrow> screen_item" where
  "worker_line paint w =
     (let status = or_text ''UNKNOWN'' (cw_status w);
          x = (case cw_metrics w of None \<Rightarrow> default_load | Some x \<Rightarrow> x)
      in Out (cw_id w @ '' '' @ paint (color_status status) False status @ '' cpu='' @ fixed1 (cl_cpu_pct x)
            @ ''% mem='' @ show_nat (cl_memory_mb x) @ ''MB tasks='' @ show_nat (cl_tasks_in_flight x)
            @ '' last='' @ or_text ''-'' (cw_last_heartbeat w)))"

definition print_status :: "painter \<Rightarrow> job_response \<Rightarrow> client_worker list option \<Rightarrow> screen_item list" where
  "print_status paint job listed =
     [Out (''Job ID: '' @ jr_job_id job),
      Out (''State: '' @ paint (color_status (jr_status job)) True (jr_status job)),
      Out (''Progress: '' @ fixed1 (jr_progress job) @ ''%'')] @
     task_line (jr_metrics job) @
     (if jr_stages job = [] then []
      else [Rows ([''Stage'', ''State'', ''Tasks'', ''Errors''] # map (stage_row paint) (jr_stages job))]) @
     (case jr_errors job of [] \<Rightarrow> [] | e # _ \<Rightarrow> [ErrOut (''Last error: '' @ paint Red False e)]) @
     (case listed of None \<Rightarrow> [] | Some ws \<Rightarrow> Out (newline # ''Workers:'') # map (worker_line paint) ws)"

text \<open>What the progress bar of \<open>status --watch\<close> shows after a poll: its position and its message.\<close>

definition bar_view :: "job_response \<Rightarrow> 64 word \<times> string" where
  "bar_view job = (flt_to_u64 (jr_progress job), ''status='' @ jr_status job)"

definition status_command :: "network \<Rightarrow> painter \<Rightarrow> (string \<Rightarrow> (error, job_response) res) \<Rightarrow>
    (string \<Rightarrow> (error, client_worker list) res) \<Rightarrow> string \<Rightarrow> string \<Rightarrow> unit net" where
  "status_command net paint decode decode_workers master job =
     io_bind (status_once net (paint Red False) decode decode_workers master job)
       (\<lambda>(j, ws). print_items (print_status paint j ws))"

definition progress_command :: "network \<Rightarrow> (string \<Rightarrow> string) \<Rightarrow> (string \<Rightarrow> (error, job_response) res) \<Rightarrow> string \<Rightarrow>
    string \<Rightarrow> unit net" where
  "progress_command net red decode master job =
     io_bind (fetch_json net red decode (job_url master job))
       (\<lambda>j. print_items [Out (''Progress: '' @ fixed1 (jr_progress j) @ ''%'')])"

definition print_job_metrics :: "painter \<Rightarrow> job_response \<Rightarrow> screen_item list" where
  "print_job_metrics paint job =
     Out (''Job: '' @ jr_job_id job) #
     (case jr_metrics job of
        None \<Rightarrow> [Out (paint Yellow False ''No metrics available'')]
      | Some m \<Rightarrow>
          Rows [[''Metric'', ''Value''],
                [''Execution time (ms)'', or_zero (cm_execution_time_ms m)],
                [''Tasks total'', or_zero (cm_tasks_total m)],
                [''Tasks completed'', or_zero (cm_tasks_completed m)],
                [''Tasks failed'', or_zero (cm_tasks_failed m)],
                [''Records processed'', or_zero (cm_records_processed m)]] #
          (case cm_stages m of
             None \<Rightarrow> []
           | Some ss \<Rightarrow>
               [Out (newline # ''Stages:''),
                Rows ([''Stage'', ''Duration(ms)'', ''Done/Total'', ''Failed''] #
                  map (\<lambda>s. [show_nat (cs_stage_id s), show_nat (cs_duration_ms s),
                    show_nat (cs_tasks_completed s) @ ''/'' @ show_nat (cs_tasks_total s),
                    show_nat (cs_tasks_failed s)]) ss)]))"

definition load_cells :: "client_load \<Rightarrow> string list" where
  "load_cells x = [fixed1 (cl_cpu_pct x), show_nat (cl_memory_mb x), show_nat (cl_tasks_in_flight x),
     show_nat (cl_tasks_completed x), show_nat (cl_tasks_failed x)]"

definition print_worker_metrics :: "client_worker list \<Rightarrow> screen_item list" where
  "print_worker_metrics ws =
     [Out (newline # ''Workers:''),
      Rows ([''ID'', ''Status'', ''CPU %'', ''Mem MB'', ''Tasks'', ''Completed'', ''Failed'', ''Records'', ''Last HB''] #
        map (\<lambda>w. let x = (case cw_metrics w of None \<Rightarrow> default_load | Some x \<Rightarrow> x)
                 in [cw_id w, or_text ''UNKNOWN'' (cw_status w)] @ load_cells x @
                    [show_nat (cl_records_processed x), or_text ''-'' (cw_last_heartbeat w)]) ws)]"

text \<open>
  \<open>try_join!\<close>: both requests are sent; one that fails ends both, and if both fail, \<open>job_first\<close> says
  whose error is returned.
\<close>

definition try_join :: "bool \<Rightarrow> 'a net \<Rightarrow> 'b net \<Rightarrow> ('a \<times> 'b) net" where
  "try_join job_first a b w =
     (case a w of (ra, w1) \<Rightarrow> (case b w1 of (rb, w2) \<Rightarrow>
        ((if job_first then res_bind ra (\<lambda>x. res_bind rb (\<lambda>y. Ok (x, y)))
          else res_bind rb (\<lambda>y. res_bind ra (\<lambda>x. Ok (x, y)))), w2)))"

definition metrics_command :: "bool \<Rightarrow> network \<Rightarrow> painter \<Rightarrow> (string \<Rightarrow> (error, job_response) res) \<Rightarrow>
    (string \<Rightarrow> (error, client_worker list) res) \<Rightarrow> string \<Rightarrow> string \<Rightarrow> unit net" where
  "metrics_command job_first net paint decode decode_workers master job =
     io_bind (try_join job_first (fetch_json net (paint Red False) decode (job_url master job))
                (fetch_json net (paint Red False) decode_workers (workers_url master)))
       (\<lambda>(j, ws). print_items (print_job_metrics paint j @ print_worker_metrics ws))"

definition workers_command :: "network \<Rightarrow> painter \<Rightarrow> (string \<Rightarrow> (error, client_worker list) res) \<Rightarrow> string \<Rightarrow>
    unit net" where
  "workers_command net paint decode_workers master =
     io_bind (fetch_json net (paint Red False) decode_workers (workers_url master)) (\<lambda>ws.
       print_items
         (if ws = [] then [Out (paint Yellow False ''No workers registered'')]
          else [Rows ([''Worker'', ''Status'', ''CPU%'', ''Mem MB'', ''Tasks'', ''Completed'', ''Failed'',
                       ''Last Heartbeat''] #
                 map (\<lambda>w. let status = or_text ''UNKNOWN'' (cw_status w);
                              x = (case cw_metrics w of None \<Rightarrow> default_load | Some x \<Rightarrow> x)
                          in [cw_id w, paint (color_status status) False status] @ load_cells x @
                             [or_text ''-'' (cw_last_heartbeat w)]) ws)]))"

definition submit_command :: "network \<Rightarrow> painter \<Rightarrow> (string \<Rightarrow> (error, job_response) res) \<Rightarrow>
    (string \<Rightarrow> (error, string) res) \<Rightarrow> string \<Rightarrow> path \<Rightarrow> unit net" where
  "submit_command net paint decode check_json master file =
     io_bind (submit net (paint Red False) decode check_json master file) (\<lambda>j.
       print_items [Out (paint Green True ''Job submitted:'' @ '' '' @ jr_job_id j @ '' ('' @ jr_status j @ '')'')])"

definition print_error :: "painter \<Rightarrow> string \<Rightarrow> string option \<Rightarrow> screen_item list" where
  "print_error paint msg details =
     ErrOut (paint Red True ''[FAILED]'' @ '' '' @ msg) #
     (case details of None \<Rightarrow> [] | Some d \<Rightarrow> if d = [] then [] else [ErrOut (''Reason: '' @ d)])"

section \<open>The program\<close>

datatype command =
    Submit path
  | Status string bool
  | Progress string
  | Metrics string
  | Results string path
  | ShowDag string
  | Workers

text \<open>What a run of the client depends on: the network, the libraries and the hash map order.\<close>

record client_env =
  ce_net :: network
  ce_paint :: painter
  ce_job :: "string \<Rightarrow> (error, job_response) res"
  ce_workers :: "string \<Rightarrow> (error, client_worker list) res"
  ce_check_json :: "string \<Rightarrow> (error, string) res"
  ce_show_code :: "nat \<Rightarrow> string"
  ce_order :: "counts \<Rightarrow> (string \<times> nat) list"
  ce_job_first :: bool

text \<open>\<open>None\<close> is a watch that does not end.\<close>

definition run_command :: "client_env \<Rightarrow> string \<Rightarrow> command \<Rightarrow> world \<Rightarrow> ((error, unit) res \<times> world) option" where
  "run_command E master cmd w =
     (let red = ce_paint E Red False; green = ce_paint E Green False; yellow = ce_paint E Yellow False
      in case cmd of
           Submit file \<Rightarrow> Some (submit_command (ce_net E) (ce_paint E) (ce_job E) (ce_check_json E) master file w)
         | Status job watch \<Rightarrow>
             if watch
             then watch_job (ce_net E) red (ce_job E) (\<lambda>j. print_status (ce_paint E) j None) master job w
             else Some (status_command (ce_net E) (ce_paint E) (ce_job E) (ce_workers E) master job w)
         | Progress job \<Rightarrow> Some (progress_command (ce_net E) red (ce_job E) master job w)
         | Metrics job \<Rightarrow>
             Some (metrics_command (ce_job_first E) (ce_net E) (ce_paint E) (ce_job E) (ce_workers E) master job w)
         | Results job dir \<Rightarrow>
             Some (results (ce_net E) red green yellow (ce_job E) (ce_show_code E) master job dir w)
         | ShowDag job \<Rightarrow> Some (dag_command (ce_order E) (ce_net E) red yellow (ce_job E) master job w)
         | Workers \<Rightarrow> Some (workers_command (ce_net E) (ce_paint E) (ce_workers E) master w))"

definition client_main :: "client_env \<Rightarrow> environment \<Rightarrow> string option \<Rightarrow> command \<Rightarrow> world \<Rightarrow>
    ((error, unit) res \<times> world) option" where
  "client_main E env master cmd w = run_command E (app_master master env) cmd w"

section \<open>Lemmas: one decimal\<close>

lemma rne_near:
  assumes "0 < d"
  shows "\<bar>real (rne n d) - real n / real d\<bar> \<le> 1 / 2"
proof -
  let ?q = "n div d" and ?r = "n mod d"
  have n: "real n = real ?q * real d + real ?r"
    by (metis div_mult_mod_eq of_nat_add of_nat_mult)
  then have "real n / real d = real ?q + real ?r / real d" using assms by (simp add: add_divide_distrib)
  moreover have "real ?r / real d < 1" using assms by (simp add: divide_less_eq)
  moreover have "real ?r / real d \<le> 1 / 2" if "2 * ?r \<le> d"
    using that assms of_nat_mono[of "2 * ?r" d, where ?'a = real] by (simp add: divide_le_eq)
  moreover have "1 / 2 \<le> real ?r / real d" if "d \<le> 2 * ?r"
    using that assms of_nat_mono[of d "2 * ?r", where ?'a = real] by (simp add: le_divide_eq)
  ultimately show ?thesis by (auto simp: rne_def Let_def abs_le_iff)
qed

lemma tenths_near: "\<bar>real (tenths m e) - 10 * magnitude m e\<bar> \<le> 1 / 2"
proof (cases "0 \<le> - e")
  case True
  have "(2::real) powi e = 1 / 2 ^ nat (- e)"
    using powi_neg[of e] True by (simp add: field_simps)
  with True rne_near[of "2 ^ nat (- e)" "10 * m"] show ?thesis
    by (simp add: tenths_def scale_def magnitude_def)
next
  case False
  then have "(2::real) powi e = 2 ^ nat e" by (simp add: power_int_def)
  with False show ?thesis
    using rne_near[of 1 "10 * m * 2 ^ nat e"] by (simp add: tenths_def scale_def magnitude_def mult.assoc)
qed

lemma fixed1_hundred: "fixed1 (flt_of_int f32 100) = ''100.0''"
  by (simp add: flt_eval tenths_def) code_simp

lemma hundred_arrives: "flt_convert f32 (flt_convert f64 (flt_of_int f32 100)) = flt_of_int f32 100"
  by (simp add: flt_eval)

section \<open>Lemmas: no list of workers\<close>

lemma workers_unanswered:
  assumes "\<And>qs. net qs (''GET'', workers_url master, []) = Ok a" "\<not> is_success (an_status a)"
  shows "(\<exists>e w'. workers_command net paint decode_workers master w = (Err e, w') \<and> shown w' = shown w) \<and>
    (\<exists>r w'. metrics_command first net paint decode decode_workers master job w = (r, w') \<and>
      shown w' = shown w \<and> \<not> (\<exists>x. r = Ok x)) \<and>
    (\<forall>j. job_answer net (paint Red False) decode (job_url master job)
        (sent w @ [(''GET'', workers_url master, [])]) = Ok j \<longrightarrow>
      (\<exists>w'. status_command net paint decode decode_workers master job w = (Ok (), w') \<and>
        shown w' = shown w @ print_status paint j None))"
proof -
  have ask: "fetch_json net red dec (workers_url master) w =
      (Err (Message (red ''[ERROR]'' @ '' '' @ show_nat (an_status a) @ '' '' @ body_or_empty a)),
       w\<lparr>sent := sent w @ [(''GET'', workers_url master, [])]\<rparr>)"
    for red and dec :: "string \<Rightarrow> (error, client_worker list) res" and w
    using assms by (simp add: fetch_json_def request_def handle_error_def io_bind_def io_lift_def)
  have job: "fetch_json net red decode (job_url master job) w =
      (job_answer net red decode (job_url master job) (sent w), w\<lparr>sent := sent w @ [(''GET'', job_url master job, [])]\<rparr>)"
    for red w
    by (auto simp: fetch_json_def request_def job_answer_def io_bind_def io_lift_def split: res.splits)
  show ?thesis
    by (auto simp: workers_command_def metrics_command_def status_command_def status_once_def try_join_def
        ask job io_bind_def io_return_def print_items_def printed_def split: res.splits)
qed

section \<open>Properties\<close>

text \<open>
  Claim C30. What the client shows of a job. The answer of the master to a request for a status is always
  understood; the client then has the identifier, the status, the progress, the output files and
  the figures per stage and worker, and it prints three lines. The counters of the job and its
  error do not arrive, because the two sides name these fields differently: they are never shown.
  A job at 100 percent shows as 100.0 percent.
\<close>

theorem client_shows_status:
  assumes "answer_sized r"
  shows "\<exists>j. job_response_of (status_response_json U r) = Some j \<and>
    jr_outputs j = jsr_outputs r \<and> jr_errors j = [] \<and>
    map_option cm_tasks_total (jr_metrics j) = Some None \<and> map_option cm_tasks_completed (jr_metrics j) = Some None \<and>
    map_option cm_stages (jr_metrics j) = Some (Some (map stage_seen (jm_stages (jsr_metrics r)))) \<and>
    print_status paint j None =
      [Out (''Job ID: '' @ uuid_to_string U (jsr_job_id r)),
       Out (''State: '' @ paint (color_status (job_status_name (jsr_status r))) True (job_status_name (jsr_status r))),
       Out (''Progress: '' @ fixed1 (flt_convert f32 (flt_convert f64 (jsr_progress r))) @ ''%'')] \<and>
    (jsr_progress r = flt_of_int f32 100 \<longrightarrow> print_status paint j None ! 2 = Out ''Progress: 100.0%'')"
  using client_reads[OF assms, of U] hundred_arrives fixed1_hundred
  by (simp add: response_seen_def print_status_def task_line_def)

definition failed_answer :: job_status_response where
  "failed_answer = \<lparr>jsr_job_id = 7, jsr_status = JS_Failed, jsr_progress = flt_of_int f32 100,
     jsr_metrics = default_job_metrics\<lparr>jm_total_tasks := 3, jm_failed_tasks := 1\<rparr>,
     jsr_error = Some ''disk full'', jsr_outputs = []\<rparr>"

theorem client_shows_status_witness:
  "\<exists>j. job_response_of (status_response_json example_uuid_api failed_answer) = Some j \<and>
    print_status (\<lambda>_ _ t. t) j None =
      [Out ''Job ID: 7'', Out ''State: Failed'', Out ''Progress: 100.0%'']"
proof -
  have "is_finite (flt_of_int f32 100)" by (simp add: flt_eval)
  then have "answer_sized failed_answer"
    by (simp add: answer_sized_def failed_answer_def default_job_metrics_def)
  moreover have "uuid_to_string example_uuid_api 7 = ''7''" by (simp add: example_uuid_api_def) code_simp
  ultimately show ?thesis
    using client_shows_status[of failed_answer example_uuid_api "\<lambda>_ _ t. t"] fixed1_hundred hundred_arrives
    by (auto simp: failed_answer_def)
qed

text \<open>
  One decimal. The text of a finite number is a sign, a whole part, a point and one digit, and the
  number it stands for differs from the number shown by at most one twentieth.
\<close>

theorem fixed1_near:
  "\<exists>whole digit. fixed1 (Finite s m e) = (if s then ''-'' else []) @ show_nat whole @ ''.'' @ show_nat digit \<and>
     digit < 10 \<and> \<bar>(real whole + real digit / 10) - magnitude m e\<bar> \<le> 1 / 20"
proof -
  let ?t = "tenths m e"
  have "real ?t = 10 * real (?t div 10) + real (?t mod 10)"
    by (metis mult_div_mod_eq of_nat_add of_nat_mult of_nat_numeral)
  with tenths_near[of m e] have "\<bar>(real (?t div 10) + real (?t mod 10) / 10) - magnitude m e\<bar> \<le> 1 / 20"
    by linarith
  then show ?thesis by (intro exI[of _ "?t div 10"] exI[of _ "?t mod 10"]) simp
qed

end
