(* ===== verification/Api.thy ===== *)
theory Api
  imports Job_Life Client_Display
begin

text \<open>
  The master as a server: a request (method, path and body as text) in, a status code, a text and the
  new state of the master out. It puts together the table of routes (\<open>src/src/http/router.rs\<close>), the
  handlers (\<open>src/src/http/handlers.rs\<close>) and the JSON forms of their arguments and answers, and connects
  the client to it. The web framework is the parameter \<open>web_api\<close>: which paths a pattern of the table
  matches, what a body that cannot be read is answered with, and the text of JSON trees.
\<close>

section \<open>The web framework\<close>

record web_api =
  captures :: "string \<Rightarrow> string \<Rightarrow> string list option"
  rejection :: "string \<Rightarrow> nat \<times> string"
  json_text :: serde_api
  decode_error :: "string \<Rightarrow> error"

text \<open>
  What is relied on of the routes: a path matches a pattern segment by segment, where a segment that
  begins with a colon stands for any segment that is not empty. (Paths with percent escapes are left
  out.) A body that cannot be read is never answered with success.
\<close>

fun match_segments :: "string list \<Rightarrow> string list \<Rightarrow> string list option" where
  "match_segments [] [] = Some []"
| "match_segments (p # ps) (s # ss) =
     (if p \<noteq> [] \<and> hd p = CHR '':''
      then if s = [] then None else map_option (Cons s) (match_segments ps ss)
      else if p = s then match_segments ps ss else None)"
| "match_segments _ _ = None"

definition segments :: "string \<Rightarrow> string list" where
  "segments p = split_by (\<lambda>c. c = slash) p"

definition router_ok :: "web_api \<Rightarrow> bool" where
  "router_ok W \<longleftrightarrow>
     (\<forall>pat p. CHR ''%'' \<notin> set p \<longrightarrow> captures W pat p = match_segments (segments pat) (segments p)) \<and>
     (\<forall>body. \<not> is_success (fst (rejection W body)))"

section \<open>Answers\<close>

type_synonym reply = "nat \<times> string"

definition json_reply :: "web_api \<Rightarrow> json \<Rightarrow> reply" where
  "json_reply W v = (case to_vec (json_text W) v of Inr s \<Rightarrow> (200, s) | Inl e \<Rightarrow> (500, e))"

text \<open>A handler that panics closes the connection without an answer.\<close>

fun reply_of :: "('a \<Rightarrow> reply) \<Rightarrow> (api_error, 'a) res \<Rightarrow> reply option" where
  "reply_of f (Ok x) = Some (f x)"
| "reply_of f (Err e) = Some (into_response e)"
| "reply_of f Panic = None"

definition register_response_json :: "uuid_api \<Rightarrow> worker_id \<Rightarrow> json" where
  "register_response_json U i = JObject [(''worker_id'', uuid_json U i)]"

section \<open>Requests\<close>

record server =
  sv_master :: master
  sv_disk :: fs

definition on_master :: "('a \<Rightarrow> reply) \<Rightarrow> (master, api_error, 'a) io \<Rightarrow> server \<Rightarrow> reply option \<times> server" where
  "on_master f h s = (case h (sv_master s) of (r, m) \<Rightarrow> (reply_of f r, s\<lparr>sv_master := m\<rparr>))"

definition with_body :: "web_api \<Rightarrow> (json \<Rightarrow> 'a option) \<Rightarrow> string \<Rightarrow> ('a \<Rightarrow> server \<Rightarrow> reply option \<times> server) \<Rightarrow>
    server \<Rightarrow> reply option \<times> server" where
  "with_body W get body f s =
     (case from_str (json_text W) body of
        Inl _ \<Rightarrow> (Some (rejection W body), s)
      | Inr v \<Rightarrow> (case get v of None \<Rightarrow> (Some (rejection W body), s) | Some x \<Rightarrow> f x s))"

text \<open>The handler of an endpoint; \<open>raw\<close> is the segment the route captures, if it captures one.\<close>

fun call_handler :: "web_api \<Rightarrow> master_env \<Rightarrow> system_time \<Rightarrow> job_id \<Rightarrow> endpoint \<Rightarrow> string \<Rightarrow> string \<Rightarrow> server \<Rightarrow>
    reply option \<times> server" where
  "call_handler W E now job Submit_Job raw body =
     with_body W dag_of body (\<lambda>d.
       on_master (\<lambda>j. json_reply W (submit_response_json (uuids E) j)) (api_submit_job E job d))"
| "call_handler W E now job Job_Status raw body = (\<lambda>s.
     (reply_of (\<lambda>r. json_reply W (status_response_json (uuids E) r)) (api_job_status E raw (sv_master s)), s))"
| "call_handler W E now job Job_Results raw body = (\<lambda>s.
     (reply_of (\<lambda>rs. json_reply W (list_json (result_json (uuids E)) rs)) (api_job_results E raw (sv_master s)), s))"
| "call_handler W E now job Job_Result_File raw body = (\<lambda>s.
     case api_job_result_file E raw (sv_master s) (sv_disk s) of
       (r, d) \<Rightarrow> (reply_of (\<lambda>f. (200, fr_body f)) r, s\<lparr>sv_disk := d\<rparr>))"
| "call_handler W E now job Heartbeat raw body =
     with_body W (heartbeat_of (uuids E)) body (\<lambda>hb. on_master (\<lambda>code. (code, [])) (api_heartbeat E now hb))"
| "call_handler W E now job Register_Worker raw body =
     with_body W (worker_of (uuids E)) body (\<lambda>w.
       on_master (\<lambda>i. json_reply W (register_response_json (uuids E) i)) (api_register_worker w))"
| "call_handler W E now job Complete_Task raw body =
     with_body W (result_of (uuids E)) body (\<lambda>r. on_master (\<lambda>code. (code, [])) (api_complete_task E r))"

text \<open>
  A path that no pattern matches is not found; a path whose patterns have other methods is refused.
\<close>

definition matching :: "web_api \<Rightarrow> string \<Rightarrow> string \<Rightarrow> (string \<times> string \<times> endpoint) list" where
  "matching W base p = filter (\<lambda>r. captures W (fst (snd r)) p \<noteq> None) (register_routes base)"

definition serve :: "web_api \<Rightarrow> master_env \<Rightarrow> system_time \<Rightarrow> job_id \<Rightarrow> string \<Rightarrow> request \<Rightarrow> server \<Rightarrow>
    reply option \<times> server" where
  "serve W E now job base q s =
     (case q of (meth, p, body) \<Rightarrow>
        case find (\<lambda>r. fst r = meth) (matching W base p) of
          Some (_, pat, ep) \<Rightarrow>
            call_handler W E now job ep (case captures W pat p of Some (raw # _) \<Rightarrow> raw | _ \<Rightarrow> []) body s
        | None \<Rightarrow> (Some (if matching W base p = [] then 404 else 405, []), s))"

section \<open>The server of a worker\<close>

text \<open>The one route of a worker; \<open>None\<close> is a task that does not end.\<close>

definition task_route :: string where
  "task_route = ''/api/v1/tasks/execute''"

definition serve_task :: "web_api \<Rightarrow> runtime \<Rightarrow> attempt_env \<Rightarrow> uuid_api \<Rightarrow> request \<Rightarrow> executor \<Rightarrow> fs \<Rightarrow>
    (reply option \<times> (string \<times> task_result) list \<times> executor \<times> fs) option" where
  "serve_task W rt env U q ex s =
     (case q of (meth, p, body) \<Rightarrow>
        if captures W task_route p = None then Some (Some (404, []), [], ex, s)
        else if meth \<noteq> ''POST'' then Some (Some (405, []), [], ex, s)
        else case from_str (json_text W) body of
               Inl _ \<Rightarrow> Some (Some (rejection W body), [], ex, s)
             | Inr v \<Rightarrow>
                 (case task_of U v of
                    None \<Rightarrow> Some (Some (rejection W body), [], ex, s)
                  | Some t \<Rightarrow>
                      map_option (\<lambda>(code, out, ex', s'). (map_option (\<lambda>c. (c, [])) code, out, ex', s'))
                        (execute_task_endpoint rt env U t ex s)))"

section \<open>A client connected to the master\<close>

text \<open>
  The \<open>n\<close>-th request of the client meets the master after \<open>between n\<close>, which is whatever workers, other
  clients and the scheduler have done since the request before. \<open>clock\<close> is the time of a request, \<open>fresh\<close>
  the identifier a new job would get.
\<close>

record traffic =
  between :: "nat \<Rightarrow> server \<Rightarrow> server"
  clock :: "nat \<Rightarrow> system_time"
  fresh :: "nat \<Rightarrow> job_id"

definition api_base :: string where
  "api_base = ''/api/v1''"

definition serve_url :: "web_api \<Rightarrow> master_env \<Rightarrow> traffic \<Rightarrow> string \<Rightarrow> nat \<Rightarrow> request \<Rightarrow> server \<Rightarrow>
    reply option \<times> server" where
  "serve_url W E T origin n q s =
     (case q of (meth, url, body) \<Rightarrow>
        if take (length origin) url = origin
        then serve W E (clock T n) (fresh T n) api_base (meth, drop (length origin) url, body) s
        else (None, s))"

primrec after_requests :: "web_api \<Rightarrow> master_env \<Rightarrow> traffic \<Rightarrow> string \<Rightarrow> nat \<Rightarrow> server \<Rightarrow> request list \<Rightarrow> server" where
  "after_requests W E T origin n s [] = s"
| "after_requests W E T origin n s (q # qs) =
     after_requests W E T origin (Suc n) (snd (serve_url W E T origin n q (between T n s))) qs"

text \<open>The master as the request after the given ones finds it.\<close>

definition met :: "web_api \<Rightarrow> master_env \<Rightarrow> traffic \<Rightarrow> string \<Rightarrow> server \<Rightarrow> request list \<Rightarrow> server" where
  "met W E T origin s earlier = between T (length earlier) (after_requests W E T origin 0 s earlier)"

definition connect :: "web_api \<Rightarrow> master_env \<Rightarrow> traffic \<Rightarrow> string \<Rightarrow> server \<Rightarrow> network" where
  "connect W E T origin s earlier q =
     (case fst (serve_url W E T origin (length earlier) q (met W E T origin s earlier)) of
        Some (code, body) \<Rightarrow> Ok \<lparr>an_status = code, an_body = Ok body\<rparr>
      | None \<Rightarrow> Err (Message ''connection closed before message completed''))"

text \<open>How the client reads an answer, and how it checks the file of a job before sending it.\<close>

definition decode_with :: "web_api \<Rightarrow> (json \<Rightarrow> 'a option) \<Rightarrow> string \<Rightarrow> (error, 'a) res" where
  "decode_with W get body =
     (case from_str (json_text W) body of
        Inl e \<Rightarrow> Err (Message e)
      | Inr v \<Rightarrow> (case get v of None \<Rightarrow> Err (decode_error W body) | Some x \<Rightarrow> Ok x))"

definition recode :: "web_api \<Rightarrow> string \<Rightarrow> (error, string) res" where
  "recode W body =
     (case from_str (json_text W) body of
        Inl e \<Rightarrow> Err (Message e)
      | Inr v \<Rightarrow> (case to_vec (json_text W) v of Inl e \<Rightarrow> Err (Message e) | Inr s \<Rightarrow> Ok s))"

section \<open>Lemmas: routes\<close>

lemma base_of_api: "base_of api_base = ''/api/v1''"
  by code_simp

lemma pattern_segments [simp]:
  "segments ''/api/v1/jobs'' = [[], ''api'', ''v1'', ''jobs'']"
  "segments ''/api/v1/jobs/:id'' = [[], ''api'', ''v1'', ''jobs'', '':id'']"
  "segments ''/api/v1/jobs/:id/results'' = [[], ''api'', ''v1'', ''jobs'', '':id'', ''results'']"
  "segments ''/api/v1/jobs/:id/result'' = [[], ''api'', ''v1'', ''jobs'', '':id'', ''result'']"
  "segments ''/api/v1/heartbeat'' = [[], ''api'', ''v1'', ''heartbeat'']"
  "segments ''/api/v1/register'' = [[], ''api'', ''v1'', ''register'']"
  "segments ''/api/v1/tasks/complete'' = [[], ''api'', ''v1'', ''tasks'', ''complete'']"
  by code_simp+

lemma segments_sep: "slash \<notin> set a \<Longrightarrow> segments (a @ slash # b) = a # segments b"
  by (auto simp: segments_def intro: split_by_sep)

lemma segments_none: "slash \<notin> set a \<Longrightarrow> segments a = [a]"
  by (auto simp: segments_def intro: split_by_none)

lemma job_segments:
  assumes "slash \<notin> set i"
  shows "segments (''/api/v1/jobs/'' @ i) = [[], ''api'', ''v1'', ''jobs'', i]"
    and "segments (''/api/v1/jobs/'' @ i @ ''/results'') = [[], ''api'', ''v1'', ''jobs'', i, ''results'']"
    and "segments (''/api/v1/jobs/'' @ i @ ''/result'') = [[], ''api'', ''v1'', ''jobs'', i, ''result'']"
proof -
  have pre: "segments (''/api/v1/jobs/'' @ x) = [[], ''api'', ''v1'', ''jobs''] @ segments x" for x
    using segments_sep[of "[]"] segments_sep[of "''api''"] segments_sep[of "''v1''"] segments_sep[of "''jobs''"]
    by (simp add: slash_def)
  have "segments ''results'' = [''results'']" "segments ''result'' = [''result'']" by code_simp+
  with assms segments_none[of i] segments_sep[of i] pre
  show "segments (''/api/v1/jobs/'' @ i) = [[], ''api'', ''v1'', ''jobs'', i]"
    and "segments (''/api/v1/jobs/'' @ i @ ''/results'') = [[], ''api'', ''v1'', ''jobs'', i, ''results'']"
    and "segments (''/api/v1/jobs/'' @ i @ ''/result'') = [[], ''api'', ''v1'', ''jobs'', i, ''result'']"
    by (simp_all add: slash_def)
qed

text \<open>The answer to a request, by the segments of its path.\<close>

lemma serve_segments:
  assumes "router_ok W" "CHR ''%'' \<notin> set p"
  shows "segments p = [[], ''api'', ''v1'', ''jobs''] \<Longrightarrow>
      serve W E now job api_base (''POST'', p, body) s = call_handler W E now job Submit_Job [] body s"
    and "segments p = [[], ''api'', ''v1'', ''jobs'', i] \<Longrightarrow> i \<noteq> [] \<Longrightarrow>
      serve W E now job api_base (''GET'', p, body) s = call_handler W E now job Job_Status i body s"
    and "segments p = [[], ''api'', ''v1'', ''jobs'', i, ''results''] \<Longrightarrow> i \<noteq> [] \<Longrightarrow>
      serve W E now job api_base (''GET'', p, body) s = call_handler W E now job Job_Results i body s"
    and "segments p = [[], ''api'', ''v1'', ''jobs'', i, ''result''] \<Longrightarrow> i \<noteq> [] \<Longrightarrow>
      serve W E now job api_base (''GET'', p, body) s = call_handler W E now job Job_Result_File i body s"
    and "segments p = [[], ''api'', ''v1'', ''heartbeat''] \<Longrightarrow>
      serve W E now job api_base (''POST'', p, body) s = call_handler W E now job Heartbeat [] body s"
    and "segments p = [[], ''api'', ''v1'', ''register''] \<Longrightarrow>
      serve W E now job api_base (''POST'', p, body) s = call_handler W E now job Register_Worker [] body s"
    and "segments p = [[], ''api'', ''v1'', ''tasks'', ''complete''] \<Longrightarrow>
      serve W E now job api_base (''POST'', p, body) s = call_handler W E now job Complete_Task [] body s"
  using assms
  by (simp_all add: serve_def matching_def register_routes_def base_of_api router_ok_def)

text \<open>Every request outside the table is refused and changes nothing.\<close>

lemma serve_unrouted:
  assumes "router_ok W" "CHR ''%'' \<notin> set p"
    and "\<forall>r \<in> set (register_routes api_base). fst r = meth \<longrightarrow> match_segments (segments (fst (snd r))) (segments p) = None"
  shows "\<exists>code \<in> {404, 405}. serve W E now job api_base (meth, p, body) s = (Some (code, []), s)"
proof -
  have "find (\<lambda>r. fst r = meth) (matching W api_base p) = None"
    using assms by (auto simp: find_None_iff matching_def router_ok_def)
  then show ?thesis by (simp add: serve_def)
qed

lemma unrouted_get:
  assumes "router_ok W" "CHR ''%'' \<notin> set p"
    and "segments p \<in> {[[], ''api'', ''v1'', ''jobs''], [[], ''api'', ''v1'', ''health''], [[], ''api'', ''v1'', ''workers'']} \<or>
      (\<exists>x xs. segments p = [] # x # xs \<and> x \<noteq> ''api'')"
  shows "\<exists>code \<in> {404, 405}. serve W E now job api_base (''GET'', p, body) s = (Some (code, []), s)"
  using assms(3) by (intro serve_unrouted[OF assms(1,2)]) (auto simp: register_routes_def base_of_api)

lemma route_itself: "router_ok W \<Longrightarrow> captures W task_route task_route \<noteq> None"
proof -
  assume W: "router_ok W"
  have "match_segments (segments task_route) (segments task_route) = Some []" by code_simp
  moreover have "CHR ''%'' \<notin> set task_route" by (simp add: task_route_def)
  ultimately show ?thesis using W by (simp add: router_ok_def)
qed

section \<open>Lemmas: connected components\<close>

lemma after_requests_append:
  "after_requests W E T origin n s (qs @ rs) =
     after_requests W E T origin (n + length qs) (after_requests W E T origin n s qs) rs"
  by (induction qs arbitrary: n s) simp_all

lemma after_request:
  "after_requests W E T origin 0 s (earlier @ [q]) =
     snd (serve_url W E T origin (length earlier) q (met W E T origin s earlier))"
  by (simp add: after_requests_append met_def)

lemma serve_url_origin [simp]:
  "serve_url W E T origin n (meth, origin @ p, body) s =
     serve W E (clock T n) (fresh T n) api_base (meth, p, body) s"
  by (simp add: serve_url_def)

text \<open>What is relied on of identifiers: a printed one is one segment, and it is read back.\<close>

definition uuid_segment :: "uuid_api \<Rightarrow> bool" where
  "uuid_segment U \<longleftrightarrow> uuid_text_ok U \<and>
     (\<forall>u. uuid_to_string U u \<noteq> [] \<and> slash \<notin> set (uuid_to_string U u) \<and> CHR ''%'' \<notin> set (uuid_to_string U u))"

lemma uuid_segmentD:
  assumes "uuid_segment U"
  shows "uuid_to_string U u \<noteq> []" "slash \<notin> set (uuid_to_string U u)" "CHR ''%'' \<notin> set (uuid_to_string U u)"
    and "parse_job_id U (uuid_to_string U u) = Ok u"
  using assms by (simp_all add: uuid_segment_def uuid_text_ok_def parse_job_id_def)

lemma app_url_api: "app_url origin (''/api/v1/'' @ p) = origin @ ''/api/v1/'' @ p"
  by (simp add: app_url_def slash_def)

lemma reads_backE:
  assumes "reads_back S v"
  obtains t where "to_vec S v = Inr t" "from_str S t = Inr v"
  using assms by (auto simp: reads_back_def split: sum.splits)

lemma with_body_read:
  "reads_back (json_text W) v \<Longrightarrow> to_vec (json_text W) v = Inr body \<Longrightarrow> get v = Some x \<Longrightarrow>
   with_body W get body f s = f x s"
  by (simp add: with_body_def reads_back_def)

text \<open>A request for the state of a job, over the network.\<close>

lemma status_over_network:
  assumes "router_ok W" "uuid_segment (uuids E)"
    and m: "get_job_status E job (sv_master (met W E T origin s earlier)) = Ok r"
    and "answer_sized r" "reads_back (json_text W) (status_response_json (uuids E) r)"
  shows "job_answer (connect W E T origin s) red (decode_with W job_response_of)
      (job_url origin (uuid_to_string (uuids E) job)) earlier = Ok (response_seen (uuids E) r)"
proof -
  let ?i = "uuid_to_string (uuids E) job"
  obtain t where t: "to_vec (json_text W) (status_response_json (uuids E) r) = Inr t"
    "from_str (json_text W) t = Inr (status_response_json (uuids E) r)"
    using assms(5) by (rule reads_backE)
  have "serve W E now j api_base (''GET'', ''/api/v1/jobs/'' @ ?i, []) (met W E T origin s earlier) =
      (Some (200, t), met W E T origin s earlier)" for now j
    using serve_segments(2)[OF assms(1) _ job_segments(1), of ?i] uuid_segmentD[OF assms(2)] m t
    by (simp add: api_job_status_def json_reply_def)
  moreover have "job_url origin ?i = origin @ ''/api/v1/jobs/'' @ ?i"
    using app_url_api[of origin "''jobs/'' @ ?i"] by (simp add: job_url_def)
  ultimately have "connect W E T origin s earlier (''GET'', job_url origin ?i, []) =
      Ok \<lparr>an_status = 200, an_body = Ok t\<rparr>"
    by (simp add: connect_def)
  with t client_reads[OF assms(4), of "uuids E"] show ?thesis
    by (simp add: job_answer_def handle_error_def is_success_def decode_with_def)
qed

lemma is_terminal_name: "is_terminal (job_status_name x) \<longleftrightarrow> x \<in> {JS_Completed, JS_Succeeded, JS_Failed}"
  by (cases x; hypsubst; code_simp)

text \<open>The three lines the client prints of a job without stages, tasks and workers.\<close>

definition status_lines :: "painter \<Rightarrow> uuid_api \<Rightarrow> job_status_response \<Rightarrow> screen_item list" where
  "status_lines paint U r =
     [Out (''Job ID: '' @ uuid_to_string U (jsr_job_id r)),
      Out (''State: '' @ paint (color_status (job_status_name (jsr_status r))) True (job_status_name (jsr_status r))),
      Out (''Progress: '' @ fixed1 (flt_convert f32 (flt_convert f64 (jsr_progress r))) @ ''%'')]"

lemma print_status_seen: "print_status paint (response_seen U r) None = status_lines paint U r"
  by (simp add: print_status_def response_seen_def task_line_def status_lines_def)

lemma submit_over_network:
  assumes "router_ok W" "uuid_segment (uuids E)" "fst (read_file file (disk w)) = Ok file_text"
    and "from_str (json_text W) file_text = Inr v" "reads_back (json_text W) v" "dag_of v = Some d"
    and "stored E (sv_master (met W E T origin s (sent w))) view" "validate d = Ok ()"
    and job: "job = fresh T (length (sent w))"
    and "reads_back (json_text W) (submit_response_json (uuids E) job)"
  shows "\<exists>w'. submit_command (connect W E T origin s) paint (decode_with W job_response_of) (recode W) origin file w =
      (Ok (), w') \<and>
    shown w' = shown w @ [Out (paint Green True ''Job submitted:'' @ '' '' @ uuid_to_string (uuids E) job @ '' ()'')] \<and>
    length (sent w') = Suc (length (sent w)) \<and>
    after_requests W E T origin 0 s (sent w') =
      (met W E T origin s (sent w))\<lparr>sv_master := snd (submit_job E job d (sv_master (met W E T origin s (sent w))))\<rparr>"
proof -
  let ?m = "met W E T origin s (sent w)" and ?S = "json_text W" and ?url = "app_url origin ''/api/v1/jobs''"
  obtain t where t: "to_vec ?S v = Inr t" "from_str ?S t = Inr v" using assms(5) by (rule reads_backE)
  obtain a where a: "to_vec ?S (submit_response_json (uuids E) job) = Inr a"
    "from_str ?S a = Inr (submit_response_json (uuids E) job)" using assms(10) by (rule reads_backE)
  have "fst (submit_job E job d (sv_master ?m)) = Ok job" using submit_tracked[OF assms(7,8), of job] by simp
  then obtain m' where m': "submit_job E job d (sv_master ?m) = (Ok job, m')" by (metis prod.collapse)
  have url: "?url = origin @ ''/api/v1/jobs''" using app_url_api[of origin "''jobs''"] by simp
  have "serve W E now job api_base (''POST'', ''/api/v1/jobs'', t) ?m = (Some (200, a), ?m\<lparr>sv_master := m'\<rparr>)" for now
    using serve_segments(1)[OF assms(1), of "''/api/v1/jobs''"] t(2) assms(6) m' a(1)
    by (simp add: with_body_def on_master_def api_submit_job_def json_reply_def)
  then have served: "serve_url W E T origin (length (sent w)) (''POST'', ?url, t) ?m =
      (Some (200, a), ?m\<lparr>sv_master := m'\<rparr>)"
    by (simp add: url job)
  then have "connect W E T origin s (sent w) (''POST'', ?url, t) = Ok \<lparr>an_status = 200, an_body = Ok a\<rparr>"
    by (simp add: connect_def)
  moreover have "job_response_of (submit_response_json (uuids E) job) =
      Some \<lparr>jr_job_id = uuid_to_string (uuids E) job, jr_status = [], jr_progress = fzero f32, jr_stages = [],
        jr_tasks = [], jr_metrics = None, jr_output_files = [], jr_outputs = [], jr_errors = [], jr_dag = None\<rparr>"
    by (simp add: job_response_of_def submit_response_json_def uuid_json_def wire_simps)
  moreover obtain dsk where "read_file file (disk w) = (Ok file_text, dsk)"
    using assms(3) by (metis prod.collapse)
  moreover have "after_requests W E T origin 0 s (sent w @ [(''POST'', ?url, t)]) = ?m\<lparr>sv_master := m'\<rparr>"
    by (simp add: after_request served)
  ultimately show ?thesis
    using assms(4) t(1) a(2) m'
    by (simp add: submit_command_def submit_def post_json_def io_bind_def io_lift_def on_disk_def recode_def
        request_def handle_error_def is_success_def decode_with_def print_items_def printed_def)
qed

lemma watch_over_network:
  assumes polls_def: "polls = (\<lambda>i. sent w @ replicate i (''GET'', job_url origin (uuid_to_string (uuids E) job), []))"
    and "router_ok W" "uuid_segment (uuids E)"
    and r: "\<forall>i \<le> n. get_job_status E job (sv_master (met W E T origin s (polls i))) = Ok (r i) \<and>
      answer_sized (r i) \<and> reads_back (json_text W) (status_response_json (uuids E) (r i))"
    and "\<forall>i < n. jsr_status (r i) \<notin> {JS_Completed, JS_Succeeded, JS_Failed}"
    and "jsr_status (r n) \<in> {JS_Completed, JS_Succeeded, JS_Failed}"
  shows "watch_job (connect W E T origin s) red (decode_with W job_response_of)
      (\<lambda>j. print_status paint j None) origin (uuid_to_string (uuids E) job) w =
    Some (Ok (), w\<lparr>sent := polls (Suc n), shown := shown w @ status_lines paint (uuids E) (r n)\<rparr>)"
proof -
  let ?url = "job_url origin (uuid_to_string (uuids E) job)"
  let ?check = "terminal_check (connect W E T origin s) red (decode_with W job_response_of)
      (\<lambda>j. print_status paint j None) ?url"
  have ans: "job_answer (connect W E T origin s) red (decode_with W job_response_of) ?url (sent (polled i ?url w)) =
      Ok (response_seen (uuids E) (r i))" if "i \<le> n" for i
    using status_over_network[OF assms(2,3), of job T origin s "polls i" "r i"] r that
    by (simp add: polled_def polls_def)
  have name: "jr_status (response_seen (uuids E) (r i)) = job_status_name (jsr_status (r i))" for i
    by (simp add: response_seen_def)
  have "\<forall>i < n. \<exists>j. job_answer (connect W E T origin s) red (decode_with W job_response_of) ?url
      (sent (polled i ?url w)) = Ok j \<and> \<not> is_terminal (jr_status j)"
    using ans assms(5) is_terminal_name name by (metis less_imp_le)
  from watch_skip[OF this, of "\<lambda>j. print_status paint j None"]
  have "watch_until_terminal ?check w = watch_until_terminal ?check (polled n ?url w)" .
  moreover have "?check (polled n ?url w) =
      (Ok True, w\<lparr>sent := polls (Suc n), shown := shown w @ status_lines paint (uuids E) (r n)\<rparr>)"
    using ans[of n] assms(6) is_terminal_name[of "jsr_status (r n)"] name[of n]
    by (simp add: terminal_check_eq print_status_seen printed_def polled_def polls_def replicate_append_same Let_def)
  ultimately show ?thesis
    by (simp add: watch_job_def) (subst watch_until_terminal.simps, simp)
qed

section \<open>Lemmas: the figures of a job\<close>

text \<open>The figures of the stages of a job after \<open>k\<close> results that took \<open>du\<close> milliseconds together.\<close>

definition stage_within :: "nat \<Rightarrow> nat \<Rightarrow> stage_metrics \<Rightarrow> bool" where
  "stage_within k du x \<longleftrightarrow> sm_stage_id x < 2 ^ 64 \<and> sm_tasks_total x < 2 ^ 64 \<and> sm_tasks_completed x \<le> k \<and>
     sm_tasks_failed x = 0 \<and> sm_duration_ms x \<le> du"

definition job_within :: "nat \<Rightarrow> nat \<Rightarrow> job_state \<Rightarrow> bool" where
  "job_within k du js \<longleftrightarrow> list_all (stage_within k du) (jm_stages (job_state_metrics js)) \<and>
     jm_workers (job_state_metrics js) = []"

lemma stage_within_mono: "stage_within k du x \<Longrightarrow> k \<le> l \<Longrightarrow> du \<le> dv \<Longrightarrow> stage_within l dv x"
  by (simp add: stage_within_def)

lemma list_all_update_first:
  "list_all P xs \<Longrightarrow> (\<And>x. P x \<Longrightarrow> Q x) \<Longrightarrow> (\<And>x. P x \<Longrightarrow> Q (f x)) \<Longrightarrow> list_all Q (update_first p f xs)"
  by (induction xs) (auto simp: list_all_iff)

lemma job_within_after:
  assumes "job_within k du js" "res_status r = TS_Completed"
  shows "job_within (Suc k) (du + tm_duration_ms (res_metrics r)) (job_after r (with_status r js))"
proof -
  let ?d = "tm_duration_ms (res_metrics r)"
  have "list_all (stage_within (Suc k) (du + ?d))
      (update_first (\<lambda>s. sm_stage_id s = res_stage_id r)
        (\<lambda>s. s\<lparr>sm_tasks_completed := sm_tasks_completed s + 1, sm_duration_ms := sm_duration_ms s + ?d\<rparr>)
        (jm_stages (job_state_metrics js)))"
    using assms(1) unfolding job_within_def
    by (intro list_all_update_first[of "stage_within k du"]) (auto simp: stage_within_def)
  with assms show ?thesis
    by (simp add: job_after_def with_status_def job_within_def count_completed_def update_pending_def
        on_workers_def Let_def)
qed

lemma job_within_mono: "job_within k du js \<Longrightarrow> k \<le> l \<Longrightarrow> du \<le> dv \<Longrightarrow> job_within l dv js"
  by (auto simp: job_within_def list_all_iff dest: stage_within_mono)

lemma complete_within:
  assumes "m_jobs m job = Some js" "job_within k du js" "res_job_id r = job" "res_status r = TS_Completed"
  shows "\<exists>js'. m_jobs (snd (complete_task E r m)) job = Some js' \<and>
    job_within (Suc k) (du + tm_duration_ms (res_metrics r)) js'"
proof -
  have "job_within (Suc k) (du + tm_duration_ms (res_metrics r)) (with_status r js)"
    using job_within_mono[OF assms(2), of "Suc k" "du + tm_duration_ms (res_metrics r)"]
    by (simp add: job_within_def with_status_def)
  with assms job_within_after[OF assms(2,4)] show ?thesis
    by (auto simp: complete_task_def with_status_def io_bind_def Let_def on_store_def set_job_def
        save_after_def on_store_ignore split: res.splits prod.splits)
qed

lemma complete_all_within:
  assumes "m_jobs m job = Some js" "job_within k du js"
    and "\<forall>r \<in> set rs. res_job_id r = job \<and> res_status r = TS_Completed"
  shows "\<exists>js'. m_jobs (complete_all E rs m) job = Some js' \<and>
    job_within (k + length rs) (du + (\<Sum>r\<leftarrow>rs. tm_duration_ms (res_metrics r))) js'"
  using assms
proof (induction rs arbitrary: m js k du)
  case Nil
  then show ?case by (simp add: complete_all_def)
next
  case (Cons r rs)
  from complete_within[OF Cons.prems(1,2), of r E] Cons.prems(3) obtain js' where
    "m_jobs (snd (complete_task E r m)) job = Some js'"
    "job_within (Suc k) (du + tm_duration_ms (res_metrics r)) js'" by auto
  from Cons.IH[OF this] Cons.prems(3) show ?case by (simp add: complete_all_def algebra_simps)
qed

lemma schedule_within:
  "\<exists>js. m_jobs m job = Some js \<and> job_within k du js \<Longrightarrow>
   \<exists>js. m_jobs (fold (schedule_task E) ts m) job = Some js \<and> job_within k du js"
proof (induction ts arbitrary: m)
  case (Cons t ts)
  then have "\<exists>js. m_jobs (schedule_task E t m) job = Some js \<and> job_within k du js"
    by (auto simp: schedule_task_jobs assigned_job_def job_within_def split: option.splits)
  then show ?case using Cons.IH by simp
qed simp

lemma submit_within:
  assumes "stored E m v" "validate d = Ok ()" "length (to_stages (stage_order E job) d) \<le> 2 ^ 64" "dag_partitions d < 2 ^ 64"
  shows "\<exists>js. m_jobs (snd (submit_job E job d m)) job = Some js \<and> job_within 0 0 js"
    and "m_registry (snd (submit_job E job d m)) = m_registry m"
proof -
  from admit_job_ok[OF assms(1,2)] obtain db where
    a: "admit_job E job d m = (Ok (tasks_of E d job), set_job job (admitted_job E job d) (m\<lparr>m_store := db\<rparr>))" by blast
  have "job_within 0 0 (admitted_job E job d)"
    using assms(3,4) by (auto simp: job_within_def admitted_job_def initial_metrics_def default_job_metrics_def
        list_all_iff stage_within_def to_stages_def in_set_enumerate_eq)
  then have "\<exists>js. m_jobs (set_job job (admitted_job E job d) (m\<lparr>m_store := db\<rparr>)) job = Some js \<and> job_within 0 0 js"
    by (simp add: set_job_def)
  from schedule_within[OF this] a show "\<exists>js. m_jobs (snd (submit_job E job d m)) job = Some js \<and> job_within 0 0 js"
    by (simp add: submit_job_def io_bind_def)
  from a show "m_registry (snd (submit_job E job d m)) = m_registry m"
    by (simp add: submit_job_def io_bind_def fold_schedule set_job_def)
qed

lemma merge_sized:
  "list_all aggregate_sized as \<Longrightarrow> list_all (\<lambda>w. aggregate_sized (worker_summary w)) ws \<Longrightarrow>
   list_all aggregate_sized (fold merge_worker ws as)"
proof (induction ws arbitrary: as)
  case (Cons w ws)
  then have "list_all aggregate_sized (merge_worker w as)"
    by (auto simp: merge_worker_def intro!: list_all_update_first[of aggregate_sized])
  with Cons show ?case by simp
qed simp


lemma complete_all_registry: "m_registry (complete_all E rs m) = m_registry m"
proof (induction rs arbitrary: m)
  case (Cons r rs)
  have "m_registry (snd (complete_task E r m)) = m_registry m"
    by (auto simp: complete_task_def io_bind_def Let_def on_store_def set_job_def
        save_after_def on_store_ignore split: res.splits prod.splits option.splits task_status.splits)
  with Cons show ?case by (simp add: complete_all_def)
qed (simp add: complete_all_def)

text \<open>Counters of stages, partitions, tasks, times and loads that fit the widths of their fields.\<close>

definition figures_fit :: "master_env \<Rightarrow> master \<Rightarrow> dag_specification \<Rightarrow> job_id \<Rightarrow> task_result list \<Rightarrow> bool" where
  "figures_fit E m d job rs \<longleftrightarrow> length (to_stages (stage_order E job) d) \<le> 2 ^ 64 \<and> dag_partitions d < 2 ^ 64 \<and>
     length rs < 2 ^ 64 \<and> (\<Sum>r\<leftarrow>rs. tm_duration_ms (res_metrics r)) < 2 ^ 128 \<and>
     list_all (\<lambda>w. aggregate_sized (worker_summary w)) (available_workers (worker_iter E) (m_registry m))"

text \<open>The answer about a job that has been submitted and reported completely has figures of the widths of their fields.\<close>

lemma finished_answer_sized:
  assumes "stored E m v" "validate d = Ok ()" "figures_fit E m d job rs"
    and "\<forall>r \<in> set rs. res_job_id r = job \<and> res_status r = TS_Completed"
    and resp: "get_job_status E job (complete_all E rs (snd (submit_job E job d m))) = Ok resp"
    and "is_finite (jsr_progress resp)"
  shows "answer_sized resp"
proof -
  let ?m = "snd (submit_job E job d m)"
  note fit = assms(3)[unfolded figures_fit_def]
  from submit_within[OF assms(1,2)] fit obtain js0 where "m_jobs ?m job = Some js0" "job_within 0 0 js0"
    and reg: "m_registry ?m = m_registry m" by blast
  from complete_all_within[OF this(1,2) assms(4), of E] obtain js where
    js: "m_jobs (complete_all E rs ?m) job = Some js"
      "job_within (length rs) (\<Sum>r\<leftarrow>rs. tm_duration_ms (res_metrics r)) js" by auto
  have "list_all stage_sized (jm_stages (job_state_metrics js))"
    using js(2) fit by (auto simp: job_within_def stage_within_def stage_sized_def list_all_iff)
  moreover have "list_all aggregate_sized
      (fold merge_worker (available_workers (worker_iter E) (m_registry m)) (jm_workers (job_state_metrics js)))"
    using merge_sized[of "[]"] js(2) fit by (simp add: job_within_def)
  ultimately show ?thesis
    using resp js(1) assms(6) reg
    by (auto simp: get_job_status_def answer_sized_def complete_all_registry)
qed


section \<open>Properties\<close>

text \<open>
  Claim C2. A job as its user sees it. The client submits the file of a valid graph to a master whose store
  works; then the tasks of the plan are run by workers, in whatever order and on whatever machines, all of
  them complete, and their reports reach the master before the client asks. The client has printed
  the identifier the master gave the job, and watching the job ends with the first answer: it shows
  that the job has succeeded, at 100.0 percent. (The status in the parentheses of the first line is
  always empty, because the answer to a submission has none.)
\<close>

theorem job_seen_by_client:
  assumes "router_ok W" "uuid_segment (uuids E)" "fst (read_file file (disk w)) = Ok file_text"
    and "from_str (json_text W) file_text = Inr v" "reads_back (json_text W) v" "dag_of v = Some d"
    and "m = sv_master (met W E T origin s (sent w))" "stored E m view" "validate d = Ok ()"
    and "job = fresh T (length (sent w))" "reads_back (json_text W) (submit_response_json (uuids E) job)"
    and "tasks_of E d job \<noteq> []" "length ts < 2 ^ 24" "mset ts = mset (tasks_of E d job)"
    and "list_all2 (ran (uuids E)) ts rs" "\<forall>r \<in> set rs. res_status r = TS_Completed"
    and "\<forall>x. between T (Suc (length (sent w))) x = x\<lparr>sv_master := complete_all E rs (sv_master x)\<rparr>"
    and "figures_fit E m d job rs"
    and "\<forall>resp. get_job_status E job (complete_all E rs (snd (submit_job E job d m))) = Ok resp \<longrightarrow>
      reads_back (json_text W) (status_response_json (uuids E) resp)"
  shows "\<exists>w1 w2. submit_command (connect W E T origin s) paint (decode_with W job_response_of) (recode W) origin file w =
      (Ok (), w1) \<and>
    watch_job (connect W E T origin s) red (decode_with W job_response_of) (\<lambda>j. print_status paint j None) origin
      (uuid_to_string (uuids E) job) w1 = Some (Ok (), w2) \<and>
    shown w2 = shown w @
      [Out (paint Green True ''Job submitted:'' @ '' '' @ uuid_to_string (uuids E) job @ '' ()''),
       Out (''Job ID: '' @ uuid_to_string (uuids E) job),
       Out (''State: '' @ paint (color_status ''Succeeded'') True ''Succeeded''),
       Out ''Progress: 100.0%'']"
proof -
  let ?sub = "submit_command (connect W E T origin s) paint (decode_with W job_response_of) (recode W) origin file w"
  from submit_over_network[OF assms(1-6) assms(8)[unfolded assms(7)] assms(9-11), of paint] assms(7) obtain w1 where
    w1: "?sub = (Ok (), w1)" "length (sent w1) = Suc (length (sent w))"
      "shown w1 = shown w @ [Out (paint Green True ''Job submitted:'' @ '' '' @ uuid_to_string (uuids E) job @ '' ()'')]"
      "sv_master (after_requests W E T origin 0 s (sent w1)) = snd (submit_job E job d m)" by force
  from job_succeeds[OF assms(8,9,12,14-16)] assms(13) obtain resp where
    ask: "get_job_status E job (complete_all E rs (snd (submit_job E job d m))) = Ok resp"
    and resp: "jsr_status resp = JS_Succeeded" "jsr_progress resp = flt_of_int f32 100" by blast
  have "\<forall>r \<in> set rs. res_job_id r = job"
    using ran_all[OF assms(15), of job] assms(14) tasks_of_job by (metis set_mset_mset)
  then have "answer_sized resp"
    using finished_answer_sized[OF assms(8,9,18) _ ask] assms(16) resp(2) by (simp add: flt_eval)
  have "sv_master (met W E T origin s (sent w1)) = complete_all E rs (snd (submit_job E job d m))"
    using w1 assms(17) by (simp add: met_def)
  then have "watch_job (connect W E T origin s) red (decode_with W job_response_of) (\<lambda>j. print_status paint j None)
      origin (uuid_to_string (uuids E) job) w1 =
      Some (Ok (), w1\<lparr>sent := sent w1 @ [(''GET'', job_url origin (uuid_to_string (uuids E) job), [])],
        shown := shown w1 @ status_lines paint (uuids E) resp\<rparr>)"
    using watch_over_network[OF refl assms(1,2), of 0 job T origin s w1 "\<lambda>_. resp" red paint] ask \<open>answer_sized resp\<close>
      assms(19) resp(1) by simp
  moreover have "jsr_job_id resp = job" using ask by (auto simp: get_job_status_def split: option.splits)
  ultimately show ?thesis
    using w1(1,3) resp hundred_arrives fixed1_hundred by (simp add: status_lines_def)
qed

text \<open>An example: the texts of a table as the only JSON, and a master with one worker.\<close>

definition example_web :: "(json \<times> string) list \<Rightarrow> web_api" where
  "example_web tab = \<lparr>captures = (\<lambda>pat p. match_segments (segments pat) (segments p)),
     rejection = (\<lambda>_. (422, [])), json_text = table_serde tab, decode_error = (\<lambda>_. Message ''error decoding response body'')\<rparr>"

lemma example_web_ok: "router_ok (example_web tab)"
  by (simp add: router_ok_def example_web_def is_success_def)

lemma example_uuid_segment: "uuid_segment example_uuid_api"
proof -
  have "show_nat n \<noteq> [] \<and> slash \<notin> set (show_nat n) \<and> CHR ''%'' \<notin> set (show_nat n)" for n
    using show_nat_no_char[of _ n] by (simp add: slash_def is_digit_def)
  then show ?thesis using example_uuid_text by (simp add: uuid_segment_def example_uuid_api_def)
qed

lemma example_workers_sized:
  "list_all (\<lambda>w. aggregate_sized (worker_summary w)) (available_workers (worker_iter example_env) (m_registry example_master))"
  by (simp add: available_workers_def key_order_def example_env_def example_master_def add_worker_def
      default_registry_def aggregate_sized_def worker_summary_def example_worker_def default_worker_metrics_def)

definition job_file_world :: world where
  "job_file_world = idle_world\<lparr>disk := \<lparr>files = [''/job.json'' \<mapsto> ''D''], faults = (\<lambda>_. None)\<rparr>\<rparr>"

definition example_traffic :: "task_result list \<Rightarrow> traffic" where
  "example_traffic rs = \<lparr>between = (\<lambda>n x. if n = 1 then x\<lparr>sv_master := complete_all example_env rs (sv_master x)\<rparr> else x),
     clock = (\<lambda>_. 0), fresh = (\<lambda>_. 7)\<rparr>"

theorem job_seen_by_client_witness:
  "\<exists>W T s w1 w2. submit_command (connect W example_env T ''http://m'' s) (\<lambda>_ _ t. t) (decode_with W job_response_of)
      (recode W) ''http://m'' ''/job.json'' job_file_world = (Ok (), w1) \<and>
    watch_job (connect W example_env T ''http://m'' s) id (decode_with W job_response_of)
      (\<lambda>j. print_status (\<lambda>_ _ t. t) j None) ''http://m'' ''7'' w1 = Some (Ok (), w2) \<and>
    shown w2 = [Out ''Job submitted: 7 ()'', Out ''Job ID: 7'', Out ''State: Succeeded'', Out ''Progress: 100.0%'']"
proof -
  obtain t where t: "tasks_of example_env life_dag 7 = [t]" "task_job_id t = 7"
    "task_operators t = [OT_Read ''/in'' ''jsonl'']" "task_operator_ids t = [''r'']"
    "task_incoming_edges t = [[]]" "task_partition t = 0" "task_total_partitions t = 1"
    using life_tasks by blast
  from life_run[OF t(2-7)] obtain r where r: "ran (uuids example_env) t r" "res_status r = TS_Completed"
    "tm_duration_ms (res_metrics r) = 5" by (auto simp: example_env_def)
  have valid: "validate life_dag = Ok ()" by (simp add: life_dag_def validate_def node_def)
  have run: "mset [t] = mset (tasks_of example_env life_dag 7)" "list_all2 (ran (uuids example_env)) [t] [r]"
    "\<forall>x \<in> set [r]. res_status x = TS_Completed" "tasks_of example_env life_dag 7 \<noteq> []"
    using t(1) r by simp_all
  from job_succeeds[OF example_stored valid run(4,1,2,3)] obtain resp where
    resp: "get_job_status example_env 7 (complete_all example_env [r] (snd (submit_job example_env 7 life_dag example_master))) =
      Ok resp" by blast
  define W where "W = example_web [(dag_json life_dag, ''D''), (submit_response_json (uuids example_env) 7, ''R''),
     (status_response_json (uuids example_env) resp, ''S'')]"
  have rb: "reads_back (json_text W) (dag_json life_dag)"
    "reads_back (json_text W) (submit_response_json (uuids example_env) 7)"
    "reads_back (json_text W) (status_response_json (uuids example_env) resp)"
    "from_str (json_text W) ''D'' = Inr (dag_json life_dag)"
    by (simp_all add: reads_back_def W_def example_web_def table_serde_def dag_json_def submit_response_json_def
        status_response_json_def newline_def carriage_return_def trim_def trim_end_matches_def is_whitespace_def)
  have fit: "figures_fit example_env example_master life_dag 7 [r]"
  proof -
    have "length (to_stages (stage_order example_env 7) life_dag) \<le> 2 ^ 64"
      by (simp add: to_stages_def life_dag_def node_def ordered_nodes_def)
    then show ?thesis using r(3) example_workers_sized by (simp add: figures_fit_def life_dag_def)
  qed
  let ?T = "example_traffic [r]" and ?s = "\<lparr>sv_master = example_master, sv_disk = example_fs\<rparr>"
  have input: "fst (read_file ''/job.json'' (disk job_file_world)) = Ok ''D''"
    by (simp add: read_file_def guarded_def job_file_world_def)
  have dag: "dag_of (dag_json life_dag) = Some life_dag"
    by (rule dag_wire.get_put) (simp add: dag_sized_def life_dag_def node_def)
  have sent: "sent job_file_world = []" "shown job_file_world = []" by (simp_all add: job_file_world_def idle_world_def)
  have met: "example_master = sv_master (met W example_env ?T ''http://m'' ?s (sent job_file_world))"
    by (simp add: sent met_def example_traffic_def)
  have traffic: "7 = fresh ?T (length (sent job_file_world))"
    "\<forall>x. between ?T (Suc (length (sent job_file_world))) x = x\<lparr>sv_master := complete_all example_env [r] (sv_master x)\<rparr>"
    by (simp_all add: sent example_traffic_def)
  have U: "uuid_segment (uuids example_env)" using example_uuid_segment by (simp add: example_env_def)
  have W: "router_ok W" unfolding W_def by (rule example_web_ok)
  have again: "\<forall>x. get_job_status example_env 7 (complete_all example_env [r] (snd (submit_job example_env 7 life_dag example_master))) =
      Ok x \<longrightarrow> reads_back (json_text W) (status_response_json (uuids example_env) x)"
    using resp rb(3) by simp
  have seven: "uuid_to_string (uuids example_env) 7 = ''7''" by (simp add: example_env_def example_uuid_api_def) code_simp
  from job_seen_by_client[OF W U input rb(4,1) dag met example_stored valid traffic(1) rb(2) run(4) _ run(1-3) traffic(2) fit again,
      where paint = "\<lambda>_ _ t. t" and red = id]
  show ?thesis
    unfolding seven sent by (intro exI[of _ W] exI[of _ ?T] exI[of _ ?s]) simp
qed

text \<open>
  Claim C9. What the components send each other arrives. A worker that registers, a heartbeat and the report of a
  task, posted to the addresses the worker uses, reach the operation of the master that they are meant
  for, with the values that were sent; a task that the master posts to the address of a worker
  reaches the executor as it was planned. (For messages whose numbers fit their fields and whose
  text is read back.)
\<close>

theorem messages_served:
  assumes "router_ok W" "uuid_text_ok (uuids E)" "S = json_text W"
  shows "(load_sized (wi_metrics i) \<and> time_sized (wi_last_heartbeat i) \<and> reads_back S (worker_json (uuids E) i) \<and>
        to_vec S (worker_json (uuids E) i) = Inr body \<longrightarrow>
      serve_url W E T (''http://'' @ w_master_addr wk) n (''POST'', register_url wk, body) s =
        (Some (json_reply W (register_response_json (uuids E) (wi_id i))),
         s\<lparr>sv_master := snd (register_worker i (sv_master s))\<rparr>)) \<and>
    (load_sized (hb_metrics h) \<and> time_sized (hb_timestamp h) \<and> reads_back S (heartbeat_json (uuids E) h) \<and>
        to_vec S (heartbeat_json (uuids E) h) = Inr body \<longrightarrow>
      serve_url W E T (''http://'' @ w_master_addr wk) n (''POST'', heartbeat_url wk, body) s =
        (Some (200, []), s\<lparr>sv_master := handle_heartbeat E (clock T n) h (sv_master s)\<rparr>)) \<and>
    (result_sized r \<and> reads_back S (result_json (uuids E) r) \<and> to_vec S (result_json (uuids E) r) = Inr body \<and>
        fst (complete_task E r (sv_master s)) = Ok () \<longrightarrow>
      serve_url W E T (''http://'' @ ex_master_addr ex) n (''POST'', report_url ex, body) s =
        (Some (200, []), s\<lparr>sv_master := snd (complete_task E r (sv_master s))\<rparr>)) \<and>
    (task_sized t \<and> reads_back S (task_json (uuids E) t) \<and> to_vec S (task_json (uuids E) t) = Inr body \<longrightarrow>
      execute_url address = ''http://'' @ address @ task_route \<and>
      serve_task W rt env (uuids E) (''POST'', task_route, body) ex d =
        map_option (\<lambda>(code, out, ex', d'). (map_option (\<lambda>c. (c, [])) code, out, ex', d'))
          (execute_task_endpoint rt env (uuids E) t ex d))"
proof (intro conjI impI)
  let ?U = "uuids E"
  have url: "''http://'' @ a @ p = (''http://'' @ a) @ p" for a p :: string by simp
  note eqs = register_url_def heartbeat_url_def report_url_def url serve_url_origin
    serve_segments[OF assms(1)]
  show "serve_url W E T (''http://'' @ w_master_addr wk) n (''POST'', register_url wk, body) s =
      (Some (json_reply W (register_response_json ?U (wi_id i))), s\<lparr>sv_master := snd (register_worker i (sv_master s))\<rparr>)"
    if "load_sized (wi_metrics i) \<and> time_sized (wi_last_heartbeat i) \<and> reads_back S (worker_json ?U i) \<and>
      to_vec S (worker_json ?U i) = Inr body"
    using that worker_wire.get_put[of ?U i] assms(2) with_body_read[of W "worker_json ?U i" body "worker_of ?U" i]
    by (simp add: eqs del: append_assoc append.simps)
      (simp add: assms(3) on_master_def api_register_worker_def register_worker_def)
  show "serve_url W E T (''http://'' @ w_master_addr wk) n (''POST'', heartbeat_url wk, body) s =
      (Some (200, []), s\<lparr>sv_master := handle_heartbeat E (clock T n) h (sv_master s)\<rparr>)"
    if "load_sized (hb_metrics h) \<and> time_sized (hb_timestamp h) \<and> reads_back S (heartbeat_json ?U h) \<and>
      to_vec S (heartbeat_json ?U h) = Inr body"
    using that heartbeat_wire.get_put[of ?U h] assms(2) with_body_read[of W "heartbeat_json ?U h" body "heartbeat_of ?U" h]
    by (simp add: eqs del: append_assoc append.simps) (simp add: assms(3) on_master_def api_heartbeat_def)
  show "serve_url W E T (''http://'' @ ex_master_addr ex) n (''POST'', report_url ex, body) s =
      (Some (200, []), s\<lparr>sv_master := snd (complete_task E r (sv_master s))\<rparr>)"
    if "result_sized r \<and> reads_back S (result_json ?U r) \<and> to_vec S (result_json ?U r) = Inr body \<and>
      fst (complete_task E r (sv_master s)) = Ok ()"
    using that result_wire.get_put[of ?U r] assms(2) with_body_read[of W "result_json ?U r" body "result_of ?U" r]
    by (simp add: eqs del: append_assoc append.simps)
      (auto simp: assms(3) on_master_def api_complete_task_def split: prod.splits)
  show "execute_url address = ''http://'' @ address @ task_route" by (simp add: execute_url_def task_route_def)
  show "serve_task W rt env ?U (''POST'', task_route, body) ex d =
      map_option (\<lambda>(code, out, ex', d'). (map_option (\<lambda>c. (c, [])) code, out, ex', d'))
        (execute_task_endpoint rt env ?U t ex d)"
    if "task_sized t \<and> reads_back S (task_json ?U t) \<and> to_vec S (task_json ?U t) = Inr body"
    using that task_wire.get_put[of ?U t] assms(2) route_itself[OF assms(1)]
    by (auto simp: serve_task_def reads_back_def assms(3))
qed

theorem messages_served_witness:
  "serve_url (example_web [(worker_json (uuids example_env) example_worker, ''B''),
        (register_response_json (uuids example_env) 5, ''R'')]) example_env (example_traffic [])
      (''http://'' @ w_master_addr example_node) 0 (''POST'', register_url example_node, ''B'')
      \<lparr>sv_master = example_master, sv_disk = example_fs\<rparr> =
     (Some (200, ''R''), \<lparr>sv_master = snd (register_worker example_worker example_master), sv_disk = example_fs\<rparr>)"
proof -
  let ?W = "example_web [(worker_json (uuids example_env) example_worker, ''B''),
        (register_response_json (uuids example_env) 5, ''R'')]"
  have "reads_back (json_text ?W) (worker_json (uuids example_env) example_worker)"
    "to_vec (json_text ?W) (worker_json (uuids example_env) example_worker) = Inr ''B''"
    "json_reply ?W (register_response_json (uuids example_env) 5) = (200, ''R'')"
    by (simp_all add: reads_back_def example_web_def table_serde_def newline_def carriage_return_def
        trim_def trim_end_matches_def is_whitespace_def json_reply_def register_response_json_def worker_json_def)
  moreover have "flt_convert f32 (flt_convert f64 (fzero f32)) = fzero f32" "is_finite (fzero f32)"
    by (simp_all add: fzero_def flt_eval)
  then have "load_sized (wi_metrics example_worker)" "time_sized (wi_last_heartbeat example_worker)"
    by (simp_all add: example_worker_def load_sized_def time_sized_def default_worker_metrics_def)
  moreover have "wi_id example_worker = 5" by (simp add: example_worker_def)
  moreover have "uuid_text_ok (uuids example_env)" using example_uuid_text by (simp add: example_env_def)
  ultimately show ?thesis
    using messages_served[OF example_web_ok _ refl, THEN conjunct1, of example_env example_worker _ "''B''"
        "example_traffic []" example_node 0 "\<lparr>sv_master = example_master, sv_disk = example_fs\<rparr>"]
    by simp
qed

text \<open>
  The list of workers, which the client asks for, has no route. So the commands \<open>workers\<close> and \<open>metrics\<close>
  fail and print nothing, whatever state the master is in; \<open>status\<close> shows the job without workers.
\<close>

theorem workers_unavailable:
  assumes "router_ok W" "net = connect W E T origin s"
  shows "(\<exists>e w'. workers_command net paint decode_workers origin w = (Err e, w') \<and> shown w' = shown w) \<and>
    (\<exists>r w'. metrics_command first net paint decode decode_workers origin job w = (r, w') \<and>
      shown w' = shown w \<and> \<not> (\<exists>x. r = Ok x)) \<and>
    (\<forall>j. job_answer net (paint Red False) decode (job_url origin job)
        (sent w @ [(''GET'', workers_url origin, [])]) = Ok j \<longrightarrow>
      (\<exists>w'. status_command net paint decode decode_workers origin job w = (Ok (), w') \<and>
        shown w' = shown w @ print_status paint j None))"
proof (rule workers_unanswered[where a = "\<lparr>an_status = 404, an_body = Ok []\<rparr>"])
  have url: "workers_url origin = origin @ ''/api/v1/workers''"
    using app_url_api[of origin "''workers''"] by (simp add: workers_url_def)
  have "segments ''/api/v1/workers'' = [[], ''api'', ''v1'', ''workers'']" by code_simp
  with assms(1) have "matching W api_base ''/api/v1/workers'' = []"
    by (simp add: matching_def register_routes_def base_of_api router_ok_def)
  then show "net qs (''GET'', workers_url origin, []) = Ok \<lparr>an_status = 404, an_body = Ok []\<rparr>" for qs
    by (simp add: assms(2) connect_def url serve_def)
qed (simp add: is_success_def)

theorem workers_unavailable_witness:
  "\<exists>e w'. workers_command (connect (example_web []) example_env (example_traffic []) ''http://m''
      \<lparr>sv_master = example_master, sv_disk = example_fs\<rparr>) (\<lambda>_ _ t. t) (\<lambda>_. Ok []) ''http://m'' idle_world =
     (Err e, w') \<and> shown w' = []"
  using workers_unavailable[OF example_web_ok refl, where w = idle_world and paint = "\<lambda>_ _ t. t"
      and decode_workers = "\<lambda>_. Ok []", THEN conjunct1]
  by (simp add: idle_world_def)

text \<open>
  Claim C38. The output of a job does not reach the client. The client asks the master for the path of the
  first output file as if it were a path of the server; it is asked three times, refused three
  times, and the command fails with nothing written, also for a job that has succeeded. (For an output path
  that does not begin with \<open>api\<close> and has no percent escapes, as result paths have by default.)
\<close>

theorem results_unavailable:
  assumes "router_ok W" "uuid_segment (uuids E)" "healthy (disk w)"
    and "get_job_status E job (sv_master (met W E T origin s (sent w))) = Ok r"
    and "answer_sized r" "reads_back (json_text W) (status_response_json (uuids E) r)"
    and "jsr_outputs r = p # ps" "CHR ''%'' \<notin> set p" "hd (segments (dropWhile (\<lambda>c. c = slash) p)) \<noteq> ''api''"
  shows "\<exists>e w'. results (connect W E T origin s) red green yellow (decode_with W job_response_of) show_code origin
      (uuid_to_string (uuids E) job) dir w = (Err e, w') \<and>
    disk w' = disk w \<and> shown w' = shown w @ [Out ''Downloading outputs...''] \<and> length (sent w') = length (sent w) + 4"
proof -
  let ?net = "connect W E T origin s" and ?i = "uuid_to_string (uuids E) job"
  let ?rel = "dropWhile (\<lambda>c. c = slash) p"
  let ?q = "(''GET'', origin @ ''/'' @ ?rel, [])" and ?ask = "(''GET'', job_url origin ?i, [])"
  let ?w = "w\<lparr>sent := sent w @ [?ask], shown := shown w @ [Out ''Downloading outputs...'']\<rparr>"
  have "job_answer ?net red (decode_with W job_response_of) (job_url origin ?i) (sent w) = Ok (response_seen (uuids E) r)"
    using assms by (intro status_over_network) auto
  then have ask: "fetch_json ?net red (decode_with W job_response_of) (job_url origin ?i) w =
      (Ok (response_seen (uuids E) r), w\<lparr>sent := sent w @ [?ask]\<rparr>)"
    by (auto simp: job_answer_def fetch_json_def request_def io_bind_def io_lift_def
        elim!: res_bind_OkE split: res.splits)
  have "CHR ''%'' \<notin> set ?rel" using assms(8) by (meson set_dropWhileD)
  then have "CHR ''%'' \<notin> set (''/'' @ ?rel)" by simp
  moreover have "segments (''/'' @ ?rel) = [] # segments ?rel"
    using segments_sep[of "[]" ?rel] by (simp add: slash_def)
  then have "\<exists>x xs. segments (''/'' @ ?rel) = [] # x # xs \<and> x \<noteq> ''api''"
    using assms(9) by (cases "segments ?rel") (auto simp: segments_def)
  ultimately have ref: "refused ?net qs ?q" for qs
    using unrouted_get[OF assms(1), of "''/'' @ ?rel" E "clock T (length qs)" "fresh T (length qs)" "[]" "met W E T origin s qs"]
    by (auto simp: refused_def connect_def is_success_def)
  have dl: "\<exists>e. download_file ?net green show_code origin dir p ?w = (Err e, ?w\<lparr>sent := sent ?w @ replicate 3 ?q\<rparr>)"
  proof -
    let ?dest = "path_join dir ?rel" and ?line = "green check_mark @ '' '' @ ?rel"
    from attempts_refused[of 3 ?net ?w "origin @ ''/'' @ ?rel" 0 show_code p ?dest ?line None] ref obtain le where
      "attempts 3 ?net show_code p (origin @ ''/'' @ ?rel) ?dest ?line None ?w =
        attempts 0 ?net show_code p (origin @ ''/'' @ ?rel) ?dest ?line le (?w\<lparr>sent := sent ?w @ replicate 3 ?q\<rparr>)"
      by auto
    moreover have "on_disk (ensure_parent ?dest) ?w = (Ok (), ?w)"
      using assms(3) by (simp add: on_disk_def ensure_parent_eq)
    ultimately show ?thesis by (simp add: download_file_def Let_def io_bind_def io_lift_def)
  qed
  moreover have "jr_output_files (response_seen (uuids E) r) = []" "jr_outputs (response_seen (uuids E) r) = p # ps"
    using assms(7) by (simp_all add: response_seen_def)
  ultimately show ?thesis
    using ask assms(3)
    by (auto simp: results_def Let_def io_bind_def on_disk_def create_dir_all_def print_items_def printed_def)
qed

theorem results_unavailable_witness:
  "\<exists>W e w'. results (connect W example_env (example_traffic []) ''http://m''
      \<lparr>sv_master = finished_master, sv_disk = example_fs\<rparr>) id id id (decode_with W job_response_of) show_nat ''http://m''
      ''1'' ''/dl'' idle_world = (Err e, w') \<and> disk w' = disk idle_world \<and> length (sent w') = 4"
proof -
  obtain r where r: "get_job_status example_env 1 finished_master = Ok r" "jsr_outputs r = [''out'']" "answer_sized r"
  proof -
    let ?jm = "default_job_metrics\<lparr>jm_total_tasks := 1, jm_pending_tasks := 1\<rparr>"
    have "is_finite (progress ?jm)"
      using progress_upper[of ?jm] by (auto simp: default_job_metrics_def)
    moreover have "list_all aggregate_sized
        (fold merge_worker (available_workers (worker_iter example_env) (m_registry example_master)) [])"
      using merge_sized[OF _ example_workers_sized, of "[]"] by simp
    ultimately show ?thesis
      using that by (simp add: get_job_status_def finished_master_def simple_job_def output_paths_def
          example_result_def answer_sized_def default_job_metrics_def)
  qed
  define W where "W = example_web [(status_response_json (uuids example_env) r, ''S'')]"
  have rb: "reads_back (json_text W) (status_response_json (uuids example_env) r)"
    by (simp add: reads_back_def W_def example_web_def table_serde_def newline_def carriage_return_def
        trim_def trim_end_matches_def is_whitespace_def)
  have U: "uuid_segment (uuids example_env)" using example_uuid_segment by (simp add: example_env_def)
  have W: "router_ok W" unfolding W_def by (rule example_web_ok)
  have one: "uuid_to_string (uuids example_env) 1 = ''1''" by (simp add: example_env_def example_uuid_api_def) code_simp
  have seg: "hd (segments (dropWhile (\<lambda>c. c = slash) ''out'')) \<noteq> ''api''" by code_simp
  have idle: "healthy (disk idle_world)" "sent idle_world = []" by (simp_all add: idle_world_def healthy_def)
  let ?s = "\<lparr>sv_master = finished_master, sv_disk = example_fs\<rparr>"
  have "get_job_status example_env 1 (sv_master (met W example_env (example_traffic []) ''http://m'' ?s (sent idle_world))) = Ok r"
    using r(1) by (simp add: idle(2) met_def example_traffic_def)
  from results_unavailable[OF W U idle(1) this r(3) rb r(2) _ seg, of id id id show_nat "''/dl''"]
  show ?thesis unfolding one idle(2) by (intro exI[of _ W]) auto
qed

end
