(* ===== verification/Startup.thy ===== *)
theory Startup
  imports Api
begin

text \<open>
  How a node starts: \<open>src/src/main.rs\<close> (the commands, the configuration, the directory of the logs),
  \<open>src/src/http/server.rs\<close> (the address the master listens on), \<open>src/src/master/mod.rs\<close> (the watchdog)
  and \<open>src/src/worker/mod.rs\<close> (registering, heartbeats, the server of a worker). Parsing of the command
  line, the log files and the sockets are outside: a command is a value, and whether an address can
  be bound is a parameter. A start either fails with an error or leaves a node that serves; what it
  did on the way is a list of events.
\<close>

section \<open>Socket addresses\<close>

text \<open>
  \<open>str::parse::<SocketAddr>\<close>: four octets with at most three digits and no leading zero, a colon and a
  port, which may have leading zeros; or an address in brackets, of which \<open>v6\<close> tells whether it is one.
  No name of a host is ever looked up.
\<close>

datatype socket_addr = SocketV4 "nat list" "16 word" | SocketV6 string

definition parse_octet :: "string \<Rightarrow> nat option" where
  "parse_octet s =
     (if s \<noteq> [] \<and> length s \<le> 3 \<and> list_all is_digit s \<and> (hd s = CHR ''0'' \<longrightarrow> length s = 1) \<and> digits_val s < 256
      then Some (digits_val s) else None)"

definition parse_socket_port :: "string \<Rightarrow> 16 word option" where
  "parse_socket_port s =
     (if s \<noteq> [] \<and> list_all is_digit s \<and> digits_val s < 2 ^ 16 then Some (of_nat (digits_val s)) else None)"

definition parse_socket_addr :: "(string \<Rightarrow> bool) \<Rightarrow> string \<Rightarrow> (error, socket_addr) res" where
  "parse_socket_addr v6 s =
     (if s \<noteq> [] \<and> hd s = CHR ''['' \<and> v6 s then Ok (SocketV6 s)
      else case split_by (\<lambda>c. c = CHR '':'') s of
        [host, port] \<Rightarrow>
          (case (those (map parse_octet (split_by (\<lambda>c. c = CHR ''.'') host)), parse_socket_port port) of
             (Some os, Some p) \<Rightarrow> if length os = 4 then Ok (SocketV4 os p) else Err (Message ''invalid socket address syntax'')
           | _ \<Rightarrow> Err (Message ''invalid socket address syntax''))
      | _ \<Rightarrow> Err (Message ''invalid socket address syntax''))"

fun show_octets :: "nat list \<Rightarrow> string" where
  "show_octets [] = []"
| "show_octets [n] = show_nat n"
| "show_octets (n # ns) = show_nat n @ ''.'' @ show_octets ns"

section \<open>Nodes\<close>

text \<open>What a node needs from its machine.\<close>

record machine =
  v6_text :: "string \<Rightarrow> bool"
  bind_socket :: "socket_addr \<Rightarrow> (error, unit) res"
  bind_text :: "string \<Rightarrow> (error, unit) res"
  free_port :: "16 word \<Rightarrow> bool"
  open_db :: "path \<Rightarrow> state_store option"
  post_worker :: "string \<Rightarrow> worker_info \<Rightarrow> (error, nat) res"
  shown_code :: "nat \<Rightarrow> string"
  now_time :: system_time
  fresh_id :: uuid
  overflow_panics :: bool
  open_log :: "path \<Rightarrow> bool"

datatype event =
  Watchdog "nat option"
| Bound_Master socket_addr
| Posted_Registration string worker_info
| Heartbeats string string nat
| Bound_Worker string

datatype running_node =
  Master_Node master "(string \<times> string \<times> endpoint) list"
| Worker_Node worker

section \<open>The master\<close>

definition state_store_new :: "(path \<Rightarrow> state_store option) \<Rightarrow> path \<Rightarrow> fs \<Rightarrow> (error, state_store) res \<times> fs" where
  "state_store_new opens base s =
     (let s' = snd (create_dir_all base s)
      in (case opens (path_join base ''state.db'') of None \<Rightarrow> Panic | Some db \<Rightarrow> Ok db, s'))"

text \<open>
  The period of the watchdog in milliseconds. A timer with a period of zero panics, and so does the
  multiplication where overflow is checked, in the task that was spawned for it: there is no watchdog then.
\<close>

definition watchdog_period :: "bool \<Rightarrow> config \<Rightarrow> nat option" where
  "watchdog_period checks cfg =
     (case usize_mul checks (heartbeat_interval_ms cfg) 2 of
        Ok period \<Rightarrow> if period = 0 then None else Some period
      | _ \<Rightarrow> None)"

definition start_http_server :: "machine \<Rightarrow> string \<Rightarrow> master \<Rightarrow> (error, running_node) res \<times> event list" where
  "start_http_server M base m =
     (case parse_socket_addr (v6_text M) (master_addr (m_config m)) of
        Ok addr \<Rightarrow>
          (case bind_socket M addr of
             Ok _ \<Rightarrow> (Ok (Master_Node m (register_routes base)), [Bound_Master addr])
           | Err e \<Rightarrow> (Err e, [])
           | Panic \<Rightarrow> (Panic, []))
      | Err e \<Rightarrow> (Err e, [])
      | Panic \<Rightarrow> (Panic, []))"

definition master_start :: "machine \<Rightarrow> string \<Rightarrow> master \<Rightarrow> (error, running_node) res \<times> event list" where
  "master_start M base m =
     (case start_http_server M base m of (r, es) \<Rightarrow> (r, Watchdog (watchdog_period (overflow_panics M) (m_config m)) # es))"

section \<open>The worker\<close>

definition spawn_task_api :: "machine \<Rightarrow> worker \<Rightarrow> (error, unit) res \<times> event list" where
  "spawn_task_api M w =
     (case bind_text M (w_listen_addr w) of
        Ok _ \<Rightarrow> (Ok (), [Bound_Worker (w_listen_addr w)])
      | Err e \<Rightarrow> (Err e, [])
      | Panic \<Rightarrow> (Panic, []))"

definition worker_start :: "machine \<Rightarrow> worker \<Rightarrow> (error, running_node) res \<times> event list" where
  "worker_start M w =
     (let posted = Posted_Registration (register_url w) (register_payload (now_time M) w)
      in case register (post_worker M) (shown_code M) (now_time M) w of
           Ok _ \<Rightarrow>
             (let beats = Heartbeats (heartbeat_url w) (w_listen_addr w) (heartbeat_interval_ms (w_config w))
              in case spawn_task_api M w of
                   (Ok _, es) \<Rightarrow> (Ok (Worker_Node w), [posted, beats] @ es)
                 | (Err e, es) \<Rightarrow> (Err e, [posted, beats] @ es)
                 | (Panic, es) \<Rightarrow> (Panic, [posted, beats] @ es))
         | Err e \<Rightarrow> (Err e, [posted])
         | Panic \<Rightarrow> (Panic, [posted]))"

text \<open>A task given to the worker directly, without its server.\<close>

definition handle_task :: "runtime \<Rightarrow> attempt_env \<Rightarrow> uuid_api \<Rightarrow> task \<Rightarrow> worker \<Rightarrow> fs \<Rightarrow>
    ((error, unit) res \<times> (string \<times> task_result) list \<times> worker \<times> fs) option" where
  "handle_task rt env U t w s =
     map_option (\<lambda>(x, out, ex, s'). (res_bind x (\<lambda>_. Ok ()), out, w\<lparr>w_executor := ex\<rparr>, s'))
       (execute_and_report rt env U t (w_executor w) s)"

section \<open>Logs\<close>

text \<open>
  Events go to a file for each of three levels and to the console, as JSON, if the filter from the environment
  lets them through. Which events a text in \<open>RUST_LOG\<close> enables is the parameter \<open>directives\<close>. The error of creating
  the directory is dropped; a log file that cannot be opened is a panic of the appender.
\<close>

datatype log_level = LV_Trace | LV_Debug | LV_Info | LV_Warn | LV_Error

record log_layer =
  layer_file :: "path option"
  layer_takes :: "log_level \<Rightarrow> bool"

definition log_layers :: "path \<Rightarrow> log_layer list" where
  "log_layers dir =
     [\<lparr>layer_file = Some (path_join dir ''info.txt''), layer_takes = (\<lambda>l. l = LV_Info)\<rparr>,
      \<lparr>layer_file = Some (path_join dir ''warn.txt''), layer_takes = (\<lambda>l. l = LV_Warn)\<rparr>,
      \<lparr>layer_file = Some (path_join dir ''error.txt''), layer_takes = (\<lambda>l. l = LV_Error)\<rparr>,
      \<lparr>layer_file = None, layer_takes = (\<lambda>_. True)\<rparr>]"

definition env_filter :: "(string \<Rightarrow> (log_level \<Rightarrow> bool) option) \<Rightarrow> environment \<Rightarrow> log_level \<Rightarrow> bool" where
  "env_filter directives env =
     (case Option.bind (env ''RUST_LOG'') directives of
        Some f \<Rightarrow> f
      | None \<Rightarrow> (\<lambda>l. l \<in> {LV_Info, LV_Warn, LV_Error}))"

definition log_sinks :: "log_layer list \<Rightarrow> (log_level \<Rightarrow> bool) \<Rightarrow> log_level \<Rightarrow> path option list" where
  "log_sinks layers f l = (if f l then map layer_file (filter (\<lambda>y. layer_takes y l) layers) else [])"

definition init_tracing :: "(path \<Rightarrow> bool) \<Rightarrow> path \<Rightarrow> fs \<Rightarrow> (error, log_layer list) res \<times> fs" where
  "init_tracing opens dir s =
     (let s' = snd (create_dir_all dir s); layers = log_layers dir
      in (if list_all (\<lambda>y. case layer_file y of Some p \<Rightarrow> opens p | None \<Rightarrow> True) layers then Ok layers else Panic, s'))"

section \<open>The program\<close>

datatype engine_command = Cmd_Master | Cmd_Worker "16 word option" "string option"

definition engine_main :: "machine \<Rightarrow> master_env \<Rightarrow> environment \<Rightarrow> engine_command \<Rightarrow> fs \<Rightarrow>
    (error, running_node) res \<times> event list \<times> fs" where
  "engine_main M E env cmd s =
     (case from_env (overflow_panics M) env of
        Ok cfg \<Rightarrow>
          (case init_tracing (open_log M) (logs_dir cfg) s of
             (Ok _, s1) \<Rightarrow>
               (case cmd of
                  Cmd_Master \<Rightarrow>
                    (case state_store_new (open_db M) (result_dir cfg) s1 of
                       (Ok db, s2) \<Rightarrow>
                         (case master_start M ''/api/v1'' (master_new E cfg db) of (r, es) \<Rightarrow> (r, es, s2))
                     | (Err e, s2) \<Rightarrow> (Err e, [], s2)
                     | (Panic, s2) \<Rightarrow> (Panic, [], s2))
                | Cmd_Worker port name \<Rightarrow>
                    (case worker_new (uuids E) (free_port M) (fresh_id M) cfg name port s1 of (w, s2) \<Rightarrow>
                       (case worker_start M w of (r, es) \<Rightarrow> (r, es, s2))))
           | (Err e, s1) \<Rightarrow> (Err e, [], s1)
           | (Panic, s1) \<Rightarrow> (Panic, [], s1))
      | Err e \<Rightarrow> (Err e, [], s)
      | Panic \<Rightarrow> (Panic, [], s))"

section \<open>Lemmas: logs\<close>

definition logs_open :: "machine \<Rightarrow> path \<Rightarrow> bool" where
  "logs_open M dir \<longleftrightarrow> list_all (\<lambda>n. open_log M (path_join dir n)) [''info.txt'', ''warn.txt'', ''error.txt'']"

lemma init_tracing_eq:
  "init_tracing (open_log M) dir s =
     (if logs_open M dir then Ok (log_layers dir) else Panic, snd (create_dir_all dir s))"
  by (simp add: init_tracing_def logs_open_def log_layers_def Let_def)

section \<open>Lemmas: addresses\<close>

lemma show_nat_head: "hd (show_nat n) = CHR ''0'' \<Longrightarrow> n = 0"
proof (induction n rule: show_nat.induct)
  case (1 n)
  show ?case
  proof (cases "n < 10")
    case True
    with 1(2) have "digit_char n = CHR ''0''" by (simp add: show_nat.simps[of n])
    with True of_char_digit_char[of n] show ?thesis by simp
  next
    case False
    with 1(2) have "hd (show_nat (n div 10)) = CHR ''0''" by (simp add: show_nat.simps[of n])
    with 1(1) False show ?thesis by simp
  qed
qed

lemma show_nat_width: "n < 10 ^ Suc k \<Longrightarrow> length (show_nat n) \<le> Suc k"
proof (induction k arbitrary: n)
  case 0
  then show ?case by (simp add: show_nat.simps[of n])
next
  case (Suc k)
  then show ?case by (cases "n < 10") (simp_all add: show_nat.simps[of n])
qed

lemma parse_octet_show: "n < 256 \<Longrightarrow> parse_octet (show_nat n) = Some n"
  using show_nat_head[of n] show_nat_width[of n 2] show_nat_digits[of _ n] show_nat.simps[of 0]
  by (auto simp: parse_octet_def list_all_iff)

lemma parse_port_show: "parse_socket_port (show_port p) = Some p"
  using show_nat_digits[of _ "unat p"] unsigned_less[of p, where ?'a = nat]
  by (auto simp: parse_socket_port_def show_port_def list_all_iff)

lemma show_octets_chars: "c \<in> set (show_octets os) \<Longrightarrow> is_digit c \<or> c = CHR ''.''"
  by (induction os rule: show_octets.induct) (auto dest: show_nat_digits)

lemma split_octets: "os \<noteq> [] \<Longrightarrow> split_by (\<lambda>c. c = CHR ''.'') (show_octets os) = map show_nat os"
proof (induction os rule: show_octets.induct)
  case (2 n)
  then show ?case using show_nat_no_char[of "CHR ''.''" n] by (auto simp: is_digit_def intro: split_by_none)
next
  case (3 n m ns)
  have "split_by (\<lambda>c. c = CHR ''.'') (show_nat n @ CHR ''.'' # show_octets (m # ns)) =
      show_nat n # split_by (\<lambda>c. c = CHR ''.'') (show_octets (m # ns))"
    using show_nat_no_char[of "CHR ''.''" n] by (intro split_by_sep) (auto simp: is_digit_def)
  with 3 show ?case by simp
qed simp

lemma parse_socket_show:
  assumes "length os = 4" "list_all (\<lambda>n. n < 256) os"
  shows "parse_socket_addr v6 (show_octets os @ '':'' @ show_port p) = Ok (SocketV4 os p)"
proof -
  have "split_by (\<lambda>c. c = CHR '':'') (show_octets os @ CHR '':'' # show_port p) =
      show_octets os # split_by (\<lambda>c. c = CHR '':'') (show_port p)"
    using show_octets_chars[of "CHR '':''" os] by (intro split_by_sep) (auto simp: is_digit_def)
  moreover have "split_by (\<lambda>c. c = CHR '':'') (show_port p) = [show_port p]"
    using show_nat_no_char[of "CHR '':''" "unat p"] by (intro split_by_none) (auto simp: is_digit_def show_port_def)
  moreover have "os \<noteq> []" using assms(1) by auto
  moreover have "those (map (parse_octet \<circ> show_nat) os) = Some os"
    using assms(2) by (induction os) (simp_all add: parse_octet_show)
  moreover have "hd (show_octets os @ CHR '':'' # x) \<noteq> CHR ''[''" for x
    using show_octets_chars[of "CHR ''[''" os] by (cases "show_octets os") (auto simp: is_digit_def)
  ultimately show ?thesis
    using assms(1) by (auto simp: parse_socket_addr_def split_octets parse_port_show)
qed

text \<open>A host that is a name: it has a character that no number and no bracket has.\<close>

lemma those_None: "x \<in> set xs \<Longrightarrow> f x = None \<Longrightarrow> those (map f xs) = None"
  by (induction xs) (auto split: option.splits)

lemma split_by_covers: "c \<in> set s \<Longrightarrow> \<not> P c \<Longrightarrow> \<exists>x \<in> set (split_by P s). c \<in> set x"
  by (induction s) (auto split: list.splits)

lemma parse_socket_name:
  assumes "CHR '':'' \<notin> set host" "hd host \<noteq> CHR ''[''" "c \<in> set host" "\<not> is_digit c" "c \<noteq> CHR ''.''"
  shows "parse_socket_addr v6 (host @ '':'' @ port) = Err (Message ''invalid socket address syntax'')"
proof -
  from split_by_covers[OF assms(3), of "\<lambda>c. c = CHR ''.''"] assms(5) obtain x where
    "x \<in> set (split_by (\<lambda>c. c = CHR ''.'') host)" "c \<in> set x" by blast
  moreover from this(2) assms(4) have "parse_octet x = None" by (auto simp: parse_octet_def list_all_iff)
  ultimately have "those (map parse_octet (split_by (\<lambda>c. c = CHR ''.'') host)) = None" by (intro those_None)
  moreover have "split_by (\<lambda>c. c = CHR '':'') (host @ CHR '':'' # port) = host # split_by (\<lambda>c. c = CHR '':'') port"
    using assms(1) by (intro split_by_sep) auto
  moreover have "hd (host @ CHR '':'' # port) \<noteq> CHR ''[''" using assms(2,3) by (cases host) auto
  ultimately show ?thesis by (auto simp: parse_socket_addr_def split: list.splits)
qed

section \<open>Lemmas: configuration\<close>

text \<open>What a node reads from its environment about addresses.\<close>

lemma from_env_addresses:
  assumes "from_env checks env = Ok cfg"
  shows "env ''MASTER_HOST'' = Some h \<Longrightarrow> master_host cfg = h"
    and "env ''MASTER_PORT'' = Some (show_port p) \<Longrightarrow> master_port cfg = p"
    and "env ''WORKER_BIND_HOST'' = Some b \<Longrightarrow> worker_bind_host cfg = b"
    and "env ''WORKER_ADVERTISE_HOST'' = Some a \<Longrightarrow> worker_advertise_host cfg = a"
    and "env ''WORKER_BASE_PORT'' = Some (show_port q) \<Longrightarrow> worker_base_port cfg = q"
proof -
  have port: "env_num 16 env k d = Ok n \<Longrightarrow> env k = Some (show_port x) \<Longrightarrow> n = unat x" for k d n and x :: "16 word"
    using unsigned_less[of x, where ?'a = nat] by (simp add: show_port_def)
  show "env ''MASTER_HOST'' = Some h \<Longrightarrow> master_host cfg = h"
    "env ''WORKER_BIND_HOST'' = Some b \<Longrightarrow> worker_bind_host cfg = b"
    "env ''WORKER_ADVERTISE_HOST'' = Some a \<Longrightarrow> worker_advertise_host cfg = a"
    using assms unfolding from_env_def by (auto simp: env_str_def elim!: res_bind_OkE)
  show "env ''MASTER_PORT'' = Some (show_port p) \<Longrightarrow> master_port cfg = p"
    "env ''WORKER_BASE_PORT'' = Some (show_port q) \<Longrightarrow> worker_base_port cfg = q"
    using assms unfolding from_env_def by (auto elim!: res_bind_OkE dest!: port)
qed

lemma worker_start_events:
  "\<exists>es. snd (worker_start M w) = Posted_Registration (register_url w) (register_payload (now_time M) w) # es \<and>
     (\<forall>nd. fst (worker_start M w) = Ok nd \<longrightarrow> Bound_Worker (w_listen_addr w) \<in> set es)"
  by (cases "register (post_worker M) (shown_code M) (now_time M) w"; cases "bind_text M (w_listen_addr w)")
    (simp_all add: worker_start_def spawn_task_api_def Let_def)

section \<open>Properties\<close>

text \<open>
  Claim C16. Where a master listens. If \<open>MASTER_HOST\<close> is an IPv4 address and the port can be bound, the master
  listens on exactly the configured address and port, with the table of routes below \<open>/api/v1\<close>, in the
  state that its database gives it. If \<open>MASTER_HOST\<close> is a name, it never starts: the address is refused
  before anything is bound.
\<close>

theorem master_listens:
  assumes "from_env (overflow_panics M) env = Ok cfg" "open_db M (path_join (result_dir cfg) ''state.db'') = Some db"
    and "env ''MASTER_HOST'' = Some host" "env ''MASTER_PORT'' = Some (show_port port)" "logs_open M (logs_dir cfg)"
  shows "(\<forall>os. length os = 4 \<and> list_all (\<lambda>n. n < 256) os \<and> host = show_octets os \<and>
        bind_socket M (SocketV4 os port) = Ok () \<longrightarrow>
      fst (engine_main M E env Cmd_Master s) = Ok (Master_Node (master_new E cfg db) (register_routes ''/api/v1'')) \<and>
      fst (snd (engine_main M E env Cmd_Master s)) =
        [Watchdog (watchdog_period (overflow_panics M) cfg), Bound_Master (SocketV4 os port)]) \<and>
    (\<forall>c. CHR '':'' \<notin> set host \<and> hd host \<noteq> CHR ''['' \<and> c \<in> set host \<and> \<not> is_digit c \<and> c \<noteq> CHR ''.'' \<longrightarrow>
      fst (engine_main M E env Cmd_Master s) = Err (Message ''invalid socket address syntax'') \<and>
      fst (snd (engine_main M E env Cmd_Master s)) = [Watchdog (watchdog_period (overflow_panics M) cfg)])"
proof -
  have addr: "master_addr cfg = host @ '':'' @ show_port port"
    using from_env_addresses(1,2)[OF assms(1)] assms(3,4) by (simp add: master_addr_def)
  have cfg: "m_config (master_new E cfg db) = cfg" by simp
  show ?thesis
    using parse_socket_show parse_socket_name
    by (auto simp: engine_main_def init_tracing_eq assms(1,2,5) state_store_new_def master_start_def start_http_server_def cfg addr Let_def
        simp del: append.simps)
qed

text \<open>A machine where everything works, with an empty database.\<close>

definition example_machine_node :: machine where
  "example_machine_node = \<lparr>v6_text = (\<lambda>_. False), bind_socket = (\<lambda>_. Ok ()), bind_text = (\<lambda>_. Ok ()),
     free_port = (\<lambda>_. True), open_db = (\<lambda>_. Some empty_store), post_worker = (\<lambda>_ _. Ok 200), shown_code = show_nat,
     now_time = 0, fresh_id = 5, overflow_panics = False, open_log = (\<lambda>_. True)\<rparr>"

definition master_variables :: "string \<Rightarrow> environment" where
  "master_variables host = [''MASTER_HOST'' \<mapsto> host, ''MASTER_PORT'' \<mapsto> show_port 8080]"

lemma master_variables_read: "from_env False (master_variables host) = Ok (default_config\<lparr>master_host := host\<rparr>)"
  by (simp add: master_variables_def from_env_def default_config_def usize_mul_def env_str_def show_port_def)

theorem master_listens_witness:
  "fst (snd (engine_main example_machine_node example_env (master_variables (show_octets [127, 0, 0, 1])) Cmd_Master example_fs)) =
     [Watchdog (Some 4000), Bound_Master (SocketV4 [127, 0, 0, 1] 8080)] \<and>
   fst (engine_main example_machine_node example_env (master_variables ''localhost'') Cmd_Master example_fs) =
     Err (Message ''invalid socket address syntax'')"
proof -
  let ?M = example_machine_node
  have M: "overflow_panics ?M = False" "open_db ?M p = Some empty_store" "bind_socket ?M a = Ok ()" for p a
    by (simp_all add: example_machine_node_def)
  have vars: "master_variables h ''MASTER_HOST'' = Some h" "master_variables h ''MASTER_PORT'' = Some (show_port 8080)" for h
    by (simp_all add: master_variables_def)
  have period: "watchdog_period False (default_config\<lparr>master_host := h\<rparr>) = Some 4000" for h
    by (simp add: watchdog_period_def default_config_def usize_mul_def)
  have "logs_open ?M dir" for dir by (simp add: logs_open_def example_machine_node_def)
  note start = master_listens[of ?M, unfolded M, OF master_variables_read refl vars this]
  from start[of "show_octets [127, 0, 0, 1]" example_env example_fs, THEN conjunct1, rule_format, of "[127, 0, 0, 1]"]
    start[of "''localhost''" example_env example_fs, THEN conjunct2, rule_format, of "CHR ''l''"]
  show ?thesis by (simp add: period is_digit_def)
qed

text \<open>
  Claim C15. The order in which a worker starts. It first posts its registration to the master, with its
  advertised address. Only if the master answers with success do its heartbeats start, and only
  then does it try to listen for tasks. It runs exactly if that worked too; otherwise it ends with the error of the
  step that failed: of the request, of an answer without success, or of a port that cannot be bound (then after the
  master has accepted it). A master that takes the registration has the worker as an active one and schedules
  another pass.
\<close>

theorem worker_announces_first:
  assumes "from_env (overflow_panics M) env = Ok cfg" "logs_open M (logs_dir cfg)"
    and "w = fst (worker_new (uuids E) (free_port M) (fresh_id M) cfg name port (snd (create_dir_all (logs_dir cfg) s)))"
    and "info = register_payload (now_time M) w"
  shows "(let node = fst (engine_main M E env (Cmd_Worker port name) s);
          events = fst (snd (engine_main M E env (Cmd_Worker port name) s));
          posted = Posted_Registration (register_url w) info;
          beats = Heartbeats (heartbeat_url w) (w_listen_addr w) (heartbeat_interval_ms cfg)
      in case post_worker M (register_url w) info of
           Err e \<Rightarrow> node = Err e \<and> events = [posted]
         | Panic \<Rightarrow> node = Panic \<and> events = [posted]
         | Ok code \<Rightarrow>
             if \<not> is_success code
             then node = Err (Message (''failed to register worker: '' @ shown_code M code)) \<and> events = [posted]
             else (case bind_text M (w_listen_addr w) of
                 Ok _ \<Rightarrow> node = Ok (Worker_Node w) \<and> events = [posted, beats, Bound_Worker (w_listen_addr w)]
               | Err e \<Rightarrow> node = Err e \<and> events = [posted, beats]
               | Panic \<Rightarrow> node = Panic \<and> events = [posted, beats])) \<and>
    (\<forall>m. wi_address info = worker_advertise_host cfg @ '':'' @ show_port (choose_available_port (free_port M)
        (case port of Some p \<Rightarrow> p | None \<Rightarrow> worker_base_port cfg)) \<and>
      get_worker (wi_id info) (m_registry (snd (register_worker info m))) = Some info \<and> wi_status info = WS_Active \<and>
      m_passes (snd (register_worker info m)) = Suc (m_passes m))"
proof (intro conjI allI)
  let ?main = "engine_main M E env (Cmd_Worker port name) s"
  have cfg: "w_config w = cfg" by (simp add: assms(3) worker_new_def Let_def split: prod.splits)
  have main: "fst ?main = fst (worker_start M w)" "fst (snd ?main) = snd (worker_start M w)"
    using assms(1-3) by (simp_all add: engine_main_def init_tracing_eq Let_def split: prod.splits)
  show "let node = fst ?main; events = fst (snd ?main);
          posted = Posted_Registration (register_url w) info;
          beats = Heartbeats (heartbeat_url w) (w_listen_addr w) (heartbeat_interval_ms cfg)
      in case post_worker M (register_url w) info of
           Err e \<Rightarrow> node = Err e \<and> events = [posted]
         | Panic \<Rightarrow> node = Panic \<and> events = [posted]
         | Ok code \<Rightarrow>
             if \<not> is_success code
             then node = Err (Message (''failed to register worker: '' @ shown_code M code)) \<and> events = [posted]
             else (case bind_text M (w_listen_addr w) of
                 Ok _ \<Rightarrow> node = Ok (Worker_Node w) \<and> events = [posted, beats, Bound_Worker (w_listen_addr w)]
               | Err e \<Rightarrow> node = Err e \<and> events = [posted, beats]
               | Panic \<Rightarrow> node = Panic \<and> events = [posted, beats])"
    unfolding main Let_def
    by (simp add: worker_start_def register_def spawn_task_api_def Let_def cfg assms(4) split: res.splits)
  show "wi_address info = worker_advertise_host cfg @ '':'' @ show_port (choose_available_port (free_port M)
        (case port of Some p \<Rightarrow> p | None \<Rightarrow> worker_base_port cfg))"
    by (simp add: assms(3,4) register_payload_def worker_new_def Let_def split: prod.splits)
  show "get_worker (wi_id info) (m_registry (snd (register_worker info m))) = Some info"
    "wi_status info = WS_Active" "m_passes (snd (register_worker info m)) = Suc (m_passes m)" for m
    by (simp_all add: register_worker_def get_worker_def add_worker_def assms(4) register_payload_def)
qed

theorem worker_announces_first_witness:
  "fst (engine_main (example_machine_node\<lparr>bind_text := (\<lambda>_. Err (Message ''Address already in use''))\<rparr>) example_env
      (master_variables ''master'') (Cmd_Worker None None) example_fs) = Err (Message ''Address already in use'') \<and>
   length (fst (snd (engine_main (example_machine_node\<lparr>post_worker := (\<lambda>_ _. Ok 503)\<rparr>) example_env
      (master_variables ''master'') (Cmd_Worker None None) example_fs))) = 1"
  using worker_announces_first[of "example_machine_node\<lparr>bind_text := (\<lambda>_. Err (Message ''Address already in use''))\<rparr>"
      "master_variables ''master''" _ _ example_env None None example_fs, OF _ _ refl refl, THEN conjunct1]
    worker_announces_first[of "example_machine_node\<lparr>post_worker := (\<lambda>_ _. Ok 503)\<rparr>"
      "master_variables ''master''" _ _ example_env None None example_fs, OF _ _ refl refl, THEN conjunct1]
    master_variables_read[of "''master''"]
  by (simp add: example_machine_node_def is_success_def logs_open_def Let_def)

text \<open>
  The watchdog that looks for lost workers runs with twice the heartbeat interval, unless that interval is zero or
  so long that doubling it overflows a 64-bit number: then, in a release build, it runs with the
  wrapped period or, for \<open>2 ^ 63\<close>, not at all, and with overflow checks not at all; the master starts
  and listens all the same.
\<close>

theorem watchdog_started:
  assumes "heartbeat_interval_ms cfg < 2 ^ 64"
  shows "watchdog_period checks cfg =
    (if heartbeat_interval_ms cfg = 0 then None
     else if heartbeat_interval_ms cfg < 2 ^ 63 then Some (2 * heartbeat_interval_ms cfg)
     else if checks \<or> heartbeat_interval_ms cfg = 2 ^ 63 then None
     else Some (2 * heartbeat_interval_ms cfg - 2 ^ 64)) \<and>
    fst (master_start M base (m\<lparr>m_config := cfg\<rparr>)) = fst (start_http_server M base (m\<lparr>m_config := cfg\<rparr>))"
proof -
  have "2 * heartbeat_interval_ms cfg mod 2 ^ 64 = 2 * heartbeat_interval_ms cfg - 2 ^ 64" if "2 ^ 63 \<le> heartbeat_interval_ms cfg"
    using that assms by (subst le_mod_geq) simp_all
  then show ?thesis
    by (auto simp: watchdog_period_def usize_mul_def master_start_def mult.commute split: prod.splits)
qed

theorem watchdog_started_witness:
  "watchdog_period False (default_config\<lparr>heartbeat_interval_ms := 2 ^ 63\<rparr>) = None \<and>
   watchdog_period False default_config = Some 4000"
  using watchdog_started[of "default_config\<lparr>heartbeat_interval_ms := 2 ^ 63\<rparr>" False]
    watchdog_started[of default_config False] by (simp add: default_config_def)

text \<open>
  Where events are logged. If the log files can be opened, an event that the filter lets through is
  printed, and written to the file of its level if it is an information, a warning or an error; without
  \<open>RUST_LOG\<close> these are the events that pass. If one of the files cannot be opened the node panics before it
  does anything else, though an error of creating their directory is ignored.
\<close>

theorem log_routing:
  "log_sinks (log_layers dir) (env_filter directives env) l =
     (if env_filter directives env l
      then (case l of LV_Info \<Rightarrow> [Some (path_join dir ''info.txt'')] | LV_Warn \<Rightarrow> [Some (path_join dir ''warn.txt'')]
              | LV_Error \<Rightarrow> [Some (path_join dir ''error.txt'')] | _ \<Rightarrow> []) @ [None] else []) \<and>
   (env ''RUST_LOG'' = None \<longrightarrow> (env_filter directives env l \<longleftrightarrow> l \<in> {LV_Info, LV_Warn, LV_Error})) \<and>
   (\<forall>cfg. from_env (overflow_panics M) env = Ok cfg \<and> \<not> logs_open M (logs_dir cfg) \<longrightarrow>
      fst (engine_main M E env cmd s) = Panic \<and> fst (snd (engine_main M E env cmd s)) = [])"
  by (cases l) (auto simp: log_sinks_def log_layers_def env_filter_def engine_main_def init_tracing_eq)

end
