(* ===== verification/Test_Support.thy ===== *)
theory Test_Support
  imports Startup
begin

text \<open>
  The helpers that start a cluster and drive it from outside, \<open>src/src/tests_support/mod.rs\<close>, and the two
  programs built on them, \<open>src/src/bin/benchmarks.rs\<close> and \<open>src/src/bin/fault_tests.rs\<close>, and the end-to-end
  test \<open>src/tests/e2e_local.rs\<close>. Processes are
  commands with their environment; the time is a number of milliseconds that requests and pauses
  move on. The network is the parameter \<open>net\<close>, as for the client, and \<open>took\<close> tells how long a request takes.
\<close>

section \<open>Processes\<close>

record child_command =
  cc_program :: path
  cc_variables :: "(string \<times> string) list"
  cc_args :: "string list"

record launcher =
  current_dir :: "(error, path) res"
  path_exists :: "path \<Rightarrow> bool"
  spawn :: "child_command \<Rightarrow> (error, unit) res"

text \<open>\<open>Path::with_file_name\<close>: the last component is replaced, or added if there is none.\<close>

definition with_file_name :: "path \<Rightarrow> string \<Rightarrow> path" where
  "with_file_name p n =
     (case (path_file_name p, path_parent p) of
        (Some _, Some d) \<Rightarrow> path_join d n
      | _ \<Rightarrow> path_join p n)"

definition binary_path :: "launcher \<Rightarrow> string \<Rightarrow> (error, path) res" where
  "binary_path L name =
     res_bind (current_dir L) (\<lambda>dir.
       let p = path_join (path_join (path_join dir ''target'') ''debug'') name
       in if path_exists L p then Ok p else Ok (path_join (with_file_name p ''release'') name))"

definition master_command :: "path \<Rightarrow> string \<Rightarrow> 16 word \<Rightarrow> child_command" where
  "master_command bin host port = \<lparr>cc_program = bin,
     cc_variables = [(''MASTER_HOST'', host), (''MASTER_PORT'', show_port port), (''WORKER_BASE_PORT'', ''9100'')],
     cc_args = [''master'']\<rparr>"

definition start_master :: "launcher \<Rightarrow> string \<Rightarrow> 16 word \<Rightarrow> (error, child_command) res" where
  "start_master L host port =
     res_bind (binary_path L ''distributed_processing_engine'') (\<lambda>bin.
       let c = master_command bin host port
       in res_bind (res_context ''spawn master'' (spawn L c)) (\<lambda>_. Ok c))"

definition worker_command :: "path \<Rightarrow> string \<Rightarrow> 16 word \<Rightarrow> string \<Rightarrow> 16 word \<Rightarrow> string option \<Rightarrow> child_command" where
  "worker_command bin mhost mport bind_host port name = \<lparr>cc_program = bin,
     cc_variables = [(''MASTER_HOST'', mhost), (''MASTER_PORT'', show_port mport),
       (''WORKER_BIND_HOST'', bind_host), (''WORKER_ADVERTISE_HOST'', ''127.0.0.1''),
       (''WORKER_BASE_PORT'', show_port port), (''WORKER_ID'', case name of Some n \<Rightarrow> n | None \<Rightarrow> [])],
     cc_args = [''worker'']\<rparr>"

definition start_worker :: "launcher \<Rightarrow> string \<Rightarrow> 16 word \<Rightarrow> string \<Rightarrow> 16 word \<Rightarrow> string option \<Rightarrow>
    (error, child_command) res" where
  "start_worker L mhost mport bind_host port name =
     res_bind (binary_path L ''distributed_processing_engine'') (\<lambda>bin.
       let c = worker_command bin mhost mport bind_host port name
       in res_bind (res_context ''spawn worker'' (spawn L c)) (\<lambda>_. Ok c))"

text \<open>
  What a child becomes: its variables override those of its parent, and \<open>cli\<close> is how the command line is
  read.
\<close>

definition child_env :: "environment \<Rightarrow> child_command \<Rightarrow> environment" where
  "child_env parent c = parent ++ map_of (rev (cc_variables c))"

definition run_child :: "(string list \<Rightarrow> engine_command option) \<Rightarrow> machine \<Rightarrow> master_env \<Rightarrow> environment \<Rightarrow>
    child_command \<Rightarrow> fs \<Rightarrow> (error, running_node) res \<times> event list \<times> fs" where
  "run_child cli M E parent c s =
     (case cli (cc_args c) of
        None \<Rightarrow> (Err (Message ''error: invalid arguments''), [], s)
      | Some cmd \<Rightarrow> engine_main M E (child_env parent c) cmd s)"

section \<open>Requests and time\<close>

record harness =
  h_world :: world
  h_now :: nat
  h_killed :: "string list"

type_synonym 'a timed = "(harness, error, 'a) io"
type_synonym durations = "request list \<Rightarrow> request \<Rightarrow> nat"

text \<open>How texts are read and printed: JSON, an error code, a value for debugging, an identifier, an error.\<close>

record texts =
  tx_read :: "string \<Rightarrow> (error, json) res"
  tx_print :: "json \<Rightarrow> (error, string) res"
  tx_pretty :: "json \<Rightarrow> (error, string) res"
  tx_code :: "nat \<Rightarrow> error"
  tx_debug :: "json \<Rightarrow> string"
  tx_uuid :: "string \<Rightarrow> (error, uuid) res"
  tx_show_uuid :: "uuid \<Rightarrow> string"
  tx_error :: "error \<Rightarrow> string"

definition timed_send :: "network \<Rightarrow> durations \<Rightarrow> request \<Rightarrow> answer timed" where
  "timed_send net took q h =
     (case request net q (h_world h) of (r, w) \<Rightarrow>
        (r, h\<lparr>h_world := w, h_now := h_now h + took (sent (h_world h)) q\<rparr>))"

definition pause :: "nat \<Rightarrow> harness \<Rightarrow> harness" where
  "pause n h = h\<lparr>h_now := h_now h + n\<rparr>"

definition on_files :: "'a fsio \<Rightarrow> 'a timed" where
  "on_files f h = (case on_disk f (h_world h) of (r, w) \<Rightarrow> (r, h\<lparr>h_world := w\<rparr>))"

text \<open>\<open>error_for_status\<close>: codes of client and server errors.\<close>

definition error_for_status :: "texts \<Rightarrow> answer \<Rightarrow> (error, answer) res" where
  "error_for_status X a = (if 400 \<le> an_status a \<and> an_status a < 600 then Err (tx_code X (an_status a)) else Ok a)"

definition json_answer :: "texts \<Rightarrow> answer \<Rightarrow> (error, json) res" where
  "json_answer X a = res_bind (error_for_status X a) (\<lambda>a. res_bind (an_body a) (tx_read X))"

definition harness_base :: "string \<Rightarrow> 16 word \<Rightarrow> string" where
  "harness_base host port = ''http://'' @ host @ '':'' @ show_port port"

section \<open>Waiting for the master\<close>

fun responds :: "texts \<Rightarrow> (error, answer) res \<Rightarrow> bool" where
  "responds X (Ok a) = (case error_for_status X a of Ok _ \<Rightarrow> True | _ \<Rightarrow> False)"
| "responds X _ = False"

function wait_loop :: "texts \<Rightarrow> network \<Rightarrow> durations \<Rightarrow> string \<Rightarrow> nat \<Rightarrow> harness \<Rightarrow> (error, unit) res \<times> harness" where
  "wait_loop X net took base limit h =
     (if h_now h < limit then
        (let (r1, h1) = timed_send net took (''GET'', base @ ''/api/v1/health'', []) h
         in if responds X r1 then (Ok (), h1)
            else
              (let (r2, h2) = timed_send net took (''GET'', base @ ''/api/v1/jobs'', []) h1
               in if responds X r2 then (Ok (), h2) else wait_loop X net took base limit (pause 500 h2)))
      else (Err (Message ''master not ready''), h))"
  by pat_completeness auto
termination
  by (relation "measure (\<lambda>(X, net, took, base, limit, h). limit - h_now h)")
    (auto simp: timed_send_def pause_def split: prod.splits)

declare wait_loop.simps [simp del]

definition wait_for_master :: "texts \<Rightarrow> network \<Rightarrow> durations \<Rightarrow> string \<Rightarrow> 16 word \<Rightarrow> nat \<Rightarrow> unit timed" where
  "wait_for_master X net took host port timeout_secs h =
     wait_loop X net took (harness_base host port) (h_now h + 1000 * timeout_secs) h"

section \<open>Jobs\<close>

definition harness_submit :: "texts \<Rightarrow> network \<Rightarrow> durations \<Rightarrow> string \<Rightarrow> 16 word \<Rightarrow> json \<Rightarrow> uuid timed" where
  "harness_submit X net took host port dag =
     io_bind (io_lift (tx_print X dag)) (\<lambda>body.
     io_bind (timed_send net took (''POST'', harness_base host port @ ''/api/v1/jobs'', body)) (\<lambda>resp.
     io_bind (io_lift (json_answer X resp)) (\<lambda>v.
       case Option.bind (value_get v ''job_id'') value_as_str of
         None \<Rightarrow> io_lift (Err (Message ''missing job_id in response''))
       | Some s \<Rightarrow> io_lift (tx_uuid X s))))"

definition status_text :: "string \<Rightarrow> json \<Rightarrow> string" where
  "status_text dflt v =
     to_uppercase (case Option.bind (value_get v ''status'') value_as_str of Some s \<Rightarrow> s | None \<Rightarrow> dflt)"

definition finished_ok :: "string \<Rightarrow> json \<Rightarrow> bool" where
  "finished_ok dflt v \<longleftrightarrow> status_text dflt v \<in> {''SUCCEEDED'', ''COMPLETED''}"

definition finished_bad :: "string \<Rightarrow> json \<Rightarrow> bool" where
  "finished_bad dflt v \<longleftrightarrow> status_text dflt v = ''FAILED''"

definition harness_job_url :: "texts \<Rightarrow> string \<Rightarrow> 16 word \<Rightarrow> uuid \<Rightarrow> string" where
  "harness_job_url X host port job = harness_base host port @ ''/api/v1/jobs/'' @ tx_show_uuid X job"

function poll_loop :: "texts \<Rightarrow> network \<Rightarrow> durations \<Rightarrow> string \<Rightarrow> string \<Rightarrow> nat \<Rightarrow> harness \<Rightarrow>
    (error, json) res \<times> harness" where
  "poll_loop X net took url name limit h =
     (if h_now h < limit then
        (let (r, h') = io_bind (timed_send net took (''GET'', url, [])) (\<lambda>resp. io_lift (json_answer X resp)) h
         in case r of
              Ok v \<Rightarrow>
                if finished_ok ''UNKNOWN'' v then (Ok v, h')
                else if finished_bad ''UNKNOWN'' v then (Err (Message (''job failed: '' @ tx_debug X v)), h')
                else poll_loop X net took url name limit (pause 500 h')
            | Err e \<Rightarrow> (Err e, h')
            | Panic \<Rightarrow> (Panic, h'))
      else (Err (Message (''timeout waiting for job '' @ name)), h))"
  by pat_completeness auto
termination
  by (relation "measure (\<lambda>(X, net, took, url, name, limit, h). limit - h_now h)")
    (auto simp: timed_send_def pause_def io_bind_def io_lift_def split: prod.splits res.splits)

declare poll_loop.simps [simp del]

definition poll_status :: "texts \<Rightarrow> network \<Rightarrow> durations \<Rightarrow> string \<Rightarrow> 16 word \<Rightarrow> uuid \<Rightarrow> nat \<Rightarrow> json timed" where
  "poll_status X net took host port job timeout_secs h =
     poll_loop X net took (harness_job_url X host port job) (tx_show_uuid X job) (h_now h + 1000 * timeout_secs) h"

definition fetch_results :: "texts \<Rightarrow> network \<Rightarrow> durations \<Rightarrow> string \<Rightarrow> 16 word \<Rightarrow> uuid \<Rightarrow> json timed" where
  "fetch_results X net took host port job =
     io_bind (timed_send net took (''GET'', harness_job_url X host port job @ ''/results'', []))
       (\<lambda>resp. io_lift (json_answer X resp))"

definition write_report :: "texts \<Rightarrow> path \<Rightarrow> json \<Rightarrow> unit timed" where
  "write_report X p content =
     io_bind (on_files (ensure_parent p)) (\<lambda>_.
     io_bind (on_files (write_file p [])) (\<lambda>_.
     io_bind (io_lift (tx_pretty X content)) (\<lambda>body. on_files (write_file p body))))"

section \<open>Benchmarks\<close>

text \<open>\<open>json!\<close> makes an object by inserting its entries one after the other.\<close>

definition json_object :: "obj \<Rightarrow> json" where
  "json_object kvs = JObject (obj_insert_all kvs [])"

definition dataset_row :: "nat \<Rightarrow> json" where
  "dataset_row i = json_object [(''text'', JString (''hello world '' @ show_nat i)),
     (''Product'', JString (''p'' @ show_nat (i mod 100))), (''Quantity'', uint_json 1)]"

definition gen_dataset :: "texts \<Rightarrow> path \<Rightarrow> nat \<Rightarrow> unit timed" where
  "gen_dataset X p rows =
     io_bind (on_files (case path_parent p of None \<Rightarrow> io_lift Panic | Some d \<Rightarrow> create_dir_all d)) (\<lambda>_.
     io_bind (io_lift (tx_print X (JArray (map dataset_row [0..<rows])))) (\<lambda>body.
       on_files (write_file p body)))"

text \<open>\<open>Duration::as_secs_f32\<close> of a number of milliseconds.\<close>

definition secs_f32 :: "nat \<Rightarrow> flt" where
  "secs_f32 ms = fadd f32 (flt_of_int f32 (int (ms div 1000)))
     (fdiv f32 (flt_of_int f32 (int (ms mod 1000 * 1000000))) (flt_of_int f32 1000000000))"

definition results_count :: "json \<Rightarrow> nat" where
  "results_count v = (case v of JArray vs \<Rightarrow> length vs | _ \<Rightarrow> 0)"

definition run_benchmark :: "texts \<Rightarrow> network \<Rightarrow> durations \<Rightarrow> string \<Rightarrow> json \<Rightarrow> string \<Rightarrow> 16 word \<Rightarrow> json list \<Rightarrow>
    json list timed" where
  "run_benchmark X net took name dag host port report =
     io_bind (harness_submit X net took host port dag) (\<lambda>job h.
       io_bind (poll_status X net took host port job 120) (\<lambda>status h1.
         (let elapsed = secs_f32 (h_now h1 - h_now h)
          in io_bind (fetch_results X net took host port job) (\<lambda>rs.
               io_return (report @ [json_object [(''name'', JString name), (''job_id'', JString (tx_show_uuid X job)),
                 (''duration_sec'', f32_json elapsed), (''status'', status),
                 (''results_count'', uint_json (results_count rs))]])) h1)) h)"

definition read_node :: "string \<Rightarrow> path \<Rightarrow> json" where
  "read_node i uri = json_object [(''id'', JString i),
     (''operator'', json_object [(''Read'', json_object [(''uri'', JString uri), (''format'', JString ''json'')])])]"

definition edge_value :: "string \<Rightarrow> string \<Rightarrow> json" where
  "edge_value a b = json_object [(''from'', JString a), (''to'', JString b)]"

definition dag_wc :: "path \<Rightarrow> json" where
  "dag_wc uri = json_object [(''partitions'', uint_json 4),
     (''nodes'', JArray [read_node ''read'' uri,
        json_object [(''id'', JString ''map''),
          (''operator'', json_object [(''Map'', json_object [(''script'', JString ''identity'')])])]]),
     (''edges'', JArray [edge_value ''read'' ''map''])]"

definition dag_join :: "path \<Rightarrow> path \<Rightarrow> json" where
  "dag_join left right = json_object [(''partitions'', uint_json 4),
     (''nodes'', JArray [read_node ''left'' left, read_node ''right'' right,
        json_object [(''id'', JString ''join''),
          (''operator'', json_object [(''Join'',
            json_object [(''key'', JString ''Product''), (''join_type'', JString ''Inner'')])])]]),
     (''edges'', JArray [edge_value ''left'' ''join'', edge_value ''right'' ''join''])]"

definition bench_body :: "launcher \<Rightarrow> texts \<Rightarrow> network \<Rightarrow> durations \<Rightarrow> string \<Rightarrow> 16 word \<Rightarrow> unit timed" where
  "bench_body L X net took host port =
     io_bind (wait_for_master X net took host port 30) (\<lambda>_.
     io_bind (io_lift (current_dir L)) (\<lambda>dir.
       let data = path_join dir ''data''; wc = path_join data ''bench_wc.json'';
           right = path_join data ''bench_join_right.json''
       in io_bind (gen_dataset X wc 50000) (\<lambda>_.
          io_bind (gen_dataset X right 50000) (\<lambda>_.
          io_bind (run_benchmark X net took ''wordcount_like'' (dag_wc wc) host port []) (\<lambda>report.
          io_bind (run_benchmark X net took ''join'' (dag_join wc right) host port report) (\<lambda>report.
            write_report X ''target/benchmarks/benchmarks_report.json''
              (json_object [(''host'', JString host), (''port'', uint_json (unat port)),
                 (''benchmarks'', JArray report)])))))))"

text \<open>\<open>kill\<close> drops the outcome of killing and of waiting.\<close>

definition kill :: "string \<Rightarrow> harness \<Rightarrow> harness" where
  "kill name h = h\<lparr>h_killed := h_killed h @ [name]\<rparr>"

definition finish_run :: "texts \<Rightarrow> string list \<Rightarrow> string \<Rightarrow> (error, unit) res \<times> harness \<Rightarrow> nat \<times> harness" where
  "finish_run X names tag body =
     (case body of (r, h) \<Rightarrow>
        (case r of Ok _ \<Rightarrow> 0 | Err _ \<Rightarrow> 1 | Panic \<Rightarrow> 101,
         (if r = Panic then h
          else let h' = fold kill names h
               in case r of Err e \<Rightarrow> h'\<lparr>h_world := printed [ErrOut (tag @ '' failed: '' @ tx_error X e)] (h_world h')\<rparr>
                          | _ \<Rightarrow> h')))"

text \<open>The exit code of the program; a process that cannot be started ends it with code 1.\<close>

definition bench_main :: "launcher \<Rightarrow> texts \<Rightarrow> network \<Rightarrow> durations \<Rightarrow> harness \<Rightarrow> nat \<times> harness" where
  "bench_main L X net took h =
     (case res_bind (start_master L ''127.0.0.1'' 8082) (\<lambda>_.
           res_bind (start_worker L ''127.0.0.1'' 8082 ''127.0.0.1'' 9400 (Some ''bench-w1'')) (\<lambda>_.
           start_worker L ''127.0.0.1'' 8082 ''127.0.0.1'' 9500 (Some ''bench-w2''))) of
        Ok _ \<Rightarrow> finish_run X [''w2'', ''w1'', ''master''] ''[BENCH]'' (bench_body L X net took ''127.0.0.1'' 8082 h)
      | Err _ \<Rightarrow> (1, h)
      | Panic \<Rightarrow> (101, h))"

section \<open>Fault tests\<close>

text \<open>
  The loop that watches the job and kills a worker: \<open>None\<close> if it does not end. From two seconds on every turn
  kills the worker again and counts.
\<close>

partial_function (option) monitor :: "texts \<Rightarrow> network \<Rightarrow> durations \<Rightarrow> string \<Rightarrow> nat \<Rightarrow> u32 \<Rightarrow> harness \<Rightarrow>
    ((error, u32) res \<times> harness) option" where
  "monitor X net took url inject_at kills h =
     (let (h0, n) = (if inject_at \<le> h_now h then (kill ''w1'' h, kills + 1) else (h, kills));
          (r, h') = io_bind (timed_send net took (''GET'', url, [])) (\<lambda>resp. io_lift (json_answer X resp)) h0
      in case r of
           Ok v \<Rightarrow>
             if finished_ok [] v then Some (Ok n, h')
             else if finished_bad [] v then Some (Err (Message (''job failed after fault: '' @ tx_debug X v)), h')
             else monitor X net took url inject_at n (pause 500 h')
         | Err e \<Rightarrow> Some (Err e, h')
         | Panic \<Rightarrow> Some (Panic, h'))"

definition fault_dag :: "path \<Rightarrow> json" where
  "fault_dag = dag_wc"

definition fault_body :: "launcher \<Rightarrow> texts \<Rightarrow> network \<Rightarrow> durations \<Rightarrow> string \<Rightarrow> 16 word \<Rightarrow> harness \<Rightarrow>
    ((error, unit) res \<times> harness) option" where
  "fault_body L X net took host port h =
     (case io_bind (wait_for_master X net took host port 30) (\<lambda>_.
           io_bind (io_lift (current_dir L)) (\<lambda>dir.
             let data = path_join dir ''data''; input = path_join data ''fault_long.json''
             in io_bind (on_files (create_dir_all data)) (\<lambda>_.
                io_bind (io_lift (tx_print X (JArray (map (\<lambda>i. json_object [(''value'', uint_json i)]) [0..<2000])))) (\<lambda>body.
                io_bind (on_files (write_file input body)) (\<lambda>_.
                  harness_submit X net took host port (fault_dag input)))))) h of
        (Ok job, h1) \<Rightarrow>
          (case monitor X net took (harness_job_url X host port job) (h_now h1 + 2000) 0 h1 of
             None \<Rightarrow> None
           | Some (Ok kills, h2) \<Rightarrow>
               Some (io_bind (poll_status X net took host port job 30) (\<lambda>status.
                     io_bind (fetch_results X net took host port job) (\<lambda>rs.
                       write_report X ''target/test_reports/faults_report.json''
                         (json_object [(''test'', JString ''fault_worker_kill''),
                            (''job_id'', JString (tx_show_uuid X job)), (''worker_killed'', JString ''worker-1''),
                            (''retries'', uint_json (unat kills)), (''status'', status), (''results'', rs),
                            (''pass'', JBool True)]))) h2)
           | Some (Err e, h2) \<Rightarrow> Some (Err e, h2)
           | Some (Panic, h2) \<Rightarrow> Some (Panic, h2))
      | (Err e, h1) \<Rightarrow> Some (Err e, h1)
      | (Panic, h1) \<Rightarrow> Some (Panic, h1))"

definition fault_main :: "launcher \<Rightarrow> texts \<Rightarrow> network \<Rightarrow> durations \<Rightarrow> harness \<Rightarrow> (nat \<times> harness) option" where
  "fault_main L X net took h =
     (case res_bind (start_master L ''127.0.0.1'' 8081) (\<lambda>_.
           res_bind (start_worker L ''127.0.0.1'' 8081 ''127.0.0.1'' 9200 (Some ''worker-1'')) (\<lambda>_.
           start_worker L ''127.0.0.1'' 8081 ''127.0.0.1'' 9300 (Some ''worker-2''))) of
        Ok _ \<Rightarrow>
          map_option (finish_run X [''w2'', ''master''] ''[FAULTS]'') (fault_body L X net took ''127.0.0.1'' 8081 h)
      | Err _ \<Rightarrow> Some (1, h)
      | Panic \<Rightarrow> Some (101, h))"

section \<open>The end-to-end test\<close>

text \<open>
  \<open>src/tests/e2e_local.rs\<close>: whether the test passes. A panic, from an assertion or from a process that cannot
  be started, fails it before the processes are killed.
\<close>

definition e2e_rows :: json where
  "e2e_rows = JArray [json_object [(''value'', JString ''hello'')], json_object [(''value'', JString ''world'')]]"

definition e2e_dag :: "path \<Rightarrow> json" where
  "e2e_dag uri = json_object [(''partitions'', uint_json 1),
     (''nodes'', JArray [read_node ''read'' uri,
        json_object [(''id'', JString ''map''),
          (''operator'', json_object [(''Map'', json_object [(''script'', JString ''identity'')])])]]),
     (''edges'', JArray [edge_value ''read'' ''map''])]"

definition has_results :: "json \<Rightarrow> bool" where
  "has_results v \<longleftrightarrow> (case v of JArray vs \<Rightarrow> vs \<noteq> [] | _ \<Rightarrow> False)"

definition e2e_body :: "launcher \<Rightarrow> texts \<Rightarrow> network \<Rightarrow> durations \<Rightarrow> string \<Rightarrow> 16 word \<Rightarrow> unit timed" where
  "e2e_body L X net took host port =
     io_bind (wait_for_master X net took host port 30) (\<lambda>_.
     io_bind (io_lift (current_dir L)) (\<lambda>dir.
       let data = path_join dir ''data''; input = path_join data ''e2e_local.json''
       in io_bind (on_files (create_dir_all data)) (\<lambda>_.
          io_bind (io_lift (tx_print X e2e_rows)) (\<lambda>body.
          io_bind (on_files (write_file input body)) (\<lambda>_.
          io_bind (harness_submit X net took host port (e2e_dag input)) (\<lambda>job h.
            io_bind (poll_status X net took host port job 60) (\<lambda>status h1.
              (let elapsed = secs_f32 (h_now h1 - h_now h)
               in io_bind (fetch_results X net took host port job) (\<lambda>rs.
                  io_bind (io_lift (if finished_ok [] status \<and> has_results rs then Ok () else Panic)) (\<lambda>_.
                    write_report X ''target/test_reports/e2e_report.json''
                      (json_object [(''test'', JString ''e2e_local_pipeline''),
                         (''job_id'', JString (tx_show_uuid X job)), (''duration_sec'', f32_json elapsed),
                         (''status'', status), (''results'', rs), (''pass'', JBool True)]))) h1)) h))))))"

definition e2e_local_pipeline :: "launcher \<Rightarrow> texts \<Rightarrow> network \<Rightarrow> durations \<Rightarrow> harness \<Rightarrow> bool \<times> harness" where
  "e2e_local_pipeline L X net took h =
     (case res_bind (start_master L ''127.0.0.1'' 8080) (\<lambda>_.
           start_worker L ''127.0.0.1'' 8080 ''127.0.0.1'' 9100 None) of
        Ok _ \<Rightarrow>
          (case e2e_body L X net took ''127.0.0.1'' 8080 h of (r, h') \<Rightarrow>
             (r = Ok (), if r = Panic then h' else fold kill [''worker'', ''master''] h'))
      | _ \<Rightarrow> (False, h))"

section \<open>Lemmas: waiting\<close>

lemma timed_send_eq:
  "timed_send net took q h =
     (net (sent (h_world h)) q,
      h\<lparr>h_world := (h_world h)\<lparr>sent := sent (h_world h) @ [q]\<rparr>, h_now := h_now h + took (sent (h_world h)) q\<rparr>)"
  by (simp add: timed_send_def request_def)

text \<open>A server that never responds: the loop gives up after the time it was given, and touches no file.\<close>

lemma wait_loop_refused:
  assumes "\<forall>qs. \<not> responds X (net qs (''GET'', base @ ''/api/v1/health'', []))"
    and "\<forall>qs. \<not> responds X (net qs (''GET'', base @ ''/api/v1/jobs'', []))"
  shows "\<exists>h' n. wait_loop X net took base limit h = (Err (Message ''master not ready''), h') \<and>
    disk (h_world h') = disk (h_world h) \<and> shown (h_world h') = shown (h_world h) \<and> h_killed h' = h_killed h \<and>
    length (sent (h_world h')) = length (sent (h_world h)) + 2 * n \<and> 500 * n \<le> limit - h_now h + 499 \<and> limit \<le> h_now h'"
proof (induction "limit - h_now h" arbitrary: h rule: less_induct)
  case less
  show ?case
  proof (cases "h_now h < limit")
    case False
    then show ?thesis by (simp add: wait_loop.simps[of X net took base limit h])
  next
    case True
    define h2 where "h2 = snd (timed_send net took (''GET'', base @ ''/api/v1/jobs'', [])
        (snd (timed_send net took (''GET'', base @ ''/api/v1/health'', []) h)))"
    have eq: "wait_loop X net took base limit h = wait_loop X net took base limit (pause 500 h2)"
      using True assms by (subst wait_loop.simps) (simp add: timed_send_eq h2_def Let_def)
    have h2: "h_now h \<le> h_now h2" "disk (h_world h2) = disk (h_world h)" "shown (h_world h2) = shown (h_world h)"
      "h_killed h2 = h_killed h" "length (sent (h_world h2)) = length (sent (h_world h)) + 2"
      by (simp_all add: h2_def timed_send_eq)
    have "limit - h_now (pause 500 h2) < limit - h_now h" using True h2(1) by (simp add: pause_def)
    from less[OF this] obtain h' n where
      "wait_loop X net took base limit (pause 500 h2) = (Err (Message ''master not ready''), h')"
      "disk (h_world h') = disk (h_world h2)" "shown (h_world h') = shown (h_world h2)" "h_killed h' = h_killed h2"
      "length (sent (h_world h')) = length (sent (h_world h2)) + 2 * n"
      and n: "500 * n \<le> limit - (h_now h2 + 500) + 499" and "limit \<le> h_now h'"
      by (auto simp: pause_def)
    moreover have "500 * Suc n \<le> limit - h_now h + 499" using n True h2(1) by (cases n) auto
    ultimately show ?thesis
      using h2 unfolding eq by (intro exI[of _ h'] exI[of _ "Suc n"]) simp
  qed
qed

lemma connect_unready:
  assumes "router_ok W" "p \<in> {''/api/v1/health'', ''/api/v1/jobs''}"
  shows "\<not> responds X (connect W E T origin s qs (''GET'', origin @ p, []))"
proof -
  have "CHR ''%'' \<notin> set p" using assms(2) by auto
  moreover have "segments ''/api/v1/health'' = [[], ''api'', ''v1'', ''health'']" by code_simp
  then have "segments p \<in> {[[], ''api'', ''v1'', ''jobs''], [[], ''api'', ''v1'', ''health''], [[], ''api'', ''v1'', ''workers'']}"
    using assms(2) by auto
  ultimately obtain code where "code \<in> {404, 405}"
    "serve W E (clock T (length qs)) (fresh T (length qs)) api_base (''GET'', p, []) (met W E T origin s qs) =
      (Some (code, []), met W E T origin s qs)"
    using unrouted_get[OF assms(1), of p E "clock T (length qs)" "fresh T (length qs)" "[]" "met W E T origin s qs"] by blast
  then show ?thesis by (auto simp: connect_def error_for_status_def)
qed

lemma wait_unready:
  assumes "router_ok W"
  shows "\<exists>h' n. wait_for_master X (connect W E T (harness_base host port) s) took host port secs h =
      (Err (Message ''master not ready''), h') \<and>
    disk (h_world h') = disk (h_world h) \<and> shown (h_world h') = shown (h_world h) \<and> h_killed h' = h_killed h \<and>
    length (sent (h_world h')) = length (sent (h_world h)) + 2 * n \<and> n \<le> 2 * secs \<and> h_now h + 1000 * secs \<le> h_now h'"
proof -
  from wait_loop_refused[of X "connect W E T (harness_base host port) s" "harness_base host port" took
      "h_now h + 1000 * secs" h] connect_unready[OF assms]
  obtain h' n where
    "wait_for_master X (connect W E T (harness_base host port) s) took host port secs h =
      (Err (Message ''master not ready''), h')"
    "disk (h_world h') = disk (h_world h)" "shown (h_world h') = shown (h_world h)" "h_killed h' = h_killed h"
    "length (sent (h_world h')) = length (sent (h_world h)) + 2 * n" "500 * n \<le> 1000 * secs + 499"
    "h_now h + 1000 * secs \<le> h_now h'"
    by (auto simp: wait_for_master_def)
  then show ?thesis by (intro exI[of _ h'] exI[of _ n]) auto
qed

section \<open>Lemmas: polling\<close>

text \<open>The answer about a job, after the given requests, and what it takes to go on asking.\<close>

definition poll_answer :: "texts \<Rightarrow> network \<Rightarrow> string \<Rightarrow> request list \<Rightarrow> (error, json) res" where
  "poll_answer X net url earlier = res_bind (net earlier (''GET'', url, [])) (json_answer X)"

definition unfinished :: "(error, json) res \<Rightarrow> bool" where
  "unfinished r \<longleftrightarrow> (case r of Ok v \<Rightarrow> \<not> finished_ok ''UNKNOWN'' v \<and> \<not> finished_bad ''UNKNOWN'' v | _ \<Rightarrow> False)"

lemma poll_once:
  "io_bind (timed_send net took (''GET'', url, [])) (\<lambda>resp. io_lift (json_answer X resp)) h =
     (poll_answer X net url (sent (h_world h)), snd (timed_send net took (''GET'', url, []) h))"
  by (auto simp: io_bind_def io_lift_def timed_send_eq poll_answer_def split: res.splits)

text \<open>What the last answer is turned into, and how the loop ends after \<open>n\<close> requests and \<open>k\<close> pauses.\<close>

fun final_result :: "texts \<Rightarrow> (error, json) res \<Rightarrow> (error, json) res" where
  "final_result X (Ok v) = (if finished_ok ''UNKNOWN'' v then Ok v else Err (Message (''job failed: '' @ tx_debug X v)))"
| "final_result X r = r"

definition poll_outcome :: "texts \<Rightarrow> string \<Rightarrow> (nat \<Rightarrow> (error, json) res) \<Rightarrow> nat \<Rightarrow> nat \<Rightarrow> bool \<Rightarrow> (error, json) res \<Rightarrow> bool" where
  "poll_outcome X name answers n k late r \<longleftrightarrow>
     (r = Err (Message (''timeout waiting for job '' @ name)) \<and> k = n \<and> late \<and> (\<forall>i < n. unfinished (answers i))) \<or>
     (n = Suc k \<and> (\<forall>i < k. unfinished (answers i)) \<and> \<not> unfinished (answers k) \<and> r = final_result X (answers k))"

lemma poll_outcome_Suc:
  assumes "unfinished (answers 0)" "poll_outcome X name (\<lambda>i. answers (Suc i)) n k late r"
  shows "poll_outcome X name answers (Suc n) (Suc k) late r"
proof -
  have "\<forall>i < Suc j. unfinished (answers i)" if "\<forall>i < j. unfinished (answers (Suc i))" for j
    using assms(1) that by (metis less_Suc_eq_0_disj)
  with assms(2) show ?thesis unfolding poll_outcome_def by blast
qed

lemma poll_loop_spec:
  "\<exists>r h' n k. poll_loop X net took url name limit h = (r, h') \<and> 500 * n \<le> limit - h_now h + 499 \<and>
     sent (h_world h') = sent (h_world h) @ replicate n (''GET'', url, []) \<and>
     h_now h' = h_now h + 500 * k + (\<Sum>i<n. took (sent (h_world h) @ replicate i (''GET'', url, [])) (''GET'', url, [])) \<and>
     poll_outcome X name (\<lambda>i. poll_answer X net url (sent (h_world h) @ replicate i (''GET'', url, []))) n k (limit \<le> h_now h') r"
proof (induction "limit - h_now h" arbitrary: h rule: less_induct)
  case less
  let ?q = "(''GET'', url, [])" and ?ans = "poll_answer X net url (sent (h_world h))"
  define h1 where "h1 = snd (timed_send net took ?q h)"
  have h1: "sent (h_world h1) = sent (h_world h) @ [?q]" "h_now h1 = h_now h + took (sent (h_world h)) ?q"
    by (simp_all add: h1_def timed_send_eq)
  show ?case
  proof (cases "h_now h < limit")
    case False
    then show ?thesis
      by (intro exI[of _ "Err (Message (''timeout waiting for job '' @ name))"] exI[of _ h] exI[of _ 0])
        (simp add: poll_loop.simps[of X net took url name limit h] poll_outcome_def)
  next
    case True
    show ?thesis
    proof (cases "unfinished ?ans")
      case True
      have eq: "poll_loop X net took url name limit h = poll_loop X net took url name limit (pause 500 h1)"
        using True \<open>h_now h < limit\<close>
        by (subst poll_loop.simps) (auto simp: poll_once h1_def unfinished_def Let_def split: res.splits)
      have "limit - h_now (pause 500 h1) < limit - h_now h" using \<open>h_now h < limit\<close> h1(2) by (simp add: pause_def)
      from less[OF this] obtain r h' n k where
        "poll_loop X net took url name limit (pause 500 h1) = (r, h')"
        "sent (h_world h') = sent (h_world h) @ replicate (Suc n) ?q"
        and n: "500 * n \<le> limit - (h_now h1 + 500) + 499" and
        t: "h_now h' = h_now h1 + 500 + 500 * k + (\<Sum>i<n. took (sent (h_world h) @ replicate (Suc i) ?q) ?q)" and
        out: "poll_outcome X name (\<lambda>i. poll_answer X net url (sent (h_world h) @ replicate (Suc i) ?q)) n k (limit \<le> h_now h') r"
        by (auto simp: pause_def h1)
      moreover have "500 * Suc n \<le> limit - h_now h + 499" using n \<open>h_now h < limit\<close> h1(2) by (cases n) auto
      moreover have "h_now h' = h_now h + 500 * Suc k + (\<Sum>i<Suc n. took (sent (h_world h) @ replicate i ?q) ?q)"
        unfolding t h1(2) sum.lessThan_Suc_shift by simp
      moreover note poll_outcome_Suc[OF _ out] True
      ultimately show ?thesis
        unfolding eq by (intro exI[of _ r] exI[of _ h'] exI[of _ "Suc n"] exI[of _ "Suc k"]) simp
    next
      case False
      then have "poll_loop X net took url name limit h = (final_result X ?ans, h1)"
        using \<open>h_now h < limit\<close>
        by (subst poll_loop.simps) (auto simp: poll_once h1_def unfinished_def Let_def split: res.splits)
      with False h1 \<open>h_now h < limit\<close> show ?thesis
        by (intro exI[of _ "final_result X ?ans"] exI[of _ h1] exI[of _ 1] exI[of _ 0]) (simp add: poll_outcome_def)
    qed
  qed
qed

lemma status_text_served:
  "finished_ok dflt (status_response_json U r) \<longleftrightarrow> jsr_status r \<in> {JS_Succeeded, JS_Completed}"
  "finished_bad dflt (status_response_json U r) \<longleftrightarrow> jsr_status r = JS_Failed"
proof -
  have "status_text dflt (status_response_json U r) = to_uppercase (job_status_name (jsr_status r))"
    by (simp add: status_text_def status_response_json_def job_status_json_def obj_get_def)
  moreover have "to_uppercase (job_status_name x) \<in> {''SUCCEEDED'', ''COMPLETED''} \<longleftrightarrow> x \<in> {JS_Succeeded, JS_Completed}"
    "to_uppercase (job_status_name x) = ''FAILED'' \<longleftrightarrow> x = JS_Failed" for x
    by (cases x; hypsubst; code_simp)+
  ultimately show "finished_ok dflt (status_response_json U r) \<longleftrightarrow> jsr_status r \<in> {JS_Succeeded, JS_Completed}"
    "finished_bad dflt (status_response_json U r) \<longleftrightarrow> jsr_status r = JS_Failed"
    by (simp_all add: finished_ok_def finished_bad_def)
qed

section \<open>Lemmas: paths\<close>

lemma split_by_end: "\<forall>c \<in> set b. \<not> P c \<Longrightarrow> P x \<Longrightarrow> split_by P (a @ x # b) = split_by P a @ [b]"
proof (induction a)
  case Nil
  then show ?case using split_by_none[of b P] by simp
next
  case (Cons c a)
  then show ?case by (cases "split_by P a") auto
qed

text \<open>What the three programs have in common: their processes start, and their wait is in vain.\<close>

lemma processes_start:
  assumes "current_dir L = Ok dir" "\<forall>c. spawn L c = Ok ()"
  shows "\<exists>c. start_master L host port = Ok c" "\<exists>c. start_worker L mh mp bh port name = Ok c"
  using assms by (simp_all add: start_master_def start_worker_def binary_path_def Let_def)

lemma wait_in_vain:
  assumes "router_ok W"
  obtains h' where "wait_for_master X (connect W E T (harness_base host port) s) took host port 30 h =
      (Err (Message ''master not ready''), h')"
    "disk (h_world h') = disk (h_world h)" "h_killed h' = h_killed h" "h_now h + 30000 \<le> h_now h'"
    "length (sent (h_world h')) \<le> length (sent (h_world h)) + 120"
  using wait_unready[OF assms, of X E T host port s took 30 h] by auto

section \<open>Properties\<close>

text \<open>
  Claim C40. The end-to-end test, the benchmarks and the fault tests cannot pass. They wait for a health check or
  a list of jobs, and the master has a route for neither. So, whatever the master does and however its answers
  are timed, waiting fails once its time is over; then the processes are stopped, no data set and no report is
  written, the test fails and the programs end with exit code 1.
\<close>

theorem benchmarks_never_run:
  assumes "router_ok W" "current_dir L = Ok dir" "\<forall>c. spawn L c = Ok ()"
  shows "(\<exists>h'. bench_main L X (connect W E T (harness_base ''127.0.0.1'' 8082) s) took h = (1, h') \<and>
      disk (h_world h') = disk (h_world h) \<and> h_killed h' = h_killed h @ [''w2'', ''w1'', ''master''] \<and>
      h_now h + 30000 \<le> h_now h' \<and> length (sent (h_world h')) \<le> length (sent (h_world h)) + 120) \<and>
    (\<exists>h'. fault_main L X (connect W E T (harness_base ''127.0.0.1'' 8081) s) took h = Some (1, h') \<and>
      disk (h_world h') = disk (h_world h) \<and> h_killed h' = h_killed h @ [''w2'', ''master''] \<and>
      h_now h + 30000 \<le> h_now h' \<and> length (sent (h_world h')) \<le> length (sent (h_world h)) + 120) \<and>
    (\<exists>h'. e2e_local_pipeline L X (connect W E T (harness_base ''127.0.0.1'' 8080) s) took h = (False, h') \<and>
      disk (h_world h') = disk (h_world h) \<and> h_killed h' = h_killed h @ [''worker'', ''master''] \<and>
      h_now h + 30000 \<le> h_now h' \<and> length (sent (h_world h')) \<le> length (sent (h_world h)) + 120)"
proof (intro conjI)
  note start = processes_start[OF assms(2,3)]
  note ends = io_bind_def finish_run_def kill_def printed_def Let_def
  show "\<exists>h'. bench_main L X (connect W E T (harness_base ''127.0.0.1'' 8082) s) took h = (1, h') \<and>
      disk (h_world h') = disk (h_world h) \<and> h_killed h' = h_killed h @ [''w2'', ''w1'', ''master''] \<and>
      h_now h + 30000 \<le> h_now h' \<and> length (sent (h_world h')) \<le> length (sent (h_world h)) + 120"
    using start(1)[of "''127.0.0.1''" 8082] start(2)[of "''127.0.0.1''" 8082 "''127.0.0.1''" 9400 "Some ''bench-w1''"]
      start(2)[of "''127.0.0.1''" 8082 "''127.0.0.1''" 9500 "Some ''bench-w2''"]
    by (elim exE, rule_tac wait_in_vain[OF assms(1), of X E T "''127.0.0.1''" 8082 s took h])
      (simp add: bench_main_def bench_body_def ends)
  show "\<exists>h'. fault_main L X (connect W E T (harness_base ''127.0.0.1'' 8081) s) took h = Some (1, h') \<and>
      disk (h_world h') = disk (h_world h) \<and> h_killed h' = h_killed h @ [''w2'', ''master''] \<and>
      h_now h + 30000 \<le> h_now h' \<and> length (sent (h_world h')) \<le> length (sent (h_world h)) + 120"
    using start(1)[of "''127.0.0.1''" 8081] start(2)[of "''127.0.0.1''" 8081 "''127.0.0.1''" 9200 "Some ''worker-1''"]
      start(2)[of "''127.0.0.1''" 8081 "''127.0.0.1''" 9300 "Some ''worker-2''"]
    by (elim exE, rule_tac wait_in_vain[OF assms(1), of X E T "''127.0.0.1''" 8081 s took h])
      (simp add: fault_main_def fault_body_def ends)
  show "\<exists>h'. e2e_local_pipeline L X (connect W E T (harness_base ''127.0.0.1'' 8080) s) took h = (False, h') \<and>
      disk (h_world h') = disk (h_world h) \<and> h_killed h' = h_killed h @ [''worker'', ''master''] \<and>
      h_now h + 30000 \<le> h_now h' \<and> length (sent (h_world h')) \<le> length (sent (h_world h)) + 120"
    using start(1)[of "''127.0.0.1''" 8080] start(2)[of "''127.0.0.1''" 8080 "''127.0.0.1''" 9100 None]
    by (elim exE, rule_tac wait_in_vain[OF assms(1), of X E T "''127.0.0.1''" 8080 s took h])
      (simp add: e2e_local_pipeline_def e2e_body_def ends)
qed

definition example_launcher :: launcher where
  "example_launcher = \<lparr>current_dir = Ok ''/repo'', path_exists = (\<lambda>_. False), spawn = (\<lambda>_. Ok ())\<rparr>"

definition example_texts :: texts where
  "example_texts = \<lparr>tx_read = (\<lambda>s. Ok (json_object [(''status'', JString s)])), tx_print = (\<lambda>_. Ok []),
     tx_pretty = (\<lambda>_. Ok []), tx_code = (\<lambda>_. Message ''HTTP status''), tx_debug = (\<lambda>_. []), tx_uuid = (\<lambda>_. Ok 7),
     tx_show_uuid = (\<lambda>u. show_nat (unat u)), tx_error = show_error\<rparr>"

definition example_harness :: harness where
  "example_harness = \<lparr>h_world = idle_world, h_now = 0, h_killed = []\<rparr>"

theorem benchmarks_never_run_witness:
  "\<exists>h'. bench_main example_launcher example_texts (connect (example_web []) example_env (example_traffic [])
      (harness_base ''127.0.0.1'' 8082) \<lparr>sv_master = example_master, sv_disk = example_fs\<rparr>) (\<lambda>_ _. 3) example_harness = (1, h') \<and>
    h_killed h' = [''w2'', ''w1'', ''master''] \<and> 30000 \<le> h_now h'"
  using benchmarks_never_run[OF example_web_ok, of example_launcher "''/repo''", THEN conjunct1, of example_texts "[]" example_env
      "example_traffic []" "\<lparr>sv_master = example_master, sv_disk = example_fs\<rparr>" "\<lambda>_ _. 3" example_harness]
  by (auto simp: example_launcher_def example_harness_def)

text \<open>
  Claim C32. Polling ends. Waiting for the end of a job asks at most twice per second of the time it is given, and
  ends with the first answer that is not about an unfinished job: success gives that answer, failure and
  errors give an error; if there is none it ends with a timeout, not before the time is over. The answers of the
  master are understood: exactly a job that has succeeded or completed counts as success, and exactly a
  failed one as failed.
\<close>

theorem poll_status_ends:
  assumes "url = harness_job_url X host port job" "q = (''GET'', url, [])"
    and "earlier = (\<lambda>i. sent (h_world h) @ replicate i q)" "answers = (\<lambda>i. poll_answer X net url (earlier i))"
  shows "(\<exists>r h' n k. poll_status X net took host port job secs h = (r, h') \<and> n \<le> 2 * secs \<and>
      sent (h_world h') = earlier n \<and> h_now h' = h_now h + 500 * k + (\<Sum>i<n. took (earlier i) q) \<and>
      ((r = Err (Message (''timeout waiting for job '' @ tx_show_uuid X job)) \<and> k = n \<and>
         h_now h + 1000 * secs \<le> h_now h' \<and> (\<forall>i < n. unfinished (answers i))) \<or>
       (n = Suc k \<and> (\<forall>i < k. unfinished (answers i)) \<and> \<not> unfinished (answers k) \<and> r = final_result X (answers k)))) \<and>
    (unfinished (Ok (status_response_json U resp)) \<longleftrightarrow> jsr_status resp \<notin> {JS_Succeeded, JS_Completed, JS_Failed}) \<and>
    (final_result X (Ok (status_response_json U resp)) = Ok (status_response_json U resp) \<longleftrightarrow>
      jsr_status resp \<in> {JS_Succeeded, JS_Completed})"
proof
  let ?limit = "h_now h + 1000 * secs"
  from poll_loop_spec[of X net took url "tx_show_uuid X job" ?limit h] assms obtain r h' n k where
    r: "poll_status X net took host port job secs h = (r, h')" "500 * n \<le> 1000 * secs + 499"
      "sent (h_world h') = earlier n" "h_now h' = h_now h + 500 * k + (\<Sum>i<n. took (earlier i) q)"
      "poll_outcome X (tx_show_uuid X job) answers n k (?limit \<le> h_now h') r"
    by (auto simp: poll_status_def)
  from r(2) have "n \<le> 2 * secs" by simp
  with r show "\<exists>r h' n k. poll_status X net took host port job secs h = (r, h') \<and> n \<le> 2 * secs \<and>
      sent (h_world h') = earlier n \<and> h_now h' = h_now h + 500 * k + (\<Sum>i<n. took (earlier i) q) \<and>
      ((r = Err (Message (''timeout waiting for job '' @ tx_show_uuid X job)) \<and> k = n \<and> ?limit \<le> h_now h' \<and>
         (\<forall>i < n. unfinished (answers i))) \<or>
       (n = Suc k \<and> (\<forall>i < k. unfinished (answers i)) \<and> \<not> unfinished (answers k) \<and> r = final_result X (answers k)))"
    unfolding poll_outcome_def by blast
qed (auto simp: unfinished_def status_text_served)

theorem poll_status_ends_witness:
  "\<exists>h'. poll_status example_texts (\<lambda>qs _. Ok \<lparr>an_status = 200, an_body = Ok (if length qs < 3 then ''Running'' else ''Succeeded'')\<rparr>)
      (\<lambda>_ _. 3) ''m'' 8080 7 30 example_harness = (Ok (json_object [(''status'', JString ''Succeeded'')]), h')"
proof -
  let ?net = "\<lambda>qs (_ :: request). Ok \<lparr>an_status = 200, an_body = Ok (if length qs < 3 then ''Running'' else ''Succeeded'')\<rparr> :: (error, answer) res"
  let ?X = example_texts
  let ?url = "harness_job_url ?X ''m'' 8080 7"
  let ?ans = "\<lambda>i. poll_answer ?X ?net ?url (sent (h_world example_harness) @ replicate i (''GET'', ?url, []))"
  have ans: "?ans i = Ok (json_object [(''status'', JString (if i < 3 then ''Running'' else ''Succeeded''))])" for i
    by (simp add: poll_answer_def json_answer_def error_for_status_def example_texts_def example_harness_def idle_world_def)
  have run: "unfinished (Ok (json_object [(''status'', JString ''Running'')]))"
    and ok: "finished_ok ''UNKNOWN'' (json_object [(''status'', JString ''Succeeded'')])"
    by code_simp+
  have stop: "unfinished (?ans i) \<longleftrightarrow> i < 3" for i using run ok by (simp add: ans unfinished_def)
  from poll_status_ends[OF refl refl refl refl, where X = ?X and host = "''m''" and port = 8080 and job = 7 and net = ?net
      and took = "\<lambda>_ _. 3" and secs = 30 and h = example_harness, THEN conjunct1]
  obtain r h' n k where r: "poll_status ?X ?net (\<lambda>_ _. 3) ''m'' 8080 7 30 example_harness = (r, h')"
    and t: "h_now h' = h_now example_harness + 500 * k + (\<Sum>i<n. 3)" and
    alt: "(r = Err (Message (''timeout waiting for job '' @ tx_show_uuid ?X 7)) \<and> k = n \<and>
        h_now example_harness + 1000 * 30 \<le> h_now h' \<and> (\<forall>i < n. unfinished (?ans i))) \<or>
      (n = Suc k \<and> (\<forall>i < k. unfinished (?ans i)) \<and> \<not> unfinished (?ans k) \<and> r = final_result ?X (?ans k))"
    by blast
  from alt show ?thesis
  proof
    assume a: "r = Err (Message (''timeout waiting for job '' @ tx_show_uuid ?X 7)) \<and> k = n \<and>
        h_now example_harness + 1000 * 30 \<le> h_now h' \<and> (\<forall>i < n. unfinished (?ans i))"
    then have "\<not> 3 < n" unfolding stop by blast
    with a t show ?thesis by simp
  next
    assume "n = Suc k \<and> (\<forall>i < k. unfinished (?ans i)) \<and> \<not> unfinished (?ans k) \<and> r = final_result ?X (?ans k)"
    then have "\<not> k < 3" "r = final_result ?X (?ans k)" unfolding stop by simp_all
    with r ok show ?thesis by (simp add: ans)
  qed
qed

lemma master_args: "cc_args (master_command bin host port) = [''master'']"
  by (simp add: master_command_def)

lemma worker_args: "cc_args (worker_command bin mhost mport bh wport name) = [''worker'']"
  by (simp add: worker_command_def)

text \<open>
  Claim C17. The processes of a test find each other. A master and a worker started for the same host, an IPv4 address, and
  port, whatever else is in the environment of the test: the master listens on that host and port, and
  the first thing the worker does is to announce itself there. Its port is chosen from the given one on. The name
  that the test gives the worker has no effect, its identifier is a fresh one.
\<close>

theorem spawned_nodes_meet:
  assumes "cli [''master''] = Some Cmd_Master" "cli [''worker''] = Some (Cmd_Worker None None)"
    and "length os = 4" "list_all (\<lambda>n. n < 256) os" "host = show_octets os"
    and m: "from_env (overflow_panics M) (child_env parent (master_command bin host port)) = Ok mcfg"
      "open_db M (path_join (result_dir mcfg) ''state.db'') = Some db" "bind_socket M (SocketV4 os port) = Ok ()"
    and logs: "logs_open M (logs_dir mcfg)" "logs_open M2 (logs_dir wcfg)"
    and w: "from_env (overflow_panics M2) (child_env parent (worker_command bin host port bh wport name)) = Ok wcfg"
  shows "\<exists>nd es s1 info es' r s2.
    run_child cli M E parent (master_command bin host port) s = (Ok nd, es @ [Bound_Master (SocketV4 os port)], s1) \<and>
    run_child cli M2 E2 parent (worker_command bin host port bh wport name) s' =
      (r, Posted_Registration (harness_base host port @ ''/api/v1/register'') info # es', s2) \<and>
    wi_id info = fresh_id M2 \<and> wi_address info = ''127.0.0.1:'' @ show_port (choose_available_port (free_port M2) wport) \<and>
    (\<forall>nd2. r = Ok nd2 \<longrightarrow> Bound_Worker (bh @ '':'' @ show_port (choose_available_port (free_port M2) wport)) \<in> set es')"
proof -
  let ?w = "fst (worker_new (uuids E2) (free_port M2) (fresh_id M2) wcfg None None (snd (create_dir_all (logs_dir wcfg) s')))"
  have mvars: "child_env parent (master_command bin host port) ''MASTER_HOST'' = Some host"
    "child_env parent (master_command bin host port) ''MASTER_PORT'' = Some (show_port port)"
    by (simp_all add: child_env_def master_command_def)
  have wvars: "child_env parent (worker_command bin host port bh wport name) ''MASTER_HOST'' = Some host"
    "child_env parent (worker_command bin host port bh wport name) ''MASTER_PORT'' = Some (show_port port)"
    "child_env parent (worker_command bin host port bh wport name) ''WORKER_BIND_HOST'' = Some bh"
    "child_env parent (worker_command bin host port bh wport name) ''WORKER_ADVERTISE_HOST'' = Some ''127.0.0.1''"
    "child_env parent (worker_command bin host port bh wport name) ''WORKER_BASE_PORT'' = Some (show_port wport)"
    by (simp_all add: child_env_def worker_command_def)
  have "master_addr mcfg = show_octets os @ '':'' @ show_port port"
    using from_env_addresses(1,2)[OF m(1)] mvars assms(5) by (simp add: master_addr_def)
  then have master: "run_child cli M E parent (master_command bin host port) s =
      (Ok (Master_Node (master_new E mcfg db) (register_routes ''/api/v1'')),
       [Watchdog (watchdog_period (overflow_panics M) mcfg)] @ [Bound_Master (SocketV4 os port)],
       snd (state_store_new (open_db M) (result_dir mcfg) (snd (create_dir_all (logs_dir mcfg) s))))"
    using m parse_socket_show[OF assms(3,4)] assms(1)
    by (simp add: run_child_def master_args engine_main_def init_tracing_eq logs state_store_new_def master_start_def start_http_server_def Let_def)
  note cfg = from_env_addresses[OF w]
  have wk: "w_id ?w = fresh_id M2" "register_url ?w = harness_base host port @ ''/api/v1/register''"
    "w_advertise_addr ?w = ''127.0.0.1:'' @ show_port (choose_available_port (free_port M2) wport)"
    "w_listen_addr ?w = bh @ '':'' @ show_port (choose_available_port (free_port M2) wport)"
    using cfg wvars
    by (simp_all add: worker_new_def register_url_def harness_base_def master_addr_def Let_def split: prod.splits)
  have "run_child cli M2 E2 parent (worker_command bin host port bh wport name) s' =
      (fst (worker_start M2 ?w), snd (worker_start M2 ?w),
       snd (worker_new (uuids E2) (free_port M2) (fresh_id M2) wcfg None None (snd (create_dir_all (logs_dir wcfg) s'))))"
    using w assms(2) by (simp add: run_child_def worker_args engine_main_def init_tracing_eq logs Let_def split: prod.splits)
  moreover obtain es' where "snd (worker_start M2 ?w) =
      Posted_Registration (register_url ?w) (register_payload (now_time M2) ?w) # es'"
    "\<forall>nd2. fst (worker_start M2 ?w) = Ok nd2 \<longrightarrow> Bound_Worker (w_listen_addr ?w) \<in> set es'"
    using worker_start_events[of M2 ?w] by blast
  ultimately show ?thesis
    using master wk by (auto simp: register_payload_def)
qed

lemma env_num_port: "env key = Some (show_port p) \<Longrightarrow> env_num 16 env key d = Ok (unat p)"
  using unsigned_less[of p, where ?'a = nat] by (simp add: show_port_def)

lemma master_child_config: "\<exists>cfg. from_env checks (child_env Map.empty (master_command bin host port)) = Ok cfg"
proof -
  let ?env = "child_env Map.empty (master_command bin host port)"
  have "digit_char 9 = CHR ''9''" "digit_char 1 = CHR ''1''" "digit_char 0 = CHR ''0''" by code_simp+
  then have "show_nat 9100 = ''9100''" by (simp add: show_nat.simps)
  then have num: "env_num 16 ?env ''WORKER_BASE_PORT'' 9100 = Ok 9100"
    by (intro env_num_show) (simp_all add: child_env_def master_command_def)
  have port: "env_num 16 ?env ''MASTER_PORT'' 8080 = Ok (unat port)"
    by (rule env_num_port) (simp add: child_env_def master_command_def)
  show ?thesis
    unfolding from_env_def num port by (simp add: child_env_def master_command_def usize_mul_def env_str_def)
qed

lemma worker_child_config: "\<exists>cfg. from_env checks (child_env Map.empty (worker_command bin mhost mport bh wport name)) = Ok cfg"
proof -
  let ?env = "child_env Map.empty (worker_command bin mhost mport bh wport name)"
  have port: "env_num 16 ?env ''MASTER_PORT'' 8080 = Ok (unat mport)" "env_num 16 ?env ''WORKER_BASE_PORT'' 9100 = Ok (unat wport)"
    by (rule env_num_port, simp add: child_env_def worker_command_def)+
  show ?thesis
    unfolding from_env_def port by (simp add: child_env_def worker_command_def usize_mul_def env_str_def)
qed

theorem spawned_nodes_meet_witness:
  "\<exists>cli nd es s1. run_child cli example_machine_node example_env Map.empty
      (master_command ''/bin'' (show_octets [127, 0, 0, 1]) 8082) example_fs =
    (Ok nd, es @ [Bound_Master (SocketV4 [127, 0, 0, 1] 8082)], s1)"
proof -
  let ?cli = "\<lambda>args. if args = [''master''] then Some Cmd_Master else if args = [''worker''] then Some (Cmd_Worker None None) else None"
  let ?host = "show_octets [127, 0, 0, 1]" and ?M = example_machine_node
  obtain cfg where m: "from_env (overflow_panics ?M) (child_env Map.empty (master_command ''/bin'' ?host 8082)) = Ok cfg"
    using master_child_config by blast
  obtain wcfg where w: "from_env (overflow_panics ?M)
      (child_env Map.empty (worker_command ''/bin'' ?host 8082 ''127.0.0.1'' 9400 None)) = Ok wcfg"
    using worker_child_config by blast
  show ?thesis
    using spawned_nodes_meet[of ?cli "[127, 0, 0, 1]" ?host, OF _ _ _ _ refl m _ _ _ _ w, of empty_store example_env example_fs]
    by (intro exI[of _ ?cli]) (auto simp: example_machine_node_def logs_open_def)
qed

text \<open>
  The jobs of the benchmarks and of the fault tests are accepted: the master reads them as the graphs that are
  meant, and they are valid.
\<close>

theorem benchmark_jobs_valid:
  "(\<exists>d. dag_of (dag_wc uri) = Some d \<and> validate d = Ok () \<and> dag_partitions d = 4 \<and>
      map node_operator (dag_nodes d) = [OT_Read uri ''json'', OT_Map ''identity'']) \<and>
   (\<exists>d. dag_of (dag_join left right) = Some d \<and> validate d = Ok () \<and>
      map node_operator (dag_nodes d) = [OT_Read left ''json'', OT_Read right ''json'', OT_Join ''Product'' Inner])"
  by (simp add: dag_wc_def dag_join_def read_node_def edge_value_def json_object_def obj_insert_all_def
      dag_of_def node_of_def edge_of_def operator_of_def one_field_def data_of_def unit_of_def join_type_of_def
      wire_simps uint_wire.get_put validate_def incoming_count_def)

text \<open>
  The program that is started when there is no debug build: the fallback replaces the name of the file only,
  so it looks below the directory of the debug build, where no release build is put.
\<close>

theorem binary_fallback:
  assumes "current_dir L = Ok dir" "dir \<noteq> []" "last dir \<noteq> slash" "slash \<notin> set name" "name \<notin> {[], ''.'', ''..''}"
    and "\<not> path_exists L (dir @ ''/target/debug/'' @ name)"
  shows "binary_path L name = Ok (dir @ ''/target/debug/release/'' @ name)"
proof -
  let ?d = "dir @ ''/target/debug''"
  have join: "path_join (path_join (path_join dir ''target'') ''debug'') name = ?d @ slash # name"
    using assms(2-5) by (cases name) (auto simp: path_join_def slash_def)
  have "split_by (\<lambda>c. c = slash) (?d @ slash # name) = split_by (\<lambda>c. c = slash) ?d @ [name]"
    using assms(4) by (intro split_by_end) auto
  then have "path_file_name (?d @ slash # name) = Some name"
    using assms(5) by (simp add: path_file_name_def path_components_def)
  moreover have "path_parent (?d @ slash # name) = Some ?d"
  proof -
    have "dropWhile (\<lambda>c. c \<noteq> slash) (rev name @ slash # rev ?d) = slash # rev ?d"
      using assms(4) by (subst dropWhile_append2) auto
    then show ?thesis by (simp add: path_parent_def Let_def)
  qed
  moreover have "path_join (path_join ?d ''release'') name = dir @ ''/target/debug/release/'' @ name"
    using assms(4,5) by (cases name) (auto simp: path_join_def slash_def)
  ultimately show ?thesis
    using assms(1,6) by (simp add: binary_path_def join with_file_name_def slash_def Let_def)
qed
end
