(* ===== verification/In_Memory.thy ===== *)
theory In_Memory
  imports Executor
begin

text \<open>
  Work in memory. A partition that fits its limit never meets the file system: filling it,
  running an operator on it and emptying it leave every file alone, so that faults of the file
  system do not matter either (\<open>src/src/worker/partition.rs\<close>, \<open>src/src/worker/ops/\<close>).

  Two contracts say this of an operator. \<open>quiet_op\<close>: if neither its inputs nor its outputs have
  spilled, the files are as before, whatever the records are. \<open>memory_op\<close>: on partitions in memory
  whose outputs fit their limits it succeeds, and its outputs are the records its meaning
  prescribes, in memory. Every operator meets both. From the first it follows that the trace of
  a pipeline (\<open>src/src/worker/executor.rs\<close>) shows every use of the disk.
\<close>

abbreviation in_core :: "partition_data \<Rightarrow> bool" where
  "in_core p \<equiv> \<not> has_spill (cache p)"

section \<open>The cache\<close>

text \<open>A cache that has spilled keeps its spill file until it is drained.\<close>

lemma spill_quiet:
  assumes "cache_spill_to_disk S c s = (Ok c', s')" "\<not> has_spill c'"
  shows "s' = s \<and> c' = c"
  using assms by (auto simp: cache_spill_to_disk_def has_spill_def io_return_def elim!: io_bind_OkE
      split: if_splits)

lemma push_quiet:
  assumes "push S v c s = (Ok c', s')" "\<not> has_spill c'"
  shows "s' = s \<and> \<not> has_spill c"
  using assms
  by (auto simp: push_def maybe_spill_def io_return_def io_lift_def dest!: spill_quiet elim!: io_bind_OkE
      split: if_splits) (auto simp: has_spill_def)

lemma push_batch_quiet:
  "push_batch S vs c s = (Ok c', s') \<Longrightarrow> \<not> has_spill c' \<Longrightarrow> s' = s \<and> \<not> has_spill c"
proof (induction vs arbitrary: c s)
  case Nil
  then show ?case by (simp add: io_return_def)
next
  case (Cons v vs)
  then show ?case by (auto elim!: io_bind_OkE dest!: push_quiet)
qed

lemma from_records_quiet: "from_records S pid limit path rs s = (Ok p, s') \<Longrightarrow> in_core p \<Longrightarrow> s' = s"
  by (auto simp: from_records_def io_return_def dest!: push_batch_quiet elim!: io_bind_OkE)

text \<open>Emptying a partition in memory is a function of the partition alone.\<close>

lemma into_parts_core:
  "in_core p \<Longrightarrow> into_parts S p s = (Ok (part_limit p, part_path p, in_memory (cache p)), s)"
  by (simp add: into_parts_def drain_all_def drain_spilled_def has_spill_def io_bind_def io_return_def Let_def)

lemma mapM_quiet:
  assumes "io_mapM f xs s = (Ok ys, s')" "list_all P ys"
    and "\<And>x s y s'. x \<in> set xs \<Longrightarrow> f x s = (Ok y, s') \<Longrightarrow> P y \<Longrightarrow> s' = s"
  shows "s' = s"
  using assms
proof (induction xs arbitrary: s ys)
  case Nil
  then show ?case by (simp add: io_return_def)
next
  case (Cons x xs)
  from Cons.prems(1) obtain y s1 ys' where
    run: "f x s = (Ok y, s1)" "io_mapM f xs s1 = (Ok ys', s')" "ys = y # ys'"
    by (auto simp: io_return_def elim!: io_bind_OkE)
  with Cons.prems(2,3) have "s1 = s" by auto
  with Cons.IH[OF run(2)] Cons.prems(2,3) run(3) show ?case by auto
qed

lemma parts_core:
  "list_all in_core ps \<Longrightarrow>
   io_mapM (into_parts S) ps s = (Ok (map (\<lambda>p. (part_limit p, part_path p, in_memory (cache p))) ps), s)"
  by (induction ps) (simp_all add: into_parts_core io_bind_def io_return_def)

lemma gather_core:
  "list_all in_core ps \<Longrightarrow> gather S ps s = (Ok (concat (map (in_memory \<circ> cache) ps)), s)"
  by (simp add: gather_def parts_core io_bind_def io_return_def comp_def)

lemmas core_eqs = into_parts_core gather_core io_bind_def io_return_def io_lift_def

section \<open>Operators that do not touch the disk\<close>

locale quiet_op =
  fixes execute :: "partition_data list \<Rightarrow> partition_data list fsio"
  assumes quiet_law: "execute ps s = (Ok ps', s') \<Longrightarrow> list_all in_core ps \<Longrightarrow> list_all in_core ps' \<Longrightarrow> s' = s"

sublocale partitionwise_op \<subseteq> quiet_op execute
proof
  show "s' = s" if run: "execute ps s = (Ok ps', s')" and core: "list_all in_core ps" "list_all in_core ps'"
    for ps s ps' s'
  proof -
    from run obtain k where "io_mapM (process S (transform k)) ps s = (Ok ps', s')"
      by (auto simp: execute_eq io_lift_def elim!: io_bind_OkE)
    then show ?thesis
      by (rule mapM_quiet[OF _ core(2)])
        (use core(1) in \<open>auto simp: process_def core_eqs list_all_iff dest: from_records_quiet split: res.splits\<close>)
  qed
qed

lemma read_quiet:
  assumes "read_execute S op ps s = (Ok ps', s')" "list_all in_core ps'"
  shows "s' = s"
proof -
  have "s1 = s" if "io_context m (read_file p) s = (r, s1)" for m p r s1
    using that by (auto simp: io_context_def dest: read_file_state split: prod.splits res.splits)
  with assms show ?thesis
    by (auto simp: read_execute_def io_return_def io_lift_def dest: from_records_quiet elim!: io_bind_OkE)
qed

lemma reduce_quiet:
  assumes "reduce_execute S op ps s = (Ok ps', s')" "list_all in_core ps" "list_all in_core ps'"
  shows "s' = s"
  using assms by (auto simp: reduce_execute_def core_eqs dest: from_records_quiet
      split: list.splits res.splits prod.splits)

lemma group_partitions_core:
  "list_all in_core ps \<Longrightarrow>
   group_partitions S key g ps s = (group_records key g (concat (map (in_memory \<circ> cache) ps)), s)"
proof (induction ps arbitrary: g)
  case Nil
  then show ?case by (simp add: io_return_def)
next
  case (Cons p ps)
  have "keyed key (rs @ rs') \<longleftrightarrow> keyed key rs \<and> keyed key rs'" for rs rs' by (simp add: keyed_def)
  with Cons show ?case
    by (simp add: core_eqs group_records_eq merge_groups_append)
qed

lemma reduce_by_key_quiet:
  assumes "reduce_by_key_execute it S op ps s = (Ok ps', s')" "list_all in_core ps" "list_all in_core ps'"
  shows "s' = s"
proof (cases ps)
  case (Cons p qs)
  with assms show ?thesis
    by (auto simp: reduce_by_key_execute_def core_eqs group_partitions_core[of "p # qs"] dest: from_records_quiet
        simp del: group_partitions.simps split: res.splits prod.splits)
qed (use assms in \<open>auto simp: reduce_by_key_execute_def io_return_def\<close>)

lemma join_quiet:
  assumes "join_execute S op ps s = (Ok ps', s')" "list_all in_core ps" "list_all in_core ps'"
  shows "s' = s"
  using assms by (auto simp: join_execute_def core_eqs dest: from_records_quiet split: list.splits res.splits prod.splits)

lemma shuffle_quiet:
  assumes "shuffle_execute hash tmp S op ps s = (Ok ps', s')" "list_all in_core ps" "list_all in_core ps'"
  shows "s' = s"
proof -
  from assms(1,2) obtain bs where
    "io_mapM (\<lambda>(idx, rs). from_records S idx (shuffle_limit ps) (bucket_path (spill_base tmp ps) idx) rs) bs s =
       (Ok ps', s')"
    by (auto simp: shuffle_execute_def core_eqs Let_def split: if_splits)
  then show ?thesis by (rule mapM_quiet[OF _ assms(3)]) (auto dest: from_records_quiet)
qed

interpretation quiet_operators: quiet_op "operator_execute rt it op" for rt it op
proof
  show "s' = s" if "operator_execute rt it op ps s = (Ok ps', s')" "list_all in_core ps" "list_all in_core ps'"
    for ps s ps' s'
    using that by (cases op) (auto dest: read_quiet reduce_quiet reduce_by_key_quiet join_quiet shuffle_quiet
        map_op.quiet_law filter_op.quiet_law flat_map_op.quiet_law)
qed

section \<open>Pipelines\<close>

definition shows_no_spill :: "stage_trace list \<Rightarrow> bool" where
  "shows_no_spill stages \<longleftrightarrow>
     list_all (\<lambda>st. list_all (\<lambda>i. pi_spill_path i = None) (st_output_partitions st)) stages"

definition core_results :: "op_results \<Rightarrow> bool" where
  "core_results results \<longleftrightarrow> (\<forall>ps \<in> ran results. list_all in_core ps)"

lemma infos_in_core: "list_all (\<lambda>i. pi_spill_path i = None) (map partition_info_of ps) \<longleftrightarrow> list_all in_core ps"
  by (auto simp: list_all_iff partition_info_of_def split: if_splits)

lemma core_results_remove: "core_results results \<Longrightarrow> core_results (results(p := None))"
  by (auto simp: core_results_def ran_def)

lemma take_parents_core:
  "take_parents parents results = (ps, results') \<Longrightarrow> core_results results \<Longrightarrow> list_all in_core ps \<and> core_results results'"
proof (induction parents arbitrary: ps results)
  case (Cons p parents)
  show ?case
  proof (cases "results p")
    case (Some parts)
    with Cons.prems(2) have "list_all in_core parts" by (auto simp: core_results_def ranI)
    moreover obtain rest where rest: "take_parents parents (results(p := None)) = (rest, results')" "ps = parts @ rest"
      using Cons.prems(1) Some by (auto split: prod.splits)
    ultimately show ?thesis
      using Cons.IH[OF rest(1) core_results_remove[OF Cons.prems(2)]] by auto
  qed (use Cons in auto)
qed simp

lemma op_inputs_core:
  assumes "op_inputs pid limit spill edges results = (ps, results')" "core_results results"
  shows "list_all in_core ps \<and> core_results results'"
  using assms take_parents_core
  by (auto simp: op_inputs_def Let_def partition_empty_def cache_new_def has_spill_def split: if_splits)

lemma run_ops_stages:
  "run_ops rt orders pid limit spill ids edges idx results stages ops s = (Ok (results', stages'), s') \<Longrightarrow>
   \<exists>more. stages' = stages @ more"
proof (induction ops arbitrary: idx results stages s)
  case Nil
  then show ?case by (simp add: io_return_def)
next
  case (Cons op ops)
  then show ?case by (fastforce elim!: io_bind_OkE split: prod.splits)
qed

lemma run_ops_quiet:
  "run_ops rt orders pid limit spill ids edges idx results stages ops s = (Ok (results', stages'), s') \<Longrightarrow>
   core_results results \<Longrightarrow> shows_no_spill stages' \<Longrightarrow> s' = s"
proof (induction ops arbitrary: idx results stages s)
  case Nil
  then show ?case by (simp add: io_return_def)
next
  case (Cons op ops)
  obtain ps rest where inp: "op_inputs pid limit spill (get_or [] edges idx) results = (ps, rest)" by fastforce
  let ?id = "op_id_at ids idx"
  from Cons.prems(1) inp obtain parts s1 where
    one: "operator_execute rt (orders idx) op ps s = (Ok parts, s1)" and
    more: "run_ops rt orders pid limit spill ids edges (Suc idx) (rest(?id \<mapsto> parts))
      (stages @ [\<lparr>st_stage_id = idx, st_operator_id = ?id, st_incoming_edges = get_or [] edges idx,
                  st_output_partitions = map partition_info_of parts\<rparr>]) ops s1 = (Ok (results', stages'), s')"
    by (auto elim!: io_bind_OkE)
  from run_ops_stages[OF more] Cons.prems(3) have out: "list_all in_core parts"
    by (auto simp: shows_no_spill_def infos_in_core)
  from op_inputs_core[OF inp Cons.prems(2)] have ins: "list_all in_core ps" "core_results rest" by auto
  then have "core_results (rest(?id \<mapsto> parts))" using out by (auto simp: core_results_def ran_def)
  from Cons.IH[OF more this Cons.prems(3)] quiet_operators.quiet_law[OF one ins(1) out] show ?case by simp
qed

section \<open>Operators that succeed in memory\<close>

text \<open>The partition in memory that holds given records; they fit if they can be printed within the limit.\<close>

definition core_part :: "serde_api \<Rightarrow> nat \<Rightarrow> nat \<Rightarrow> path \<Rightarrow> json list \<Rightarrow> partition_data" where
  "core_part S pid limit path rs = \<lparr>partition_id = pid, cache = (cache_new limit path)
     \<lparr>in_memory := rs, in_memory_bytes := size_of S rs, record_count := length rs\<rparr>\<rparr>"

definition fits :: "serde_api \<Rightarrow> nat \<Rightarrow> json list \<Rightarrow> bool" where
  "fits S limit rs \<longleftrightarrow> list_all (\<lambda>v. \<not> isl (to_vec S v)) rs \<and> size_of S rs \<le> limit"

definition core_holds :: "partition_data list \<Rightarrow> json list list \<Rightarrow> bool" where
  "core_holds ps rss \<longleftrightarrow> list_all in_core ps \<and> map (in_memory \<circ> cache) ps = rss"

lemma core_part_simps [simp]:
  "in_core (core_part S pid limit path rs)" "in_memory (cache (core_part S pid limit path rs)) = rs"
  "partition_id (core_part S pid limit path rs) = pid" "part_limit (core_part S pid limit path rs) = limit"
  "part_path (core_part S pid limit path rs) = path"
  by (simp_all add: core_part_def cache_new_def has_spill_def)

lemma push_batch_fits:
  "fits S limit (rs @ vs) \<Longrightarrow>
   push_batch S vs (cache (core_part S pid limit path rs)) s = (Ok (cache (core_part S pid limit path (rs @ vs))), s)"
proof (induction vs arbitrary: rs)
  case Nil
  then show ?case by (simp add: io_return_def)
next
  case (Cons v vs)
  from Cons.prems have v: "to_vec S v = Inr (text_of S v)" "size_of S (rs @ [v]) \<le> limit"
    by (auto simp: fits_def text_of_def split: sum.splits)
  then have "push S v (cache (core_part S pid limit path rs)) s = (Ok (cache (core_part S pid limit path (rs @ [v]))), s)"
    by (simp add: push_def estimate_size_def serialize_def maybe_spill_def total_size_bytes_def core_part_def
        cache_new_def io_bind_def io_lift_def io_return_def)
  with Cons show ?case by (simp add: io_bind_def)
qed

lemma from_records_fits:
  assumes "fits S limit rs"
  shows "from_records S pid limit path rs s = (Ok (core_part S pid limit path rs), s)"
  using push_batch_fits[of S limit "[]" rs pid path s] assms
  by (simp add: from_records_def core_part_def cache_new_def io_bind_def io_return_def)

lemma mapM_fits:
  assumes "list_all2 (\<lambda>x rs. f x = (\<lambda>s. (Ok (g x rs), s)) \<and> in_core (g x rs) \<and> in_memory (cache (g x rs)) = rs) xs rss"
  shows "\<exists>ps. io_mapM f xs s = (Ok ps, s) \<and> core_holds ps rss"
  using assms
  by (induction rule: list_all2_induct) (auto simp: core_holds_def io_bind_def io_return_def)

locale memory_op =
  fixes S :: serde_api
    and execute :: "partition_data list \<Rightarrow> partition_data list fsio"
    and meaning :: "json list list \<Rightarrow> (error, json list list) res"
    and limits :: "partition_data list \<Rightarrow> nat list"
    and there :: "fs \<Rightarrow> bool"
  assumes memory_law: "core_holds ps rss \<Longrightarrow> there s \<Longrightarrow> meaning rss = Ok outs \<Longrightarrow>
    list_all2 (fits S) (limits ps) outs \<Longrightarrow> \<exists>ps'. execute ps s = (Ok ps', s) \<and> core_holds ps' outs"

sublocale partitionwise_op \<subseteq> memory_op S execute "rewrite_all prepare transform" "map part_limit" "\<lambda>_. True"
proof
  show "\<exists>ps'. execute ps s = (Ok ps', s) \<and> core_holds ps' outs"
    if held: "core_holds ps rss" and outs: "rewrite_all prepare transform rss = Ok outs"
      and fit: "list_all2 (fits S) (map part_limit ps) outs" for ps rss s outs
  proof -
    from outs obtain k where k: "prepare = Ok k" "res_mapM (transform k) rss = Ok outs"
      by (auto simp: rewrite_all_def elim!: res_bind_OkE)
    have "list_all2 (\<lambda>p rs. process S (transform k) p = (\<lambda>s. (Ok (core_part S (partition_id p) (part_limit p) (part_path p) rs), s))) ps outs"
      using held k(2) fit unfolding core_holds_def
    proof (induction ps arbitrary: rss outs)
      case (Cons p ps)
      then show ?case
        by (auto simp: process_def core_eqs from_records_fits list_all2_Cons1 fun_eq_iff elim!: res_bind_OkE)
    qed simp
    then have "list_all2 (\<lambda>p rs. process S (transform k) p = (\<lambda>s. (Ok (core_part S (partition_id p) (part_limit p) (part_path p) rs), s)) \<and>
        in_core (core_part S (partition_id p) (part_limit p) (part_path p) rs) \<and>
        in_memory (cache (core_part S (partition_id p) (part_limit p) (part_path p) rs)) = rs) ps outs"
      by (rule list_all2_mono) simp
    from mapM_fits[OF this] show ?thesis by (simp add: execute_eq k(1) core_eqs)
  qed
qed

lemma core_hold_single: "core_holds [core_part S pid limit path rs] [rs]"
  by (simp add: core_holds_def)

interpretation memory_read: memory_op S "read_execute S op"
  "\<lambda>_. res_bind (read_text S (read_format op) (read_total_partitions op) (read_partition_id op) content)
     (\<lambda>rs. Ok [rs])"
  "\<lambda>_. [read_cache_limit_bytes op]"
  "\<lambda>s. faults s (read_path op) = None \<and> files s (read_path op) = Some content" for S op content
  by unfold_locales
    (auto simp: read_execute_def io_context_def read_file_def guarded_def from_records_fits core_hold_single core_eqs
      elim!: res_bind_OkE)

interpretation memory_reduce: memory_op S "reduce_execute S op" "reduce_meaning op"
  "\<lambda>ps. map part_limit (take 1 ps)" "\<lambda>_. True" for S op
  by unfold_locales
    (auto simp: reduce_execute_def reduce_meaning_def apply_reducer_total from_records_fits core_hold_single core_holds_def core_eqs
      split: list.splits elim!: res_bind_OkE)

interpretation memory_reduce_by_key: memory_op S "reduce_by_key_execute it S op" "reduce_by_key_meaning it op"
  "\<lambda>ps. map part_limit (take 1 ps)" "\<lambda>_. True" for S op it
  by unfold_locales
    (auto simp: reduce_by_key_execute_def reduce_by_key_meaning_def from_records_fits core_hold_single core_holds_def core_eqs
      group_partitions_core simp del: group_partitions.simps
      split: list.splits res.splits elim!: res_bind_OkE)

interpretation memory_join: memory_op S "join_execute S op" "join_meaning S op" "\<lambda>ps. [part_limit (hd ps)]"
  "\<lambda>_. True" for S op
  by unfold_locales
    (auto simp: join_execute_def from_records_fits core_hold_single core_holds_def core_eqs
      split: list.splits res.splits elim!: res_bind_OkE)

interpretation memory_shuffle: memory_op S "shuffle_execute hash tmp S op"
  "\<lambda>rss. if sh_total_partitions op = 0 then Err (ShuffleE InvalidPartitions)
     else Ok (shuffled hash S op (concat rss))"
  "\<lambda>ps. replicate (sh_total_partitions op) (shuffle_limit ps)" "\<lambda>_. True" for hash tmp S op
proof
  show "\<exists>ps'. shuffle_execute hash tmp S op ps s = (Ok ps', s) \<and> core_holds ps' outs"
    if held: "core_holds ps rss" and outs: "(if sh_total_partitions op = 0 then Err (ShuffleE InvalidPartitions)
        else Ok (shuffled hash S op (concat rss))) = Ok outs"
      and fit: "list_all2 (fits S) (replicate (sh_total_partitions op) (shuffle_limit ps)) outs" for ps rss s outs
  proof -
    from outs have n: "0 < sh_total_partitions op" "outs = shuffled hash S op (concat rss)"
      by (auto split: if_splits)
    let ?path = "bucket_path (spill_base tmp ps)"
    have "list_all2 (\<lambda>(idx, rs) rs'. rs' = rs \<and> fits S (shuffle_limit ps) rs) (enumerate 0 outs) outs"
      using fit by (auto simp: list_all2_conv_all_nth nth_enumerate_eq)
    then have "list_all2 (\<lambda>x rs. (\<lambda>(idx, rs). from_records S idx (shuffle_limit ps) (?path idx) rs) x =
        (\<lambda>s. (Ok (core_part S (fst x) (shuffle_limit ps) (?path (fst x)) rs), s)) \<and>
        in_core (core_part S (fst x) (shuffle_limit ps) (?path (fst x)) rs) \<and>
        in_memory (cache (core_part S (fst x) (shuffle_limit ps) (?path (fst x)) rs)) = rs) (enumerate 0 outs) outs"
      by (rule list_all2_mono) (auto simp: from_records_fits fun_eq_iff)
    from mapM_fits[OF this] held n show ?thesis
      by (simp add: shuffle_execute_def core_holds_def gather_core fold_add_record io_bind_def Let_def)
  qed
qed

text \<open>All operators at once: the limits of their outputs, and what they need of the files.\<close>

fun operator_limits :: "operator \<Rightarrow> partition_data list \<Rightarrow> nat list" where
  "operator_limits (ReadOp op) ps = [read_cache_limit_bytes op]"
| "operator_limits (ReduceOp op) ps = map part_limit (take 1 ps)"
| "operator_limits (ReduceByKeyOp op) ps = map part_limit (take 1 ps)"
| "operator_limits (JoinOp op) ps = [part_limit (hd ps)]"
| "operator_limits (ShuffleOp op) ps = replicate (sh_total_partitions op) (shuffle_limit ps)"
| "operator_limits _ ps = map part_limit ps"

fun input_there :: "(path \<Rightarrow> string) \<Rightarrow> operator \<Rightarrow> fs \<Rightarrow> bool" where
  "input_there src (ReadOp op) s \<longleftrightarrow>
     faults s (read_path op) = None \<and> files s (read_path op) = Some (src (read_path op))"
| "input_there src _ s \<longleftrightarrow> True"

interpretation memory_operators: memory_op "serde rt" "operator_execute rt it op"
  "operator_meaning rt it src op" "operator_limits op" "input_there src op" for rt it src op
proof
  show "\<exists>ps'. operator_execute rt it op ps s = (Ok ps', s) \<and> core_holds ps' outs"
    if "core_holds ps rss" "input_there src op s" "operator_meaning rt it src op rss = Ok outs"
      "list_all2 (fits (serde rt)) (operator_limits op ps) outs" for ps rss s outs
    using that
  proof (cases op)
    case (ReadOp r)
    with that memory_read.memory_law[where op = r and S = "serde rt" and content = "src (read_path r)" and s = s and ps = ps] show ?thesis by simp
  qed (auto intro: map_op.memory_law filter_op.memory_law flat_map_op.memory_law memory_reduce.memory_law
      memory_reduce_by_key.memory_law memory_join.memory_law memory_shuffle.memory_law)
qed

section \<open>Properties\<close>

text \<open>
  Claim C12. The trace of a pipeline shows every use of the disk. Whatever operators a task runs, on
  whatever records and in whatever file system: if no partition of any stage of the trace names
  a spill file, the pipeline has left every file as it was.
\<close>

theorem trace_shows_spills:
  assumes "pipeline rt orders U job pid limit spill ids edges ops s = (Ok (parts, trace), s')"
    and "shows_no_spill (et_stages trace)"
  shows "s' = s"
  using assms run_ops_quiet[of rt orders pid limit spill ids edges 0 Map.empty "[]" ops s]
  by (auto simp: pipeline_def io_return_def io_lift_def core_results_def elim!: io_bind_OkE split: option.splits)

text \<open>One line of input, read within the limit, where no file can be written.\<close>

definition read_only_fs :: fs where
  "read_only_fs = \<lparr>files = [''/in'' \<mapsto> text_a @ [newline]],
     faults = (\<lambda>p. if p = ''/in'' then None else Some ''Read-only file system (os error 30)'')\<rparr>"

definition read_one :: operator where
  "read_one = ReadOp \<lparr>read_path = ''/in'', read_format = ''jsonl'', read_partition_id = 0, read_total_partitions = 1,
     read_cache_limit_bytes = 20, read_spill_path = ''/d/s''\<rparr>"

lemma read_one_run:
  "pipeline example_runtime orders U job 0 20 ''/d/s'' [''r''] [[]] [read_one] read_only_fs =
     (Ok ([core_part example_serde 0 20 ''/d/s'' [rec_a]],
        \<lparr>et_job_id = uuid_to_string U job, et_stages = [\<lparr>st_stage_id = 0, st_operator_id = ''r'',
           st_incoming_edges = [], st_output_partitions =
             [\<lparr>pi_partition_id = 0, pi_record_count = 1, pi_spill_path = None\<rparr>]\<rparr>]\<rparr>), read_only_fs)"
proof -
  have vs: "list_all (reads_back example_serde) [rec_a]" by simp
  then have "lines (text_a @ [newline]) = [text_a]" using lines_encode[OF vs] by simp
  moreover have "json_line example_serde k text_a = Ok [rec_a]" for k
    using reads_backD[of example_serde rec_a] by (simp add: json_line_def) (simp add: rec_a_def)
  ultimately have "read_text example_serde ''jsonl'' 1 0 (text_a @ [newline]) = Ok [rec_a]"
    by (simp add: read_text_def read_jsonl_def)
  moreover have "fits example_serde 20 [rec_a]"
    using reads_backD(1)[of example_serde rec_a] by (simp add: fits_def)
  ultimately show ?thesis
    by (simp add: pipeline_def op_inputs_def get_or_def op_id_at_def read_one_def example_runtime_def read_execute_def
        io_context_def read_file_def guarded_def read_only_fs_def from_records_fits core_eqs partition_info_of_def
        core_part_def cache_new_def has_spill_def)
qed

theorem trace_shows_spills_witness:
  "\<exists>parts trace s'. pipeline example_runtime (\<lambda>_. key_order) example_uuid_api 7 0 20 ''/d/s'' [''r''] [[]] [read_one]
      read_only_fs = (Ok (parts, trace), s') \<and>
    map (in_memory \<circ> cache) parts = [[rec_a]] \<and> s' = read_only_fs"
  using trace_shows_spills[OF read_one_run[where orders = "\<lambda>_. key_order" and U = example_uuid_api and job = 7]]
    read_one_run[where orders = "\<lambda>_. key_order" and U = example_uuid_api and job = 7]
  by (auto simp: shows_no_spill_def)

end
