(* ===== verification/Unit_Tests.thy ===== *)
theory Unit_Tests
  imports In_Memory Wire Http
begin

text \<open>
  The unit tests of the engine, as programs of the model: those of the operators
  (\<open>src/src/worker/ops/tests.rs\<close>, and the two of \<open>src/src/worker/ops/shuffle.rs\<close>) and those that
  the other modules carry at their end. A test runs the operations of the model on the test's own
  data; a failed assertion and an \<open>unwrap\<close> or \<open>expect\<close> of an error are a panic, so a test passes
  if it ends with \<open>Ok ()\<close>.

  What a test takes from its surroundings is the record \<open>test_env\<close>: the libraries, the environment
  variables, and the random identifiers in the names of temporary files. That the tests of the
  operators pass, on every file system, follows from the contract \<open>memory_op\<close>: with a limit of
  \<open>usize::MAX\<close> nothing is ever spilled.
\<close>

section \<open>The harness\<close>

record test_env =
  te_runtime :: runtime
  te_uuids :: uuid_api
  te_fresh :: "nat \<Rightarrow> uuid"
  te_groups :: group_order
  te_counts :: "counts \<Rightarrow> (string \<times> nat) list"
  te_environment :: environment
  te_prefix :: string

definition expect :: "'a fsio \<Rightarrow> 'a fsio" where
  "expect m s = (case m s of (Ok x, s') \<Rightarrow> (Ok x, s') | (_, s') \<Rightarrow> (Panic, s'))"

definition expect_err :: "'a fsio \<Rightarrow> error fsio" where
  "expect_err m s = (case m s of (Err e, s') \<Rightarrow> (Ok e, s') | (_, s') \<Rightarrow> (Panic, s'))"

definition assert_true :: "bool \<Rightarrow> unit fsio" where
  "assert_true b = io_lift (if b then Ok () else Panic)"

definition passes :: "unit fsio \<Rightarrow> fs \<Rightarrow> bool" where
  "passes test s \<longleftrightarrow> fst (test s) = Ok ()"

definition usize_max :: nat where
  "usize_max = 2 ^ 64 - 1"

text \<open>\<open>recs[0]\<close> panics on an empty vector; \<open>value["k"]\<close> is null where there is no such field.\<close>

fun first_record :: "json list \<Rightarrow> json fsio" where
  "first_record [] = io_lift Panic"
| "first_record (r # rs) = io_return r"

fun json_index :: "json \<Rightarrow> string \<Rightarrow> json" where
  "json_index (JObject m) k = (case obj_get m k of Some v \<Rightarrow> v | None \<Rightarrow> JNull)"
| "json_index _ k = JNull"

fun contains :: "string \<Rightarrow> string \<Rightarrow> bool" where
  "contains [] pat \<longleftrightarrow> pat = []"
| "contains (c # cs) pat \<longleftrightarrow> take (length pat) (c # cs) = pat \<or> contains cs pat"

definition int_json :: "int \<Rightarrow> json" where
  "int_json i = JNumber (NInt i)"

definition float_json :: "int \<Rightarrow> json" where
  "float_json i = JNumber (NFloat (flt_of_int f64 i))"

text \<open>The helper \<open>partition\<close> of the tests, and what they do with it: make the inputs and execute.\<close>

definition test_path :: "test_env \<Rightarrow> nat \<Rightarrow> path" where
  "test_path E n = path_join (temp_dir (te_runtime E)) (te_prefix E @ uuid_to_string (te_uuids E) (te_fresh E n))"

definition test_partition :: "test_env \<Rightarrow> nat \<Rightarrow> json list \<Rightarrow> partition_data fsio" where
  "test_partition E n records =
     expect (from_records (serde (te_runtime E)) 0 usize_max (test_path E n) records)"

definition test_inputs :: "test_env \<Rightarrow> json list list \<Rightarrow> partition_data list fsio" where
  "test_inputs E rss = io_mapM (\<lambda>(n, rs). test_partition E n rs) (enumerate 0 rss)"

definition run_op :: "test_env \<Rightarrow> operator \<Rightarrow> json list list \<Rightarrow> partition_data list fsio" where
  "run_op E op rss =
     io_bind (test_inputs E rss) (\<lambda>ps. expect (operator_execute (te_runtime E) (te_groups E) op ps))"

definition first_records :: "test_env \<Rightarrow> partition_data list \<Rightarrow> json list fsio" where
  "first_records E out =
     (case out of
        [] \<Rightarrow> io_lift Panic
      | p # _ \<Rightarrow> io_bind (expect (into_parts (serde (te_runtime E)) p)) (\<lambda>(_, _, recs). io_return recs))"

definition all_records :: "test_env \<Rightarrow> partition_data list \<Rightarrow> json list list fsio" where
  "all_records E out =
     io_mapM (\<lambda>p. io_bind (expect (into_parts (serde (te_runtime E)) p)) (\<lambda>(_, _, recs). io_return recs)) out"

section \<open>Tests of flat map\<close>

definition flat_map_identity :: "test_env \<Rightarrow> unit fsio" where
  "flat_map_identity E =
     io_bind (run_op E (FlatMapOp \<lparr>flat_func = ''identity''\<rparr>) [[JObject [(''a'', int_json 1)]]]) (\<lambda>out.
     io_bind (first_records E out) (\<lambda>recs.
     io_bind (assert_true (length recs = 1)) (\<lambda>_.
     io_bind (first_record recs) (\<lambda>r.
       assert_true (json_eq (json_index r ''a'') (int_json 1))))))"

definition flat_map_split :: "test_env \<Rightarrow> unit fsio" where
  "flat_map_split E =
     io_bind (run_op E (FlatMapOp \<lparr>flat_func = ''split:tags''\<rparr>) [[JObject [(''tags'', JString ''a,b c'')]]]) (\<lambda>out.
     io_bind (first_records E out) (\<lambda>recs.
     io_bind (assert_true (length recs = 3)) (\<lambda>_.
     io_bind (assert_true (list_ex (\<lambda>r. json_eq (json_index r ''tags'') (JString ''a'')) recs)) (\<lambda>_.
     io_bind (assert_true (list_ex (\<lambda>r. json_eq (json_index r ''tags'') (JString ''b'')) recs)) (\<lambda>_.
       assert_true (list_ex (\<lambda>r. json_eq (json_index r ''tags'') (JString ''c'')) recs))))))"

definition flat_map_explode_array :: "test_env \<Rightarrow> unit fsio" where
  "flat_map_explode_array E =
     io_bind (run_op E (FlatMapOp \<lparr>flat_func = ''explode_array:vals''\<rparr>)
       [[JObject [(''vals'', JArray [int_json 1, int_json 2, int_json 3])]]]) (\<lambda>out.
     io_bind (first_records E out) (\<lambda>recs.
     io_bind (assert_true (length recs = 3)) (\<lambda>_.
       assert_true (list_ex (\<lambda>r. json_eq (json_index r ''vals'') (int_json 1)) recs))))"

definition flat_map_json_expand :: "test_env \<Rightarrow> unit fsio" where
  "flat_map_json_expand E =
     io_bind (run_op E (FlatMapOp \<lparr>flat_func = ''json_expand''\<rparr>)
       [[JObject [(''a'', int_json 1), (''b'', int_json 2)]]]) (\<lambda>out.
     io_bind (first_records E out) (\<lambda>recs.
     io_bind (assert_true (length recs = 2)) (\<lambda>_.
       assert_true (list_ex (\<lambda>r. value_get r ''a'' \<noteq> None) recs))))"

section \<open>Tests of reduction\<close>

definition reduce_sum :: "test_env \<Rightarrow> unit fsio" where
  "reduce_sum E =
     io_bind (run_op E (ReduceOp \<lparr>reduce_reducer = ''sum:value''\<rparr>)
       [[JObject [(''value'', int_json 2)], JObject [(''value'', int_json 3)]]]) (\<lambda>out.
     io_bind (first_records E out) (\<lambda>recs.
     io_bind (assert_true (length recs = 1)) (\<lambda>_.
     io_bind (first_record recs) (\<lambda>r.
       assert_true (json_eq (json_index r ''sum_value'') (float_json 5))))))"

definition reduce_count :: "test_env \<Rightarrow> unit fsio" where
  "reduce_count E =
     io_bind (run_op E (ReduceOp \<lparr>reduce_reducer = ''count''\<rparr>)
       [[JObject [(''v'', int_json 1)], JObject [(''v'', int_json 2)]]]) (\<lambda>out.
     io_bind (first_records E out) (\<lambda>recs.
     io_bind (first_record recs) (\<lambda>r.
       assert_true (json_eq (json_index r ''count'') (int_json 2)))))"

text \<open>\<open>recs.iter().find(...).unwrap()\<close>: the row of a key.\<close>

definition find_row :: "string \<Rightarrow> string \<Rightarrow> json list \<Rightarrow> json fsio" where
  "find_row key k recs =
     io_lift (case find (\<lambda>r. json_eq (json_index r key) (JString k)) recs of Some r \<Rightarrow> Ok r | None \<Rightarrow> Panic)"

definition kv :: "string \<Rightarrow> int \<Rightarrow> json" where
  "kv k v = JObject [(''k'', JString k), (''v'', int_json v)]"

definition reduce_by_key_sum :: "test_env \<Rightarrow> unit fsio" where
  "reduce_by_key_sum E =
     io_bind (run_op E (ReduceByKeyOp \<lparr>rbk_key = ''k'', rbk_reducer = ''sum:v''\<rparr>)
       [[kv ''a'' 1, kv ''a'' 2, kv ''b'' 3]]) (\<lambda>out.
     io_bind (first_records E out) (\<lambda>recs.
     io_bind (assert_true (length recs = 2)) (\<lambda>_.
     io_bind (find_row ''k'' ''a'' recs) (\<lambda>a.
     io_bind (assert_true (json_eq (json_index a ''sum_v'') (float_json 3))) (\<lambda>_.
     io_bind (find_row ''k'' ''b'' recs) (\<lambda>b.
       assert_true (json_eq (json_index b ''sum_v'') (float_json 3))))))))"

definition reduce_by_key_missing_key_errors :: "test_env \<Rightarrow> unit fsio" where
  "reduce_by_key_missing_key_errors E =
     io_bind (test_inputs E [[JObject [(''v'', int_json 1)]]]) (\<lambda>ps.
     io_bind (expect_err (operator_execute (te_runtime E) (te_groups E)
        (ReduceByKeyOp \<lparr>rbk_key = ''k'', rbk_reducer = ''sum:v''\<rparr>) ps)) (\<lambda>err.
       assert_true (contains (show_error err) ''missing key'')))"

section \<open>Tests of the shuffle\<close>

text \<open>
  The loop over the outputs: each partition's number of records is written to the place of its
  number, which has to be one of the vector's.
\<close>

fun fill_counts :: "test_env \<Rightarrow> partition_data list \<Rightarrow> nat list \<Rightarrow> nat list fsio" where
  "fill_counts E [] counts = io_return counts"
| "fill_counts E (p # ps) counts =
     io_bind (expect (into_parts (serde (te_runtime E)) p)) (\<lambda>(_, _, recs).
       if partition_id p < length counts then fill_counts E ps (counts[partition_id p := length recs])
       else io_lift Panic)"

definition shuffle_single_partition_groups_keys :: "test_env \<Rightarrow> unit fsio" where
  "shuffle_single_partition_groups_keys E =
     io_bind (run_op E (ShuffleOp \<lparr>sh_key = ''k'', sh_total_partitions = 2\<rparr>)
       [[kv ''a'' 1, kv ''b'' 2, kv ''a'' 3]]) (\<lambda>out.
     io_bind (assert_true (length out = 2)) (\<lambda>_.
     io_bind (fill_counts E out [0, 0]) (\<lambda>counts.
       assert_true (sum_list counts = 3))))"

definition shuffle_multiple_partitions_merges_keys :: "test_env \<Rightarrow> unit fsio" where
  "shuffle_multiple_partitions_merges_keys E =
     io_bind (run_op E (ShuffleOp \<lparr>sh_key = ''k'', sh_total_partitions = 3\<rparr>) [[kv ''x'' 1], [kv ''x'' 2]]) (\<lambda>out.
     io_bind (all_records E out) (\<lambda>recs.
       assert_true (sum_list (map length recs) = 2)))"

section \<open>Tests of the join\<close>

definition extract_records :: "test_env \<Rightarrow> partition_data list \<Rightarrow> json list fsio" where
  "extract_records E out = io_bind (all_records E out) (\<lambda>recs. io_return (concat recs))"

definition join_test :: "test_env \<Rightarrow> join_type \<Rightarrow> json list \<Rightarrow> json list \<Rightarrow> json list fsio" where
  "join_test E jt left right =
     io_bind (run_op E (JoinOp \<lparr>join_key = ''k'', join_join_type = jt\<rparr>) [left, right]) (extract_records E)"

definition left_row :: "string \<Rightarrow> int \<Rightarrow> json" where
  "left_row k l = JObject [(''k'', JString k), (''l'', int_json l)]"

definition right_row :: "string \<Rightarrow> int \<Rightarrow> json" where
  "right_row k r = JObject [(''k'', JString k), (''r'', int_json r)]"

definition inner_join_matches :: "test_env \<Rightarrow> unit fsio" where
  "inner_join_matches E =
     io_bind (join_test E Inner [left_row ''a'' 1] [right_row ''a'' 2]) (\<lambda>recs.
     io_bind (assert_true (length recs = 1)) (\<lambda>_.
     io_bind (first_record recs) (\<lambda>r.
     io_bind (assert_true (json_eq (json_index r ''left_l'') (int_json 1))) (\<lambda>_.
       assert_true (json_eq (json_index r ''right_r'') (int_json 2))))))"

definition inner_join_no_matches :: "test_env \<Rightarrow> unit fsio" where
  "inner_join_no_matches E =
     io_bind (join_test E Inner [left_row ''a'' 1] [right_row ''b'' 2]) (\<lambda>recs. assert_true (recs = []))"

definition left_join_nulls :: "test_env \<Rightarrow> unit fsio" where
  "left_join_nulls E =
     io_bind (join_test E LeftJoin [left_row ''a'' 1] [right_row ''b'' 2]) (\<lambda>recs.
     io_bind (assert_true (length recs = 1)) (\<lambda>_.
     io_bind (first_record recs) (\<lambda>r.
       assert_true (json_eq (json_index r ''left_l'') (int_json 1)))))"

definition right_join_nulls :: "test_env \<Rightarrow> unit fsio" where
  "right_join_nulls E =
     io_bind (join_test E RightJoin [left_row ''a'' 1] [right_row ''b'' 2]) (\<lambda>recs.
     io_bind (assert_true (length recs = 1)) (\<lambda>_.
     io_bind (first_record recs) (\<lambda>r.
       assert_true (json_eq (json_index r ''right_r'') (int_json 2)))))"

definition full_join_union :: "test_env \<Rightarrow> unit fsio" where
  "full_join_union E =
     io_bind (join_test E Full [left_row ''a'' 1] [right_row ''b'' 2]) (\<lambda>recs. assert_true (length recs = 2))"

definition join_duplicate_keys :: "test_env \<Rightarrow> unit fsio" where
  "join_duplicate_keys E =
     io_bind (join_test E Inner [left_row ''a'' 1, left_row ''a'' 2] [right_row ''a'' 3, right_row ''a'' 4])
       (\<lambda>recs. assert_true (length recs = 4))"

definition operator_tests :: "test_env \<Rightarrow> unit fsio list" where
  "operator_tests E =
     (let T = E\<lparr>te_prefix := ''dpe-test-''\<rparr>
      in [flat_map_identity T, flat_map_split T, flat_map_explode_array T, flat_map_json_expand T,
          reduce_sum T, reduce_count T, reduce_by_key_sum T, reduce_by_key_missing_key_errors T,
          shuffle_single_partition_groups_keys T, shuffle_multiple_partitions_merges_keys T,
          inner_join_matches T, inner_join_no_matches T, left_join_nulls T, right_join_nulls T,
          full_join_union T, join_duplicate_keys T])"

text \<open>The module of the shuffle repeats its two tests, with other names for the files.\<close>

definition shuffle_module_tests :: "test_env \<Rightarrow> unit fsio list" where
  "shuffle_module_tests E =
     (let T = E\<lparr>te_prefix := ''dpe-shuffle-''\<rparr>
      in [shuffle_single_partition_groups_keys T, shuffle_multiple_partitions_merges_keys T])"

section \<open>Lemmas: running a test in memory\<close>

definition short :: "serde_api \<Rightarrow> json list \<Rightarrow> bool" where
  "short S rs \<longleftrightarrow> list_all (\<lambda>v. \<not> isl (to_vec S v) \<and> length (text_of S v) \<le> 1000) rs"

lemma short_simps [simp]:
  "short S []" "short S (r # q # rs) \<longleftrightarrow> short S [r] \<and> short S (q # rs)" "short S (rs @ rs') \<longleftrightarrow> short S rs \<and> short S rs'"
  by (auto simp: short_def)

lemma short_fits: "short S rs \<Longrightarrow> length rs \<le> 1000 \<Longrightarrow> fits S usize_max rs"
proof -
  assume short: "short S rs" and n: "length rs \<le> 1000"
  have "size_of S rs \<le> length rs * 1000"
    using short by (induction rs) (auto simp: short_def)
  with n short show ?thesis by (auto simp: fits_def short_def usize_max_def list_all_iff)
qed

lemma expect_Ok [simp]: "m s = (Ok x, s') \<Longrightarrow> expect m s = (Ok x, s')"
  by (simp add: expect_def)

definition test_part :: "test_env \<Rightarrow> nat \<Rightarrow> json list \<Rightarrow> partition_data" where
  "test_part E n rs = core_part (serde (te_runtime E)) 0 usize_max (test_path E n) rs"

definition test_parts :: "test_env \<Rightarrow> json list list \<Rightarrow> partition_data list" where
  "test_parts E rss = map (\<lambda>(n, rs). test_part E n rs) (enumerate 0 rss)"

lemma test_inputs_core:
  assumes "list_all (fits (serde (te_runtime E)) usize_max) rss"
  shows "test_inputs E rss s = (Ok (test_parts E rss), s)"
proof -
  have "io_mapM (\<lambda>(n, rs). test_partition E n rs) (enumerate k rss) s = (Ok (map (\<lambda>(n, rs). test_part E n rs) (enumerate k rss)), s)"
    for k
    using assms
  proof (induction rss arbitrary: k)
    case (Cons rs rss)
    then show ?case
      by (simp add: test_partition_def test_part_def from_records_fits io_bind_def io_return_def)
  qed (simp add: io_return_def)
  then show ?thesis by (simp add: test_inputs_def test_parts_def)
qed

lemma test_parts_core: "core_holds (test_parts E rss) rss"
proof -
  have "map (in_memory \<circ> cache \<circ> (\<lambda>(n, rs). test_part E n rs)) (enumerate k rss) = rss" for k
    by (induction rss arbitrary: k) (simp_all add: test_part_def)
  moreover have "list_all in_core (map (\<lambda>(n, rs). test_part E n rs) xs)" for xs
    by (induction xs) (auto simp: test_part_def)
  ultimately show ?thesis by (simp add: core_holds_def test_parts_def)
qed

lemma run_op_core:
  assumes "list_all (fits (serde (te_runtime E)) usize_max) rss"
    and "operator_meaning (te_runtime E) (te_groups E) src op rss = Ok outs" "input_there src op s"
    and "list_all2 (fits (serde (te_runtime E))) (operator_limits op (test_parts E rss)) outs"
  obtains ps where "run_op E op rss s = (Ok ps, s)" "core_holds ps outs"
proof -
  from memory_operators.memory_law[OF test_parts_core assms(3,2,4)] obtain ps where
    "operator_execute (te_runtime E) (te_groups E) op (test_parts E rss) s = (Ok ps, s)" "core_holds ps outs"
    by blast
  then show ?thesis
    by (intro that[of ps]) (simp_all add: run_op_def test_inputs_core[OF assms(1)] io_bind_def)
qed

text \<open>A test that looks at the records of the first output, and one that looks at all records.\<close>

lemma first_records_core:
  "core_holds ps (rs # rss) \<Longrightarrow> first_records E ps s = (Ok rs, s)"
  by (auto simp: core_holds_def first_records_def into_parts_core core_eqs)

lemma all_records_core:
  "core_holds ps rss \<Longrightarrow> all_records E ps s = (Ok rss, s)"
proof (induction ps arbitrary: rss)
  case Nil
  then show ?case by (simp add: core_holds_def all_records_def io_return_def)
next
  case (Cons p ps)
  then show ?case by (auto simp: core_holds_def all_records_def core_eqs)
qed

lemma first_test:
  assumes "list_all (fits (serde (te_runtime E)) usize_max) rss"
    and "operator_meaning (te_runtime E) (te_groups E) (\<lambda>_. []) op rss = Ok (rs # outs)" "input_there (\<lambda>_. []) op s"
    and "list_all2 (fits (serde (te_runtime E))) (operator_limits op (test_parts E rss)) (rs # outs)"
  shows "passes (io_bind (run_op E op rss) (\<lambda>out. io_bind (first_records E out) f)) s \<longleftrightarrow> passes (f rs) s"
  by (rule run_op_core[OF assms]) (simp add: passes_def io_bind_def first_records_core)

lemma all_test:
  assumes "list_all (fits (serde (te_runtime E)) usize_max) rss"
    and "operator_meaning (te_runtime E) (te_groups E) (\<lambda>_. []) op rss = Ok outs" "input_there (\<lambda>_. []) op s"
    and "list_all2 (fits (serde (te_runtime E))) (operator_limits op (test_parts E rss)) outs"
  shows "passes (io_bind (run_op E op rss) (\<lambda>out. io_bind (all_records E out) f)) s \<longleftrightarrow> passes (f outs) s"
  by (rule run_op_core[OF assms]) (simp add: passes_def io_bind_def all_records_core)

lemma assert_bind [simp]:
  "io_bind (assert_true True) f = f ()" "passes (assert_true b) s \<longleftrightarrow> b"
  "io_bind (first_record (r # rs)) g = g r"
  by (simp_all add: assert_true_def passes_def io_lift_def io_bind_def io_return_def)

section \<open>Lemmas: the tests\<close>

text \<open>The records the tests make and expect.\<close>

definition flat_records :: "json list" where
  "flat_records =
     [JObject [(''a'', int_json 1)], JObject [(''tags'', JString ''a,b c'')], JObject [(''tags'', JString ''a'')],
      JObject [(''tags'', JString ''b'')], JObject [(''tags'', JString ''c'')],
      JObject [(''vals'', JArray [int_json 1, int_json 2, int_json 3])], JObject [(''vals'', int_json 1)],
      JObject [(''vals'', int_json 2)], JObject [(''vals'', int_json 3)],
      JObject [(''a'', int_json 1), (''b'', int_json 2)], JObject [(''b'', int_json 2)]]"

lemma test_parts_simps [simp]:
  "test_parts E [] = []" "test_parts E [rs] = [test_part E 0 rs]"
  "test_parts E [rs, rs'] = [test_part E 0 rs, test_part E 1 rs']"
  "part_limit (test_part E n rs) = usize_max"
  by (simp_all add: test_parts_def test_part_def numeral_2_eq_2)

lemma flat_apply_examples:
  "flat_apply ''identity'' r = Ok [r]" "flat_apply ''json_expand'' r = Ok (json_expand r)"
  "flat_apply ''split:tags'' r = Ok (split_field r ''tags'')"
  "flat_apply ''explode_array:vals'' r = Ok (explode_array r ''vals'')"
  by (simp_all add: flat_apply_def)

lemma tokens_example: "tokens ''a,b c'' = [''a'', ''b'', ''c'']"
  by code_simp

lemma flat_map_tests:
  assumes "short (serde (te_runtime E)) flat_records"
  shows "passes (flat_map_identity E) s" "passes (flat_map_split E) s"
    "passes (flat_map_explode_array E) s" "passes (flat_map_json_expand E) s"
  using assms
  by (simp_all add: flat_map_identity_def flat_map_split_def flat_map_explode_array_def flat_map_json_expand_def
      flat_records_def first_test short_fits rewrite_all_def flat_apply_examples tokens_example obj_get_def int_json_def)

definition reduce_records :: "json list" where
  "reduce_records =
     [JObject [(''value'', int_json 2)], JObject [(''value'', int_json 3)], JObject [(''sum_value'', float_json 5)],
      JObject [(''v'', int_json 1)], JObject [(''v'', int_json 2)], JObject [(''count'', int_json 2)],
      kv ''a'' 1, kv ''a'' 2, kv ''b'' 3,
      JObject [(''k'', JString ''a''), (''sum_v'', float_json 3)], JObject [(''k'', JString ''b''), (''sum_v'', float_json 3)]]"

lemma reducer_examples:
  "reducer_parse ''sum:value'' = Ok (Sum (Some ''value''))" "reducer_parse ''sum:v'' = Ok (Sum (Some ''v''))"
  "reducer_parse ''count'' = Ok Count"
  by (simp_all add: reducer_parse_def)

lemma sum_examples:
  "fadd f64 (flt_of_int f64 2) (flt_of_int f64 3) = flt_of_int f64 5"
  "fadd f64 (flt_of_int f64 1) (flt_of_int f64 2) = flt_of_int f64 3"
  "is_finite (flt_of_int f64 5)" "is_finite (flt_of_int f64 3)"
  "flt_eq (flt_of_int f64 5) (flt_of_int f64 5)" "flt_eq (flt_of_int f64 3) (flt_of_int f64 3)"
  by (simp_all add: flt_eval)

lemma sum_values:
  "reduce_value (Sum (Some ''value'')) [JObject [(''value'', int_json 2)], JObject [(''value'', int_json 3)]] =
     JObject [(''sum_value'', float_json 5)]"
  "reduce_value (Sum (Some ''v'')) [kv ''a'' 1, kv ''a'' 2] = JObject [(''sum_v'', float_json 3)]"
  "reduce_value (Sum (Some ''v'')) [kv ''b'' 3] = JObject [(''sum_v'', float_json 3)]"
  by (simp_all add: reduce_value_def single_kv_def field_key_def number_or_zero_def fold_numeric_eq from_f64_def
      sum_examples int_json_def float_json_def kv_def obj_get_def)

lemma reduce_tests:
  assumes "short (serde (te_runtime E)) reduce_records"
  shows "passes (reduce_sum E) s" "passes (reduce_count E) s"
proof -
  note facts = reduce_records_def first_test short_fits reduce_meaning_def reducer_examples
  have "reduce_value Count rs = JObject [(''count'', int_json (int (length rs)))]" for rs
    by (simp add: reduce_value_def single_kv_def int_json_def)
  with assms show "passes (reduce_count E) s"
    by (simp add: reduce_count_def facts obj_get_def int_json_def)
  show "passes (reduce_sum E) s"
    using assms by (simp add: reduce_sum_def facts sum_values obj_get_def) (simp add: float_json_def sum_examples)
qed

lemma two_rows: "mset xs = {#a, b#} \<Longrightarrow> xs = [a, b] \<or> xs = [b, a]"
proof -
  assume xs: "mset xs = {#a, b#}"
  then have "length xs = 2" using size_mset[of xs] by simp
  then obtain x y where "xs = [x, y]" by (auto simp: length_Suc_conv numeral_2_eq_2)
  with xs show ?thesis by (auto simp: add_eq_conv_diff)
qed

lemma key_of_kv [simp]: "key_of ''k'' (kv k v) = Some k"
  by (simp add: key_of_def kv_def obj_get_def)

lemma reduce_by_key_rows:
  assumes "iterates it"
  obtains outs where
    "reduce_by_key_meaning it \<lparr>rbk_key = ''k'', rbk_reducer = ''sum:v''\<rparr> [[kv ''a'' 1, kv ''a'' 2, kv ''b'' 3]] = Ok [outs]"
    "mset outs = {#JObject [(''k'', JString ''a''), (''sum_v'', float_json 3)],
                   JObject [(''k'', JString ''b''), (''sum_v'', float_json 3)]#}"
proof -
  let ?rs = "[kv ''a'' 1, kv ''a'' 2, kv ''b'' 3]"
  let ?op = "\<lparr>rbk_key = ''k'', rbk_reducer = ''sum:v''\<rparr>"
  have keys: "{x. \<exists>r \<in> set ?rs. key_of ''k'' r = Some x} = {''a'', ''b''}" by auto
  have rows: "row_of ?op (Sum (Some ''v'')) k (group_of ''k'' ?rs k) = JObject [(''k'', JString k), (''sum_v'', float_json 3)]"
    if "k \<in> {''a'', ''b''}" for k
    using that by (auto simp: group_of_def sum_values row_of_def obj_insert_all_def)
  obtain outs where outs: "res_mapM (reduced_row ?op (Sum (Some ''v''))) (it (groups ''k'' ?rs)) = Ok outs"
    "mset outs = image_mset (\<lambda>x. row_of ?op (Sum (Some ''v'')) x (group_of ''k'' ?rs x)) (mset_set {''a'', ''b''})"
    using reduced_rows[OF assms, of ?op "Sum (Some ''v'')" "''k''" ?rs] unfolding keys by blast
  have "group_records ''k'' Map.empty ?rs = Ok (groups ''k'' ?rs)"
    by (subst group_records_eq) (simp add: keyed_def)
  with outs(1) have "reduce_by_key_meaning it ?op [?rs] = Ok [outs]"
    by (simp add: reduce_by_key_meaning_def reducer_examples del: group_records.simps)
  moreover have "mset outs = {#JObject [(''k'', JString ''a''), (''sum_v'', float_json 3)],
      JObject [(''k'', JString ''b''), (''sum_v'', float_json 3)]#}"
    using outs(2) rows[of "''a''"] rows[of "''b''"] by simp
  ultimately show ?thesis using that by blast
qed

lemma reduce_by_key_test:
  assumes "short (serde (te_runtime E)) reduce_records" "iterates (te_groups E)"
  shows "passes (reduce_by_key_sum E) s"
proof -
  obtain outs where outs:
    "reduce_by_key_meaning (te_groups E) \<lparr>rbk_key = ''k'', rbk_reducer = ''sum:v''\<rparr> [[kv ''a'' 1, kv ''a'' 2, kv ''b'' 3]] = Ok [outs]"
    "mset outs = {#JObject [(''k'', JString ''a''), (''sum_v'', float_json 3)],
                   JObject [(''k'', JString ''b''), (''sum_v'', float_json 3)]#}"
    by (rule reduce_by_key_rows[OF assms(2)])
  note facts = reduce_by_key_sum_def reduce_records_def first_test short_fits find_row_def obj_get_def io_lift_def
  from two_rows[OF outs(2)] show ?thesis
    using assms(1) outs(1) by (auto simp: facts) (simp_all add: io_bind_def float_json_def sum_examples)
qed

lemma missing_key_test:
  assumes "short (serde (te_runtime E)) reduce_records"
  shows "passes (reduce_by_key_missing_key_errors E) s"
proof -
  have "contains (show_error (ReduceE (ReduceMissingKey ''k''))) ''missing key''" by code_simp
  then show ?thesis
    using assms by (simp add: reduce_by_key_missing_key_errors_def test_inputs_core short_fits reduce_records_def
        reduce_by_key_execute_def reducer_examples group_partitions_core test_part_def io_bind_def io_lift_def
        key_of_def obj_get_def expect_err_def passes_def assert_true_def del: group_partitions.simps)
qed

definition shuffle_records :: "json list" where
  "shuffle_records = [kv ''a'' 1, kv ''b'' 2, kv ''a'' 3, kv ''x'' 1, kv ''x'' 2]"

lemma shuffle_fits:
  assumes "short S rs" "length rs \<le> 1000"
  shows "list_all2 (fits S) (replicate (sh_total_partitions op) usize_max) (shuffled hash S op rs)"
proof -
  have "fits S usize_max (bucket hash S op rs i)" for i
    using assms by (intro short_fits) (auto simp: bucket_def short_def list_all_iff intro: order_trans[OF length_filter_le])
  then show ?thesis by (simp add: shuffled_def list_all2_conv_all_nth)
qed

lemma shuffle_ids:
  assumes "shuffle_execute hash tmp S op ps s = (Ok ps', s')"
  shows "map partition_id ps' = [0..<sh_total_partitions op]"
proof -
  let ?f = "\<lambda>(idx, rs). from_records S idx (shuffle_limit ps) (bucket_path (spill_base tmp ps) idx) rs"
  from assms obtain records s1 where
    run: "io_mapM ?f (enumerate 0 (shuffled hash S op records)) s1 = (Ok ps', s')"
    by (auto simp: shuffle_execute_def Let_def fold_add_record io_lift_def elim!: io_bind_OkE split: if_splits)
  have id: "partition_id p = fst x" if "?f x s = (Ok p, s')" for x s p s'
    using that by (cases x) (auto simp: from_records_def io_return_def elim!: io_bind_OkE)
  have "True \<and> list_all2 (\<lambda>x p. partition_id p = fst x) (enumerate 0 (shuffled hash S op records)) ps'"
  proof (rule io_mapM_invariant[OF run])
    show "True \<and> partition_id p = fst x" if "?f x s = (Ok p, s')" for x s p s'
      using id[OF that] by simp
  qed simp
  then have "map partition_id ps' = map fst (enumerate 0 (shuffled hash S op records))"
    unfolding simp_thms by (induction rule: list_all2_induct) auto
  then show ?thesis by (simp add: shuffled_def)
qed

lemma shuffled_length:
  assumes "0 < sh_total_partitions op"
  shows "sum_list (map length (shuffled hash S op rs)) = length rs"
  using arg_cong[OF mset_shuffled[OF assms, of hash S rs], of size] by (simp add: length_concat)

lemma fill_counts_core:
  assumes "core_holds ps [rs, rs']" "map partition_id ps = [0, 1]"
  shows "fill_counts E ps [0, 0] s = (Ok [length rs, length rs'], s)"
  using assms by (auto simp: core_holds_def core_eqs map_eq_Cons_conv)

lemma shuffle_tests:
  assumes "short (serde (te_runtime E)) shuffle_records"
  shows "passes (shuffle_single_partition_groups_keys E) s" "passes (shuffle_multiple_partitions_merges_keys E) s"
proof -
  let ?rt = "te_runtime E"
  let ?rs = "[kv ''a'' 1, kv ''b'' 2, kv ''a'' 3]" and ?op = "\<lparr>sh_key = ''k'', sh_total_partitions = 2\<rparr>"
  let ?outs = "shuffled (hasher ?rt) (serde ?rt) ?op ?rs"
  have short: "short (serde ?rt) ?rs" "short (serde ?rt) [kv ''x'' 1, kv ''x'' 2]"
    using assms by (simp_all add: shuffle_records_def)
  obtain ps where run: "run_op E (ShuffleOp ?op) [?rs] s = (Ok ps, s)" "core_holds ps ?outs"
    using run_op_core[of E "[?rs]" "\<lambda>_. []" "ShuffleOp ?op" ?outs s] short_fits[OF short(1)]
      shuffle_fits[OF short(1), of ?op "hasher ?rt"] by (auto simp: shuffle_limit_def)
  then have ids: "map partition_id ps = [0, 1]"
    by (auto simp: run_op_def expect_def elim!: io_bind_OkE dest!: shuffle_ids split: prod.splits res.splits)
      (simp add: upt_rec numeral_2_eq_2)
  obtain rs rs' where outs: "?outs = [rs, rs']" by (simp add: shuffled_def upt_rec numeral_2_eq_2)
  from run(2) have "length ps = 2" unfolding outs by (auto simp: core_holds_def dest: arg_cong[of _ _ length])
  moreover have "length rs + length rs' = 3"
    using shuffled_length[of ?op "hasher ?rt" "serde ?rt" ?rs] unfolding outs by simp
  ultimately show "passes (shuffle_single_partition_groups_keys E) s"
    using run(1) fill_counts_core[OF run(2)[unfolded outs] ids, of E s]
    by (simp add: shuffle_single_partition_groups_keys_def passes_def io_bind_def assert_true_def io_lift_def)
  let ?op3 = "\<lparr>sh_key = ''k'', sh_total_partitions = 3\<rparr>"
  show "passes (shuffle_multiple_partitions_merges_keys E) s"
    using short(2) shuffle_fits[OF short(2), of ?op3 "hasher ?rt"]
      shuffled_length[of ?op3 "hasher ?rt" "serde ?rt" "[kv ''x'' 1, kv ''x'' 2]"]
    by (simp add: shuffle_multiple_partitions_merges_keys_def all_test short_fits shuffle_limit_def)
qed

definition join_records_used :: "json list" where
  "join_records_used =
     [left_row ''a'' 1, right_row ''a'' 2, right_row ''b'' 2, left_row ''a'' 2, right_row ''a'' 3, right_row ''a'' 4,
      JObject [(''left_k'', JString ''a''), (''left_l'', int_json 1), (''right_missing'', JNull)],
      JObject [(''left_missing'', JNull), (''right_k'', JString ''b''), (''right_r'', int_json 2)]] @
     map (\<lambda>(l, r). JObject [(''left_k'', JString ''a''), (''left_l'', int_json l),
        (''right_k'', JString ''a''), (''right_r'', int_json r)]) [(1, 2), (1, 3), (1, 4), (2, 3), (2, 4)]"

lemma join_test_core:
  assumes "join_records (serde (te_runtime E)) \<lparr>join_key = ''k'', join_join_type = jt\<rparr> ls rs = Ok out"
    and "short (serde (te_runtime E)) (ls @ rs @ out)" "length ls \<le> 1000" "length rs \<le> 1000" "length out \<le> 1000"
  shows "passes (io_bind (join_test E jt ls rs) f) s \<longleftrightarrow> passes (f out) s"
proof -
  let ?op = "JoinOp \<lparr>join_key = ''k'', join_join_type = jt\<rparr>"
  obtain ps where "run_op E ?op [ls, rs] s = (Ok ps, s)" "core_holds ps [out]"
    using run_op_core[of E "[ls, rs]" "\<lambda>_. []" ?op "[out]" s] assms
    by (auto simp: short_fits)
  then show ?thesis
    using all_records_core[of ps "[out]" E s] by (simp add: join_test_def extract_records_def passes_def io_bind_def io_return_def)
qed

lemma key_of_rows [simp]:
  "keyed_record S \<lparr>join_key = ''k'', join_join_type = jt\<rparr> (left_row k l) = Ok (k, [(''k'', JString k), (''l'', int_json l)])"
  "keyed_record S \<lparr>join_key = ''k'', join_join_type = jt\<rparr> (right_row k r) = Ok (k, [(''k'', JString k), (''r'', int_json r)])"
  by (simp_all add: keyed_record_def extract_key_def obj_get_def left_row_def right_row_def)

lemma combined_rows:
  "combine_records [(''k'', JString k), (''l'', int_json l)] [(''k'', JString k'), (''r'', int_json r)] =
     [(''left_k'', JString k), (''left_l'', int_json l), (''right_k'', JString k'), (''right_r'', int_json r)]"
  "combine_left_only [(''k'', JString k), (''l'', int_json l)] =
     [(''left_k'', JString k), (''left_l'', int_json l), (''right_missing'', JNull)]"
  "combine_right_only [(''k'', JString k), (''r'', int_json r)] =
     [(''left_missing'', JNull), (''right_k'', JString k), (''right_r'', int_json r)]"
  by (simp_all add: combine_records_def combine_left_only_def combine_right_only_def prefix_fields_def obj_insert_all_def)

lemma join_outputs:
  "join_records S \<lparr>join_key = ''k'', join_join_type = jt\<rparr> ls rs =
     res_bind (res_mapM (keyed_record S \<lparr>join_key = ''k'', join_join_type = jt\<rparr>) ls) (\<lambda>lks.
     res_bind (res_mapM (keyed_record S \<lparr>join_key = ''k'', join_join_type = jt\<rparr>) rs) (\<lambda>rks.
       Ok (map JObject (join_spec \<lparr>join_key = ''k'', join_join_type = jt\<rparr> lks rks))))"
  if "\<exists>lks. res_mapM (keyed_record S \<lparr>join_key = ''k'', join_join_type = jt\<rparr>) ls = Ok lks"
    "\<exists>rks. res_mapM (keyed_record S \<lparr>join_key = ''k'', join_join_type = jt\<rparr>) rs = Ok rks \<and> rows_distinct rks"
  using that join_records_spec[of S "\<lparr>join_key = ''k'', join_join_type = jt\<rparr>" ls _ rs] by auto

lemma join_tests:
  assumes "short (serde (te_runtime E)) join_records_used"
  shows "passes (inner_join_matches E) s" "passes (inner_join_no_matches E) s" "passes (left_join_nulls E) s"
    "passes (right_join_nulls E) s" "passes (full_join_union E) s" "passes (join_duplicate_keys E) s"
proof -
  have eq: "json_eq (int_json a) (int_json b) \<longleftrightarrow> a = b" for a b by (simp add: int_json_def)
  have distinct: "rows_distinct [(k, [(''k'', JString k), (''r'', int_json r)])]"
    "rows_distinct [(k, [(''k'', JString k), (''r'', int_json 3)]), (k, [(''k'', JString k), (''r'', int_json 4)])]" for k r
    by (auto simp: rows_distinct_def eq less_Suc_eq numeral_2_eq_2)
  note facts = join_test_core join_outputs distinct join_spec_def left_rows_def combined_rows join_records_used_def
    obj_get_def eq
  from assms show "passes (inner_join_matches E) s" by (simp add: inner_join_matches_def facts)
  from assms show "passes (inner_join_no_matches E) s" by (simp add: inner_join_no_matches_def facts)
  from assms show "passes (left_join_nulls E) s" by (simp add: left_join_nulls_def facts)
  from assms show "passes (right_join_nulls E) s" by (simp add: right_join_nulls_def facts)
  from assms show "passes (full_join_union E) s" by (simp add: full_join_union_def facts)
  from assms show "passes (join_duplicate_keys E) s" by (simp add: join_duplicate_keys_def facts)
qed

section \<open>Tests of the other modules\<close>

text \<open>\<open>src/src/worker/partition.rs\<close>: \<open>Path::exists\<close> is false as well where the path is refused.\<close>

definition file_exists :: "path \<Rightarrow> fs \<Rightarrow> bool" where
  "file_exists p s \<longleftrightarrow> faults s p = None \<and> files s p \<noteq> None"

definition writes_and_reads_partition :: "test_env \<Rightarrow> unit fsio" where
  "writes_and_reads_partition E =
     io_bind (expect (io_lift (from_env (overflow_checks (te_runtime E)) (te_environment E)))) (\<lambda>cfg s.
       case store_new (cfg\<lparr>data_dir := test_path (E\<lparr>te_prefix := ''dpe-test-''\<rparr>) 0\<rparr>) s of (store, s') \<Rightarrow>
         (let path = partition_path (te_uuids E) store (te_fresh E 1) 1 0
          in io_bind (expect (write_placeholder path)) (\<lambda>_.
             io_bind (expect (read_from_disk path)) (\<lambda>data.
               assert_true (data \<noteq> []))) s'))"

definition small_value :: json where
  "small_value = JString ''small''"

definition large_value :: json where
  "large_value = JString ''this string should spill''"

definition spill_test_path :: "test_env \<Rightarrow> path" where
  "spill_test_path E =
     path_join (temp_dir (te_runtime E)) (''dpe-spill-'' @ uuid_to_string (te_uuids E) (te_fresh E 0))"

definition spills_when_limit_exceeded :: "test_env \<Rightarrow> unit fsio" where
  "spills_when_limit_exceeded E =
     (let S = serde (te_runtime E); spill = spill_test_path E
      in io_bind (expect (push S small_value (cache_new 16 spill))) (\<lambda>c.
         io_bind (assert_true (\<not> has_spill c)) (\<lambda>_.
         io_bind (expect (push S large_value c)) (\<lambda>c'.
         io_bind (assert_true (has_spill c')) (\<lambda>_.
         io_bind (expect (drain_all S c')) (\<lambda>(data, _).
         io_bind (assert_true (length data = 2)) (\<lambda>_ s.
           assert_true (\<not> file_exists spill s) s)))))))"

text \<open>\<open>src/src/common/types.rs\<close>, \<open>src/src/common/config.rs\<close> and \<open>src/src/http/request.rs\<close>.\<close>

definition serializes_task_status :: "test_env \<Rightarrow> unit fsio" where
  "serializes_task_status E =
     io_bind (expect (io_lift (serialize (serde (te_runtime E)) (task_status_json (te_uuids E) (TS_Retrying 2)))))
       (\<lambda>printed. assert_true (contains printed ''Retrying''))"

definition loads_defaults :: "test_env \<Rightarrow> unit fsio" where
  "loads_defaults E =
     io_bind (expect (io_lift (from_env (overflow_checks (te_runtime E)) (te_environment E)))) (\<lambda>cfg.
     io_bind (assert_true (master_port cfg = 8080)) (\<lambda>_.
     io_bind (assert_true (worker_threads cfg = 4)) (\<lambda>_.
     io_bind (assert_true (heartbeat_interval_ms cfg = 2000)) (\<lambda>_.
     io_bind (assert_true (max_parallel_tasks cfg = 4)) (\<lambda>_.
     io_bind (assert_true (task_retry_limit cfg = 1)) (\<lambda>_.
       assert_true (partition_cache_limit_bytes cfg = 128 * 1024 * 1024)))))))"

definition parses_basic_request :: "test_env \<Rightarrow> unit fsio" where
  "parses_basic_request E =
     (case parse_request (''GET /health HTTP/1.1'' @ crlf @ ''Host: localhost'' @ crlf @ crlf) of
        None \<Rightarrow> io_lift Panic
      | Some req \<Rightarrow>
          io_bind (assert_true (req_method req = ''GET'')) (\<lambda>_. assert_true (req_path req = ''/health'')))"

text \<open>\<open>src/src/common/dag.rs\<close>: the text of the test, and the value a JSON reader makes of it.\<close>

definition dag_test_lines :: "(nat \<times> string) list" where
  "dag_test_lines =
     [(8, ''{''),
      (12, quote2 ''nodes'' @ '': [''),
      (16, ''{'' @ quote2 ''id'' @ '': '' @ quote2 ''read'' @ '', '' @ quote2 ''operator'' @ '': {'' @ quote2 ''Read'' @
           '': {'' @ quote2 ''uri'' @ '': '' @ quote2 ''data/input.csv'' @ '', '' @ quote2 ''format'' @ '': '' @
           quote2 ''csv'' @ ''}}},''),
      (16, ''{'' @ quote2 ''id'' @ '': '' @ quote2 ''n1'' @ '', '' @ quote2 ''operator'' @ '': {'' @ quote2 ''Map'' @
           '': {'' @ quote2 ''script'' @ '': '' @ quote2 ''x + 1'' @ ''}}}''),
      (12, ''],''),
      (12, quote2 ''edges'' @ '': [],''),
      (12, quote2 ''partitions'' @ '': 2''),
      (8, ''}''),
      (8, [])]"

definition dag_test_text :: string where
  "dag_test_text = concat (map (\<lambda>(n, l). newline # replicate n (CHR '' '') @ l) dag_test_lines)"

definition dag_test_value :: json where
  "dag_test_value =
     JObject [(''edges'', JArray []),
       (''nodes'', JArray
         [JObject [(''id'', JString ''read''),
            (''operator'', JObject [(''Read'', JObject [(''format'', JString ''csv''), (''uri'', JString ''data/input.csv'')])])],
          JObject [(''id'', JString ''n1''),
            (''operator'', JObject [(''Map'', JObject [(''script'', JString ''x + 1'')])])]]),
       (''partitions'', int_json 2)]"

definition parses_dag_spec :: "test_env \<Rightarrow> unit fsio" where
  "parses_dag_spec E =
     io_bind (expect (io_lift (deserialize (serde (te_runtime E)) dag_test_text))) (\<lambda>v.
       case dag_of v of
         None \<Rightarrow> io_lift Panic
       | Some d \<Rightarrow>
           io_bind (assert_true (dag_partitions d = 2)) (\<lambda>_.
           io_bind (assert_true (length (dag_nodes d) = 2)) (\<lambda>_.
             let stages = to_stages (te_counts E) d
             in io_bind (assert_true (length stages = 2)) (\<lambda>_.
                io_bind (assert_true (stg_partitions (hd stages) = 2)) (\<lambda>_.
                  assert_true (case stg_nodes (hd stages) of
                      n # _ \<Rightarrow> read_of (node_operator n) \<noteq> None | [] \<Rightarrow> False))))))"

definition component_tests :: "test_env \<Rightarrow> unit fsio list" where
  "component_tests E =
     [writes_and_reads_partition E, spills_when_limit_exceeded E, serializes_task_status E, loads_defaults E,
      parses_basic_request E, parses_dag_spec E]"

lemma expect_lift [simp]: "io_bind (expect (io_lift (Ok x))) f = f x"
  by (simp add: fun_eq_iff io_bind_def io_lift_def expect_def)

lemma defaults_test: "te_environment E = Map.empty \<Longrightarrow> passes (loads_defaults E) s"
  by (simp add: loads_defaults_def from_env_empty default_config_def)

lemma request_test: "passes (parses_basic_request E) s"
proof -
  have "map_option (\<lambda>r. (req_method r, req_path r))
      (parse_request (''GET /health HTTP/1.1'' @ crlf @ ''Host: localhost'' @ crlf @ crlf)) = Some (''GET'', ''/health'')"
    by code_simp
  then show ?thesis by (auto simp: parses_basic_request_def)
qed

lemma placeholder_test:
  assumes "te_environment E = Map.empty" "healthy s"
  shows "passes (writes_and_reads_partition E) s"
proof -
  have "healthy (io_ignore (create_dir_all d) s)" for d
    using assms(2) by (simp add: io_ignore_def create_dir_all_def)
  then show ?thesis
    by (simp add: writes_and_reads_partition_def assms(1) from_env_empty store_new_def Let_def write_placeholder_def
        spill_to_disk_def read_from_disk_def fs_eqs passes_def io_bind_def expect_def assert_true_def io_lift_def)
qed

lemma status_test:
  assumes "to_vec (serde (te_runtime E)) (task_status_json (te_uuids E) (TS_Retrying 2)) = Inr printed"
    and "contains printed ''Retrying''"
  shows "passes (serializes_task_status E) s"
  using assms by (simp add: serializes_task_status_def serialize_def)

lemma dag_test_read:
  "dag_of dag_test_value = Some \<lparr>dag_nodes = [\<lparr>node_id = ''read'', node_operator = OT_Read ''data/input.csv'' ''csv''\<rparr>,
     \<lparr>node_id = ''n1'', node_operator = OT_Map ''x + 1''\<rparr>], dag_edges = [], dag_partitions = 2\<rparr>"
  by code_simp

lemma dag_test:
  assumes "from_str (serde (te_runtime E)) dag_test_text = Inr dag_test_value"
  shows "passes (parses_dag_spec E) s"
  using assms by (simp add: parses_dag_spec_def deserialize_def dag_test_read to_stages_def ordered_nodes_def Let_def)

lemma spill_test:
  assumes "healthy s" "files s (spill_test_path E) = None"
    and "reads_back (serde (te_runtime E)) small_value" "reads_back (serde (te_runtime E)) large_value"
    and "length (text_of (serde (te_runtime E)) small_value) \<le> 16"
    and "16 < size_of (serde (te_runtime E)) [small_value, large_value]"
  shows "passes (spills_when_limit_exceeded E) s"
proof -
  let ?S = "serde (te_runtime E)" and ?p = "spill_test_path E"
  let ?c = "(cache_new 16 ?p)\<lparr>in_memory := [small_value], in_memory_bytes := length (text_of ?S small_value), record_count := Suc 0\<rparr>"
  let ?d = "(cache_new 16 ?p)\<lparr>spilled_file := Some ?p, spilled_bytes := length (encode ?S [small_value, large_value]), record_count := 2\<rparr>"
  let ?s = "s\<lparr>files := (files s)(?p \<mapsto> encode ?S [small_value, large_value])\<rparr>"
  have both: "list_all (reads_back ?S) [small_value, large_value]" using assms(3,4) by simp
  have one: "push ?S small_value (cache_new 16 ?p) s = (Ok ?c, s)"
    using assms by (simp add: push_def estimate_size_def serialize_text maybe_spill_def total_size_bytes_def cache_new_def
        io_bind_def io_lift_def io_return_def)
  have two: "push ?S large_value ?c s = (Ok ?d, ?s)"
    using assms
    by (simp add: push_def cache_spill_encode[OF assms(1)] text_at_def estimate_size_def serialize_text maybe_spill_def total_size_bytes_def cache_new_def
        io_bind_def io_lift_def io_return_def)
  have three: "drain_all ?S ?d ?s = (Ok ([small_value, large_value], cache_new 16 ?p\<lparr>record_count := 2\<rparr>), s\<lparr>files := (files s)(?p := None)\<rparr>)"
    using assms(1) parse_lines_encode[OF both]
    by (simp add: drain_all_def drain_spilled_def fs_eqs io_ignore_def cache_new_def io_bind_def io_lift_def io_return_def
        del: encode_simps)
  have spilled: "\<not> has_spill ?c" "has_spill ?d" by (simp_all add: has_spill_def cache_new_def)
  show ?thesis
    by (simp add: spills_when_limit_exceeded_def Let_def passes_def io_bind_def one two three spilled assert_true_def
        io_lift_def file_exists_def del: encode_simps)
qed

section \<open>Properties\<close>

definition all_test_records :: "json list" where
  "all_test_records = flat_records @ reduce_records @ shuffle_records @ join_records_used"

text \<open>
  Claim C39. The unit tests of the operators pass, with any hash function, any iteration order of
  hash maps, any names of temporary files, and on any file system, even one that refuses every
  access: with a limit of \<open>usize::MAX\<close> bytes no test touches a file. All they need is that the
  JSON library prints the records of the tests, each in at most 1000 bytes.
\<close>

theorem operator_tests_pass:
  assumes "short (serde (te_runtime E)) all_test_records" "iterates (te_groups E)"
  shows "list_all (\<lambda>test. passes test s) (operator_tests E @ shuffle_module_tests E)"
  using assms flat_map_tests[of "E\<lparr>te_prefix := _\<rparr>"] reduce_tests[of "E\<lparr>te_prefix := _\<rparr>"]
    reduce_by_key_test[of "E\<lparr>te_prefix := _\<rparr>"] missing_key_test[of "E\<lparr>te_prefix := _\<rparr>"]
    shuffle_tests[of "E\<lparr>te_prefix := _\<rparr>"] join_tests[of "E\<lparr>te_prefix := _\<rparr>"]
  by (simp add: operator_tests_def shuffle_module_tests_def all_test_records_def Let_def)

text \<open>Texts for the examples: every value is printed, the status and the graph as they should be.\<close>

definition test_serde :: serde_api where
  "test_serde = \<lparr>
     to_vec = (\<lambda>v. Inr (if v = small_value then quote2 ''small''
        else if v = large_value then quote2 ''this string should spill''
        else ''{'' @ quote2 ''Retrying'' @ '':2}'')),
     from_str = (\<lambda>t. if t = dag_test_text then Inr dag_test_value
        else if t = quote2 ''small'' then Inr small_value
        else if t = quote2 ''this string should spill'' then Inr large_value
        else Inl ''expected value at line 1 column 1''),
     number_to_string = (\<lambda>n. ''2'')\<rparr>"

definition example_test_env :: test_env where
  "example_test_env = \<lparr>te_runtime = example_runtime\<lparr>serde := test_serde\<rparr>, te_uuids = example_uuid_api,
     te_fresh = of_nat, te_groups = key_order, te_counts = key_order, te_environment = Map.empty, te_prefix = []\<rparr>"

definition refusing_fs :: fs where
  "refusing_fs = \<lparr>files = Map.empty, faults = (\<lambda>_. Some ''Permission denied (os error 13)'')\<rparr>"

theorem operator_tests_pass_witness:
  "list_all (\<lambda>test. passes test refusing_fs) (operator_tests example_test_env @ shuffle_module_tests example_test_env)"
proof (rule operator_tests_pass)
  show "short (serde (te_runtime example_test_env)) all_test_records"
    by (simp add: short_def list_all_iff example_test_env_def test_serde_def text_of_def quote2_def)
  show "iterates (te_groups example_test_env)" by (simp add: example_test_env_def iterates_key_order)
qed

text \<open>
  The unit tests of the other modules pass on a working file system without the engine's
  environment variables, if the JSON library reads the graph of the test, prints and reads back the
  two strings with their quotes, and prints a status with the name of its variant.
\<close>

theorem component_tests_pass:
  assumes "healthy s" "files s (spill_test_path E) = None" "te_environment E = Map.empty"
    and "from_str (serde (te_runtime E)) dag_test_text = Inr dag_test_value"
    and "reads_back (serde (te_runtime E)) small_value" "reads_back (serde (te_runtime E)) large_value"
    and "text_of (serde (te_runtime E)) small_value = quote2 ''small''"
    and "text_of (serde (te_runtime E)) large_value = quote2 ''this string should spill''"
    and "to_vec (serde (te_runtime E)) (task_status_json (te_uuids E) (TS_Retrying 2)) = Inr printed"
    and "contains printed ''Retrying''"
  shows "list_all (\<lambda>test. passes test s) (component_tests E)"
proof -
  have "passes (spills_when_limit_exceeded E) s"
    by (rule spill_test[OF assms(1,2,5,6)]) (simp_all add: assms(7,8) quote2_def)
  then show ?thesis
    using placeholder_test[OF assms(3,1)] status_test[OF assms(9,10)] defaults_test[OF assms(3)] request_test
      dag_test[OF assms(4)]
    by (simp add: component_tests_def)
qed

theorem component_tests_pass_witness:
  "list_all (\<lambda>test. passes test example_fs) (component_tests example_test_env)"
proof (rule component_tests_pass)
  show "to_vec (serde (te_runtime example_test_env)) (task_status_json (te_uuids example_test_env) (TS_Retrying 2)) =
    Inr (''{'' @ quote2 ''Retrying'' @ '':2}'')"
    by (simp add: example_test_env_def test_serde_def variant_json_def small_value_def large_value_def)
  show "contains (''{'' @ quote2 ''Retrying'' @ '':2}'') ''Retrying''" by code_simp
  have texts: "quote2 ''small'' \<noteq> dag_test_text" "quote2 ''this string should spill'' \<noteq> dag_test_text"
    by code_simp+
  then show "reads_back (serde (te_runtime example_test_env)) small_value"
    "reads_back (serde (te_runtime example_test_env)) large_value"
    by (simp_all add: reads_back_def example_test_env_def test_serde_def)
      (simp_all add: small_value_def large_value_def quote2_def newline_def carriage_return_def trim_def
        trim_end_matches_def is_whitespace_def)
qed (simp_all add: example_test_env_def test_serde_def text_of_def small_value_def large_value_def example_fs_def healthy_def)

end
