(* ===== verification/Spec2Isabelle.thy ===== *)
theory Spec2Isabelle
  imports Job_Reduction Test_Support Unit_Tests
begin

text \<open>
  A verification of the distributed batch engine under \<open>src/src\<close>: a master that plans a job
  given as a graph of operators, hands its tasks out to workers over HTTP and keeps their state
  in a database; workers that run the tasks on partitions in memory or on disk; and a command
  line client.

  \<^bold>\<open>How the parts interact.\<close> A client posts a graph to the master (\<open>http/handlers.rs\<close>). The master
  (\<open>master/mod.rs\<close>) validates it, cuts it into tasks, one per partition (\<open>common/dag.rs\<close>), stores job
  and tasks (\<open>common/state_store.rs\<close>), picks a worker for each task (\<open>master/scheduler.rs\<close> over
  \<open>master/registry.rs\<close>) and posts the task to it. The worker (\<open>worker/mod.rs\<close>) runs the operators
  of the task one after the other (\<open>worker/executor.rs\<close>, \<open>worker/ops\<close>) on partitions that spill to
  disk when they grow (\<open>worker/partition.rs\<close>), writes a result file and posts the result back.
  Heartbeats (\<open>worker/monitor.rs\<close>) keep a worker available and start scheduling passes.

  \<^bold>\<open>The theories.\<close> In the order of their imports:
  \<^item> \<open>Prelude\<close>: results with errors and panics, state passing, strings, decimal numbers, hash
    map iteration orders, and the locale \<open>transition_system\<close> for inductive invariants.
  \<^item> \<open>Ieee\<close>: binary floating point as exact numbers with rounding to nearest even, which \<open>f64\<close>
    values of JSON and the \<open>f32\<close> progress of a job need. \<open>Json\<close>: values of \<open>serde_json\<close>, whose
    parser and printer are parameters. \<open>Engine_Error\<close>: error values and their texts.
  \<^item> \<open>File_System\<close>: a map of files with injected faults. \<open>Types\<close> (\<open>common/types.rs\<close>): records and
    enumerations; UUID functions are parameters. \<open>Config\<close> (\<open>common/config.rs\<close>): the environment.
  \<^item> \<open>Dag\<close> (\<open>common/dag.rs\<close>): validation, topological order, injected shuffles, tasks. The order
    terminates, is a permutation and topological; reductions come after shuffles.
  \<^item> \<open>Partition\<close> (\<open>worker/partition.rs\<close>): filling and emptying a partition returns its records,
    spilled or not. \<open>partition_holds\<close> says which records a partition stands for.
  \<^item> \<open>Ops_Base\<close> and \<open>Op_Filter\<close>, \<open>Op_Map\<close>, \<open>Op_Flat_Map\<close>, \<open>Op_Reduce\<close>, \<open>Op_Join\<close>, \<open>Op_Shuffle\<close>, \<open>Op_Read\<close>
    (\<open>worker/ops\<close>): each operator on partitions against its meaning on lists of records. \<open>Ops\<close>
    joins them: every operator refines its meaning.
  \<^item> \<open>Executor\<close> (\<open>worker/executor.rs\<close>): the pipeline of a task, its result file, retries.
  \<^item> \<open>In_Memory\<close>: work that fits in memory touches no file, whatever the file system does, and the trace
    of a pipeline shows every use of the disk.
  \<^item> \<open>Registry\<close>, \<open>Scheduler\<close> (\<open>master/registry.rs\<close>, \<open>master/scheduler.rs\<close>): which workers are available
    after any sequence of registrations, heartbeats and watchdog passes; round robin over the least
    loaded.
  \<^item> \<open>State_Store\<close> (\<open>common/state_store.rs\<close>): the tables of the database as a refinement of two
    maps, through the locale \<open>durable_store\<close>.
  \<^item> \<open>Master\<close> (\<open>master/mod.rs\<close>): every operation of the master. \<open>Master_Recovery\<close>: memory and store
    mirror each other, and a restart restores the jobs. \<open>Master_System\<close>: master, passes under
    way and requests as a step relation. Its invariant ties the results, counters, error and
    status of every job to a log of the assignments made and the results taken since the master
    started (\<open>booked\<close>), and the stored results to those in memory (\<open>kept\<close>); then what
    interleaving can do.
  \<^item> \<open>Http\<close> (\<open>http/request.rs\<close>, \<open>router.rs\<close>, \<open>handlers.rs\<close>): request parser, routes, handlers, errors.
  \<^item> \<open>Worker\<close> (\<open>worker/mod.rs\<close>, \<open>monitor.rs\<close>): port, registration, heartbeats, the task endpoint, and
    requests that share an executor as a step relation.
  \<^item> \<open>Wire\<close>: the JSON forms that the derived serialisers of \<open>common/types.rs\<close> and \<open>common/dag.rs\<close> give the
    messages, and that what is sent is read back.
  \<^item> \<open>Client\<close> (\<open>client\<close>): requests, watching a job, downloads, the order of the graph. \<open>Client_Display\<close>
    (\<open>client/commands\<close>, \<open>client/types\<close>, \<open>client/main.rs\<close>): the answers as the client reads them and what
    every command prints.
  \<^item> \<open>Job_Life\<close>: master and workers together, from the submission of a job to its success. \<open>Job_Output\<close>:
    the result files of such a job hold what a sequential run over the whole input gives.
    \<open>Job_Reduction\<close>: where this ends: reductions by key see one share only, and tasks with several
    output partitions overwrite each other.
  \<^item> \<open>Api\<close>: the master as a server of texts, from routes and handlers to the bytes of an answer, with
    the client, the workers and the test helpers connected to it.
  \<^item> \<open>Startup\<close> (\<open>main.rs\<close>, \<open>http/server.rs\<close>, \<open>Worker::start\<close>, \<open>Master::start\<close>): how a node comes up, with its
    logs, in which order, and how it fails.
  \<^item> \<open>Test_Support\<close> (\<open>tests_support/mod.rs\<close>, \<open>bin\<close>, \<open>src/tests/e2e_local.rs\<close>): starting a cluster, waiting,
    polling with a clock, the benchmarks, the fault tests and the end-to-end test.
  \<^item> \<open>Unit_Tests\<close>: the unit tests of the operators (\<open>worker/ops/tests.rs\<close>) and of the other modules as
    programs of the model, and that they pass.

  \<^bold>\<open>State and effects.\<close> A structure of the code is a record with one field per field of the code;
  an operation takes the state and returns it changed. An operation that can fail returns
  \<open>Ok\<close>, \<open>Err\<close> or \<open>Panic\<close>. What the code sends is recorded: the master in an outbox, a worker as
  the list of its reports, the client as the list of its requests. Where interleaving is modelled
  (\<open>Master_System\<close>, \<open>Job_Life\<close>, \<open>Worker\<close>) a step is one handler, or the handing out of one task. This is
  coarser than the code in two places: \<open>schedule_task\<close> releases the lock on the jobs between
  assigning, storing, marking the job as running and sending (\<open>Master.marked_running_late\<close> shows
  what can come in between), and the writes of \<open>admit_job\<close>, \<open>schedule_task\<close> and \<open>complete_task\<close> are
  transactions of their own, so that a crash in the middle of a handler is not covered. \<open>usize\<close> figures
  of the master are natural numbers; ports, retry counters and the counters of a worker are
  machine words, and the code is taken as a release build, where they wrap, except where
  \<open>overflow_checks\<close> is a parameter.

  \<^bold>\<open>Parameters.\<close> Code outside the repository is an argument: UUIDs (\<open>uuid_api\<close>), JSON text
  (\<open>serde_api\<close>) and the encodings in the database (\<open>codec\<close>), the hash function of a shuffle, the
  iteration orders of hash maps and rows (\<open>iterates\<close>: every entry once), clocks, free ports, sockets
  (\<open>machine\<close>), the web framework (\<open>web_api\<close>: which paths match, what a bad body is answered with), and
  the network of a client, which \<open>Api\<close> instantiates by the modelled master. Theorems state what they need of them (for example \<open>codec_ok\<close>,
  \<open>reads_back\<close>), and every theorem with hypotheses has a witness on concrete functions.

  \<^bold>\<open>Loops.\<close> The topological order has fuel one more than nodes and edges together
  (\<open>kahn_fuel\<close>; for the client, twice the edges: \<open>client_fuel\<close>), and this is shown to be enough for
  every graph. The retry loop of a task, the watch loop of the client and the monitor loop of the fault
  tests may not end: they are partial functions into \<open>option\<close>, with theorems on when the first two
  end. The waiting and polling loops of the test helpers end because every turn pauses; they are total
  functions, measured by the time that is left. All other loops are recursions on data.

  \<^bold>\<open>Interfaces.\<close> Each contract is a locale, interpreted on the definitions that model the code:
  \<open>appendable\<close> and \<open>record_buffer\<close> for what a partition promises the operators; \<open>executable_op\<close>, and
  \<open>partitionwise_op\<close> below it, for what an operator promises the executor, with one interpretation
  per operator and one for their union; \<open>quiet_op\<close> and \<open>memory_op\<close> for an operator whose partitions stay
  in memory, met by all of them; \<open>scheduler_strategy\<close> for the choice of a worker;
  \<open>durable_store\<close> between master and database; \<open>wire\<close> between the printer and the reader of a message,
  interpreted for every message type; \<open>transition_system\<close> for the system of master and
  requests (\<open>engine\<close>) and for the permits of an executor (\<open>permits\<close>).

  \<^bold>\<open>Not modelled.\<close> The text of JSON and of percent escapes; sockets, beyond whether they can be bound;
  the timers of heartbeats and watchdog, which are steps that may happen at any time with a modelled
  period; the pragmas of the database; the texts that are logged, of which only the places they go to are
  modelled; the parsing of command lines; the layout of tables and the redrawing of progress bars. These
  are input and output or third-party code without logic of this program. Directories are not
  represented: creating one has no effect, and that nothing is written means no file. A request that is
  cancelled while it waits for a permit is not a step. Status words are put in upper case by their ASCII
  letters, which are all the words the master sends, and an \<open>f32\<close> in JSON is the number it stands for, as
  reading its shortest decimal form gives it back. \<open>JobStateView\<close> of
  \<open>common/types.rs\<close>, which no code uses, is left out.
\<close>

end
